(* ===== verification/Prelude.thy ===== *)
theory Prelude
  imports Main "HOL-Library.Word" "HOL-Library.Monad_Syntax"
begin

text \<open>
  Shared vocabulary of the NtyCo development.

  Memory.  A C object of type \<open>struct _nty_coroutine\<close> is named by an address; a C pointer is an
  address or \<open>NULL\<close>.  Every intrusive field of the object (a tree node, a queue link, the plain
  scalar fields) lives in a partial map of its own, from addresses to that field; an address
  outside the domain of the map is memory that was never allocated or has been freed.

  Faults.  A computation that may dereference \<open>NULL\<close> or freed memory, or fail an \<open>assert\<close>,
  returns an \<open>option\<close>; \<open>None\<close> is the crash.  Loops whose end depends on the heap are
  \<open>partial_function (option)\<close>, where \<open>None\<close> is also the run that never returns; the properties
  prove \<open>Some\<close>, so they exclude both.

  The theory also has the weakest-precondition operator \<open>ok\<close> of that fault monad, with the rules
  by which the heap proofs of the other theories run code symbolically.
\<close>

type_synonym addr = nat
type_synonym ptr = "addr option"

type_synonym u8 = "8 word"
type_synonym u16 = "16 word"
type_synonym u32 = "32 word"
type_synonym u64 = "64 word"

abbreviation NULL :: ptr where "NULL \<equiv> None"

text \<open>Dereferencing a pointer into one field map.\<close>

definition deref :: "(addr \<Rightarrow> 'a option) \<Rightarrow> ptr \<Rightarrow> 'a option" where
  "deref m p = Option.bind p m"

text \<open>Writing through a pointer: the object must be allocated.\<close>

definition store :: "(addr \<Rightarrow> 'a option) \<Rightarrow> ptr \<Rightarrow> ('a \<Rightarrow> 'a) \<Rightarrow> (addr \<Rightarrow> 'a option) option" where
  "store m p f = (case p of None \<Rightarrow> None | Some a \<Rightarrow>
     (case m a of None \<Rightarrow> None | Some x \<Rightarrow> Some (m(a := Some (f x)))))"

text \<open>\<open>assert(b)\<close>.\<close>

definition c_assert :: "bool \<Rightarrow> unit option" where
  "c_assert b = (if b then Some () else None)"

text \<open>Weakest precondition of the fault monad: the computation returns, and its result satisfies
  the postcondition.\<close>

definition ok :: "'a option \<Rightarrow> ('a \<Rightarrow> bool) \<Rightarrow> bool" where
  "ok m Q = (case m of None \<Rightarrow> False | Some x \<Rightarrow> Q x)"

named_theorems heap_simps \<open>evaluation of field reads and writes\<close>
named_theorems rep_intros \<open>introduction rules for representation predicates\<close>

lemma deref_Some [simp]: "deref m (Some a) = m a"
  by (simp add: deref_def)

lemma deref_None [simp]: "deref m None = None"
  by (simp add: deref_def)

lemma store_None [simp]: "store m None f = None"
  by (simp add: store_def)

lemma store_Some [simp]: "m a = Some x \<Longrightarrow> store m (Some a) f = Some (m(a := Some (f x)))"
  by (simp add: store_def)

lemma store_eq_Some:
  "store m p f = Some m' \<longleftrightarrow> (\<exists>a x. p = Some a \<and> m a = Some x \<and> m' = m(a := Some (f x)))"
  by (auto simp: store_def split: option.splits)

lemma c_assert_True [simp]: "c_assert True = Some ()"
  by (simp add: c_assert_def)

lemma c_assert_False [simp]: "c_assert False = None"
  by (simp add: c_assert_def)

lemma c_assert_eq_Some [simp]: "c_assert b = Some u \<longleftrightarrow> b"
  by (simp add: c_assert_def)

lemma ok_Some [simp]: "ok (Some x) Q = Q x"
  by (simp add: ok_def)

lemma ok_None [simp]: "\<not> ok None Q"
  by (simp add: ok_def)

lemma ok_bind: "ok (Option.bind m f) Q = ok m (\<lambda>x. ok (f x) Q)"
  by (cases m) auto

lemma ok_iff: "ok m Q \<longleftrightarrow> (\<exists>x. m = Some x \<and> Q x)"
  by (cases m) auto

lemma okE: "ok m Q \<Longrightarrow> (\<And>x. m = Some x \<Longrightarrow> Q x \<Longrightarrow> R) \<Longrightarrow> R"
  by (auto simp: ok_iff)

lemma ok_mono: "ok m Q \<Longrightarrow> (\<And>x. Q x \<Longrightarrow> R x) \<Longrightarrow> ok m R"
  by (auto simp: ok_iff)

lemma ok_bindI: "ok m Q \<Longrightarrow> (\<And>x. Q x \<Longrightarrow> ok (f x) R) \<Longrightarrow> ok (Option.bind m f) R"
  by (auto simp: ok_bind ok_iff)

text \<open>Taking apart a run that returned.\<close>

lemma bind_SomeE: "Option.bind m f = Some y \<Longrightarrow> (\<And>x. m = Some x \<Longrightarrow> f x = Some y \<Longrightarrow> P) \<Longrightarrow> P"
  by (auto simp: bind_eq_Some_conv)

lemma if_SomeE: "(if b then m else m') = Some y \<Longrightarrow> (b \<Longrightarrow> m = Some y \<Longrightarrow> P) \<Longrightarrow> (\<not> b \<Longrightarrow> m' = Some y \<Longrightarrow> P) \<Longrightarrow> P"
  by (auto split: if_splits)

lemma pair_SomeE: "(case p of (a, b) \<Rightarrow> f a b) = Some y \<Longrightarrow> (\<And>a b. p = (a, b) \<Longrightarrow> f a b = Some y \<Longrightarrow> P) \<Longrightarrow> P"
  by (cases p) auto

text \<open>Lists without repetition, split at an element.\<close>

lemma distinct_split_unique:
  "distinct (xs @ a # ys) \<Longrightarrow> xs @ a # ys = xs' @ a # ys' \<Longrightarrow> xs = xs' \<and> ys = ys'"
  by (metis append_Cons_eq_iff distinct.simps(2) distinct_append not_distinct_conv_prefix)

end
