(* ===== verification/Splay_Heap.thy ===== *)
theory Splay_Heap
  imports Prelude
begin

text \<open>
  The splay tree macros of \<open>src/core/nty_tree.h\<close> (lines 49 to 271), on a heap.

  As for the red-black trees, every macro reads and writes the heap in the order of the source, a
  \<open>NULL\<close> or unallocated node it would dereference makes it return \<open>None\<close>, and \<open>cmp a\<close> is the
  comparison of the searched element with the node \<open>a\<close>.  The local variable \<open>__node\<close> of
  \<open>SPLAY\<close> and \<open>SPLAY_MINMAX\<close> is a tree entry outside the heap; \<open>__left\<close> and \<open>__right\<close> point to it or
  to a node of the tree (\<open>spl_ref\<close>).
\<close>

record spl_entry =
  spe_left :: ptr
  spe_right :: ptr

record spl_tree =
  sph_root :: ptr
  spl_node :: "addr \<Rightarrow> spl_entry option"

datatype spl_ref = Local | Elm ptr

definition SPLAY_INIT :: "spl_tree \<Rightarrow> spl_tree" where
  "SPLAY_INIT h = h\<lparr>sph_root := NULL\<rparr>"

definition SPLAY_LEFT :: "spl_tree \<Rightarrow> ptr \<Rightarrow> ptr option" where
  "SPLAY_LEFT h p = map_option spe_left (deref (spl_node h) p)"

definition SPLAY_RIGHT :: "spl_tree \<Rightarrow> ptr \<Rightarrow> ptr option" where
  "SPLAY_RIGHT h p = map_option spe_right (deref (spl_node h) p)"

definition SPLAY_ROOT :: "spl_tree \<Rightarrow> ptr" where
  "SPLAY_ROOT h = sph_root h"

definition SPLAY_EMPTY :: "spl_tree \<Rightarrow> bool" where
  "SPLAY_EMPTY h = (SPLAY_ROOT h = NULL)"

text \<open>The same accessors as assignment targets.\<close>

definition set_SPLAY_LEFT :: "spl_tree \<Rightarrow> ptr \<Rightarrow> ptr \<Rightarrow> spl_tree option" where
  "set_SPLAY_LEFT h p v = map_option (\<lambda>m. h\<lparr>spl_node := m\<rparr>) (store (spl_node h) p (\<lambda>e. e\<lparr>spe_left := v\<rparr>))"

definition set_SPLAY_RIGHT :: "spl_tree \<Rightarrow> ptr \<Rightarrow> ptr \<Rightarrow> spl_tree option" where
  "set_SPLAY_RIGHT h p v = map_option (\<lambda>m. h\<lparr>spl_node := m\<rparr>) (store (spl_node h) p (\<lambda>e. e\<lparr>spe_right := v\<rparr>))"

definition ref_LEFT :: "spl_tree \<Rightarrow> spl_entry \<Rightarrow> spl_ref \<Rightarrow> ptr \<Rightarrow> (spl_tree \<times> spl_entry) option" where
  "ref_LEFT h n ref v = (case ref of Local \<Rightarrow> Some (h, n\<lparr>spe_left := v\<rparr>)
     | Elm p \<Rightarrow> do { h \<leftarrow> set_SPLAY_LEFT h p v; Some (h, n) })"

definition ref_RIGHT :: "spl_tree \<Rightarrow> spl_entry \<Rightarrow> spl_ref \<Rightarrow> ptr \<Rightarrow> (spl_tree \<times> spl_entry) option" where
  "ref_RIGHT h n ref v = (case ref of Local \<Rightarrow> Some (h, n\<lparr>spe_right := v\<rparr>)
     | Elm p \<Rightarrow> do { h \<leftarrow> set_SPLAY_RIGHT h p v; Some (h, n) })"

definition SPLAY_ROTATE_RIGHT :: "spl_tree \<Rightarrow> ptr \<Rightarrow> spl_tree option" where
  "SPLAY_ROTATE_RIGHT h tmp = do {
     r \<leftarrow> SPLAY_RIGHT h tmp;
     h \<leftarrow> set_SPLAY_LEFT h (sph_root h) r;
     h \<leftarrow> set_SPLAY_RIGHT h tmp (sph_root h);
     Some (h\<lparr>sph_root := tmp\<rparr>)
   }"

definition SPLAY_ROTATE_LEFT :: "spl_tree \<Rightarrow> ptr \<Rightarrow> spl_tree option" where
  "SPLAY_ROTATE_LEFT h tmp = do {
     l \<leftarrow> SPLAY_LEFT h tmp;
     h \<leftarrow> set_SPLAY_RIGHT h (sph_root h) l;
     h \<leftarrow> set_SPLAY_LEFT h tmp (sph_root h);
     Some (h\<lparr>sph_root := tmp\<rparr>)
   }"

definition SPLAY_LINKLEFT :: "spl_tree \<Rightarrow> spl_entry \<Rightarrow> spl_ref \<Rightarrow> (spl_tree \<times> spl_entry \<times> spl_ref) option" where
  "SPLAY_LINKLEFT h n tmp = do {
     (h, n) \<leftarrow> ref_LEFT h n tmp (sph_root h);
     let tmp = Elm (sph_root h);
     l \<leftarrow> SPLAY_LEFT h (sph_root h);
     Some (h\<lparr>sph_root := l\<rparr>, n, tmp)
   }"

definition SPLAY_LINKRIGHT :: "spl_tree \<Rightarrow> spl_entry \<Rightarrow> spl_ref \<Rightarrow> (spl_tree \<times> spl_entry \<times> spl_ref) option" where
  "SPLAY_LINKRIGHT h n tmp = do {
     (h, n) \<leftarrow> ref_RIGHT h n tmp (sph_root h);
     let tmp = Elm (sph_root h);
     r \<leftarrow> SPLAY_RIGHT h (sph_root h);
     Some (h\<lparr>sph_root := r\<rparr>, n, tmp)
   }"

definition SPLAY_ASSEMBLE :: "spl_tree \<Rightarrow> spl_entry \<Rightarrow> spl_ref \<Rightarrow> spl_ref \<Rightarrow> spl_tree option" where
  "SPLAY_ASSEMBLE h n lf rg = do {
     l \<leftarrow> SPLAY_LEFT h (sph_root h);
     (h, n) \<leftarrow> ref_RIGHT h n lf l;
     r \<leftarrow> SPLAY_RIGHT h (sph_root h);
     (h, n) \<leftarrow> ref_LEFT h n rg r;
     h \<leftarrow> set_SPLAY_LEFT h (sph_root h) (spe_right n);
     set_SPLAY_RIGHT h (sph_root h) (spe_left n)
   }"

text \<open>One turn of the loop in \<open>SPLAY\<close> and \<open>SPLAY_MINMAX\<close>: \<open>cp\<close> is \<open>__comp\<close>, \<open>cmp\<close> the comparison with
  \<open>__tmp\<close>; the flag of the result says that the loop was left by \<open>break\<close>.\<close>

type_synonym spl_state = "spl_tree \<times> spl_entry \<times> spl_ref \<times> spl_ref"

definition SPLAY_body :: "(addr \<Rightarrow> int option) \<Rightarrow> int \<Rightarrow> spl_state \<Rightarrow> (spl_state \<times> bool) option" where
  "SPLAY_body cmp cp = (\<lambda>(h, n, lf, rg).
     if cp < 0 then do {
       tmp \<leftarrow> SPLAY_LEFT h (sph_root h);
       if tmp = NULL then Some ((h, n, lf, rg), True)
       else do {
         c \<leftarrow> deref cmp tmp;
         h \<leftarrow> (if c < 0 then SPLAY_ROTATE_RIGHT h tmp else Some h);
         l \<leftarrow> SPLAY_LEFT h (sph_root h);
         if c < 0 \<and> l = NULL then Some ((h, n, lf, rg), True)
         else do {
           (h, n, rg) \<leftarrow> SPLAY_LINKLEFT h n rg;
           Some ((h, n, lf, rg), False)
         }
       }
     } else if cp > 0 then do {
       tmp \<leftarrow> SPLAY_RIGHT h (sph_root h);
       if tmp = NULL then Some ((h, n, lf, rg), True)
       else do {
         c \<leftarrow> deref cmp tmp;
         h \<leftarrow> (if c > 0 then SPLAY_ROTATE_LEFT h tmp else Some h);
         r \<leftarrow> SPLAY_RIGHT h (sph_root h);
         if c > 0 \<and> r = NULL then Some ((h, n, lf, rg), True)
         else do {
           (h, n, lf) \<leftarrow> SPLAY_LINKRIGHT h n lf;
           Some ((h, n, lf, rg), False)
         }
       }
     } else Some ((h, n, lf, rg), False))"

text \<open>The loop: \<open>test\<close> evaluates its condition on the root and gives \<open>__comp\<close>.\<close>

partial_function (option) SPLAY_loop ::
    "(ptr \<Rightarrow> (bool \<times> int) option) \<Rightarrow> (addr \<Rightarrow> int option) \<Rightarrow> spl_state \<Rightarrow> spl_state option" where
  "SPLAY_loop test cmp st = do {
     (go, cp) \<leftarrow> test (sph_root (fst st));
     if go then do {
       (st, brk) \<leftarrow> SPLAY_body cmp cp st;
       if brk then Some st else SPLAY_loop test cmp st
     } else Some st
   }"

definition SPLAY :: "(addr \<Rightarrow> int option) \<Rightarrow> spl_tree \<Rightarrow> spl_tree option" where
  "SPLAY cmp h = do {
     let n = \<lparr>spe_left = NULL, spe_right = NULL\<rparr>;
     (h, n, lf, rg) \<leftarrow> SPLAY_loop (\<lambda>p. do { c \<leftarrow> deref cmp p; Some (c \<noteq> 0, c) }) cmp (h, n, Local, Local);
     SPLAY_ASSEMBLE h n lf rg
   }"

definition SPLAY_MINMAX :: "spl_tree \<Rightarrow> int \<Rightarrow> spl_tree option" where
  "SPLAY_MINMAX h cp = do {
     let n = \<lparr>spe_left = NULL, spe_right = NULL\<rparr>;
     (h, n, lf, rg) \<leftarrow> SPLAY_loop (\<lambda>p. Some (True, cp)) (\<lambda>a. Some cp) (h, n, Local, Local);
     SPLAY_ASSEMBLE h n lf rg
   }"

definition SPLAY_INSERT :: "(addr \<Rightarrow> int option) \<Rightarrow> spl_tree \<Rightarrow> ptr \<Rightarrow> (spl_tree \<times> ptr) option" where
  "SPLAY_INSERT cmp h elm =
     (if SPLAY_EMPTY h then do {
        h \<leftarrow> set_SPLAY_RIGHT h elm NULL;
        h \<leftarrow> set_SPLAY_LEFT h elm NULL;
        Some (h\<lparr>sph_root := elm\<rparr>, NULL)
      } else do {
        h \<leftarrow> SPLAY cmp h;
        cp \<leftarrow> deref cmp (sph_root h);
        if cp < 0 then do {
          l \<leftarrow> SPLAY_LEFT h (sph_root h);
          h \<leftarrow> set_SPLAY_LEFT h elm l;
          h \<leftarrow> set_SPLAY_RIGHT h elm (sph_root h);
          h \<leftarrow> set_SPLAY_LEFT h (sph_root h) NULL;
          Some (h\<lparr>sph_root := elm\<rparr>, NULL)
        } else if cp > 0 then do {
          r \<leftarrow> SPLAY_RIGHT h (sph_root h);
          h \<leftarrow> set_SPLAY_RIGHT h elm r;
          h \<leftarrow> set_SPLAY_LEFT h elm (sph_root h);
          h \<leftarrow> set_SPLAY_RIGHT h (sph_root h) NULL;
          Some (h\<lparr>sph_root := elm\<rparr>, NULL)
        } else Some (h, sph_root h)
      })"

definition SPLAY_REMOVE :: "(addr \<Rightarrow> int option) \<Rightarrow> spl_tree \<Rightarrow> ptr \<Rightarrow> (spl_tree \<times> ptr) option" where
  "SPLAY_REMOVE cmp h elm =
     (if SPLAY_EMPTY h then Some (h, NULL)
      else do {
        h \<leftarrow> SPLAY cmp h;
        cp \<leftarrow> deref cmp (sph_root h);
        if cp = 0 then do {
          l \<leftarrow> SPLAY_LEFT h (sph_root h);
          if l = NULL then do {
            r \<leftarrow> SPLAY_RIGHT h (sph_root h);
            Some (h\<lparr>sph_root := r\<rparr>, elm)
          } else do {
            tmp \<leftarrow> SPLAY_RIGHT h (sph_root h);
            h \<leftarrow> SPLAY cmp (h\<lparr>sph_root := l\<rparr>);
            h \<leftarrow> set_SPLAY_RIGHT h (sph_root h) tmp;
            Some (h, elm)
          }
        } else Some (h, NULL)
      })"

definition SPLAY_FIND :: "(addr \<Rightarrow> int option) \<Rightarrow> spl_tree \<Rightarrow> (spl_tree \<times> ptr) option" where
  "SPLAY_FIND cmp h =
     (if SPLAY_EMPTY h then Some (h, NULL)
      else do {
        h \<leftarrow> SPLAY cmp h;
        cp \<leftarrow> deref cmp (sph_root h);
        Some (h, if cp = 0 then sph_root h else NULL)
      })"

partial_function (option) SPLAY_leftmost :: "spl_tree \<Rightarrow> ptr \<Rightarrow> ptr option" where
  "SPLAY_leftmost h elm = do {
     l \<leftarrow> SPLAY_LEFT h elm;
     if l \<noteq> NULL then SPLAY_leftmost h l else Some elm
   }"

definition SPLAY_NEXT :: "(addr \<Rightarrow> int option) \<Rightarrow> spl_tree \<Rightarrow> ptr \<Rightarrow> (spl_tree \<times> ptr) option" where
  "SPLAY_NEXT cmp h elm = do {
     h \<leftarrow> SPLAY cmp h;
     r \<leftarrow> SPLAY_RIGHT h elm;
     if r \<noteq> NULL then do { x \<leftarrow> SPLAY_leftmost h r; Some (h, x) } else Some (h, NULL)
   }"

definition SPLAY_MIN_MAX :: "spl_tree \<Rightarrow> int \<Rightarrow> (spl_tree \<times> ptr) option" where
  "SPLAY_MIN_MAX h val = do { h \<leftarrow> SPLAY_MINMAX h val; Some (h, SPLAY_ROOT h) }"

definition SPLAY_MIN :: "spl_tree \<Rightarrow> (spl_tree \<times> ptr) option" where
  "SPLAY_MIN h = (if SPLAY_EMPTY h then Some (h, NULL) else SPLAY_MIN_MAX h (-1))"

definition SPLAY_MAX :: "spl_tree \<Rightarrow> (spl_tree \<times> ptr) option" where
  "SPLAY_MAX h = (if SPLAY_EMPTY h then Some (h, NULL) else SPLAY_MIN_MAX h 1)"

text \<open>\<open>SPLAY_FOREACH\<close>: the elements visited; \<open>cmp x\<close> compares the element \<open>x\<close> with a node.\<close>

partial_function (option) SPLAY_FOREACH_from ::
    "(addr \<Rightarrow> addr \<Rightarrow> int option) \<Rightarrow> spl_tree \<Rightarrow> ptr \<Rightarrow> (spl_tree \<times> addr list) option" where
  "SPLAY_FOREACH_from cmp h x = (case x of None \<Rightarrow> Some (h, [])
     | Some a \<Rightarrow> do {
         (h, y) \<leftarrow> SPLAY_NEXT (cmp a) h x;
         (h, ys) \<leftarrow> SPLAY_FOREACH_from cmp h y;
         Some (h, a # ys)
       })"

definition SPLAY_FOREACH :: "(addr \<Rightarrow> addr \<Rightarrow> int option) \<Rightarrow> spl_tree \<Rightarrow> (spl_tree \<times> addr list) option" where
  "SPLAY_FOREACH cmp h = do { (h, x) \<leftarrow> SPLAY_MIN h; SPLAY_FOREACH_from cmp h x }"

end
