(* ===== verification/RB_Heap.thy ===== *)
theory RB_Heap
  imports Prelude
begin

text \<open>
  The red-black tree macros of \<open>src/core/nty_tree.h\<close> (lines 276 to 745), on a heap.

  The model is the pointer structure the macros expand to: a node entry holds its two children, its
  parent and its colour, the tree head holds the root.  Every macro is one definition that reads
  and writes the heap in the order the macro does; a \<open>NULL\<close> or unallocated node that the macro
  would dereference makes the definition return \<open>None\<close>.  \<open>RB_AUGMENT\<close> is the empty statement in
  this program and does not appear.

  The comparison of the searched element with a tree node is the parameter \<open>cmp\<close>, as in
  \<open>RB_GENERATE\<close>: \<open>cmp a\<close> is \<open>(cmp)(elm, a)\<close>, and \<open>None\<close> where that call would crash.
\<close>

datatype rb_color = RB_BLACK | RB_RED

record rb_entry =
  rbe_left :: ptr
  rbe_right :: ptr
  rbe_parent :: ptr
  rbe_color :: rb_color

record rb_tree =
  rbh_root :: ptr
  rb_node :: "addr \<Rightarrow> rb_entry option"

definition RB_INIT :: "rb_tree \<Rightarrow> rb_tree" where
  "RB_INIT h = h\<lparr>rbh_root := NULL\<rparr>"

definition RB_ROOT :: "rb_tree \<Rightarrow> ptr" where
  "RB_ROOT h = rbh_root h"

definition RB_EMPTY :: "rb_tree \<Rightarrow> bool" where
  "RB_EMPTY h = (RB_ROOT h = NULL)"

definition RB_LEFT :: "rb_tree \<Rightarrow> ptr \<Rightarrow> ptr option" where
  "RB_LEFT h p = map_option rbe_left (deref (rb_node h) p)"

definition RB_RIGHT :: "rb_tree \<Rightarrow> ptr \<Rightarrow> ptr option" where
  "RB_RIGHT h p = map_option rbe_right (deref (rb_node h) p)"

definition RB_PARENT :: "rb_tree \<Rightarrow> ptr \<Rightarrow> ptr option" where
  "RB_PARENT h p = map_option rbe_parent (deref (rb_node h) p)"

definition RB_COLOR :: "rb_tree \<Rightarrow> ptr \<Rightarrow> rb_color option" where
  "RB_COLOR h p = map_option rbe_color (deref (rb_node h) p)"

text \<open>The same accessors as assignment targets.\<close>

definition upd_node :: "rb_tree \<Rightarrow> ptr \<Rightarrow> (rb_entry \<Rightarrow> rb_entry) \<Rightarrow> rb_tree option" where
  "upd_node h p f = map_option (\<lambda>m. h\<lparr>rb_node := m\<rparr>) (store (rb_node h) p f)"

definition set_LEFT :: "rb_tree \<Rightarrow> ptr \<Rightarrow> ptr \<Rightarrow> rb_tree option" where
  "set_LEFT h p v = upd_node h p (\<lambda>e. e\<lparr>rbe_left := v\<rparr>)"

definition set_RIGHT :: "rb_tree \<Rightarrow> ptr \<Rightarrow> ptr \<Rightarrow> rb_tree option" where
  "set_RIGHT h p v = upd_node h p (\<lambda>e. e\<lparr>rbe_right := v\<rparr>)"

definition set_PARENT :: "rb_tree \<Rightarrow> ptr \<Rightarrow> ptr \<Rightarrow> rb_tree option" where
  "set_PARENT h p v = upd_node h p (\<lambda>e. e\<lparr>rbe_parent := v\<rparr>)"

definition set_COLOR :: "rb_tree \<Rightarrow> ptr \<Rightarrow> rb_color \<Rightarrow> rb_tree option" where
  "set_COLOR h p c = upd_node h p (\<lambda>e. e\<lparr>rbe_color := c\<rparr>)"

definition RB_SET :: "rb_tree \<Rightarrow> ptr \<Rightarrow> ptr \<Rightarrow> rb_tree option" where
  "RB_SET h elm parent = do {
     h \<leftarrow> set_PARENT h elm parent;
     h \<leftarrow> set_RIGHT h elm NULL;
     h \<leftarrow> set_LEFT h elm NULL;
     set_COLOR h elm RB_RED
   }"

definition RB_SET_BLACKRED :: "rb_tree \<Rightarrow> ptr \<Rightarrow> ptr \<Rightarrow> rb_tree option" where
  "RB_SET_BLACKRED h black red = do {
     h \<leftarrow> set_COLOR h black RB_BLACK;
     set_COLOR h red RB_RED
   }"

text \<open>The two rotations; the second component of the result is the macro's \<open>tmp\<close>.\<close>

definition RB_ROTATE_LEFT :: "rb_tree \<Rightarrow> ptr \<Rightarrow> (rb_tree \<times> ptr) option" where
  "RB_ROTATE_LEFT h elm = do {
     tmp \<leftarrow> RB_RIGHT h elm;
     tl \<leftarrow> RB_LEFT h tmp;
     h \<leftarrow> set_RIGHT h elm tl;
     h \<leftarrow> (if tl \<noteq> NULL then do { tl \<leftarrow> RB_LEFT h tmp; set_PARENT h tl elm } else Some h);
     ep \<leftarrow> RB_PARENT h elm;
     h \<leftarrow> set_PARENT h tmp ep;
     h \<leftarrow> (if ep \<noteq> NULL then do {
              ep \<leftarrow> RB_PARENT h elm;
              epl \<leftarrow> RB_LEFT h ep;
              if elm = epl then set_LEFT h ep tmp else set_RIGHT h ep tmp }
            else Some (h\<lparr>rbh_root := tmp\<rparr>));
     h \<leftarrow> set_LEFT h tmp elm;
     h \<leftarrow> set_PARENT h elm tmp;
     Some (h, tmp)
   }"

definition RB_ROTATE_RIGHT :: "rb_tree \<Rightarrow> ptr \<Rightarrow> (rb_tree \<times> ptr) option" where
  "RB_ROTATE_RIGHT h elm = do {
     tmp \<leftarrow> RB_LEFT h elm;
     tr \<leftarrow> RB_RIGHT h tmp;
     h \<leftarrow> set_LEFT h elm tr;
     h \<leftarrow> (if tr \<noteq> NULL then do { tr \<leftarrow> RB_RIGHT h tmp; set_PARENT h tr elm } else Some h);
     ep \<leftarrow> RB_PARENT h elm;
     h \<leftarrow> set_PARENT h tmp ep;
     h \<leftarrow> (if ep \<noteq> NULL then do {
              ep \<leftarrow> RB_PARENT h elm;
              epl \<leftarrow> RB_LEFT h ep;
              if elm = epl then set_LEFT h ep tmp else set_RIGHT h ep tmp }
            else Some (h\<lparr>rbh_root := tmp\<rparr>));
     h \<leftarrow> set_RIGHT h tmp elm;
     h \<leftarrow> set_PARENT h elm tmp;
     Some (h, tmp)
   }"

text \<open>\<open>p && RB_COLOR(p) == RB_RED\<close> and \<open>p == NULL || RB_COLOR(p) == RB_BLACK\<close>.\<close>

definition is_red :: "rb_tree \<Rightarrow> ptr \<Rightarrow> bool option" where
  "is_red h p = (if p = NULL then Some False else map_option (\<lambda>c. c = RB_RED) (RB_COLOR h p))"

definition is_black :: "rb_tree \<Rightarrow> ptr \<Rightarrow> bool option" where
  "is_black h p = (if p = NULL then Some True else map_option (\<lambda>c. c = RB_BLACK) (RB_COLOR h p))"

text \<open>The body of the loop of \<open>RB_INSERT_COLOR\<close>: from \<open>elm\<close> and its red \<open>parent\<close> to the heap and the
  \<open>elm\<close> of the next loop test (\<open>continue\<close> and the end of the body alike).\<close>

definition RB_INSERT_COLOR_body :: "rb_tree \<Rightarrow> ptr \<Rightarrow> ptr \<Rightarrow> (rb_tree \<times> ptr) option" where
  "RB_INSERT_COLOR_body h parent elm = do {
     gparent \<leftarrow> RB_PARENT h parent;
     gl \<leftarrow> RB_LEFT h gparent;
     if parent = gl then do {
       tmp \<leftarrow> RB_RIGHT h gparent;
       red \<leftarrow> is_red h tmp;
       if red then do {
         h \<leftarrow> set_COLOR h tmp RB_BLACK;
         h \<leftarrow> RB_SET_BLACKRED h parent gparent;
         Some (h, gparent)
       } else do {
         pr \<leftarrow> RB_RIGHT h parent;
         (h, parent, elm) \<leftarrow>
           (if pr = elm then do { (h, tmp) \<leftarrow> RB_ROTATE_LEFT h parent; Some (h, elm, parent) }
            else Some (h, parent, elm));
         h \<leftarrow> RB_SET_BLACKRED h parent gparent;
         (h, tmp) \<leftarrow> RB_ROTATE_RIGHT h gparent;
         Some (h, elm)
       }
     } else do {
       tmp \<leftarrow> RB_LEFT h gparent;
       red \<leftarrow> is_red h tmp;
       if red then do {
         h \<leftarrow> set_COLOR h tmp RB_BLACK;
         h \<leftarrow> RB_SET_BLACKRED h parent gparent;
         Some (h, gparent)
       } else do {
         pl \<leftarrow> RB_LEFT h parent;
         (h, parent, elm) \<leftarrow>
           (if pl = elm then do { (h, tmp) \<leftarrow> RB_ROTATE_RIGHT h parent; Some (h, elm, parent) }
            else Some (h, parent, elm));
         h \<leftarrow> RB_SET_BLACKRED h parent gparent;
         (h, tmp) \<leftarrow> RB_ROTATE_LEFT h gparent;
         Some (h, elm)
       }
     }
   }"

partial_function (option) RB_INSERT_COLOR :: "rb_tree \<Rightarrow> ptr \<Rightarrow> rb_tree option" where
  "RB_INSERT_COLOR h elm = do {
     parent \<leftarrow> RB_PARENT h elm;
     red \<leftarrow> is_red h parent;
     if red then do {
       (h, elm) \<leftarrow> RB_INSERT_COLOR_body h parent elm;
       RB_INSERT_COLOR h elm
     } else set_COLOR h (rbh_root h) RB_BLACK
   }"

text \<open>The body of the loop of \<open>RB_REMOVE_COLOR\<close>; the last component of the result says whether the
  body left the loop by \<open>break\<close>.  The second half of each branch, after the sibling \<open>tmp\<close> has been
  made black, is a definition of its own.\<close>

definition RB_REMOVE_COLOR_left :: "rb_tree \<Rightarrow> ptr \<Rightarrow> ptr \<Rightarrow> (rb_tree \<times> ptr \<times> ptr \<times> bool) option" where
  "RB_REMOVE_COLOR_left h parent tmp = do {
     tl \<leftarrow> RB_LEFT h tmp;
     tlb \<leftarrow> is_black h tl;
     tr \<leftarrow> RB_RIGHT h tmp;
     trb \<leftarrow> is_black h tr;
     if tlb \<and> trb then do {
       h \<leftarrow> set_COLOR h tmp RB_RED;
       gp \<leftarrow> RB_PARENT h parent;
       Some (h, gp, parent, False)
     } else do {
       (h, tmp) \<leftarrow>
         (if trb then do {
            oleft \<leftarrow> RB_LEFT h tmp;
            h \<leftarrow> (if oleft \<noteq> NULL then set_COLOR h oleft RB_BLACK else Some h);
            h \<leftarrow> set_COLOR h tmp RB_RED;
            (h, _) \<leftarrow> RB_ROTATE_RIGHT h tmp;
            tmp \<leftarrow> RB_RIGHT h parent;
            Some (h, tmp) }
          else Some (h, tmp));
       pc \<leftarrow> RB_COLOR h parent;
       h \<leftarrow> set_COLOR h tmp pc;
       h \<leftarrow> set_COLOR h parent RB_BLACK;
       tr \<leftarrow> RB_RIGHT h tmp;
       h \<leftarrow> (if tr \<noteq> NULL then set_COLOR h tr RB_BLACK else Some h);
       (h, _) \<leftarrow> RB_ROTATE_LEFT h parent;
       Some (h, parent, RB_ROOT h, True)
     }
   }"

definition RB_REMOVE_COLOR_right :: "rb_tree \<Rightarrow> ptr \<Rightarrow> ptr \<Rightarrow> (rb_tree \<times> ptr \<times> ptr \<times> bool) option" where
  "RB_REMOVE_COLOR_right h parent tmp = do {
     tl \<leftarrow> RB_LEFT h tmp;
     tlb \<leftarrow> is_black h tl;
     tr \<leftarrow> RB_RIGHT h tmp;
     trb \<leftarrow> (if tlb then is_black h tr else Some False);
     if tlb \<and> trb then do {
       h \<leftarrow> set_COLOR h tmp RB_RED;
       gp \<leftarrow> RB_PARENT h parent;
       Some (h, gp, parent, False)
     } else do {
       (h, tmp) \<leftarrow>
         (if tlb then do {
            oright \<leftarrow> RB_RIGHT h tmp;
            h \<leftarrow> (if oright \<noteq> NULL then set_COLOR h oright RB_BLACK else Some h);
            h \<leftarrow> set_COLOR h tmp RB_RED;
            (h, _) \<leftarrow> RB_ROTATE_LEFT h tmp;
            tmp \<leftarrow> RB_LEFT h parent;
            Some (h, tmp) }
          else Some (h, tmp));
       pc \<leftarrow> RB_COLOR h parent;
       h \<leftarrow> set_COLOR h tmp pc;
       h \<leftarrow> set_COLOR h parent RB_BLACK;
       tl \<leftarrow> RB_LEFT h tmp;
       h \<leftarrow> (if tl \<noteq> NULL then set_COLOR h tl RB_BLACK else Some h);
       (h, _) \<leftarrow> RB_ROTATE_RIGHT h parent;
       Some (h, parent, RB_ROOT h, True)
     }
   }"

definition RB_REMOVE_COLOR_body :: "rb_tree \<Rightarrow> ptr \<Rightarrow> ptr \<Rightarrow> (rb_tree \<times> ptr \<times> ptr \<times> bool) option" where
  "RB_REMOVE_COLOR_body h parent elm = do {
     pl \<leftarrow> RB_LEFT h parent;
     if pl = elm then do {
       tmp \<leftarrow> RB_RIGHT h parent;
       tc \<leftarrow> RB_COLOR h tmp;
       (h, tmp) \<leftarrow>
         (if tc = RB_RED then do {
            h \<leftarrow> RB_SET_BLACKRED h tmp parent;
            (h, _) \<leftarrow> RB_ROTATE_LEFT h parent;
            tmp \<leftarrow> RB_RIGHT h parent;
            Some (h, tmp) }
          else Some (h, tmp));
       RB_REMOVE_COLOR_left h parent tmp
     } else do {
       tmp \<leftarrow> RB_LEFT h parent;
       tc \<leftarrow> RB_COLOR h tmp;
       (h, tmp) \<leftarrow>
         (if tc = RB_RED then do {
            h \<leftarrow> RB_SET_BLACKRED h tmp parent;
            (h, _) \<leftarrow> RB_ROTATE_RIGHT h parent;
            tmp \<leftarrow> RB_LEFT h parent;
            Some (h, tmp) }
          else Some (h, tmp));
       RB_REMOVE_COLOR_right h parent tmp
     }
   }"

text \<open>After the loop: \<open>if (elm) RB_COLOR(elm, field) = RB_BLACK\<close>.\<close>

definition RB_REMOVE_COLOR_exit :: "rb_tree \<Rightarrow> ptr \<Rightarrow> rb_tree option" where
  "RB_REMOVE_COLOR_exit h elm = (if elm \<noteq> NULL then set_COLOR h elm RB_BLACK else Some h)"

partial_function (option) RB_REMOVE_COLOR :: "rb_tree \<Rightarrow> ptr \<Rightarrow> ptr \<Rightarrow> rb_tree option" where
  "RB_REMOVE_COLOR h parent elm = do {
     black \<leftarrow> is_black h elm;
     if black \<and> elm \<noteq> RB_ROOT h then do {
       (h, parent, elm, brk) \<leftarrow> RB_REMOVE_COLOR_body h parent elm;
       if brk then RB_REMOVE_COLOR_exit h elm else RB_REMOVE_COLOR h parent elm
     } else RB_REMOVE_COLOR_exit h elm
   }"

text \<open>The statements \<open>RB_REMOVE\<close> has twice: \<open>child\<close> takes the place of \<open>elm\<close> below \<open>parent\<close>.\<close>

definition RB_unlink :: "rb_tree \<Rightarrow> ptr \<Rightarrow> ptr \<Rightarrow> ptr \<Rightarrow> rb_tree option" where
  "RB_unlink h elm parent child = do {
     h \<leftarrow> (if child \<noteq> NULL then set_PARENT h child parent else Some h);
     if parent \<noteq> NULL then do {
       pl \<leftarrow> RB_LEFT h parent;
       if pl = elm then set_LEFT h parent child else set_RIGHT h parent child
     } else Some (h\<lparr>rbh_root := child\<rparr>)
   }"

text \<open>The walk to the successor: \<open>while ((left = RB_LEFT(elm, field)) != NULL) elm = left\<close>.\<close>

partial_function (option) RB_leftmost :: "rb_tree \<Rightarrow> ptr \<Rightarrow> ptr option" where
  "RB_leftmost h elm = do {
     left \<leftarrow> RB_LEFT h elm;
     if left \<noteq> NULL then RB_leftmost h left else Some elm
   }"

partial_function (option) RB_rightmost :: "rb_tree \<Rightarrow> ptr \<Rightarrow> ptr option" where
  "RB_rightmost h elm = do {
     right \<leftarrow> RB_RIGHT h elm;
     if right \<noteq> NULL then RB_rightmost h right else Some elm
   }"

text \<open>The node \<open>elm\<close> takes over the entry of \<open>old\<close> and the pointers of its neighbours.\<close>

definition RB_replace :: "rb_tree \<Rightarrow> ptr \<Rightarrow> ptr \<Rightarrow> rb_tree option" where
  "RB_replace h old elm = do {
     e \<leftarrow> deref (rb_node h) old;
     h \<leftarrow> upd_node h elm (\<lambda>_. e);
     op \<leftarrow> RB_PARENT h old;
     h \<leftarrow> (if op \<noteq> NULL then do {
              opl \<leftarrow> RB_LEFT h op;
              if opl = old then set_LEFT h op elm else set_RIGHT h op elm }
            else Some (h\<lparr>rbh_root := elm\<rparr>));
     ol \<leftarrow> RB_LEFT h old;
     h \<leftarrow> set_PARENT h ol elm;
     or' \<leftarrow> RB_RIGHT h old;
     if or' \<noteq> NULL then set_PARENT h or' elm else Some h
   }"

definition RB_REMOVE :: "rb_tree \<Rightarrow> ptr \<Rightarrow> (rb_tree \<times> ptr) option" where
  "RB_REMOVE h elm = do {
     l \<leftarrow> RB_LEFT h elm;
     r \<leftarrow> RB_RIGHT h elm;
     (h, parent, child, color) \<leftarrow>
       (if l = NULL \<or> r = NULL then do {
          let child = (if l = NULL then r else l);
          parent \<leftarrow> RB_PARENT h elm;
          color \<leftarrow> RB_COLOR h elm;
          h \<leftarrow> RB_unlink h elm parent child;
          Some (h, parent, child, color)
        } else do {
          let old = elm;
          elm \<leftarrow> RB_leftmost h r;
          child \<leftarrow> RB_RIGHT h elm;
          parent \<leftarrow> RB_PARENT h elm;
          color \<leftarrow> RB_COLOR h elm;
          h \<leftarrow> RB_unlink h elm parent child;
          ep \<leftarrow> RB_PARENT h elm;
          let parent = (if ep = old then elm else parent);
          h \<leftarrow> RB_replace h old elm;
          Some (h, parent, child, color)
        });
     h \<leftarrow> (if color = RB_BLACK then RB_REMOVE_COLOR h parent child else Some h);
     Some (h, elm)
   }"

text \<open>The descent of \<open>RB_INSERT\<close>: the equal node found (or \<open>NULL\<close>), the last \<open>parent\<close> and the last
  \<open>comp\<close>.\<close>

partial_function (option) RB_descend ::
  "(addr \<Rightarrow> int option) \<Rightarrow> rb_tree \<Rightarrow> ptr \<Rightarrow> ptr \<Rightarrow> int \<Rightarrow> (ptr \<times> ptr \<times> int) option" where
  "RB_descend cmp h tmp parent cp =
     (if tmp = NULL then Some (NULL, parent, cp)
      else do {
        cp \<leftarrow> deref cmp tmp;
        if cp < 0 then do { l \<leftarrow> RB_LEFT h tmp; RB_descend cmp h l tmp cp }
        else if cp > 0 then do { r \<leftarrow> RB_RIGHT h tmp; RB_descend cmp h r tmp cp }
        else Some (tmp, tmp, cp)
      })"

definition RB_INSERT :: "(addr \<Rightarrow> int option) \<Rightarrow> rb_tree \<Rightarrow> ptr \<Rightarrow> (rb_tree \<times> ptr) option" where
  "RB_INSERT cmp h elm = do {
     (tmp, parent, cp) \<leftarrow> RB_descend cmp h (RB_ROOT h) NULL 0;
     if tmp \<noteq> NULL then Some (h, tmp)
     else do {
       h \<leftarrow> RB_SET h elm parent;
       h \<leftarrow> (if parent \<noteq> NULL then
                (if cp < 0 then set_LEFT h parent elm else set_RIGHT h parent elm)
              else Some (h\<lparr>rbh_root := elm\<rparr>));
       h \<leftarrow> RB_INSERT_COLOR h elm;
       Some (h, NULL)
     }
   }"

partial_function (option) RB_FIND_loop :: "(addr \<Rightarrow> int option) \<Rightarrow> rb_tree \<Rightarrow> ptr \<Rightarrow> ptr option" where
  "RB_FIND_loop cmp h tmp =
     (if tmp = NULL then Some NULL
      else do {
        cp \<leftarrow> deref cmp tmp;
        if cp < 0 then do { l \<leftarrow> RB_LEFT h tmp; RB_FIND_loop cmp h l }
        else if cp > 0 then do { r \<leftarrow> RB_RIGHT h tmp; RB_FIND_loop cmp h r }
        else Some tmp
      })"

definition RB_FIND :: "(addr \<Rightarrow> int option) \<Rightarrow> rb_tree \<Rightarrow> ptr option" where
  "RB_FIND cmp h = RB_FIND_loop cmp h (RB_ROOT h)"

partial_function (option) RB_NFIND_loop ::
  "(addr \<Rightarrow> int option) \<Rightarrow> rb_tree \<Rightarrow> ptr \<Rightarrow> ptr \<Rightarrow> ptr option" where
  "RB_NFIND_loop cmp h tmp res =
     (if tmp = NULL then Some res
      else do {
        cp \<leftarrow> deref cmp tmp;
        if cp < 0 then do { l \<leftarrow> RB_LEFT h tmp; RB_NFIND_loop cmp h l tmp }
        else if cp > 0 then do { r \<leftarrow> RB_RIGHT h tmp; RB_NFIND_loop cmp h r res }
        else Some tmp
      })"

definition RB_NFIND :: "(addr \<Rightarrow> int option) \<Rightarrow> rb_tree \<Rightarrow> ptr option" where
  "RB_NFIND cmp h = RB_NFIND_loop cmp h (RB_ROOT h) NULL"

partial_function (option) RB_MINMAX_loop :: "rb_tree \<Rightarrow> int \<Rightarrow> ptr \<Rightarrow> ptr \<Rightarrow> ptr option" where
  "RB_MINMAX_loop h val tmp parent =
     (if tmp = NULL then Some parent
      else do {
        next \<leftarrow> (if val < 0 then RB_LEFT h tmp else RB_RIGHT h tmp);
        RB_MINMAX_loop h val next tmp
      })"

definition RB_MINMAX :: "rb_tree \<Rightarrow> int \<Rightarrow> ptr option" where
  "RB_MINMAX h val = RB_MINMAX_loop h val (RB_ROOT h) NULL"

definition RB_MIN :: "rb_tree \<Rightarrow> ptr option" where
  "RB_MIN h = RB_MINMAX h (-1)"

definition RB_MAX :: "rb_tree \<Rightarrow> ptr option" where
  "RB_MAX h = RB_MINMAX h 1"

text \<open>The climb of \<open>RB_NEXT\<close> and \<open>RB_PREV\<close>: up while \<open>elm\<close> is the right (left) child, then one more.\<close>

partial_function (option) RB_climb_right :: "rb_tree \<Rightarrow> ptr \<Rightarrow> ptr option" where
  "RB_climb_right h elm = do {
     p \<leftarrow> RB_PARENT h elm;
     if p \<noteq> NULL then do {
       pr \<leftarrow> RB_RIGHT h p;
       if elm = pr then RB_climb_right h p else RB_PARENT h elm
     } else RB_PARENT h elm
   }"

partial_function (option) RB_climb_left :: "rb_tree \<Rightarrow> ptr \<Rightarrow> ptr option" where
  "RB_climb_left h elm = do {
     p \<leftarrow> RB_PARENT h elm;
     if p \<noteq> NULL then do {
       pl \<leftarrow> RB_LEFT h p;
       if elm = pl then RB_climb_left h p else RB_PARENT h elm
     } else RB_PARENT h elm
   }"

definition RB_NEXT :: "rb_tree \<Rightarrow> ptr \<Rightarrow> ptr option" where
  "RB_NEXT h elm = do {
     r \<leftarrow> RB_RIGHT h elm;
     if r \<noteq> NULL then RB_leftmost h r
     else do {
       p \<leftarrow> RB_PARENT h elm;
       isleft \<leftarrow> (if p \<noteq> NULL then map_option (\<lambda>pl. elm = pl) (RB_LEFT h p) else Some False);
       if isleft then Some p else RB_climb_right h elm
     }
   }"

definition RB_PREV :: "rb_tree \<Rightarrow> ptr \<Rightarrow> ptr option" where
  "RB_PREV h elm = do {
     l \<leftarrow> RB_LEFT h elm;
     if l \<noteq> NULL then RB_rightmost h l
     else do {
       p \<leftarrow> RB_PARENT h elm;
       isright \<leftarrow> (if p \<noteq> NULL then map_option (\<lambda>pr. elm = pr) (RB_RIGHT h p) else Some False);
       if isright then Some p else RB_climb_left h elm
     }
   }"

text \<open>\<open>RB_FOREACH\<close>, \<open>RB_FOREACH_FROM\<close> and their reverses visit nodes by \<open>RB_NEXT\<close> and \<open>RB_PREV\<close>; the
  result is the list of nodes the loop body is run for.  The \<open>_SAFE\<close> forms visit the same nodes.\<close>

partial_function (option) RB_FOREACH_FROM :: "rb_tree \<Rightarrow> ptr \<Rightarrow> addr list option" where
  "RB_FOREACH_FROM h x = (case x of None \<Rightarrow> Some []
     | Some a \<Rightarrow> do { y \<leftarrow> RB_NEXT h x; ys \<leftarrow> RB_FOREACH_FROM h y; Some (a # ys) })"

definition RB_FOREACH :: "rb_tree \<Rightarrow> addr list option" where
  "RB_FOREACH h = do { x \<leftarrow> RB_MIN h; RB_FOREACH_FROM h x }"

partial_function (option) RB_FOREACH_REVERSE_FROM :: "rb_tree \<Rightarrow> ptr \<Rightarrow> addr list option" where
  "RB_FOREACH_REVERSE_FROM h x = (case x of None \<Rightarrow> Some []
     | Some a \<Rightarrow> do { y \<leftarrow> RB_PREV h x; ys \<leftarrow> RB_FOREACH_REVERSE_FROM h y; Some (a # ys) })"

definition RB_FOREACH_REVERSE :: "rb_tree \<Rightarrow> addr list option" where
  "RB_FOREACH_REVERSE h = do { x \<leftarrow> RB_MAX h; RB_FOREACH_REVERSE_FROM h x }"

end
