(* ===== verification/RB_Shape.thy ===== *)
theory RB_Shape
  imports RB_Heap "HOL-Library.Tree"
begin

text \<open>
  The mathematical side of the red-black trees: the shape of a tree as a datatype (each node the
  address of its element with its colour), one-hole contexts (the path from a node up to the root),
  the red-black invariants on both, and the representation predicate \<open>rep\<close> that says that a heap of
  \<open>RB_Heap\<close> holds a given shape: root pointer, child pointers, parent pointers, colours, and no
  address twice.
\<close>

type_synonym rbt = "(addr \<times> rb_color) tree"

datatype frame = FL addr rb_color rbt | FR rbt addr rb_color

fun root_of :: "rbt \<Rightarrow> ptr" where
  "root_of Leaf = NULL"
| "root_of (Node l (a, c) r) = Some a"

fun col :: "rbt \<Rightarrow> rb_color" where
  "col Leaf = RB_BLACK"
| "col (Node l (a, c) r) = c"

fun paint :: "rb_color \<Rightarrow> rbt \<Rightarrow> rbt" where
  "paint c Leaf = Leaf"
| "paint c (Node l (a, c') r) = Node l (a, c) r"

definition nodes :: "rbt \<Rightarrow> addr list" where
  "nodes t = map fst (inorder t)"

fun plug :: "frame list \<Rightarrow> rbt \<Rightarrow> rbt" where
  "plug [] t = t"
| "plug (FL a c r # k) t = plug k (Node t (a, c) r)"
| "plug (FR l a c # k) t = plug k (Node l (a, c) t)"

fun ctx_root :: "frame list \<Rightarrow> ptr" where
  "ctx_root [] = NULL"
| "ctx_root (FL a c r # k) = Some a"
| "ctx_root (FR l a c # k) = Some a"

fun lefts :: "frame list \<Rightarrow> addr list" where
  "lefts [] = []"
| "lefts (FL a c r # k) = lefts k"
| "lefts (FR l a c # k) = lefts k @ nodes l @ [a]"

fun rights :: "frame list \<Rightarrow> addr list" where
  "rights [] = []"
| "rights (FL a c r # k) = a # nodes r @ rights k"
| "rights (FR l a c # k) = rights k"

text \<open>Representation.\<close>

fun tree_at :: "(addr \<Rightarrow> rb_entry option) \<Rightarrow> ptr \<Rightarrow> rbt \<Rightarrow> bool" where
  "tree_at m par Leaf = True"
| "tree_at m par (Node l (a, c) r) =
     (m a = Some \<lparr>rbe_left = root_of l, rbe_right = root_of r, rbe_parent = par, rbe_color = c\<rparr> \<and>
      tree_at m (Some a) l \<and> tree_at m (Some a) r)"

fun ctx_at :: "(addr \<Rightarrow> rb_entry option) \<Rightarrow> ptr \<Rightarrow> frame list \<Rightarrow> ptr \<Rightarrow> bool" where
  "ctx_at m rt [] p = (rt = p)"
| "ctx_at m rt (FL a c r # k) p =
     (m a = Some \<lparr>rbe_left = p, rbe_right = root_of r, rbe_parent = ctx_root k, rbe_color = c\<rparr> \<and>
      tree_at m (Some a) r \<and> ctx_at m rt k (Some a))"
| "ctx_at m rt (FR l a c # k) p =
     (m a = Some \<lparr>rbe_left = root_of l, rbe_right = p, rbe_parent = ctx_root k, rbe_color = c\<rparr> \<and>
      tree_at m (Some a) l \<and> ctx_at m rt k (Some a))"

definition rep :: "rb_tree \<Rightarrow> rbt \<Rightarrow> bool" where
  "rep h t = (rbh_root h = root_of t \<and> tree_at (rb_node h) NULL t \<and> distinct (nodes t))"

text \<open>The invariants: no red node has a red child; every path has the same number of black nodes.\<close>

fun bheight :: "rbt \<Rightarrow> nat" where
  "bheight Leaf = 0"
| "bheight (Node l (a, c) r) = (if c = RB_BLACK then bheight l + 1 else bheight l)"

fun invc :: "rbt \<Rightarrow> bool" where
  "invc Leaf = True"
| "invc (Node l (a, c) r) =
     ((c = RB_RED \<longrightarrow> col l = RB_BLACK \<and> col r = RB_BLACK) \<and> invc l \<and> invc r)"

fun invh :: "rbt \<Rightarrow> bool" where
  "invh Leaf = True"
| "invh (Node l (a, c) r) = (bheight l = bheight r \<and> invh l \<and> invh r)"

definition is_rbt :: "rbt \<Rightarrow> bool" where
  "is_rbt t = (invc t \<and> invh t \<and> col t = RB_BLACK)"

text \<open>The same for contexts: \<open>ctx_invc c k\<close> when the hole holds a tree whose root has colour \<open>c\<close>,
  \<open>ctx_invh n k\<close> when it holds a tree of black height \<open>n\<close>.\<close>

fun ctx_invc :: "rb_color \<Rightarrow> frame list \<Rightarrow> bool" where
  "ctx_invc c [] = True"
| "ctx_invc c (FL a c' r # k) =
     ((c' = RB_RED \<longrightarrow> c = RB_BLACK \<and> col r = RB_BLACK) \<and> invc r \<and> ctx_invc c' k)"
| "ctx_invc c (FR l a c' # k) =
     ((c' = RB_RED \<longrightarrow> c = RB_BLACK \<and> col l = RB_BLACK) \<and> invc l \<and> ctx_invc c' k)"

fun ctx_invh :: "nat \<Rightarrow> frame list \<Rightarrow> bool" where
  "ctx_invh n [] = True"
| "ctx_invh n (FL a c r # k) =
     (bheight r = n \<and> invh r \<and> ctx_invh (if c = RB_BLACK then n + 1 else n) k)"
| "ctx_invh n (FR l a c # k) =
     (bheight l = n \<and> invh l \<and> ctx_invh (if c = RB_BLACK then n + 1 else n) k)"

text \<open>The colour of the root of the whole tree, seen from a hole whose content has colour \<open>c\<close>.\<close>

fun ctx_col :: "rb_color \<Rightarrow> frame list \<Rightarrow> rb_color" where
  "ctx_col c [] = c"
| "ctx_col c (FL a c' r # k) = ctx_col c' k"
| "ctx_col c (FR l a c' # k) = ctx_col c' k"

subsection \<open>Contexts\<close>

lemma rb_color_neq [simp]:
  "c \<noteq> RB_RED \<longleftrightarrow> c = RB_BLACK" "RB_RED \<noteq> c \<longleftrightarrow> c = RB_BLACK"
  "c \<noteq> RB_BLACK \<longleftrightarrow> c = RB_RED" "RB_BLACK \<noteq> c \<longleftrightarrow> c = RB_RED"
  by (cases c; simp)+

lemma nodes_simps [simp]:
  "nodes Leaf = []" "nodes (Node l (a, c) r) = nodes l @ a # nodes r"
  by (simp_all add: nodes_def)

lemma nodes_plug [simp]: "nodes (plug k t) = lefts k @ nodes t @ rights k"
  by (induction k t rule: plug.induct) simp_all

lemma plug_append: "plug (k @ k') t = plug k' (plug k t)"
  by (induction k t rule: plug.induct) simp_all

lemma lefts_append [simp]: "lefts (k @ k') = lefts k' @ lefts k"
  by (induction k rule: lefts.induct) simp_all

lemma rights_append [simp]: "rights (k @ k') = rights k @ rights k'"
  by (induction k rule: rights.induct) simp_all

lemma ctx_root_append: "ctx_root (k @ k') = (if k = [] then ctx_root k' else ctx_root k)"
  by (cases k rule: ctx_root.cases) simp_all

lemma root_of_None [simp]: "root_of t = None \<longleftrightarrow> t = Leaf"
  by (cases t rule: root_of.cases) auto

lemma root_of_in: "root_of t = Some a \<Longrightarrow> a \<in> set (nodes t)"
  by (cases t rule: root_of.cases) auto

lemma root_of_notin [simp]:
  "a \<notin> set (nodes t) \<Longrightarrow> root_of t \<noteq> Some a"
  "a \<notin> set (nodes t) \<Longrightarrow> Some a \<noteq> root_of t"
  using root_of_in [of t a] by auto

lemma root_of_paint [simp]: "root_of (paint c t) = root_of t"
  by (cases t rule: root_of.cases) auto

lemma nodes_paint [simp]: "nodes (paint c t) = nodes t"
  by (cases t rule: root_of.cases) auto

lemma ctx_root_in: "ctx_root k = Some a \<Longrightarrow> a \<in> set (lefts k) \<union> set (rights k)"
  by (cases k rule: ctx_root.cases) auto

lemma tree_cases: "(t = Leaf \<Longrightarrow> P) \<Longrightarrow> (\<And>l a c r. t = Node l (a, c) r \<Longrightarrow> P) \<Longrightarrow> P"
  by (cases t) auto

lemma nodes_member_plug:
  assumes "a \<in> set (nodes t)"
  shows "\<exists>k l c r. t = plug k (Node l (a, c) r)"
proof -
  have "\<exists>k l c r. plug k0 t = plug k (Node l (a, c) r)" if "a \<in> set (nodes t)" for k0
    using that
  proof (induction t arbitrary: k0)
    case (Node l x r)
    obtain b c where x: "x = (b, c)" by (cases x)
    consider "a \<in> set (nodes l)" | "a = b" | "a \<in> set (nodes r)"
      using Node.prems by (auto simp: x)
    then show ?case
    proof cases
      case 1
      from Node.IH(1)[OF this, of "FL b c r # k0"] show ?thesis by (simp add: x)
    next
      case 2
      then show ?thesis using x by blast
    next
      case 3
      from Node.IH(2)[OF this, of "FR l b c # k0"] show ?thesis by (simp add: x)
    qed
  qed simp
  from this[OF assms, of "[]"] show ?thesis by simp
qed

subsection \<open>The representation of a plugged context\<close>

lemma tree_at_frame [simp]: "a \<notin> set (nodes t) \<Longrightarrow> tree_at (m(a := x)) par t = tree_at m par t"
  by (induction m par t rule: tree_at.induct) auto

lemma ctx_at_frame [simp]:
  "a \<notin> set (lefts k) \<Longrightarrow> a \<notin> set (rights k) \<Longrightarrow> ctx_at (m(a := x)) rt k p = ctx_at m rt k p"
  by (induction m rt k p rule: ctx_at.induct) auto

lemma tree_at_plug:
  "(rt = root_of (plug k t) \<and> tree_at m NULL (plug k t)) \<longleftrightarrow>
   (ctx_at m rt k (root_of t) \<and> tree_at m (ctx_root k) t)"
  by (induction k t rule: plug.induct) auto

lemma rep_plug:
  "rep h (plug k t) \<longleftrightarrow>
   ctx_at (rb_node h) (rbh_root h) k (root_of t) \<and> tree_at (rb_node h) (ctx_root k) t \<and>
   distinct (lefts k @ nodes t @ rights k)"
  using tree_at_plug [of "rbh_root h" k t "rb_node h"] by (auto simp: rep_def)

lemmas rep_plug_nil = rep_plug [of _ "[]", simplified]

subsection \<open>Invariants of a plugged context\<close>

lemma invc_plug: "invc (plug k t) \<longleftrightarrow> invc t \<and> ctx_invc (col t) k"
  by (induction k t rule: plug.induct) auto

lemma invh_plug: "invh (plug k t) \<longleftrightarrow> invh t \<and> ctx_invh (bheight t) k"
  by (induction k t rule: plug.induct) auto

lemma col_plug: "col (plug k t) = ctx_col (col t) k"
  by (induction k t rule: plug.induct) auto

lemma ctx_invc_black: "ctx_invc c k \<Longrightarrow> ctx_invc RB_BLACK k"
  by (cases "(c, k)" rule: ctx_invc.cases) auto

lemma invc_paint_black [simp]: "invc t \<Longrightarrow> invc (paint RB_BLACK t)"
  by (cases t rule: tree_cases) auto

lemma invh_paint [simp]: "invh (paint c t) = invh t"
  by (cases t rule: tree_cases) auto

lemma col_paint_black [simp]: "col (paint RB_BLACK t) = RB_BLACK"
  by (cases t rule: tree_cases) auto

lemma bheight_pos: "invh t \<Longrightarrow> 0 < bheight t \<Longrightarrow> t \<noteq> Leaf"
  by (cases t rule: tree_cases) auto

end
