(* ===== verification/RB_Refine.thy ===== *)
theory RB_Refine
  imports RB_Shape
begin

text \<open>
  The heap programs of \<open>RB_Heap\<close> act on shapes: each read, each recolouring, each rotation and the
  splicing steps of \<open>RB_REMOVE\<close> are shown to take a heap that holds one shape to a heap that holds
  another, without a fault.
\<close>

lemmas rb_heap_defs = RB_LEFT_def RB_RIGHT_def RB_PARENT_def RB_COLOR_def set_LEFT_def set_RIGHT_def
  set_PARENT_def set_COLOR_def upd_node_def

subsection \<open>Reading\<close>

lemma rep_reads:
  assumes "rep h (plug k (Node l (a, c) r))"
  shows "RB_LEFT h (Some a) = Some (root_of l)"
    and "RB_RIGHT h (Some a) = Some (root_of r)"
    and "RB_PARENT h (Some a) = Some (ctx_root k)"
    and "RB_COLOR h (Some a) = Some c"
    and "rb_node h a = Some \<lparr>rbe_left = root_of l, rbe_right = root_of r,
           rbe_parent = ctx_root k, rbe_color = c\<rparr>"
  using assms by (auto simp: rep_plug rb_heap_defs)

lemma rep_ctx_reads:
  assumes "rep h (plug (FL a c r # k) t)"
  shows "RB_LEFT h (Some a) = Some (root_of t)"
    and "RB_RIGHT h (Some a) = Some (root_of r)"
    and "RB_PARENT h (Some a) = Some (ctx_root k)"
    and "RB_COLOR h (Some a) = Some c"
  using rep_reads [of h k t a c r] assms by auto

lemma rep_ctx_reads':
  assumes "rep h (plug (FR l a c # k) t)"
  shows "RB_LEFT h (Some a) = Some (root_of l)"
    and "RB_RIGHT h (Some a) = Some (root_of t)"
    and "RB_PARENT h (Some a) = Some (ctx_root k)"
    and "RB_COLOR h (Some a) = Some c"
  using rep_reads [of h k l a c t] assms by auto

lemma rep_is_red: "rep h (plug k t) \<Longrightarrow> is_red h (root_of t) = Some (col t = RB_RED)"
  by (cases t rule: tree_cases) (auto simp: is_red_def rep_reads)

lemma rep_is_black: "rep h (plug k t) \<Longrightarrow> is_black h (root_of t) = Some (col t = RB_BLACK)"
  by (cases t rule: tree_cases) (auto simp: is_black_def rep_reads)

lemma rep_root: "rep h t \<Longrightarrow> rbh_root h = root_of t"
  by (simp add: rep_def)

lemma rep_distinct: "rep h t \<Longrightarrow> distinct (nodes t)"
  by (simp add: rep_def)

subsection \<open>Recolouring\<close>

lemma set_COLOR_ex:
  assumes rep: "rep h (plug k (Node l (a, c) r))"
  obtains h' where "set_COLOR h (Some a) c' = Some h'" "rep h' (plug k (Node l (a, c') r))"
proof
  let ?h' = "h\<lparr>rb_node := (rb_node h)(a \<mapsto> \<lparr>rbe_left = root_of l, rbe_right = root_of r,
           rbe_parent = ctx_root k, rbe_color = c'\<rparr>)\<rparr>"
  show "set_COLOR h (Some a) c' = Some ?h'"
    using rep_reads(5) [OF rep] by (simp add: rb_heap_defs)
  show "rep ?h' (plug k (Node l (a, c') r))"
    using rep by (auto simp: rep_plug)
qed

lemma set_root_black_ex:
  assumes "rep h t" "t \<noteq> Leaf"
  obtains h' where "set_COLOR h (root_of t) RB_BLACK = Some h'" "rep h' (paint RB_BLACK t)"
proof (cases t rule: tree_cases)
  case (2 l a c r)
  then have "rep h (plug [] (Node l (a, c) r))" using assms(1) by simp
  from set_COLOR_ex [OF this, of RB_BLACK] obtain h' where
    "set_COLOR h (Some a) RB_BLACK = Some h'" "rep h' (Node l (a, RB_BLACK) r)" by auto
  with that 2 show ?thesis by simp
qed (use assms(2) in simp)

subsection \<open>Rotations\<close>

lemma ROTATE_LEFT_ex:
  assumes "rep h (plug k (Node A (a, ca) (Node B (b, cb) C)))"
  obtains h' where "RB_ROTATE_LEFT h (Some a) = Some (h', Some b)"
    "rep h' (plug k (Node (Node A (a, ca) B) (b, cb) C))"
proof -
  from assms have "\<exists>h'. RB_ROTATE_LEFT h (Some a) = Some (h', Some b) \<and>
      rep h' (plug k (Node (Node A (a, ca) B) (b, cb) C))"
    unfolding rep_plug by (cases B rule: tree_cases; cases k rule: ctx_root.cases)
       (auto simp: RB_ROTATE_LEFT_def rb_heap_defs fun_upd_twist)
  with that show ?thesis by auto
qed

lemma ROTATE_RIGHT_ex:
  assumes "rep h (plug k (Node (Node A (a, ca) B) (b, cb) C))"
  obtains h' where "RB_ROTATE_RIGHT h (Some b) = Some (h', Some a)"
    "rep h' (plug k (Node A (a, ca) (Node B (b, cb) C)))"
proof -
  from assms have "\<exists>h'. RB_ROTATE_RIGHT h (Some b) = Some (h', Some a) \<and>
      rep h' (plug k (Node A (a, ca) (Node B (b, cb) C)))"
    unfolding rep_plug by (cases B rule: tree_cases; cases k rule: ctx_root.cases)
       (auto simp: RB_ROTATE_RIGHT_def rb_heap_defs fun_upd_twist)
  with that show ?thesis by auto
qed

subsection \<open>Linking, unlinking and replacing a node\<close>

lemma link_ex:
  assumes "rep h (plug k Leaf)" and "rb_node h e \<noteq> None" and "e \<notin> set (lefts k) \<union> set (rights k)"
    and "\<And>a c r k'. k = FL a c r # k' \<Longrightarrow> cp < 0" and "\<And>l a c k'. k = FR l a c # k' \<Longrightarrow> \<not> cp < 0"
  shows "\<exists>h1 h'. RB_SET h (Some e) (ctx_root k) = Some h1 \<and>
    (if ctx_root k \<noteq> NULL then
       (if cp < (0 :: int) then set_LEFT h1 (ctx_root k) (Some e) else set_RIGHT h1 (ctx_root k) (Some e))
     else Some (h1\<lparr>rbh_root := Some e\<rparr>)) = Some h' \<and>
    rep h' (plug k (Node Leaf (e, RB_RED) Leaf))"
  using assms unfolding rep_plug
  by (cases k rule: ctx_root.cases) (auto simp: RB_SET_def rb_heap_defs)

text \<open>A node with at most one child is cut out of the tree.\<close>

lemma unlink_ex:
  assumes "rep h (plug k (Node l (a, c) r))" and "t = (if l = Leaf then r else l)"
    and "l = Leaf \<or> r = Leaf"
  obtains h' where "RB_unlink h (Some a) (ctx_root k) (root_of t) = Some h'" "rep h' (plug k t)"
    "rb_node h' a = rb_node h a"
proof -
  from assms have "\<exists>h'. RB_unlink h (Some a) (ctx_root k) (root_of t) = Some h' \<and> rep h' (plug k t) \<and>
      rb_node h' a = rb_node h a"
    unfolding rep_plug by (cases t rule: tree_cases; cases k rule: ctx_root.cases)
       (auto simp: RB_unlink_def rb_heap_defs split: if_splits)
  with that show ?thesis by auto
qed

text \<open>A node outside the tree takes the place of a node inside it that has a left child.\<close>

lemma replace_ex:
  assumes "rep h (plug k (Node l (a, c) r))" and "l \<noteq> Leaf" and "rb_node h b \<noteq> None"
    and "b \<notin> set (nodes (plug k (Node l (a, c) r)))"
  obtains h' where "RB_replace h (Some a) (Some b) = Some h'" "rep h' (plug k (Node l (b, c) r))"
proof -
  from assms have "\<exists>h'. RB_replace h (Some a) (Some b) = Some h' \<and> rep h' (plug k (Node l (b, c) r))"
    unfolding rep_plug by (cases l rule: tree_cases; cases r rule: tree_cases; cases k rule: ctx_root.cases)
       (auto simp: RB_replace_def rb_heap_defs split: if_splits)
  with that show ?thesis by auto
qed

end
