(* ===== verification/RB_Insert.thy ===== *)
theory RB_Insert
  imports RB_Refine
begin

text \<open>
  \<open>RB_INSERT_COLOR\<close>, the search loops and \<open>RB_INSERT\<close>: on a heap that holds a red-black search
  tree they return, and the heap then holds the search tree with the element added.
\<close>

text \<open>The invariant of the loop of \<open>RB_INSERT_COLOR\<close>: everything is in order except that the red
  node at the hole may have a red parent.\<close>

definition ins_inv :: "frame list \<Rightarrow> rbt \<Rightarrow> bool" where
  "ins_inv k t = (col t = RB_RED \<and> invc t \<and> ctx_invc RB_BLACK k \<and> invh (plug k t) \<and>
     ctx_col RB_BLACK k = RB_BLACK)"

definition ins_next :: "rbt \<Rightarrow> nat \<Rightarrow> rb_tree \<times> ptr \<Rightarrow> bool" where
  "ins_next T n = (\<lambda>(h, e). \<exists>k t. e = root_of t \<and> rep h (plug k t) \<and> ins_inv k t \<and>
     nodes (plug k t) = nodes T \<and> length k < n)"

text \<open>A list of addresses ordered by a key, and a comparison function that compares a given key
  with the keys of those addresses.\<close>

definition ordered :: "(addr \<Rightarrow> 'k::linorder) \<Rightarrow> addr list \<Rightarrow> bool" where
  "ordered key xs = sorted_wrt (\<lambda>x y. key x < key y) xs"

definition compares :: "(addr \<Rightarrow> int option) \<Rightarrow> (addr \<Rightarrow> 'k::linorder) \<Rightarrow> 'k \<Rightarrow> addr list \<Rightarrow> bool" where
  "compares cmp key x xs = (\<forall>a \<in> set xs. \<exists>i. cmp a = Some i \<and>
     (i < 0 \<longleftrightarrow> x < key a) \<and> (0 < i \<longleftrightarrow> key a < x))"

text \<open>The sign of the last comparison agrees with the side on which the hole lies.\<close>

fun dir_ok :: "frame list \<Rightarrow> int \<Rightarrow> bool" where
  "dir_ok [] cp = True"
| "dir_ok (FL a c r # k) cp = (cp < 0)"
| "dir_ok (FR l a c # k) cp = (\<not> cp < 0)"

lemma ins_nextI:
  "rep h (plug k t) \<Longrightarrow> e = root_of t \<Longrightarrow> ins_inv k t \<Longrightarrow> nodes (plug k t) = nodes T \<Longrightarrow> length k < n \<Longrightarrow>
   ins_next T n (h, e)"
  by (auto simp: ins_next_def)

subsection \<open>The loop body of \<open>RB_INSERT_COLOR\<close>\<close>

lemma body_uncle_red_left:
  assumes rep: "rep h (plug k (Node (Node A (p, RB_RED) B) (g, RB_BLACK) (Node C (u, RB_RED) D)))"
    and inv: "invc (Node A (p, RB_BLACK) B)" "invc (Node C (u, RB_RED) D)"
      "ctx_invc RB_BLACK k" "ctx_col RB_BLACK k = RB_BLACK"
      "invh (plug k (Node (Node A (p, RB_RED) B) (g, RB_BLACK) (Node C (u, RB_RED) D)))"
  shows "ok (RB_INSERT_COLOR_body h (Some p) e) (ins_next
     (plug k (Node (Node A (p, RB_RED) B) (g, RB_BLACK) (Node C (u, RB_RED) D))) (length k + 2))"
proof -
  let ?P = "\<lambda>c. Node A (p, c) B" and ?U = "\<lambda>c. Node C (u, c) D"
  have p0: "rep h (plug (FL g RB_BLACK (?U RB_RED) # k) (?P RB_RED))" using rep by simp
  have u0: "rep h (plug (FR (?P RB_RED) g RB_BLACK # k) (?U RB_RED))" using rep by simp
  obtain h1 where 1: "set_COLOR h (Some u) RB_BLACK = Some h1"
    "rep h1 (plug (FL g RB_BLACK (?U RB_BLACK) # k) (?P RB_RED))"
    using set_COLOR_ex [OF u0, of RB_BLACK] by auto
  obtain h2 where 2: "set_COLOR h1 (Some p) RB_BLACK = Some h2"
    "rep h2 (plug k (Node (?P RB_BLACK) (g, RB_BLACK) (?U RB_BLACK)))"
    using set_COLOR_ex [OF 1(2), of RB_BLACK] by auto
  obtain h3 where 3: "set_COLOR h2 (Some g) RB_RED = Some h3"
    "rep h3 (plug k (Node (?P RB_BLACK) (g, RB_RED) (?U RB_BLACK)))"
    using set_COLOR_ex [OF 2(2), of RB_RED] by auto
  have "RB_INSERT_COLOR_body h (Some p) e = Some (h3, Some g)"
    by (simp add: RB_INSERT_COLOR_body_def RB_SET_BLACKRED_def rep_reads [OF p0] rep_reads [OF rep]
        rep_is_red [OF u0, simplified] 1 2 3)
  moreover have "ins_next (plug k (Node (?P RB_RED) (g, RB_BLACK) (?U RB_RED))) (length k + 2) (h3, Some g)"
    by (rule ins_nextI [OF 3(2)]) (use inv in \<open>auto simp: ins_inv_def invh_plug\<close>)
  ultimately show ?thesis by simp
qed

lemma body_uncle_red_right:
  assumes rep: "rep h (plug k (Node (Node C (u, RB_RED) D) (g, RB_BLACK) (Node A (p, RB_RED) B)))"
    and inv: "invc (Node A (p, RB_BLACK) B)" "invc (Node C (u, RB_RED) D)"
      "ctx_invc RB_BLACK k" "ctx_col RB_BLACK k = RB_BLACK"
      "invh (plug k (Node (Node C (u, RB_RED) D) (g, RB_BLACK) (Node A (p, RB_RED) B)))"
  shows "ok (RB_INSERT_COLOR_body h (Some p) e) (ins_next
     (plug k (Node (Node C (u, RB_RED) D) (g, RB_BLACK) (Node A (p, RB_RED) B))) (length k + 2))"
proof -
  let ?P = "\<lambda>c. Node A (p, c) B" and ?U = "\<lambda>c. Node C (u, c) D"
  have p0: "rep h (plug (FR (?U RB_RED) g RB_BLACK # k) (?P RB_RED))" using rep by simp
  have u0: "rep h (plug (FL g RB_BLACK (?P RB_RED) # k) (?U RB_RED))" using rep by simp
  have neq: "p \<noteq> u" using rep_distinct [OF rep] by auto
  obtain h1 where 1: "set_COLOR h (Some u) RB_BLACK = Some h1"
    "rep h1 (plug (FR (?U RB_BLACK) g RB_BLACK # k) (?P RB_RED))"
    using set_COLOR_ex [OF u0, of RB_BLACK] by auto
  obtain h2 where 2: "set_COLOR h1 (Some p) RB_BLACK = Some h2"
    "rep h2 (plug k (Node (?U RB_BLACK) (g, RB_BLACK) (?P RB_BLACK)))"
    using set_COLOR_ex [OF 1(2), of RB_BLACK] by auto
  obtain h3 where 3: "set_COLOR h2 (Some g) RB_RED = Some h3"
    "rep h3 (plug k (Node (?U RB_BLACK) (g, RB_RED) (?P RB_BLACK)))"
    using set_COLOR_ex [OF 2(2), of RB_RED] by auto
  have "RB_INSERT_COLOR_body h (Some p) e = Some (h3, Some g)"
    using neq
    by (simp add: RB_INSERT_COLOR_body_def RB_SET_BLACKRED_def rep_reads [OF p0] rep_reads [OF rep]
        rep_is_red [OF u0, simplified] 1 2 3)
  moreover have "ins_next (plug k (Node (?U RB_RED) (g, RB_BLACK) (?P RB_RED))) (length k + 2) (h3, Some g)"
    by (rule ins_nextI [OF 3(2)]) (use inv in \<open>auto simp: ins_inv_def invh_plug\<close>)
  ultimately show ?thesis by simp
qed

lemma body_LL:
  assumes rep: "rep h (plug k (Node (Node t (p, RB_RED) B) (g, RB_BLACK) U))"
    and inv: "col t = RB_RED" "invc t" "invc B" "col B = RB_BLACK" "invc U" "col U = RB_BLACK"
      "ctx_invc RB_BLACK k" "ctx_col RB_BLACK k = RB_BLACK"
      "invh (plug k (Node (Node t (p, RB_RED) B) (g, RB_BLACK) U))"
  shows "ok (RB_INSERT_COLOR_body h (Some p) (root_of t)) (ins_next
     (plug k (Node (Node t (p, RB_RED) B) (g, RB_BLACK) U)) (length k + 2))"
proof -
  let ?P = "\<lambda>c. Node t (p, c) B"
  have p0: "rep h (plug (FL g RB_BLACK U # k) (?P RB_RED))" using rep by simp
  have u0: "rep h (plug (FR (?P RB_RED) g RB_BLACK # k) U)" using rep by simp
  have neq: "root_of B \<noteq> root_of t"
    using inv(1) rep_distinct [OF rep] by (cases t rule: tree_cases) auto
  obtain h1 where 1: "set_COLOR h (Some p) RB_BLACK = Some h1"
    "rep h1 (plug k (Node (?P RB_BLACK) (g, RB_BLACK) U))"
    using set_COLOR_ex [OF p0, of RB_BLACK] by auto
  obtain h2 where 2: "set_COLOR h1 (Some g) RB_RED = Some h2"
    "rep h2 (plug k (Node (?P RB_BLACK) (g, RB_RED) U))"
    using set_COLOR_ex [OF 1(2), of RB_RED] by auto
  obtain h3 where 3: "RB_ROTATE_RIGHT h2 (Some g) = Some (h3, Some p)"
    "rep h3 (plug (FL p RB_BLACK (Node B (g, RB_RED) U) # k) t)"
    using ROTATE_RIGHT_ex [OF 2(2)] by auto
  have "RB_INSERT_COLOR_body h (Some p) (root_of t) = Some (h3, root_of t)"
    using neq inv(6)
    by (simp add: RB_INSERT_COLOR_body_def RB_SET_BLACKRED_def rep_reads [OF p0] rep_reads [OF rep]
        rep_is_red [OF u0, simplified] 1 2 3)
  moreover have "ins_next (plug k (Node (?P RB_RED) (g, RB_BLACK) U)) (length k + 2) (h3, root_of t)"
    by (rule ins_nextI [OF 3(2)]) (use inv in \<open>auto simp: ins_inv_def invh_plug\<close>)
  ultimately show ?thesis by simp
qed

lemma body_RR:
  assumes rep: "rep h (plug k (Node U (g, RB_BLACK) (Node B (p, RB_RED) t)))"
    and inv: "col t = RB_RED" "invc t" "invc B" "col B = RB_BLACK" "invc U" "col U = RB_BLACK"
      "ctx_invc RB_BLACK k" "ctx_col RB_BLACK k = RB_BLACK"
      "invh (plug k (Node U (g, RB_BLACK) (Node B (p, RB_RED) t)))"
  shows "ok (RB_INSERT_COLOR_body h (Some p) (root_of t)) (ins_next
     (plug k (Node U (g, RB_BLACK) (Node B (p, RB_RED) t))) (length k + 2))"
proof -
  let ?P = "\<lambda>c. Node B (p, c) t"
  have p0: "rep h (plug (FR U g RB_BLACK # k) (?P RB_RED))" using rep by simp
  have u0: "rep h (plug (FL g RB_BLACK (?P RB_RED) # k) U)" using rep by simp
  have neq: "root_of B \<noteq> root_of t" "root_of U \<noteq> Some p"
    using inv(1) rep_distinct [OF rep] by (cases t rule: tree_cases; auto)+
  obtain h1 where 1: "set_COLOR h (Some p) RB_BLACK = Some h1"
    "rep h1 (plug k (Node U (g, RB_BLACK) (?P RB_BLACK)))"
    using set_COLOR_ex [OF p0, of RB_BLACK] by auto
  obtain h2 where 2: "set_COLOR h1 (Some g) RB_RED = Some h2"
    "rep h2 (plug k (Node U (g, RB_RED) (?P RB_BLACK)))"
    using set_COLOR_ex [OF 1(2), of RB_RED] by auto
  obtain h3 where 3: "RB_ROTATE_LEFT h2 (Some g) = Some (h3, Some p)"
    "rep h3 (plug (FR (Node U (g, RB_RED) B) p RB_BLACK # k) t)"
    using ROTATE_LEFT_ex [OF 2(2)] by auto
  have "RB_INSERT_COLOR_body h (Some p) (root_of t) = Some (h3, root_of t)"
    using neq neq(2) [symmetric] inv(6)
    by (simp add: RB_INSERT_COLOR_body_def RB_SET_BLACKRED_def rep_reads [OF p0] rep_reads [OF rep]
        rep_is_red [OF u0, simplified] 1 2 3)
  moreover have "ins_next (plug k (Node U (g, RB_BLACK) (?P RB_RED))) (length k + 2) (h3, root_of t)"
    by (rule ins_nextI [OF 3(2)]) (use inv in \<open>auto simp: ins_inv_def invh_plug\<close>)
  ultimately show ?thesis by simp
qed

lemma body_LR:
  assumes rep: "rep h (plug k (Node (Node A (p, RB_RED) (Node l (a, RB_RED) r)) (g, RB_BLACK) U))"
    and inv: "invc (Node l (a, RB_RED) r)" "invc A" "col A = RB_BLACK" "invc U" "col U = RB_BLACK"
      "ctx_invc RB_BLACK k" "ctx_col RB_BLACK k = RB_BLACK"
      "invh (plug k (Node (Node A (p, RB_RED) (Node l (a, RB_RED) r)) (g, RB_BLACK) U))"
  shows "ok (RB_INSERT_COLOR_body h (Some p) (Some a)) (ins_next
     (plug k (Node (Node A (p, RB_RED) (Node l (a, RB_RED) r)) (g, RB_BLACK) U)) (length k + 2))"
proof -
  let ?t = "Node l (a, RB_RED) r"
  have p0: "rep h (plug (FL g RB_BLACK U # k) (Node A (p, RB_RED) ?t))" using rep by simp
  have u0: "rep h (plug (FR (Node A (p, RB_RED) ?t) g RB_BLACK # k) U)" using rep by simp
  obtain h1 where 1: "RB_ROTATE_LEFT h (Some p) = Some (h1, Some a)"
    "rep h1 (plug (FL g RB_BLACK U # k) (Node (Node A (p, RB_RED) l) (a, RB_RED) r))"
    using ROTATE_LEFT_ex [OF p0] by auto
  obtain h2 where 2: "set_COLOR h1 (Some a) RB_BLACK = Some h2"
    "rep h2 (plug k (Node (Node (Node A (p, RB_RED) l) (a, RB_BLACK) r) (g, RB_BLACK) U))"
    using set_COLOR_ex [OF 1(2), of RB_BLACK] by auto
  obtain h3 where 3: "set_COLOR h2 (Some g) RB_RED = Some h3"
    "rep h3 (plug k (Node (Node (Node A (p, RB_RED) l) (a, RB_BLACK) r) (g, RB_RED) U))"
    using set_COLOR_ex [OF 2(2), of RB_RED] by auto
  obtain h4 where 4: "RB_ROTATE_RIGHT h3 (Some g) = Some (h4, Some a)"
    "rep h4 (plug (FL a RB_BLACK (Node r (g, RB_RED) U) # k) (Node A (p, RB_RED) l))"
    using ROTATE_RIGHT_ex [OF 3(2)] by auto
  have "RB_INSERT_COLOR_body h (Some p) (Some a) = Some (h4, Some p)"
    using inv(5)
    by (simp add: RB_INSERT_COLOR_body_def RB_SET_BLACKRED_def rep_reads [OF p0] rep_reads [OF rep]
        rep_is_red [OF u0, simplified] 1 2 3 4)
  moreover have "ins_next (plug k (Node (Node A (p, RB_RED) ?t) (g, RB_BLACK) U))
      (length k + 2) (h4, Some p)"
    by (rule ins_nextI [OF 4(2)]) (use inv in \<open>auto simp: ins_inv_def invh_plug\<close>)
  ultimately show ?thesis by simp
qed

lemma body_RL:
  assumes rep: "rep h (plug k (Node U (g, RB_BLACK) (Node (Node l (a, RB_RED) r) (p, RB_RED) A)))"
    and inv: "invc (Node l (a, RB_RED) r)" "invc A" "col A = RB_BLACK" "invc U" "col U = RB_BLACK"
      "ctx_invc RB_BLACK k" "ctx_col RB_BLACK k = RB_BLACK"
      "invh (plug k (Node U (g, RB_BLACK) (Node (Node l (a, RB_RED) r) (p, RB_RED) A)))"
  shows "ok (RB_INSERT_COLOR_body h (Some p) (Some a)) (ins_next
     (plug k (Node U (g, RB_BLACK) (Node (Node l (a, RB_RED) r) (p, RB_RED) A))) (length k + 2))"
proof -
  let ?t = "Node l (a, RB_RED) r"
  have p0: "rep h (plug (FR U g RB_BLACK # k) (Node ?t (p, RB_RED) A))" using rep by simp
  have u0: "rep h (plug (FL g RB_BLACK (Node ?t (p, RB_RED) A) # k) U)" using rep by simp
  have neq: "Some p \<noteq> root_of U" using rep_distinct [OF rep] by auto
  obtain h1 where 1: "RB_ROTATE_RIGHT h (Some p) = Some (h1, Some a)"
    "rep h1 (plug (FR U g RB_BLACK # k) (Node l (a, RB_RED) (Node r (p, RB_RED) A)))"
    using ROTATE_RIGHT_ex [OF p0] by auto
  obtain h2 where 2: "set_COLOR h1 (Some a) RB_BLACK = Some h2"
    "rep h2 (plug k (Node U (g, RB_BLACK) (Node l (a, RB_BLACK) (Node r (p, RB_RED) A))))"
    using set_COLOR_ex [OF 1(2), of RB_BLACK] by auto
  obtain h3 where 3: "set_COLOR h2 (Some g) RB_RED = Some h3"
    "rep h3 (plug k (Node U (g, RB_RED) (Node l (a, RB_BLACK) (Node r (p, RB_RED) A))))"
    using set_COLOR_ex [OF 2(2), of RB_RED] by auto
  obtain h4 where 4: "RB_ROTATE_LEFT h3 (Some g) = Some (h4, Some a)"
    "rep h4 (plug (FR (Node U (g, RB_RED) l) a RB_BLACK # k) (Node r (p, RB_RED) A))"
    using ROTATE_LEFT_ex [OF 3(2)] by auto
  have "RB_INSERT_COLOR_body h (Some p) (Some a) = Some (h4, Some p)"
    using inv(5) neq
    by (simp add: RB_INSERT_COLOR_body_def RB_SET_BLACKRED_def rep_reads [OF p0] rep_reads [OF rep]
        rep_is_red [OF u0, simplified] 1 2 3 4)
  moreover have "ins_next (plug k (Node U (g, RB_BLACK) (Node ?t (p, RB_RED) A)))
      (length k + 2) (h4, Some p)"
    by (rule ins_nextI [OF 4(2)]) (use inv in \<open>auto simp: ins_inv_def invh_plug\<close>)
  ultimately show ?thesis by simp
qed

lemma INSERT_COLOR_body_ok:
  assumes rep: "rep h (plug k t)" and inv: "ins_inv k t"
    and red: "ctx_root k = Some p" "RB_COLOR h (Some p) = Some RB_RED"
  shows "ok (RB_INSERT_COLOR_body h (Some p) (root_of t)) (ins_next (plug k t) (length k))"
proof -
  obtain l a r where t: "t = Node l (a, RB_RED) r"
    using inv by (cases t rule: tree_cases) (auto simp: ins_inv_def)
  have base: "ctx_invc RB_BLACK k" "ctx_col RB_BLACK k = RB_BLACK" "invc t" "invh (plug k t)"
    using inv by (auto simp: ins_inv_def)
  show ?thesis
  proof (cases k rule: ctx_root.cases)
    case (2 p' c s k1)
    with red rep have c: "p' = p" "c = RB_RED" by (auto dest: rep_reads(4))
    show ?thesis
    proof (cases k1 rule: ctx_root.cases)
      case (2 g cg u k2)
      with \<open>k = _\<close> c base t rep inv show ?thesis
        using body_uncle_red_left [of h k2] body_LL [of h k2 t p s g u]
        by (cases u rule: tree_cases; cases "col u") (auto simp: ins_inv_def ctx_invc_black)
    next
      case (3 u g cg k2)
      with \<open>k = _\<close> c base t rep inv show ?thesis
        using body_uncle_red_right [of h k2] body_RL [of h k2 u g l a r p s]
        by (cases u rule: tree_cases; cases "col u") (auto simp: ins_inv_def ctx_invc_black)
    qed (use \<open>k = _\<close> c base in auto)
  next
    case (3 s p' c k1)
    with red rep have c: "p' = p" "c = RB_RED" by (auto dest: rep_reads(4))
    show ?thesis
    proof (cases k1 rule: ctx_root.cases)
      case (2 g cg u k2)
      with \<open>k = _\<close> c base t rep inv show ?thesis
        using body_uncle_red_left [of h k2] body_LR [of h k2 s p l a r g u]
        by (cases u rule: tree_cases; cases "col u") (auto simp: ins_inv_def ctx_invc_black)
    next
      case (3 u g cg k2)
      with \<open>k = _\<close> c base t rep inv show ?thesis
        using body_uncle_red_right [of h k2] body_RR [of h k2 u g s p t]
        by (cases u rule: tree_cases; cases "col u") (auto simp: ins_inv_def ctx_invc_black)
    qed (use \<open>k = _\<close> c base in auto)
  qed (use red in simp)
qed

subsection \<open>\<open>RB_INSERT_COLOR\<close>\<close>

lemma INSERT_COLOR_exit:
  assumes rep: "rep h (plug k t)" and inv: "ins_inv k t"
    and black: "ctx_root k = NULL \<or> RB_COLOR h (ctx_root k) = Some RB_BLACK"
  shows "\<exists>h' T. RB_INSERT_COLOR h (root_of t) = Some h' \<and> rep h' T \<and> is_rbt T \<and>
    nodes T = nodes (plug k t)"
proof -
  obtain l a r where t: "t = Node l (a, RB_RED) r"
    using inv by (cases t rule: tree_cases) (auto simp: ins_inv_def)
  have ne: "plug k t \<noteq> Leaf"
    using t by (metis Un_iff in_set_conv_decomp nodes_plug nodes_simps set_append list.set_intros(1) empty_iff empty_set)
  obtain h' where h': "set_COLOR h (root_of (plug k t)) RB_BLACK = Some h'"
      "rep h' (paint RB_BLACK (plug k t))"
    using set_root_black_ex [OF rep ne] by blast
  have "is_red h (ctx_root k) = Some False"
    using black by (auto simp: is_red_def)
  then have "RB_INSERT_COLOR h (root_of t) = Some h'"
    using rep_reads(3) [of h k l a RB_RED r] rep t h' rep_root [OF rep]
    by (subst RB_INSERT_COLOR.simps) simp
  moreover have "is_rbt (paint RB_BLACK (plug k t))"
  proof -
    have "ctx_invc (col t) k \<or> k = []"
      using inv black rep rep_reads(4) [of h]
      by (cases k rule: ctx_root.cases) (fastforce simp: ins_inv_def)+
    then have "invc (plug k t)" using inv by (auto simp: invc_plug ins_inv_def)
    then show ?thesis using inv by (simp add: is_rbt_def ins_inv_def)
  qed
  ultimately show ?thesis using h'(2) by auto
qed

lemma INSERT_COLOR_correct:
  assumes "rep h (plug k t)" and "ins_inv k t"
  shows "\<exists>h' T. RB_INSERT_COLOR h (root_of t) = Some h' \<and> rep h' T \<and> is_rbt T \<and>
    nodes T = nodes (plug k t)"
  using assms
proof (induction "length k" arbitrary: h k t rule: less_induct)
  case less
  obtain l a r where t: "t = Node l (a, RB_RED) r"
    using less.prems by (cases t rule: tree_cases) (auto simp: ins_inv_def)
  show ?case
  proof (cases "ctx_root k = NULL \<or> RB_COLOR h (ctx_root k) = Some RB_BLACK")
    case True
    then show ?thesis using INSERT_COLOR_exit less.prems by blast
  next
    case False
    then obtain p where p: "ctx_root k = Some p" by auto
    have red: "RB_COLOR h (Some p) = Some RB_RED"
      using False p less.prems(1) rep_reads(4) [of h]
      by (cases k rule: ctx_root.cases) fastforce+
    from INSERT_COLOR_body_ok [OF less.prems p red] obtain h1 k1 t1 where
      1: "RB_INSERT_COLOR_body h (Some p) (root_of t) = Some (h1, root_of t1)"
        "rep h1 (plug k1 t1)" "ins_inv k1 t1" "nodes (plug k1 t1) = nodes (plug k t)"
        "length k1 < length k"
      by (auto simp: ok_iff ins_next_def)
    have "RB_INSERT_COLOR h (root_of t) = RB_INSERT_COLOR h1 (root_of t1)"
      using rep_reads(3) [of h k l a RB_RED r] less.prems(1) t p red 1(1)
      by (subst RB_INSERT_COLOR.simps) (simp add: is_red_def)
    with less.hyps [OF 1(5,2,3)] 1(4) show ?thesis by simp
  qed
qed

subsection \<open>The search loops\<close>

lemma compares_sub: "compares cmp key x xs \<Longrightarrow> set ys \<subseteq> set xs \<Longrightarrow> compares cmp key x ys"
  by (auto simp: compares_def)

lemma ordered_append:
  "ordered key (xs @ ys) \<longleftrightarrow> ordered key xs \<and> ordered key ys \<and> (\<forall>x \<in> set xs. \<forall>y \<in> set ys. key x < key y)"
  by (simp add: ordered_def sorted_wrt_append)

lemma ordered_Cons:
  "ordered key (x # xs) \<longleftrightarrow> (\<forall>y \<in> set xs. key x < key y) \<and> ordered key xs"
  by (auto simp: ordered_def)

lemma ordered_Nil [simp]: "ordered key []"
  by (simp add: ordered_def)

lemma FIND_loop_correct:
  assumes "rep h (plug k t)" "ordered key (nodes t)" "compares cmp key x (nodes t)"
  shows "RB_FIND_loop cmp h (root_of t) = Some (find (\<lambda>a. key a = x) (nodes t))"
  using assms
proof (induction t arbitrary: k)
  case Leaf
  then show ?case by (subst RB_FIND_loop.simps) simp
next
  case (Node l v r)
  obtain a c where v: "v = (a, c)" by (cases v)
  note rd = rep_reads [OF Node.prems(1) [unfolded v]]
  have L: "RB_FIND_loop cmp h (root_of l) = Some (find (\<lambda>a. key a = x) (nodes l))"
    using Node.prems v by (intro Node.IH(1) [of "FL a c r # k"]) (auto simp: ordered_append compares_def)
  have R: "RB_FIND_loop cmp h (root_of r) = Some (find (\<lambda>a. key a = x) (nodes r))"
    using Node.prems v by (intro Node.IH(2) [of "FR l a c # k"]) (auto simp: ordered_append ordered_Cons compares_def)
  obtain i where i: "cmp a = Some i" "i < 0 \<longleftrightarrow> x < key a" "0 < i \<longleftrightarrow> key a < x"
    using Node.prems(3) v by (auto simp: compares_def)
  have lt: "\<forall>y \<in> set (nodes l). key y < key a" "\<forall>y \<in> set (nodes r). key a < key y"
    using Node.prems(2) v by (auto simp: ordered_append ordered_Cons)
  have none: "find (\<lambda>b. key b = x) (nodes l) = None" if "\<not> x < key a"
    using lt that by (auto simp: find_None_iff)
  have none': "find (\<lambda>b. key b = x) (a # nodes r) = None" if "x < key a"
    using lt that by (auto simp: find_None_iff)
  have app: "find P (xs @ ys) = (case find P xs of None \<Rightarrow> find P ys | Some z \<Rightarrow> Some z)"
    for P and xs ys :: "addr list" by (induction xs) auto
  show ?case
    using L R i rd v none none' lt
    by (subst RB_FIND_loop.simps) (auto simp: app split: option.splits)
qed

lemma NFIND_loop_correct:
  assumes "rep h (plug k t)" "ordered key (nodes t)" "compares cmp key x (nodes t)"
  shows "RB_NFIND_loop cmp h (root_of t) res =
    Some (case find (\<lambda>a. x \<le> key a) (nodes t) of None \<Rightarrow> res | Some a \<Rightarrow> Some a)"
  using assms
proof (induction t arbitrary: k res)
  case Leaf
  then show ?case by (subst RB_NFIND_loop.simps) simp
next
  case (Node l v r)
  obtain a c where v: "v = (a, c)" by (cases v)
  note rd = rep_reads [OF Node.prems(1) [unfolded v]]
  have L: "RB_NFIND_loop cmp h (root_of l) res' =
      Some (case find (\<lambda>a. x \<le> key a) (nodes l) of None \<Rightarrow> res' | Some a \<Rightarrow> Some a)" for res'
    using Node.prems v by (intro Node.IH(1) [of "FL a c r # k"]) (auto simp: ordered_append compares_def)
  have R: "RB_NFIND_loop cmp h (root_of r) res' =
      Some (case find (\<lambda>a. x \<le> key a) (nodes r) of None \<Rightarrow> res' | Some a \<Rightarrow> Some a)" for res'
    using Node.prems v by (intro Node.IH(2) [of "FR l a c # k"]) (auto simp: ordered_append ordered_Cons compares_def)
  obtain i where i: "cmp a = Some i" "i < 0 \<longleftrightarrow> x < key a" "0 < i \<longleftrightarrow> key a < x"
    using Node.prems(3) v by (auto simp: compares_def)
  have lt: "\<forall>y \<in> set (nodes l). key y < key a"
    using Node.prems(2) v by (auto simp: ordered_append ordered_Cons)
  have none: "find (\<lambda>b. x \<le> key b) (nodes l) = None" if "\<not> x < key a"
    using lt that by (force simp: find_None_iff)
  have app: "find P (xs @ ys) = (case find P xs of None \<Rightarrow> find P ys | Some z \<Rightarrow> Some z)"
    for P and xs ys :: "addr list" by (induction xs) auto
  show ?case
    using L R i rd v none
    by (subst RB_NFIND_loop.simps) (auto simp: app split: option.splits)
qed

lemma dir_okD:
  "dir_ok k cp \<Longrightarrow> k = FL a c r # k' \<Longrightarrow> cp < 0" "dir_ok k cp \<Longrightarrow> k = FR l a c # k' \<Longrightarrow> \<not> cp < 0"
  by auto

lemma descend_correct:
  assumes "rep h (plug k t)" "ordered key (nodes t)" "compares cmp key x (nodes t)"
    "\<forall>y \<in> set (lefts k). key y < x" "\<forall>y \<in> set (rights k). x < key y" "dir_ok k cp"
  shows "(\<exists>a \<in> set (nodes t). key a = x \<and>
      RB_descend cmp h (root_of t) (ctx_root k) cp = Some (Some a, Some a, 0)) \<or>
    (\<exists>k' cp'. RB_descend cmp h (root_of t) (ctx_root k) cp = Some (NULL, ctx_root k', cp') \<and>
      plug k' Leaf = plug k t \<and> dir_ok k' cp' \<and>
      (\<forall>y \<in> set (lefts k'). key y < x) \<and> (\<forall>y \<in> set (rights k'). x < key y))"
  using assms
proof (induction t arbitrary: k cp)
  case Leaf
  then show ?case by (subst RB_descend.simps, subst (2) RB_descend.simps) auto
next
  case (Node l v r)
  obtain a c where v: "v = (a, c)" by (cases v)
  note rd = rep_reads [OF Node.prems(1) [unfolded v]]
  obtain i where i: "cmp a = Some i" "i < 0 \<longleftrightarrow> x < key a" "0 < i \<longleftrightarrow> key a < x"
    using Node.prems(3) v by (auto simp: compares_def)
  have lt: "\<forall>y \<in> set (nodes l). key y < key a" "\<forall>y \<in> set (nodes r). key a < key y"
    using Node.prems(2) v by (auto simp: ordered_append ordered_Cons)
  have un: "RB_descend cmp h (root_of (Node l v r)) (ctx_root k) cp =
      (if i < 0 then RB_descend cmp h (root_of l) (Some a) i
       else if 0 < i then RB_descend cmp h (root_of r) (Some a) i else Some (Some a, Some a, 0))"
    using rd i(1) v by (subst RB_descend.simps) auto
  consider "i < 0" | "0 < i" | "i = 0" by linarith
  then show ?case
  proof cases
    case 1
    have "\<forall>y \<in> set (rights (FL a c r # k)). x < key y"
      using Node.prems(5) lt i 1 by fastforce
    then show ?thesis
      using Node.IH(1) [of "FL a c r # k" i] Node.prems v 1 un
      by (auto simp: ordered_append compares_def)
  next
    case 2
    have "\<forall>y \<in> set (lefts (FR l a c # k)). key y < x"
      using Node.prems(4) lt i 2 by fastforce
    then show ?thesis
      using Node.IH(2) [of "FR l a c # k" i] Node.prems v 2 un
      by (auto simp: ordered_append ordered_Cons compares_def)
  next
    case 3
    then show ?thesis using un i v by auto
  qed
qed

subsection \<open>\<open>RB_INSERT\<close>\<close>

lemma insort_key_split:
  assumes "\<forall>y \<in> set xs. key y < key e" "\<forall>y \<in> set ys. (key e :: 'k::linorder) < key y"
  shows "insort_key key e (xs @ ys) = xs @ e # ys"
proof -
  have "insort_key key e ys = e # ys"
    using assms(2) by (intro insort_is_Cons) (auto intro: less_imp_le)
  then show ?thesis using assms(1) by (induction xs) auto
qed

lemma INSERT_correct:
  assumes rep: "rep h T" and rbt: "is_rbt T" and ord: "ordered key (nodes T)"
    and cmp: "compares cmp key (key e) (nodes T)" and e: "e \<notin> set (nodes T)" "rb_node h e \<noteq> None"
  shows "(\<exists>a \<in> set (nodes T). key a = key e \<and> RB_INSERT cmp h (Some e) = Some (h, Some a)) \<or>
    ((\<forall>a \<in> set (nodes T). key a \<noteq> key e) \<and>
     (\<exists>h' T'. RB_INSERT cmp h (Some e) = Some (h', NULL) \<and> rep h' T' \<and> is_rbt T' \<and>
        ordered key (nodes T') \<and> nodes T' = insort_key key e (nodes T)))"
proof -
  have "rep h (plug [] T)" using rep by simp
  from descend_correct [OF this ord cmp, of 0] consider
    a where "a \<in> set (nodes T)" "key a = key e"
      "RB_descend cmp h (root_of T) NULL 0 = Some (Some a, Some a, 0)"
  | k cp where "RB_descend cmp h (root_of T) NULL 0 = Some (NULL, ctx_root k, cp)" "plug k Leaf = T"
      "dir_ok k cp" "\<forall>y \<in> set (lefts k). key y < key e" "\<forall>y \<in> set (rights k). key e < key y"
    by auto
  then show ?thesis
  proof cases
    case 1
    then show ?thesis using rep_root [OF rep] by (auto simp: RB_INSERT_def RB_ROOT_def)
  next
    case 2
    let ?t = "Node Leaf (e, RB_RED) Leaf"
    have n: "nodes T = lefts k @ rights k" using 2(2) by auto
    have "\<exists>h1 h'. RB_SET h (Some e) (ctx_root k) = Some h1 \<and>
      (if ctx_root k \<noteq> NULL then
         (if cp < 0 then set_LEFT h1 (ctx_root k) (Some e) else set_RIGHT h1 (ctx_root k) (Some e))
       else Some (h1\<lparr>rbh_root := Some e\<rparr>)) = Some h' \<and> rep h' (plug k ?t)"
      using rep 2 e n by (intro link_ex) (auto dest: dir_okD)
    then obtain h1 h2 where 3: "RB_SET h (Some e) (ctx_root k) = Some h1"
      "(if ctx_root k \<noteq> NULL then
         (if cp < 0 then set_LEFT h1 (ctx_root k) (Some e) else set_RIGHT h1 (ctx_root k) (Some e))
       else Some (h1\<lparr>rbh_root := Some e\<rparr>)) = Some h2" "rep h2 (plug k ?t)" by auto
    have "invc (plug k Leaf)" "invh (plug k Leaf)" "col (plug k Leaf) = RB_BLACK"
      using rbt 2(2) by (auto simp: is_rbt_def)
    then have "ins_inv k ?t" by (auto simp: ins_inv_def invc_plug invh_plug col_plug)
    from INSERT_COLOR_correct [OF 3(3) this] obtain h' T' where
      4: "RB_INSERT_COLOR h2 (Some e) = Some h'" "rep h' T'" "is_rbt T'"
        "nodes T' = lefts k @ e # rights k" by auto
    have "RB_INSERT cmp h (Some e) = Some (h', NULL)"
      using 2(1) 3(1,2) 4(1) rep_root [OF rep] by (simp add: RB_INSERT_def RB_ROOT_def)
    moreover have "ordered key (nodes T')"
      using 4(4) ord n 2(4,5) by (auto simp: ordered_append ordered_Cons)
    moreover have "nodes T' = insort_key key e (nodes T)"
      using 4(4) n 2(4,5) by (simp add: insort_key_split)
    moreover have "\<forall>a \<in> set (nodes T). key a \<noteq> key e" using n 2(4,5) by auto
    ultimately show ?thesis using 4 by blast
  qed
qed

end
