(* ===== verification/RB_Remove.thy ===== *)
theory RB_Remove
  imports RB_Insert
begin

text \<open>
  \<open>RB_REMOVE_COLOR\<close> and \<open>RB_REMOVE\<close>: on a heap that holds a red-black tree with the element in it
  they return, and the heap then holds a red-black tree with the other elements, in their order.
\<close>

text \<open>The invariant of the loop of \<open>RB_REMOVE_COLOR\<close>: the tree at the hole is one black node
  short, and painting its root black gives a tree without red-red edges.\<close>

definition rem_inv :: "frame list \<Rightarrow> rbt \<Rightarrow> bool" where
  "rem_inv k t = (invc (paint RB_BLACK t) \<and> invh t \<and> ctx_invc RB_BLACK k \<and>
     ctx_invh (bheight t + 1) k \<and> ctx_col RB_BLACK k = RB_BLACK)"

text \<open>What the body of the loop leaves: the same invariant, with a shorter path to the root or a red
  node at the hole; or, at \<open>break\<close>, a tree in order but for the colour of its root.\<close>

definition rem_next :: "rbt \<Rightarrow> nat \<Rightarrow> rb_tree \<times> ptr \<times> ptr \<times> bool \<Rightarrow> bool" where
  "rem_next T n = (\<lambda>(h, parent, e, brk).
     if brk then (\<exists>T'. e = root_of T' \<and> rep h T' \<and> invc T' \<and> invh T' \<and> nodes T' = nodes T)
     else (\<exists>k t. e = root_of t \<and> parent = ctx_root k \<and> rep h (plug k t) \<and> rem_inv k t \<and>
             nodes (plug k t) = nodes T \<and> (length k < n \<or> col t = RB_RED)))"

text \<open>The path from a tree down to its leftmost node.\<close>

fun min_path :: "rbt \<Rightarrow> frame list \<Rightarrow> frame list \<times> rbt" where
  "min_path (Node (Node l' v' r') (a, c) r) k = min_path (Node l' v' r') (FL a c r # k)"
| "min_path t k = (k, t)"

text \<open>The state in which the body looks at a black sibling: the hole \<open>t\<close> is black and one black node
  short, its parent has colour \<open>c\<close>, the sibling has children \<open>C\<close> and \<open>D\<close>.\<close>

definition sib_inv :: "frame list \<Rightarrow> rbt \<Rightarrow> rb_color \<Rightarrow> rbt \<Rightarrow> rbt \<Rightarrow> bool" where
  "sib_inv k t c C D = (invc t \<and> invh t \<and> col t = RB_BLACK \<and> invc C \<and> invc D \<and> invh C \<and> invh D \<and>
     bheight C = bheight t \<and> bheight D = bheight t \<and> ctx_invc c k \<and>
     ctx_invh (if c = RB_BLACK then Suc (bheight t) + 1 else Suc (bheight t)) k \<and> ctx_col c k = RB_BLACK)"

lemma ctx_col_black: "ctx_col c k = RB_BLACK \<Longrightarrow> ctx_col RB_BLACK k = RB_BLACK"
  by (cases k rule: ctx_root.cases) auto

lemma bheight_paint_black: "col t = RB_RED \<Longrightarrow> bheight (paint RB_BLACK t) = bheight t + 1"
  by (cases t rule: tree_cases) auto

lemma paint_black_id: "col t = RB_BLACK \<Longrightarrow> paint RB_BLACK t = t"
  by (cases t rule: tree_cases) auto

lemma rem_next_contI:
  "rep h (plug k t) \<Longrightarrow> e = root_of t \<Longrightarrow> p = ctx_root k \<Longrightarrow> rem_inv k t \<Longrightarrow>
   nodes (plug k t) = nodes T \<Longrightarrow> length k < n \<or> col t = RB_RED \<Longrightarrow> rem_next T n (h, p, e, False)"
  by (auto simp: rem_next_def)

lemma rem_next_breakI:
  "rep h T' \<Longrightarrow> e = root_of T' \<Longrightarrow> invc T' \<Longrightarrow> invh T' \<Longrightarrow> nodes T' = nodes T \<Longrightarrow>
   rem_next T n (h, p, e, True)"
  by (auto simp: rem_next_def)

subsection \<open>The black sibling, on the right of the hole\<close>

lemma rem_left_recolour:
  assumes rep: "rep h (plug k (Node t (p, c) (Node C (s, RB_BLACK) D)))"
    and inv: "sib_inv k t c C D" and col: "col C = RB_BLACK" "col D = RB_BLACK"
    and n: "length k < n \<or> c = RB_RED"
  shows "ok (RB_REMOVE_COLOR_left h (Some p) (Some s))
    (rem_next (plug k (Node t (p, c) (Node C (s, RB_BLACK) D))) n)"
proof -
  have s0: "rep h (plug (FR t p c # k) (Node C (s, RB_BLACK) D))" using rep by simp
  have C0: "rep h (plug (FL s RB_BLACK D # FR t p c # k) C)" using rep by simp
  have D0: "rep h (plug (FR C s RB_BLACK # FR t p c # k) D)" using rep by simp
  obtain h1 where 1: "set_COLOR h (Some s) RB_RED = Some h1"
      "rep h1 (plug k (Node t (p, c) (Node C (s, RB_RED) D)))"
    using set_COLOR_ex [OF s0, of RB_RED] by auto
  then have "RB_REMOVE_COLOR_left h (Some p) (Some s) = Some (h1, ctx_root k, Some p, False)"
    using col rep_reads(3) [OF 1(2)]
    by (simp add: RB_REMOVE_COLOR_left_def rep_reads [OF s0] rep_is_black [OF C0] rep_is_black [OF D0])
  moreover have "rem_inv k (Node t (p, c) (Node C (s, RB_RED) D))"
    using inv col by (auto simp: rem_inv_def sib_inv_def ctx_invc_black ctx_col_black split: if_splits)
  ultimately show ?thesis
    using rem_next_contI [OF 1(2)] n by simp
qed

lemma rem_left_far_red:
  assumes rep: "rep h (plug k (Node t (p, c) (Node C (s, RB_BLACK) (Node D1 (d, RB_RED) D2))))"
    and inv: "sib_inv k t c C (Node D1 (d, RB_RED) D2)"
  shows "ok (RB_REMOVE_COLOR_left h (Some p) (Some s))
    (rem_next (plug k (Node t (p, c) (Node C (s, RB_BLACK) (Node D1 (d, RB_RED) D2)))) n)"
proof -
  let ?D = "\<lambda>c. Node D1 (d, c) D2"
  have s0: "rep h (plug (FR t p c # k) (Node C (s, RB_BLACK) (?D RB_RED)))" using rep by simp
  have C0: "rep h (plug (FL s RB_BLACK (?D RB_RED) # FR t p c # k) C)" using rep by simp
  have D0: "rep h (plug (FR C s RB_BLACK # FR t p c # k) (?D RB_RED))" using rep by simp
  obtain h1 where 1: "set_COLOR h (Some s) c = Some h1"
      "rep h1 (plug k (Node t (p, c) (Node C (s, c) (?D RB_RED))))"
    using set_COLOR_ex [OF s0, of c] by auto
  obtain h2 where 2: "set_COLOR h1 (Some p) RB_BLACK = Some h2"
      "rep h2 (plug (FR t p RB_BLACK # k) (Node C (s, c) (?D RB_RED)))"
    using set_COLOR_ex [OF 1(2), of RB_BLACK] by auto
  have D2: "rep h2 (plug (FR C s c # FR t p RB_BLACK # k) (?D RB_RED))" using 2(2) by simp
  obtain h3 where 3: "set_COLOR h2 (Some d) RB_BLACK = Some h3"
      "rep h3 (plug k (Node t (p, RB_BLACK) (Node C (s, c) (?D RB_BLACK))))"
    using set_COLOR_ex [OF D2, of RB_BLACK] by auto
  obtain h4 where 4: "RB_ROTATE_LEFT h3 (Some p) = Some (h4, Some s)"
      "rep h4 (plug k (Node (Node t (p, RB_BLACK) C) (s, c) (?D RB_BLACK)))"
    using ROTATE_LEFT_ex [OF 3(2)] by auto
  have "RB_REMOVE_COLOR_left h (Some p) (Some s) = Some (h4, Some p, RB_ROOT h4, True)"
    by (simp add: RB_REMOVE_COLOR_left_def rep_reads [OF s0] rep_is_black [OF C0]
        rep_is_black [OF D0, simplified] rep_reads [OF rep] rep_reads [OF 2(2)] 1 2 3 4)
  moreover have "rem_next (plug k (Node t (p, c) (Node C (s, RB_BLACK) (?D RB_RED)))) n
      (h4, Some p, RB_ROOT h4, True)"
    using inv
    by (intro rem_next_breakI [OF 4(2)])
       (auto simp: RB_ROOT_def rep_root [OF 4(2)] sib_inv_def invc_plug invh_plug)
  ultimately show ?thesis by simp
qed

lemma rem_left_near_red:
  assumes rep: "rep h (plug k (Node t (p, c) (Node (Node C1 (x, RB_RED) C2) (s, RB_BLACK) D)))"
    and inv: "sib_inv k t c (Node C1 (x, RB_RED) C2) D" and col: "col D = RB_BLACK"
  shows "ok (RB_REMOVE_COLOR_left h (Some p) (Some s))
    (rem_next (plug k (Node t (p, c) (Node (Node C1 (x, RB_RED) C2) (s, RB_BLACK) D))) n)"
proof -
  let ?C = "\<lambda>c. Node C1 (x, c) C2"
  have s0: "rep h (plug (FR t p c # k) (Node (?C RB_RED) (s, RB_BLACK) D))" using rep by simp
  have C0: "rep h (plug (FL s RB_BLACK D # FR t p c # k) (?C RB_RED))" using rep by simp
  have D0: "rep h (plug (FR (?C RB_RED) s RB_BLACK # FR t p c # k) D)" using rep by simp
  obtain h1 where 1: "set_COLOR h (Some x) RB_BLACK = Some h1"
      "rep h1 (plug (FR t p c # k) (Node (?C RB_BLACK) (s, RB_BLACK) D))"
    using set_COLOR_ex [OF C0, of RB_BLACK] by auto
  obtain h2 where 2: "set_COLOR h1 (Some s) RB_RED = Some h2"
      "rep h2 (plug (FR t p c # k) (Node (?C RB_BLACK) (s, RB_RED) D))"
    using set_COLOR_ex [OF 1(2), of RB_RED] by auto
  obtain h3 where 3: "RB_ROTATE_RIGHT h2 (Some s) = Some (h3, Some x)"
      "rep h3 (plug (FR t p c # k) (Node C1 (x, RB_BLACK) (Node C2 (s, RB_RED) D)))"
    using ROTATE_RIGHT_ex [OF 2(2)] by auto
  have p3: "rep h3 (plug k (Node t (p, c) (Node C1 (x, RB_BLACK) (Node C2 (s, RB_RED) D))))"
    using 3(2) by simp
  obtain h4 where 4: "set_COLOR h3 (Some x) c = Some h4"
      "rep h4 (plug k (Node t (p, c) (Node C1 (x, c) (Node C2 (s, RB_RED) D))))"
    using set_COLOR_ex [OF 3(2), of c] by auto
  obtain h5 where 5: "set_COLOR h4 (Some p) RB_BLACK = Some h5"
      "rep h5 (plug (FR t p RB_BLACK # k) (Node C1 (x, c) (Node C2 (s, RB_RED) D)))"
    using set_COLOR_ex [OF 4(2), of RB_BLACK] by auto
  have s5: "rep h5 (plug (FR C1 x c # FR t p RB_BLACK # k) (Node C2 (s, RB_RED) D))" using 5(2) by simp
  obtain h6 where 6: "set_COLOR h5 (Some s) RB_BLACK = Some h6"
      "rep h6 (plug k (Node t (p, RB_BLACK) (Node C1 (x, c) (Node C2 (s, RB_BLACK) D))))"
    using set_COLOR_ex [OF s5, of RB_BLACK] by auto
  obtain h7 where 7: "RB_ROTATE_LEFT h6 (Some p) = Some (h7, Some x)"
      "rep h7 (plug k (Node (Node t (p, RB_BLACK) C1) (x, c) (Node C2 (s, RB_BLACK) D)))"
    using ROTATE_LEFT_ex [OF 6(2)] by auto
  have "RB_REMOVE_COLOR_left h (Some p) (Some s) = Some (h7, Some p, RB_ROOT h7, True)"
    using col
    by (simp add: RB_REMOVE_COLOR_left_def rep_reads [OF s0] rep_is_black [OF C0, simplified]
        rep_is_black [OF D0] rep_reads [OF p3] rep_reads [OF 5(2)] 1 2 3 4 5 6 7)
  moreover have "rem_next (plug k (Node t (p, c) (Node (?C RB_RED) (s, RB_BLACK) D))) n
      (h7, Some p, RB_ROOT h7, True)"
    using inv col
    by (intro rem_next_breakI [OF 7(2)])
       (auto simp: RB_ROOT_def rep_root [OF 7(2)] sib_inv_def invc_plug invh_plug)
  ultimately show ?thesis by simp
qed

lemma rem_left_ok:
  assumes rep: "rep h (plug k (Node t (p, c) (Node C (s, RB_BLACK) D)))" and inv: "sib_inv k t c C D"
    and n: "length k < n \<or> c = RB_RED"
  shows "ok (RB_REMOVE_COLOR_left h (Some p) (Some s))
    (rem_next (plug k (Node t (p, c) (Node C (s, RB_BLACK) D))) n)"
proof (cases "col D")
  case RB_RED
  then show ?thesis using assms rem_left_far_red by (cases D rule: tree_cases) auto
next
  case RB_BLACK
  then show ?thesis
    using assms rem_left_near_red rem_left_recolour by (cases C rule: tree_cases; cases "col C") auto
qed

subsection \<open>The black sibling, on the left of the hole\<close>

lemma rem_right_recolour:
  assumes rep: "rep h (plug k (Node (Node D (s, RB_BLACK) C) (p, c) t))"
    and inv: "sib_inv k t c C D" and col: "col C = RB_BLACK" "col D = RB_BLACK"
    and n: "length k < n \<or> c = RB_RED"
  shows "ok (RB_REMOVE_COLOR_right h (Some p) (Some s))
    (rem_next (plug k (Node (Node D (s, RB_BLACK) C) (p, c) t)) n)"
proof -
  have s0: "rep h (plug (FL p c t # k) (Node D (s, RB_BLACK) C))" using rep by simp
  have C0: "rep h (plug (FR D s RB_BLACK # FL p c t # k) C)" using rep by simp
  have D0: "rep h (plug (FL s RB_BLACK C # FL p c t # k) D)" using rep by simp
  obtain h1 where 1: "set_COLOR h (Some s) RB_RED = Some h1"
      "rep h1 (plug k (Node (Node D (s, RB_RED) C) (p, c) t))"
    using set_COLOR_ex [OF s0, of RB_RED] by auto
  then have "RB_REMOVE_COLOR_right h (Some p) (Some s) = Some (h1, ctx_root k, Some p, False)"
    using col rep_reads(3) [OF 1(2)]
    by (simp add: RB_REMOVE_COLOR_right_def rep_reads [OF s0] rep_is_black [OF C0] rep_is_black [OF D0])
  moreover have "rem_inv k (Node (Node D (s, RB_RED) C) (p, c) t)"
    using inv col by (auto simp: rem_inv_def sib_inv_def ctx_invc_black ctx_col_black split: if_splits)
  ultimately show ?thesis
    using rem_next_contI [OF 1(2)] n by simp
qed

lemma rem_right_far_red:
  assumes rep: "rep h (plug k (Node (Node (Node D1 (d, RB_RED) D2) (s, RB_BLACK) C) (p, c) t))"
    and inv: "sib_inv k t c C (Node D1 (d, RB_RED) D2)"
  shows "ok (RB_REMOVE_COLOR_right h (Some p) (Some s))
    (rem_next (plug k (Node (Node (Node D1 (d, RB_RED) D2) (s, RB_BLACK) C) (p, c) t)) n)"
proof -
  let ?D = "\<lambda>c. Node D1 (d, c) D2"
  have s0: "rep h (plug (FL p c t # k) (Node (?D RB_RED) (s, RB_BLACK) C))" using rep by simp
  have D0: "rep h (plug (FL s RB_BLACK C # FL p c t # k) (?D RB_RED))" using rep by simp
  obtain h1 where 1: "set_COLOR h (Some s) c = Some h1"
      "rep h1 (plug k (Node (Node (?D RB_RED) (s, c) C) (p, c) t))"
    using set_COLOR_ex [OF s0, of c] by auto
  obtain h2 where 2: "set_COLOR h1 (Some p) RB_BLACK = Some h2"
      "rep h2 (plug (FL p RB_BLACK t # k) (Node (?D RB_RED) (s, c) C))"
    using set_COLOR_ex [OF 1(2), of RB_BLACK] by auto
  have D2: "rep h2 (plug (FL s c C # FL p RB_BLACK t # k) (?D RB_RED))" using 2(2) by simp
  obtain h3 where 3: "set_COLOR h2 (Some d) RB_BLACK = Some h3"
      "rep h3 (plug k (Node (Node (?D RB_BLACK) (s, c) C) (p, RB_BLACK) t))"
    using set_COLOR_ex [OF D2, of RB_BLACK] by auto
  obtain h4 where 4: "RB_ROTATE_RIGHT h3 (Some p) = Some (h4, Some s)"
      "rep h4 (plug k (Node (?D RB_BLACK) (s, c) (Node C (p, RB_BLACK) t)))"
    using ROTATE_RIGHT_ex [OF 3(2)] by auto
  have "RB_REMOVE_COLOR_right h (Some p) (Some s) = Some (h4, Some p, RB_ROOT h4, True)"
    by (simp add: RB_REMOVE_COLOR_right_def rep_reads [OF s0]
        rep_is_black [OF D0, simplified] rep_reads [OF rep] rep_reads [OF 2(2)] 1 2 3 4)
  moreover have "rem_next (plug k (Node (Node (?D RB_RED) (s, RB_BLACK) C) (p, c) t)) n
      (h4, Some p, RB_ROOT h4, True)"
    using inv
    by (intro rem_next_breakI [OF 4(2)])
       (auto simp: RB_ROOT_def rep_root [OF 4(2)] sib_inv_def invc_plug invh_plug)
  ultimately show ?thesis by simp
qed

lemma rem_right_near_red:
  assumes rep: "rep h (plug k (Node (Node D (s, RB_BLACK) (Node C1 (x, RB_RED) C2)) (p, c) t))"
    and inv: "sib_inv k t c (Node C1 (x, RB_RED) C2) D" and col: "col D = RB_BLACK"
  shows "ok (RB_REMOVE_COLOR_right h (Some p) (Some s))
    (rem_next (plug k (Node (Node D (s, RB_BLACK) (Node C1 (x, RB_RED) C2)) (p, c) t)) n)"
proof -
  let ?C = "\<lambda>c. Node C1 (x, c) C2"
  have s0: "rep h (plug (FL p c t # k) (Node D (s, RB_BLACK) (?C RB_RED)))" using rep by simp
  have C0: "rep h (plug (FR D s RB_BLACK # FL p c t # k) (?C RB_RED))" using rep by simp
  have D0: "rep h (plug (FL s RB_BLACK (?C RB_RED) # FL p c t # k) D)" using rep by simp
  obtain h1 where 1: "set_COLOR h (Some x) RB_BLACK = Some h1"
      "rep h1 (plug (FL p c t # k) (Node D (s, RB_BLACK) (?C RB_BLACK)))"
    using set_COLOR_ex [OF C0, of RB_BLACK] by auto
  obtain h2 where 2: "set_COLOR h1 (Some s) RB_RED = Some h2"
      "rep h2 (plug (FL p c t # k) (Node D (s, RB_RED) (?C RB_BLACK)))"
    using set_COLOR_ex [OF 1(2), of RB_RED] by auto
  obtain h3 where 3: "RB_ROTATE_LEFT h2 (Some s) = Some (h3, Some x)"
      "rep h3 (plug (FL p c t # k) (Node (Node D (s, RB_RED) C1) (x, RB_BLACK) C2))"
    using ROTATE_LEFT_ex [OF 2(2)] by auto
  have p3: "rep h3 (plug k (Node (Node (Node D (s, RB_RED) C1) (x, RB_BLACK) C2) (p, c) t))"
    using 3(2) by simp
  obtain h4 where 4: "set_COLOR h3 (Some x) c = Some h4"
      "rep h4 (plug k (Node (Node (Node D (s, RB_RED) C1) (x, c) C2) (p, c) t))"
    using set_COLOR_ex [OF 3(2), of c] by auto
  obtain h5 where 5: "set_COLOR h4 (Some p) RB_BLACK = Some h5"
      "rep h5 (plug (FL p RB_BLACK t # k) (Node (Node D (s, RB_RED) C1) (x, c) C2))"
    using set_COLOR_ex [OF 4(2), of RB_BLACK] by auto
  have s5: "rep h5 (plug (FL x c C2 # FL p RB_BLACK t # k) (Node D (s, RB_RED) C1))" using 5(2) by simp
  obtain h6 where 6: "set_COLOR h5 (Some s) RB_BLACK = Some h6"
      "rep h6 (plug k (Node (Node (Node D (s, RB_BLACK) C1) (x, c) C2) (p, RB_BLACK) t))"
    using set_COLOR_ex [OF s5, of RB_BLACK] by auto
  obtain h7 where 7: "RB_ROTATE_RIGHT h6 (Some p) = Some (h7, Some x)"
      "rep h7 (plug k (Node (Node D (s, RB_BLACK) C1) (x, c) (Node C2 (p, RB_BLACK) t)))"
    using ROTATE_RIGHT_ex [OF 6(2)] by auto
  have "RB_REMOVE_COLOR_right h (Some p) (Some s) = Some (h7, Some p, RB_ROOT h7, True)"
    using col
    by (simp add: RB_REMOVE_COLOR_right_def rep_reads [OF s0] rep_is_black [OF C0, simplified]
        rep_is_black [OF D0] rep_reads [OF p3] rep_reads [OF 5(2)] 1 2 3 4 5 6 7)
  moreover have "rem_next (plug k (Node (Node D (s, RB_BLACK) (?C RB_RED)) (p, c) t)) n
      (h7, Some p, RB_ROOT h7, True)"
    using inv col
    by (intro rem_next_breakI [OF 7(2)])
       (auto simp: RB_ROOT_def rep_root [OF 7(2)] sib_inv_def invc_plug invh_plug)
  ultimately show ?thesis by simp
qed

lemma rem_right_ok:
  assumes rep: "rep h (plug k (Node (Node D (s, RB_BLACK) C) (p, c) t))" and inv: "sib_inv k t c C D"
    and n: "length k < n \<or> c = RB_RED"
  shows "ok (RB_REMOVE_COLOR_right h (Some p) (Some s))
    (rem_next (plug k (Node (Node D (s, RB_BLACK) C) (p, c) t)) n)"
proof (cases "col D")
  case RB_RED
  then show ?thesis using assms rem_right_far_red by (cases D rule: tree_cases) auto
next
  case RB_BLACK
  then show ?thesis
    using assms rem_right_near_red rem_right_recolour by (cases C rule: tree_cases; cases "col C") auto
qed

subsection \<open>The whole body: the red sibling first\<close>

lemma rem_next_cong: "nodes T = nodes T' \<Longrightarrow> rem_next T n = rem_next T' n"
  by (simp add: rem_next_def)

lemma body_left_black:
  assumes rep: "rep h (plug k (Node t (p, c) (Node C (s, RB_BLACK) D)))" and inv: "sib_inv k t c C D"
  shows "ok (RB_REMOVE_COLOR_body h (Some p) (root_of t))
    (rem_next (plug k (Node t (p, c) (Node C (s, RB_BLACK) D))) (length k + 1))"
proof -
  have s0: "rep h (plug (FR t p c # k) (Node C (s, RB_BLACK) D))" using rep by simp
  have "RB_REMOVE_COLOR_body h (Some p) (root_of t) = RB_REMOVE_COLOR_left h (Some p) (Some s)"
    by (simp add: RB_REMOVE_COLOR_body_def rep_reads [OF rep] rep_reads [OF s0])
  with rem_left_ok [OF assms, of "length k + 1"] show ?thesis by simp
qed

lemma body_left_red:
  assumes rep: "rep h (plug k (Node t (p, RB_BLACK) (Node (Node C (y, RB_BLACK) D) (s, RB_RED) E)))"
    and inv: "sib_inv (FL s RB_BLACK E # k) t RB_RED C D"
  shows "ok (RB_REMOVE_COLOR_body h (Some p) (root_of t))
    (rem_next (plug k (Node t (p, RB_BLACK) (Node (Node C (y, RB_BLACK) D) (s, RB_RED) E))) n)"
proof -
  let ?Y = "Node C (y, RB_BLACK) D"
  have s0: "rep h (plug (FR t p RB_BLACK # k) (Node ?Y (s, RB_RED) E))" using rep by simp
  obtain h1 where 1: "set_COLOR h (Some s) RB_BLACK = Some h1"
      "rep h1 (plug k (Node t (p, RB_BLACK) (Node ?Y (s, RB_BLACK) E)))"
    using set_COLOR_ex [OF s0, of RB_BLACK] by auto
  obtain h2 where 2: "set_COLOR h1 (Some p) RB_RED = Some h2"
      "rep h2 (plug k (Node t (p, RB_RED) (Node ?Y (s, RB_BLACK) E)))"
    using set_COLOR_ex [OF 1(2), of RB_RED] by auto
  obtain h3 where 3: "RB_ROTATE_LEFT h2 (Some p) = Some (h3, Some s)"
      "rep h3 (plug (FL s RB_BLACK E # k) (Node t (p, RB_RED) ?Y))"
    using ROTATE_LEFT_ex [OF 2(2)] by auto
  have "RB_REMOVE_COLOR_body h (Some p) (root_of t) = RB_REMOVE_COLOR_left h3 (Some p) (Some y)"
    by (simp add: RB_REMOVE_COLOR_body_def RB_SET_BLACKRED_def rep_reads [OF rep] rep_reads [OF s0]
        rep_reads [OF 3(2)] 1 2 3)
  moreover have "ok (RB_REMOVE_COLOR_left h3 (Some p) (Some y))
      (rem_next (plug (FL s RB_BLACK E # k) (Node t (p, RB_RED) ?Y)) n)"
    by (rule rem_left_ok [OF 3(2) inv]) simp
  ultimately show ?thesis
    by (subst (asm) rem_next_cong [where T' = "plug k (Node t (p, RB_BLACK) (Node ?Y (s, RB_RED) E))"]) auto
qed

lemma body_right_black:
  assumes rep: "rep h (plug k (Node (Node D (s, RB_BLACK) C) (p, c) t))" and inv: "sib_inv k t c C D"
  shows "ok (RB_REMOVE_COLOR_body h (Some p) (root_of t))
    (rem_next (plug k (Node (Node D (s, RB_BLACK) C) (p, c) t)) (length k + 1))"
proof -
  have s0: "rep h (plug (FL p c t # k) (Node D (s, RB_BLACK) C))" using rep by simp
  have "root_of t \<noteq> Some s" using rep_distinct [OF rep] by auto
  then have "RB_REMOVE_COLOR_body h (Some p) (root_of t) = RB_REMOVE_COLOR_right h (Some p) (Some s)"
    by (simp add: RB_REMOVE_COLOR_body_def rep_reads [OF rep] rep_reads [OF s0])
  with rem_right_ok [OF assms, of "length k + 1"] show ?thesis by simp
qed

lemma body_right_red:
  assumes rep: "rep h (plug k (Node (Node E (s, RB_RED) (Node D (y, RB_BLACK) C)) (p, RB_BLACK) t))"
    and inv: "sib_inv (FR E s RB_BLACK # k) t RB_RED C D"
  shows "ok (RB_REMOVE_COLOR_body h (Some p) (root_of t))
    (rem_next (plug k (Node (Node E (s, RB_RED) (Node D (y, RB_BLACK) C)) (p, RB_BLACK) t)) n)"
proof -
  let ?Y = "Node D (y, RB_BLACK) C"
  have s0: "rep h (plug (FL p RB_BLACK t # k) (Node E (s, RB_RED) ?Y))" using rep by simp
  have neq: "root_of t \<noteq> Some s" using rep_distinct [OF rep] by auto
  obtain h1 where 1: "set_COLOR h (Some s) RB_BLACK = Some h1"
      "rep h1 (plug k (Node (Node E (s, RB_BLACK) ?Y) (p, RB_BLACK) t))"
    using set_COLOR_ex [OF s0, of RB_BLACK] by auto
  obtain h2 where 2: "set_COLOR h1 (Some p) RB_RED = Some h2"
      "rep h2 (plug k (Node (Node E (s, RB_BLACK) ?Y) (p, RB_RED) t))"
    using set_COLOR_ex [OF 1(2), of RB_RED] by auto
  obtain h3 where 3: "RB_ROTATE_RIGHT h2 (Some p) = Some (h3, Some s)"
      "rep h3 (plug (FR E s RB_BLACK # k) (Node ?Y (p, RB_RED) t))"
    using ROTATE_RIGHT_ex [OF 2(2)] by auto
  have "RB_REMOVE_COLOR_body h (Some p) (root_of t) = RB_REMOVE_COLOR_right h3 (Some p) (Some y)"
    using neq
    by (simp add: RB_REMOVE_COLOR_body_def RB_SET_BLACKRED_def rep_reads [OF rep] rep_reads [OF s0]
        rep_reads [OF 3(2)] 1 2 3)
  moreover have "ok (RB_REMOVE_COLOR_right h3 (Some p) (Some y))
      (rem_next (plug (FR E s RB_BLACK # k) (Node ?Y (p, RB_RED) t)) n)"
    by (rule rem_right_ok [OF 3(2) inv]) simp
  ultimately show ?thesis
    by (subst (asm) rem_next_cong [where T' = "plug k (Node (Node E (s, RB_RED) ?Y) (p, RB_BLACK) t)"]) auto
qed

text \<open>The sibling of a short hole is a proper node; if it is red, its children are black nodes.\<close>

lemma short_hole_sibling:
  assumes "invh s" "invc s" "bheight s = n + 1"
  obtains C y D where "s = Node C (y, RB_BLACK) D" "bheight C = n" "bheight D = n" "invh C" "invh D"
      "invc C" "invc D"
  | E y F where "s = Node E (y, RB_RED) F" "col E = RB_BLACK" "col F = RB_BLACK" "bheight E = n + 1"
      "bheight F = n + 1" "invh E" "invh F" "invc E" "invc F"
  using assms by (cases s rule: tree_cases; cases "col s") auto

lemma short_hole_black:
  assumes "invh s" "invc s" "bheight s = n + 1" "col s = RB_BLACK"
  obtains C y D where "s = Node C (y, RB_BLACK) D" "bheight C = n" "bheight D = n" "invh C" "invh D"
      "invc C" "invc D"
  using assms by (cases s rule: tree_cases) auto

lemma REMOVE_COLOR_body_ok:
  assumes rep: "rep h (plug k t)" and inv: "rem_inv k t" and blk: "col t = RB_BLACK" and k: "k \<noteq> []"
  shows "ok (RB_REMOVE_COLOR_body h (ctx_root k) (root_of t)) (rem_next (plug k t) (length k))"
proof -
  have t: "invc t" "invh t" using inv blk by (auto simp: rem_inv_def paint_black_id)
  show ?thesis
  proof (cases k rule: ctx_root.cases)
    case (2 p c s k1)
    have s: "invh s" "invc s" "bheight s = bheight t + 1" using inv 2 by (auto simp: rem_inv_def)
    from s show ?thesis
    proof (cases rule: short_hole_sibling)
      case (1 C y D)
      then show ?thesis using rep inv blk t \<open>k = _\<close> body_left_black [of h k1 t p c C y D]
        by (auto simp: sib_inv_def rem_inv_def)
    next
      case red: (2 E y F)
      then have c: "c = RB_BLACK" using inv \<open>k = _\<close> by (auto simp: rem_inv_def)
      from red obtain C z D where E: "E = Node C (z, RB_BLACK) D" "bheight C = bheight t"
          "bheight D = bheight t" "invh C" "invh D" "invc C" "invc D"
        using short_hole_black [of E "bheight t"] by metis
      show ?thesis using rep inv blk t c red E \<open>k = _\<close> body_left_red [of h k1 t p C z D y F]
        by (auto simp: sib_inv_def rem_inv_def)
    qed
  next
    case (3 s p c k1)
    have s: "invh s" "invc s" "bheight s = bheight t + 1" using inv 3 by (auto simp: rem_inv_def)
    from s show ?thesis
    proof (cases rule: short_hole_sibling)
      case (1 D y C)
      then show ?thesis using rep inv blk t \<open>k = _\<close> body_right_black [of h k1 D y C p c t]
        by (auto simp: sib_inv_def rem_inv_def)
    next
      case red: (2 E y F)
      then have c: "c = RB_BLACK" using inv \<open>k = _\<close> by (auto simp: rem_inv_def)
      from red obtain D z C where F: "F = Node D (z, RB_BLACK) C" "bheight C = bheight t"
          "bheight D = bheight t" "invh C" "invh D" "invc C" "invc D"
        using short_hole_black [of F "bheight t"] by metis
      show ?thesis using rep inv blk t c red F \<open>k = _\<close> body_right_red [of h k1 E y D z C p t]
        by (auto simp: sib_inv_def rem_inv_def)
    qed
  qed (use k in simp)
qed

subsection \<open>\<open>RB_REMOVE_COLOR\<close>\<close>

lemma root_of_plug_neq:
  assumes "distinct (nodes (plug k t))" "k \<noteq> []"
  shows "root_of (plug k t) \<noteq> root_of t"
proof -
  have ne: "plug k t \<noteq> Leaf" if "t \<noteq> Leaf \<or> k \<noteq> []" for k t
    using that by (induction k t rule: plug.induct) auto
  have "root_of (plug k t) = Some a \<Longrightarrow> k \<noteq> [] \<Longrightarrow> a \<in> set (lefts k) \<union> set (rights k)" for a
  proof (induction k t rule: plug.induct)
    case (2 b c r k t)
    then show ?case by (cases k) auto
  next
    case (3 l b c k t)
    then show ?case by (cases k) auto
  qed simp
  then show ?thesis
    using assms ne [of t k] by (cases t rule: tree_cases; cases "root_of (plug k t)") auto
qed

lemma REMOVE_COLOR_exit_ok:
  assumes "rep h (plug k t)" "invc (plug k (paint RB_BLACK t))" "invh (plug k (paint RB_BLACK t))"
    "ctx_col RB_BLACK k = RB_BLACK"
  shows "\<exists>h' T. RB_REMOVE_COLOR_exit h (root_of t) = Some h' \<and> rep h' T \<and> is_rbt T \<and>
    nodes T = nodes (plug k t)"
proof (cases t rule: tree_cases)
  case 1
  then show ?thesis
    using assms by (intro exI [of _ h] exI [of _ "plug k t"])
      (auto simp: RB_REMOVE_COLOR_exit_def is_rbt_def col_plug)
next
  case (2 l a c r)
  then obtain h' where "set_COLOR h (Some a) RB_BLACK = Some h'" "rep h' (plug k (paint RB_BLACK t))"
    using set_COLOR_ex [of h k l a c r RB_BLACK] assms(1) by auto
  then show ?thesis
    using assms 2 by (intro exI [of _ h'] exI [of _ "plug k (paint RB_BLACK t)"])
      (auto simp: RB_REMOVE_COLOR_exit_def is_rbt_def col_plug)
qed

lemma REMOVE_COLOR_correct:
  assumes "rep h (plug k t)" "rem_inv k t"
  shows "\<exists>h' T. RB_REMOVE_COLOR h (ctx_root k) (root_of t) = Some h' \<and> rep h' T \<and> is_rbt T \<and>
    nodes T = nodes (plug k t)"
  using assms
proof (induction "if col t = RB_RED then 0 else Suc (length k)" arbitrary: h k t rule: less_induct)
  case less
  note root = rep_root [OF less.prems(1)]
  show ?case
  proof (cases "col t = RB_BLACK \<and> k \<noteq> []")
    case False
    then have un: "RB_REMOVE_COLOR h (ctx_root k) (root_of t) = RB_REMOVE_COLOR_exit h (root_of t)"
      using rep_is_black [OF less.prems(1)] root
      by (subst RB_REMOVE_COLOR.simps) (auto simp: RB_ROOT_def)
    have "invc (plug k (paint RB_BLACK t))" "invh (plug k (paint RB_BLACK t))"
      using less.prems(2) False
      by (auto simp: rem_inv_def invc_plug invh_plug bheight_paint_black)
    with REMOVE_COLOR_exit_ok [OF less.prems(1)] less.prems(2) un show ?thesis
      by (auto simp: rem_inv_def)
  next
    case True
    then have blk: "col t = RB_BLACK" and k: "k \<noteq> []" by auto
    have neq: "root_of t \<noteq> RB_ROOT h"
      using root_of_plug_neq [OF rep_distinct [OF less.prems(1)] k] root by (auto simp: RB_ROOT_def)
    from REMOVE_COLOR_body_ok [OF less.prems blk k] obtain h1 p1 e1 brk where
      1: "RB_REMOVE_COLOR_body h (ctx_root k) (root_of t) = Some (h1, p1, e1, brk)"
        "rem_next (plug k t) (length k) (h1, p1, e1, brk)"
      by (auto simp: ok_iff)
    have un: "RB_REMOVE_COLOR h (ctx_root k) (root_of t) =
        (if brk then RB_REMOVE_COLOR_exit h1 e1 else RB_REMOVE_COLOR h1 p1 e1)"
      using rep_is_black [OF less.prems(1)] blk neq 1(1) by (subst RB_REMOVE_COLOR.simps) simp
    show ?thesis
    proof (cases brk)
      case True
      then obtain T' where "e1 = root_of T'" "rep h1 (plug [] T')" "invc T'" "invh T'"
          "nodes T' = nodes (plug k t)"
        using 1(2) by (auto simp: rem_next_def)
      with REMOVE_COLOR_exit_ok [of h1 "[]" T'] un True show ?thesis by auto
    next
      case False
      then obtain k1 t1 where 2: "e1 = root_of t1" "p1 = ctx_root k1" "rep h1 (plug k1 t1)"
          "rem_inv k1 t1" "nodes (plug k1 t1) = nodes (plug k t)"
          "length k1 < length k \<or> col t1 = RB_RED"
        using 1(2) by (auto simp: rem_next_def)
      have "(if col t1 = RB_RED then 0 else Suc (length k1)) <
          (if col t = RB_RED then 0 else Suc (length k))"
        using 2(6) blk by auto
      from less.hyps [OF this 2(3,4)] 2 un False show ?thesis by auto
    qed
  qed
qed

subsection \<open>\<open>RB_REMOVE\<close>\<close>

lemma min_path_plug: "min_path t k = (k', t') \<Longrightarrow> plug k' t' = plug k t"
  by (induction t k rule: min_path.induct) auto

lemma min_path_node:
  "min_path t k = (k', t') \<Longrightarrow> t \<noteq> Leaf \<Longrightarrow> \<exists>b d r'. t' = Node Leaf (b, d) r'"
  by (induction t k rule: min_path.induct) auto

lemma min_path_suffix: "min_path t k = (k', t') \<Longrightarrow> \<exists>ks. k' = ks @ k"
  by (induction t k rule: min_path.induct) auto

lemma min_path_lefts: "min_path t k = (k', t') \<Longrightarrow> lefts k' = lefts k"
  by (induction t k rule: min_path.induct) auto

lemma leftmost_correct:
  "rep h (plug k t) \<Longrightarrow> t \<noteq> Leaf \<Longrightarrow> RB_leftmost h (root_of t) = Some (root_of (snd (min_path t k)))"
proof (induction t k rule: min_path.induct)
  case (1 l' v' r' a c r k)
  from 1 have IH: "RB_leftmost h (root_of (Node l' v' r')) =
      Some (root_of (snd (min_path (Node l' v' r') (FL a c r # k))))" by simp
  show ?case
    using rep_reads(1) [OF "1.prems"(1)] IH
    by (subst RB_leftmost.simps) (cases v'; simp)
next
  fix va vb k
  assume "rep h (plug k (Node Leaf va vb))"
  then show "RB_leftmost h (root_of (Node Leaf va vb)) = Some (root_of (snd (min_path (Node Leaf va vb) k)))"
    using rep_reads(1) [of h k Leaf "fst va" "snd va" vb]
    by (subst RB_leftmost.simps) (cases va; simp)
qed simp

lemma ctx_replace:
  "ctx_invc c (ks @ FR l a d # k) = ctx_invc c (ks @ FR l b d # k)"
  "ctx_invh n (ks @ FR l a d # k) = ctx_invh n (ks @ FR l b d # k)"
  "ctx_col c (ks @ FR l a d # k) = ctx_col c (ks @ FR l b d # k)"
proof -
  show "ctx_invc c (ks @ FR l a d # k) = ctx_invc c (ks @ FR l b d # k)"
    by (induction c ks rule: ctx_invc.induct) auto
  show "ctx_invh n (ks @ FR l a d # k) = ctx_invh n (ks @ FR l b d # k)"
    by (induction n ks rule: ctx_invh.induct) auto
  show "ctx_col c (ks @ FR l a d # k) = ctx_col c (ks @ FR l b d # k)"
    by (induction c ks rule: ctx_col.induct) auto
qed

lemma cut_replace:
  "rem_inv (ks @ FR l a d # k) t = rem_inv (ks @ FR l b d # k) t"
  "is_rbt (plug (ks @ FR l a d # k) t) = is_rbt (plug (ks @ FR l b d # k) t)"
  unfolding rem_inv_def is_rbt_def invc_plug invh_plug col_plug ctx_replace [of _ ks l a d k b] by simp_all

text \<open>Cutting a node with at most one child out of a red-black tree: a red node leaves a red-black
  tree, a black node the invariant of the recolouring loop.\<close>

lemma cut_inv:
  assumes "is_rbt (plug k (Node l (a, c) r))" "l = Leaf \<or> r = Leaf" "t = (if l = Leaf then r else l)"
  shows "c = RB_BLACK \<Longrightarrow> rem_inv k t" "c = RB_RED \<Longrightarrow> is_rbt (plug k t)"
  using assms
  by (auto simp: is_rbt_def rem_inv_def invc_plug invh_plug col_plug ctx_invc_black ctx_col_black
      split: if_splits)

lemma recolour_step:
  assumes "rep h (plug k t)" "c = RB_BLACK \<Longrightarrow> rem_inv k t" "c = RB_RED \<Longrightarrow> is_rbt (plug k t)"
  shows "\<exists>h' T. (if c = RB_BLACK then RB_REMOVE_COLOR h (ctx_root k) (root_of t) else Some h) = Some h' \<and>
    rep h' T \<and> is_rbt T \<and> nodes T = nodes (plug k t)"
  using assms REMOVE_COLOR_correct [of h k t] by (cases c) auto

lemma REMOVE_one_child:
  assumes rep: "rep h (plug k (Node l (a, c) r))" and rbt: "is_rbt (plug k (Node l (a, c) r))"
    and one: "l = Leaf \<or> r = Leaf"
  shows "\<exists>h' T. RB_REMOVE h (Some a) = Some (h', Some a) \<and> rep h' T \<and> is_rbt T \<and>
    nodes T = lefts k @ nodes l @ nodes r @ rights k"
proof -
  let ?t = "if l = Leaf then r else l"
  obtain h1 where 1: "RB_unlink h (Some a) (ctx_root k) (root_of ?t) = Some h1" "rep h1 (plug k ?t)"
    using unlink_ex [OF rep refl one] by blast
  obtain h' T where 2: "(if c = RB_BLACK then RB_REMOVE_COLOR h1 (ctx_root k) (root_of ?t) else Some h1) = Some h'"
      "rep h' T" "is_rbt T" "nodes T = nodes (plug k ?t)"
    using recolour_step [OF 1(2) cut_inv [OF rbt one refl]] by blast
  have "RB_REMOVE h (Some a) = Some (h', Some a)"
    using one 1(1) 2(1) by (auto simp: RB_REMOVE_def rep_reads [OF rep] split: if_splits)
  then show ?thesis using 2 one by auto
qed

lemma REMOVE_two_children:
  assumes rep: "rep h (plug k (Node l (a, c) r))" and rbt: "is_rbt (plug k (Node l (a, c) r))"
    and two: "l \<noteq> Leaf" "r \<noteq> Leaf"
  shows "\<exists>h' T. RB_REMOVE h (Some a) = Some (h', Some a) \<and> rep h' T \<and> is_rbt T \<and>
    nodes T = lefts k @ nodes l @ nodes r @ rights k"
proof -
  let ?k0 = "FR l a c # k"
  have r0: "rep h (plug ?k0 r)" using rep by simp
  obtain ks b d r' where mp: "min_path r ?k0 = (ks @ ?k0, Node Leaf (b, d) r')"
    using min_path_node [of r ?k0] min_path_suffix [of r ?k0] two(2)
    by (metis prod.exhaust)
  have pl: "plug (ks @ ?k0) (Node Leaf (b, d) r') = plug k (Node l (a, c) r)"
    using min_path_plug [OF mp] by simp
  have b0: "rep h (plug (ks @ ?k0) (Node Leaf (b, d) r'))" using rep pl by simp
  have lm: "RB_leftmost h (root_of r) = Some (Some b)" using leftmost_correct [OF r0 two(2)] mp by simp
  obtain h1 where 1: "RB_unlink h (Some b) (ctx_root (ks @ ?k0)) (root_of r') = Some h1"
      "rep h1 (plug (ks @ ?k0) r')" "rb_node h1 b = rb_node h b"
    using unlink_ex [OF b0 refl] by auto
  have "distinct (nodes (plug (ks @ ?k0) (Node Leaf (b, d) r')))" using rep_distinct [OF b0] .
  then have b: "b \<notin> set (nodes (plug k (Node l (a, c) (plug ks r'))))" and ab: "a \<noteq> b"
    by (auto simp: plug_append)
  have "rep h1 (plug k (Node l (a, c) (plug ks r')))" using 1(2) by (simp add: plug_append)
  then obtain h2 where 2: "RB_replace h1 (Some a) (Some b) = Some h2"
      "rep h2 (plug k (Node l (b, c) (plug ks r')))"
    using replace_ex [OF _ two(1) _ b] 1(3) rep_reads(5) [OF b0] by auto
  have k2: "rep h2 (plug (ks @ FR l b c # k) r')" using 2(2) by (simp add: plug_append)
  have par: "(if RB_PARENT h1 (Some b) = Some (Some a) then Some b else ctx_root (ks @ ?k0)) =
      ctx_root (ks @ FR l b c # k)"
  proof -
    have "RB_PARENT h1 (Some b) = Some (ctx_root (ks @ ?k0))"
      using 1(3) rep_reads(5) [OF b0] by (simp add: RB_PARENT_def)
    moreover have "ctx_root (ks @ ?k0) = Some a \<longleftrightarrow> ks = []"
      using rep_distinct [OF b0] ctx_root_in [of ks a] by (auto simp: ctx_root_append)
    ultimately show ?thesis by (auto simp: ctx_root_append)
  qed
  have cut: "is_rbt (plug (ks @ ?k0) (Node Leaf (b, d) r'))" using rbt pl by simp
  have inv: "d = RB_BLACK \<Longrightarrow> rem_inv (ks @ FR l b c # k) r'"
      "d = RB_RED \<Longrightarrow> is_rbt (plug (ks @ FR l b c # k) r')"
    using cut_inv [OF cut] cut_replace [of ks l a c k r' b] by auto
  obtain h' T where 3: "(if d = RB_BLACK then RB_REMOVE_COLOR h2 (ctx_root (ks @ FR l b c # k)) (root_of r')
      else Some h2) = Some h'" "rep h' T" "is_rbt T" "nodes T = nodes (plug (ks @ FR l b c # k) r')"
    using recolour_step [OF k2 inv] by blast
  have "RB_PARENT h1 (Some b) \<noteq> None" using 1(3) rep_reads(5) [OF b0] by (simp add: RB_PARENT_def)
  then have "RB_REMOVE h (Some a) = Some (h', Some a)"
    using two lm 1(1) 2(1) 3(1) par
    by (auto simp: RB_REMOVE_def rep_reads [OF rep] rep_reads [OF b0] split: if_splits)
  moreover have "nodes (plug (ks @ FR l b c # k) r') = lefts k @ nodes l @ nodes r @ rights k"
    using min_path_lefts [OF mp] arg_cong [OF min_path_plug [OF mp], of nodes] by simp
  ultimately show ?thesis using 3 by auto
qed

lemma REMOVE_correct:
  assumes rep: "rep h T" and rbt: "is_rbt T" and a: "a \<in> set (nodes T)"
  shows "\<exists>h' T'. RB_REMOVE h (Some a) = Some (h', Some a) \<and> rep h' T' \<and> is_rbt T' \<and>
    nodes T' = remove1 a (nodes T)"
proof -
  obtain k l c r where T: "T = plug k (Node l (a, c) r)" using nodes_member_plug [OF a] by blast
  have "remove1 a (nodes T) = lefts k @ nodes l @ nodes r @ rights k"
    using rep_distinct [OF rep] T by (simp add: remove1_append)
  then show ?thesis
    using REMOVE_one_child [of h k l a c r] REMOVE_two_children [of h k l a c r] rep rbt T by auto
qed

end
