(* ===== verification/RB_Iterate.thy ===== *)
theory RB_Iterate
  imports RB_Insert RB_Remove
begin

text \<open>
  Minimum, maximum, successor, predecessor and the traversal macros of the red-black trees: each
  returns without a fault and agrees with the in-order list of the tree.  The last section is the
  footprint of the updates: no insertion or removal allocates or frees a node.
\<close>

text \<open>The first and the last element of a list, as the pointer a C function returns.\<close>

definition first :: "addr list \<Rightarrow> ptr" where
  "first xs = (case xs of [] \<Rightarrow> NULL | x # _ \<Rightarrow> Some x)"

definition final :: "addr list \<Rightarrow> ptr" where
  "final xs = first (rev xs)"

lemma first_simps [simp]: "first [] = NULL" "first (x # xs) = Some x"
  by (simp_all add: first_def)

lemma first_append: "first (xs @ ys) = (if xs = [] then first ys else first xs)"
  by (cases xs) simp_all

lemma final_simps [simp]: "final [] = NULL" "final (xs @ [x]) = Some x"
  by (simp_all add: final_def)

lemma final_append: "final (xs @ ys) = (if ys = [] then final xs else final ys)"
  by (simp add: final_def first_append)

lemma final_Cons [simp]: "final (x # xs) = (if xs = [] then Some x else final xs)"
  using final_append [of "[x]" xs] by (simp add: final_def)

lemma first_None [simp]: "first xs = None \<longleftrightarrow> xs = []"
  by (cases xs) simp_all

lemma first_in: "first xs = Some a \<Longrightarrow> a \<in> set xs"
  by (cases xs) auto

lemma nodes_Nil [simp]: "nodes t = [] \<longleftrightarrow> t = Leaf"
  by (cases t rule: tree_cases) auto

subsection \<open>Minimum and maximum\<close>

lemma MINMAX_loop_min:
  assumes "rep h (plug k t)"
  shows "RB_MINMAX_loop h (-1) (root_of t) par = Some (if t = Leaf then par else first (nodes t))"
  using assms
proof (induction t arbitrary: k par)
  case Leaf
  then show ?case by (subst RB_MINMAX_loop.simps) simp
next
  case (Node l v r)
  obtain a c where v: "v = (a, c)" by (cases v)
  have "RB_MINMAX_loop h (-1) (root_of l) (Some a) = Some (if l = Leaf then Some a else first (nodes l))"
    using Node.prems v by (intro Node.IH(1) [of "FL a c r # k"]) simp
  then show ?case
    using rep_reads(1) [OF Node.prems [unfolded v]] v
    by (subst RB_MINMAX_loop.simps) (simp add: first_append)
qed

lemma MINMAX_loop_max:
  assumes "rep h (plug k t)"
  shows "RB_MINMAX_loop h 1 (root_of t) par = Some (if t = Leaf then par else final (nodes t))"
  using assms
proof (induction t arbitrary: k par)
  case Leaf
  then show ?case by (subst RB_MINMAX_loop.simps) simp
next
  case (Node l v r)
  obtain a c where v: "v = (a, c)" by (cases v)
  have "RB_MINMAX_loop h 1 (root_of r) (Some a) = Some (if r = Leaf then Some a else final (nodes r))"
    using Node.prems v by (intro Node.IH(2) [of "FR l a c # k"]) simp
  then show ?case
    using rep_reads(2) [OF Node.prems [unfolded v]] v
    by (subst RB_MINMAX_loop.simps) (simp add: final_append)
qed

lemma MIN_correct: "rep h T \<Longrightarrow> RB_MIN h = Some (first (nodes T))"
  using MINMAX_loop_min [of h "[]" T NULL] by (auto simp: RB_MIN_def RB_MINMAX_def rep_root RB_ROOT_def)

lemma MAX_correct: "rep h T \<Longrightarrow> RB_MAX h = Some (final (nodes T))"
  using MINMAX_loop_max [of h "[]" T NULL] by (auto simp: RB_MAX_def RB_MINMAX_def rep_root RB_ROOT_def)

subsection \<open>Successor and predecessor\<close>

lemma leftmost_first:
  assumes "rep h (plug k t)" "t \<noteq> Leaf"
  shows "RB_leftmost h (root_of t) = Some (first (nodes t))"
  using assms
proof (induction t arbitrary: k)
  case (Node l v r)
  obtain a c where v: "v = (a, c)" by (cases v)
  have "RB_leftmost h (root_of l) = Some (first (nodes l))" if "l \<noteq> Leaf"
    using Node.prems v that by (intro Node.IH(1) [of "FL a c r # k"]) simp_all
  then show ?case
    using rep_reads(1) [OF Node.prems(1) [unfolded v]] v
    by (subst RB_leftmost.simps) (auto simp: first_append)
qed simp

lemma rightmost_final:
  assumes "rep h (plug k t)" "t \<noteq> Leaf"
  shows "RB_rightmost h (root_of t) = Some (final (nodes t))"
  using assms
proof (induction t arbitrary: k)
  case (Node l v r)
  obtain a c where v: "v = (a, c)" by (cases v)
  have "RB_rightmost h (root_of r) = Some (final (nodes r))" if "r \<noteq> Leaf"
    using Node.prems v that by (intro Node.IH(2) [of "FR l a c # k"]) simp_all
  then show ?case
    using rep_reads(2) [OF Node.prems(1) [unfolded v]] v
    by (subst RB_rightmost.simps) (auto simp: final_append)
qed simp

lemma climb_right_first:
  assumes "rep h (plug k (Node l (a, c) r))"
  shows "RB_climb_right h (Some a) = Some (first (rights k))"
  using assms
proof (induction k arbitrary: l a c r)
  case Nil
  then show ?case using rep_reads(3) [OF Nil] by (subst RB_climb_right.simps) simp
next
  case (Cons f k)
  note par = rep_reads(3) [OF Cons.prems]
  show ?case
  proof (cases f)
    case (FL b d s)
    have "Some a \<noteq> root_of s"
      using rep_distinct [OF Cons.prems] FL by (auto intro!: root_of_notin)
    then show ?thesis
      using par rep_reads(2) [of h k "Node l (a, c) r" b d s] Cons.prems FL
      by (subst RB_climb_right.simps) simp
  next
    case (FR s b d)
    then show ?thesis
      using par rep_reads(2) [of h k s b d "Node l (a, c) r"] Cons.prems
        Cons.IH [of s b d "Node l (a, c) r"]
      by (subst RB_climb_right.simps) simp
  qed
qed

lemma climb_left_final:
  assumes "rep h (plug k (Node l (a, c) r))"
  shows "RB_climb_left h (Some a) = Some (final (lefts k))"
  using assms
proof (induction k arbitrary: l a c r)
  case Nil
  then show ?case using rep_reads(3) [OF Nil] by (subst RB_climb_left.simps) simp
next
  case (Cons f k)
  note par = rep_reads(3) [OF Cons.prems]
  show ?case
  proof (cases f)
    case (FR s b d)
    have "Some a \<noteq> root_of s"
      using rep_distinct [OF Cons.prems] FR by (auto intro!: root_of_notin)
    then show ?thesis
      using par rep_reads(1) [of h k s b d "Node l (a, c) r"] Cons.prems FR
      by (subst RB_climb_left.simps) (simp add: final_append)
  next
    case (FL b d s)
    then show ?thesis
      using par rep_reads(1) [of h k "Node l (a, c) r" b d s] Cons.prems
        Cons.IH [of "Node l (a, c) r" b d s]
      by (subst RB_climb_left.simps) simp
  qed
qed

lemma NEXT_plug:
  assumes "rep h (plug k (Node l (a, c) r))"
  shows "RB_NEXT h (Some a) = Some (first (nodes r @ rights k))"
proof (cases "r = Leaf")
  case False
  then show ?thesis
    using rep_reads(2) [OF assms] leftmost_first [of h "FR l a c # k" r] assms
    by (simp add: RB_NEXT_def first_append)
next
  case True
  have "RB_NEXT h (Some a) = Some (first (rights k))"
  proof (cases k rule: ctx_root.cases)
    case 1
    then show ?thesis using True rep_reads [OF assms] climb_right_first [OF assms] by (simp add: RB_NEXT_def)
  next
    case (2 b d s k')
    then show ?thesis
      using True rep_reads [OF assms] rep_reads(1) [of h k' "Node l (a, c) r" b d s] assms
      by (simp add: RB_NEXT_def)
  next
    case (3 s b d k')
    have "Some a \<noteq> root_of s"
      using rep_distinct [OF assms] 3 by (auto intro!: root_of_notin)
    then show ?thesis
      using True 3 rep_reads [OF assms] rep_reads(1) [of h k' s b d "Node l (a, c) r"] assms
        climb_right_first [OF assms]
      by (simp add: RB_NEXT_def)
  qed
  then show ?thesis using True by simp
qed

lemma PREV_plug:
  assumes "rep h (plug k (Node l (a, c) r))"
  shows "RB_PREV h (Some a) = Some (final (lefts k @ nodes l))"
proof (cases "l = Leaf")
  case False
  then show ?thesis
    using rep_reads(1) [OF assms] rightmost_final [of h "FL a c r # k" l] assms
    by (simp add: RB_PREV_def final_append)
next
  case True
  have "RB_PREV h (Some a) = Some (final (lefts k))"
  proof (cases k rule: ctx_root.cases)
    case 1
    then show ?thesis using True rep_reads [OF assms] climb_left_final [OF assms] by (simp add: RB_PREV_def)
  next
    case (3 s b d k')
    then show ?thesis
      using True rep_reads [OF assms] rep_reads(2) [of h k' s b d "Node l (a, c) r"] assms
      by (simp add: RB_PREV_def final_append)
  next
    case (2 b d s k')
    have "Some a \<noteq> root_of s"
      using rep_distinct [OF assms] 2 by (auto intro!: root_of_notin)
    then show ?thesis
      using True 2 rep_reads [OF assms] rep_reads(2) [of h k' "Node l (a, c) r" b d s] assms
        climb_left_final [OF assms]
      by (simp add: RB_PREV_def)
  qed
  then show ?thesis using True by simp
qed

lemma NEXT_correct:
  assumes "rep h T" "nodes T = xs @ a # ys"
  shows "RB_NEXT h (Some a) = Some (first ys)"
proof -
  obtain k l c r where T: "T = plug k (Node l (a, c) r)"
    using nodes_member_plug [of a T] assms(2) by auto
  then have "xs @ a # ys = (lefts k @ nodes l) @ a # (nodes r @ rights k)" using assms(2) by simp
  then have "ys = nodes r @ rights k"
    using distinct_split_unique [of xs a ys "lefts k @ nodes l" "nodes r @ rights k"]
      rep_distinct [OF assms(1)] assms(2) by simp
  then show ?thesis using NEXT_plug assms(1) T by simp
qed

lemma PREV_correct:
  assumes "rep h T" "nodes T = xs @ a # ys"
  shows "RB_PREV h (Some a) = Some (final xs)"
proof -
  obtain k l c r where T: "T = plug k (Node l (a, c) r)"
    using nodes_member_plug [of a T] assms(2) by auto
  then have "xs @ a # ys = (lefts k @ nodes l) @ a # (nodes r @ rights k)" using assms(2) by simp
  then have "xs = lefts k @ nodes l"
    using distinct_split_unique [of xs a ys "lefts k @ nodes l" "nodes r @ rights k"]
      rep_distinct [OF assms(1)] assms(2) by simp
  then show ?thesis using PREV_plug assms(1) T by simp
qed

subsection \<open>Traversal\<close>

lemma FOREACH_FROM_correct:
  assumes "rep h T" "nodes T = xs @ ys"
  shows "RB_FOREACH_FROM h (first ys) = Some ys"
  using assms(2)
proof (induction ys arbitrary: xs)
  case Nil
  then show ?case by (subst RB_FOREACH_FROM.simps) simp
next
  case (Cons y ys)
  then show ?case
    using NEXT_correct [OF assms(1), of xs y ys] Cons.IH [of "xs @ [y]"]
    by (subst RB_FOREACH_FROM.simps) simp
qed

lemma FOREACH_REVERSE_FROM_correct:
  assumes "rep h T" "nodes T = xs @ ys"
  shows "RB_FOREACH_REVERSE_FROM h (final xs) = Some (rev xs)"
  using assms(2)
proof (induction xs arbitrary: ys rule: rev_induct)
  case Nil
  then show ?case by (subst RB_FOREACH_REVERSE_FROM.simps) simp
next
  case (snoc x xs)
  then show ?case
    using PREV_correct [OF assms(1), of xs x ys] snoc.IH [of "x # ys"]
    by (subst RB_FOREACH_REVERSE_FROM.simps) simp
qed

lemma FOREACH_nodes: "rep h T \<Longrightarrow> RB_FOREACH h = Some (nodes T)"
  using FOREACH_FROM_correct [of h T "[]"] by (simp add: RB_FOREACH_def MIN_correct)

lemma FOREACH_REVERSE_nodes: "rep h T \<Longrightarrow> RB_FOREACH_REVERSE h = Some (rev (nodes T))"
  using FOREACH_REVERSE_FROM_correct [of h T _ "[]"] by (simp add: RB_FOREACH_REVERSE_def MAX_correct)

subsection \<open>Footprint\<close>

text \<open>Every update that returns leaves the allocated nodes as they were.\<close>

definition allocated :: "rb_tree \<Rightarrow> addr \<Rightarrow> bool" where
  "allocated h = (\<lambda>a. rb_node h a \<noteq> None)"

lemma allocated_root [simp]: "allocated (h\<lparr>rbh_root := p\<rparr>) = allocated h"
  by (simp add: allocated_def)

lemma upd_node_dom: "upd_node h p f = Some h' \<Longrightarrow> allocated h' = allocated h"
  by (auto simp: allocated_def upd_node_def store_eq_Some bind_eq_Some_conv split: if_splits)

lemma setters_dom:
  "set_LEFT h p v = Some h' \<Longrightarrow> allocated h' = allocated h"
  "set_RIGHT h p v = Some h' \<Longrightarrow> allocated h' = allocated h"
  "set_PARENT h p v = Some h' \<Longrightarrow> allocated h' = allocated h"
  "set_COLOR h p c = Some h' \<Longrightarrow> allocated h' = allocated h"
  by (simp_all add: upd_node_dom set_LEFT_def set_RIGHT_def set_PARENT_def set_COLOR_def)

lemma RB_SET_dom:
  "RB_SET h p q = Some h' \<Longrightarrow> allocated h' = allocated h"
  "RB_SET_BLACKRED h p q = Some h' \<Longrightarrow> allocated h' = allocated h"
  by (auto simp: RB_SET_def RB_SET_BLACKRED_def bind_eq_Some_conv dest!: setters_dom)

lemma ROTATE_dom:
  "RB_ROTATE_LEFT h p = Some (h', q) \<Longrightarrow> allocated h' = allocated h"
  "RB_ROTATE_RIGHT h p = Some (h', q) \<Longrightarrow> allocated h' = allocated h"
  by (auto simp: RB_ROTATE_LEFT_def RB_ROTATE_RIGHT_def bind_eq_Some_conv dest!: setters_dom
      split: if_splits)

lemmas step_dom = setters_dom RB_SET_dom ROTATE_dom

lemma INSERT_COLOR_body_dom:
  "RB_INSERT_COLOR_body h p e = Some (h', e') \<Longrightarrow> allocated h' = allocated h"
  by (auto simp: RB_INSERT_COLOR_body_def bind_eq_Some_conv dest!: step_dom split: if_splits)

lemma REMOVE_COLOR_left_dom:
  "RB_REMOVE_COLOR_left h p t = Some (h', x) \<Longrightarrow> allocated h' = allocated h"
  unfolding RB_REMOVE_COLOR_left_def
  by (elim bind_SomeE if_SomeE pair_SomeE) (auto dest!: step_dom)

lemma REMOVE_COLOR_right_dom:
  "RB_REMOVE_COLOR_right h p t = Some (h', x) \<Longrightarrow> allocated h' = allocated h"
  unfolding RB_REMOVE_COLOR_right_def
  by (elim bind_SomeE if_SomeE pair_SomeE) (auto dest!: step_dom)

lemmas REMOVE_COLOR_half_dom = REMOVE_COLOR_left_dom REMOVE_COLOR_right_dom

lemma REMOVE_COLOR_body_dom:
  "RB_REMOVE_COLOR_body h p e = Some (h', x) \<Longrightarrow> allocated h' = allocated h"
  by (auto simp: RB_REMOVE_COLOR_body_def bind_eq_Some_conv dest!: step_dom REMOVE_COLOR_half_dom
      split: if_splits)

lemma INSERT_COLOR_dom:
  "RB_INSERT_COLOR h e = Some h' \<Longrightarrow> allocated h' = allocated h"
  by (rule RB_INSERT_COLOR.raw_induct [where P = "\<lambda>h e h'. allocated h' = allocated h"])
     (auto simp: bind_eq_Some_conv dest!: step_dom INSERT_COLOR_body_dom split: if_splits)

lemma REMOVE_COLOR_dom:
  "RB_REMOVE_COLOR h p e = Some h' \<Longrightarrow> allocated h' = allocated h"
  by (rule RB_REMOVE_COLOR.raw_induct [where P = "\<lambda>h p e h'. allocated h' = allocated h"])
     (auto simp: bind_eq_Some_conv RB_REMOVE_COLOR_exit_def dest!: step_dom REMOVE_COLOR_body_dom
       split: if_splits)

lemma splice_dom:
  "RB_unlink h e p c = Some h' \<Longrightarrow> allocated h' = allocated h"
  "RB_replace h e p = Some h' \<Longrightarrow> allocated h' = allocated h"
  by (auto simp: RB_unlink_def RB_replace_def bind_eq_Some_conv dest!: upd_node_dom step_dom split: if_splits)

lemma INSERT_dom: "RB_INSERT cmp h e = Some (h', r) \<Longrightarrow> allocated h' = allocated h"
  by (auto simp: RB_INSERT_def bind_eq_Some_conv dest!: step_dom INSERT_COLOR_dom split: if_splits)

lemma REMOVE_dom: "RB_REMOVE h e = Some (h', r) \<Longrightarrow> allocated h' = allocated h"
  by (auto simp: RB_REMOVE_def bind_eq_Some_conv Let_def dest!: splice_dom REMOVE_COLOR_dom split: if_splits)

end
