(* ===== verification/Ordered_Set.thy ===== *)
theory Ordered_Set
  imports RB_Iterate
begin

text \<open>
  The contract the scheduler relies on: a container of addresses ordered by an integer key that is
  read through a comparison function, with search, insertion, removal and minimum.  The locale
  states the contract over the in-order list of addresses and derives what its clients need; the
  red-black trees of \<open>nty_tree.h\<close> are shown to meet it.
\<close>

text \<open>A client: it inserts and removes elements in any order.  \<open>set_run\<close> is the client on an implementation, \<open>cmp e\<close> comparing with the
  element \<open>e\<close>; \<open>set_spec\<close> is the client on the ordered list, where an element whose key is taken is not inserted;
  \<open>set_fits\<close> says that only elements outside are inserted and only elements inside are removed.\<close>

datatype set_step = Ins addr | Del addr

fun set_run :: "((addr \<Rightarrow> int option) \<Rightarrow> 't \<Rightarrow> ptr \<Rightarrow> ('t \<times> ptr) option) \<Rightarrow> ((addr \<Rightarrow> int option) \<Rightarrow> 't \<Rightarrow> ptr \<Rightarrow> ('t \<times> ptr) option) \<Rightarrow>
    (addr \<Rightarrow> addr \<Rightarrow> int option) \<Rightarrow> set_step list \<Rightarrow> 't \<Rightarrow> 't option" where
  "set_run ins del cmp [] t = Some t"
| "set_run ins del cmp (Ins e # steps) t = do { (t, _) \<leftarrow> ins (cmp e) t (Some e); set_run ins del cmp steps t }"
| "set_run ins del cmp (Del a # steps) t = do { (t, _) \<leftarrow> del (cmp a) t (Some a); set_run ins del cmp steps t }"

fun set_spec :: "(addr \<Rightarrow> int) \<Rightarrow> set_step list \<Rightarrow> addr list \<Rightarrow> addr list" where
  "set_spec key [] xs = xs"
| "set_spec key (Ins e # steps) xs = set_spec key steps (if key e \<in> key ` set xs then xs else insort_key key e xs)"
| "set_spec key (Del a # steps) xs = set_spec key steps (remove1 a xs)"

fun set_fits :: "(addr \<Rightarrow> int) \<Rightarrow> set_step list \<Rightarrow> addr list \<Rightarrow> bool" where
  "set_fits key [] xs = True"
| "set_fits key (Ins e # steps) xs = (e \<notin> set xs \<and> set_fits key steps (if key e \<in> key ` set xs then xs else insort_key key e xs))"
| "set_fits key (Del a # steps) xs = (a \<in> set xs \<and> set_fits key steps (remove1 a xs))"

locale ordered_set =
  fixes holds :: "'t \<Rightarrow> addr list \<Rightarrow> bool"
    and owns :: "'t \<Rightarrow> addr \<Rightarrow> bool"
    and search :: "(addr \<Rightarrow> int option) \<Rightarrow> 't \<Rightarrow> ('t \<times> ptr) option"
    and ins :: "(addr \<Rightarrow> int option) \<Rightarrow> 't \<Rightarrow> ptr \<Rightarrow> ('t \<times> ptr) option"
    and del :: "(addr \<Rightarrow> int option) \<Rightarrow> 't \<Rightarrow> ptr \<Rightarrow> ('t \<times> ptr) option"
    and least :: "'t \<Rightarrow> ('t \<times> ptr) option"
  assumes holds_distinct: "holds t xs \<Longrightarrow> distinct xs"
    and holds_owns: "holds t xs \<Longrightarrow> a \<in> set xs \<Longrightarrow> owns t a"
    and search_law: "holds t xs \<Longrightarrow> ordered key xs \<Longrightarrow> compares cmp key (x :: int) xs \<Longrightarrow>
      \<exists>t'. search cmp t = Some (t', find (\<lambda>a. key a = x) xs) \<and> holds t' xs \<and> owns t' = owns t"
    and ins_new_law: "holds t xs \<Longrightarrow> ordered key xs \<Longrightarrow> compares cmp key (key e :: int) xs \<Longrightarrow>
      owns t e \<Longrightarrow> key e \<notin> key ` set xs \<Longrightarrow>
      \<exists>t'. ins cmp t (Some e) = Some (t', NULL) \<and> holds t' (insort_key key e xs) \<and> owns t' = owns t"
    and ins_dup_law: "holds t xs \<Longrightarrow> ordered key xs \<Longrightarrow> compares cmp key (key e :: int) xs \<Longrightarrow>
      owns t e \<Longrightarrow> e \<notin> set xs \<Longrightarrow> a \<in> set xs \<Longrightarrow> key a = key e \<Longrightarrow>
      \<exists>t'. ins cmp t (Some e) = Some (t', Some a) \<and> holds t' xs \<and> owns t' = owns t"
    and del_law: "holds t xs \<Longrightarrow> ordered key xs \<Longrightarrow> compares cmp key (key a :: int) xs \<Longrightarrow> a \<in> set xs \<Longrightarrow>
      \<exists>t'. del cmp t (Some a) = Some (t', Some a) \<and> holds t' (remove1 a xs) \<and> owns t' = owns t"
    and least_law: "holds t xs \<Longrightarrow> ordered key xs \<Longrightarrow>
      \<exists>t'. least t = Some (t', first xs) \<and> holds t' xs \<and> owns t' = owns t"
begin

lemma ordered_find:
  assumes "ordered key xs" "a \<in> set xs" "key a = (x :: int)"
  shows "find (\<lambda>b. key b = x) xs = Some a"
  using assms by (induction xs) (auto simp: ordered_Cons)

lemma ordered_insort:
  assumes "ordered key xs" "(key e :: int) \<notin> key ` set xs"
  shows "ordered key (insort_key key e xs)"
  using assms by (induction xs) (auto simp: ordered_Cons set_insort_key)

lemma ordered_remove1: "ordered key xs \<Longrightarrow> ordered key (remove1 a xs)"
  by (induction xs) (auto simp: ordered_Cons dest: notin_set_remove1)

lemma remove1_insort_at: "e \<notin> set xs \<Longrightarrow> remove1 e (insort_key key e xs) = xs"
  by (induction xs) auto

text \<open>An element that was inserted is found, and removing it again restores the container.\<close>

lemma insert_search:
  assumes "holds t xs" "ordered key xs" "owns t e" "(key e :: int) \<notin> key ` set xs"
    and "\<And>x ys. set ys \<subseteq> insert e (set xs) \<Longrightarrow> compares (cmp x) key x ys"
  shows "\<exists>t1 t2 t3. ins (cmp (key e)) t (Some e) = Some (t1, NULL) \<and>
    search (cmp (key e)) t1 = Some (t2, Some e) \<and>
    del (cmp (key e)) t2 (Some e) = Some (t3, Some e) \<and> holds t3 xs"
proof -
  let ?ys = "insort_key key e xs"
  have e: "e \<notin> set xs" using assms(4) by auto
  have ord: "ordered key ?ys" using ordered_insort assms(2,4) .
  have cmp: "compares (cmp (key e)) key (key e) ?ys" using assms(5) [of ?ys] by (simp add: set_insort_key)
  obtain t1 where 1: "ins (cmp (key e)) t (Some e) = Some (t1, NULL)" "holds t1 ?ys"
    using ins_new_law [OF assms(1,2) assms(5) assms(3,4)] by auto
  obtain t2 where 2: "search (cmp (key e)) t1 = Some (t2, Some e)" "holds t2 ?ys"
    using search_law [OF 1(2) ord cmp] ordered_find [OF ord, of e "key e"] by (auto simp: set_insort_key)
  obtain t3 where "del (cmp (key e)) t2 (Some e) = Some (t3, Some e)" "holds t3 (remove1 e ?ys)"
    using del_law [OF 2(2) ord cmp] by (auto simp: set_insort_key)
  moreover have "remove1 e ?ys = xs" using remove1_insort_at [OF e] .
  ultimately show ?thesis using 1(1) 2(1) by auto
qed

text \<open>An implementation that meets the contract holds, after any client, the list of the specification.\<close>

lemma run_refines:
  assumes "holds t xs" "ordered key xs" "set_fits key steps xs" "\<forall>e. Ins e \<in> set steps \<longrightarrow> owns t e"
    and cmp: "\<And>e ys. compares (cmp e) key (key e) ys"
  shows "\<exists>t'. set_run ins del cmp steps t = Some t' \<and> holds t' (set_spec key steps xs) \<and> ordered key (set_spec key steps xs)"
  using assms(1-4)
proof (induction steps arbitrary: t xs)
  case (Cons x steps)
  show ?case
  proof (cases x)
    case (Ins e)
    let ?ys = "if key e \<in> key ` set xs then xs else insort_key key e xs"
    have e: "owns t e" "e \<notin> set xs" using Cons.prems(3,4) Ins by auto
    have "\<exists>t1 p. ins (cmp e) t (Some e) = Some (t1, p) \<and> holds t1 ?ys \<and> owns t1 = owns t"
    proof (cases "key e \<in> key ` set xs")
      case True
      then obtain a where "a \<in> set xs" "key a = key e" by (metis imageE)
      from ins_dup_law [OF Cons.prems(1,2) cmp e this] True show ?thesis by auto
    next
      case False
      with ins_new_law [OF Cons.prems(1,2) cmp e(1)] show ?thesis by auto
    qed
    then obtain t1 p where t1: "ins (cmp e) t (Some e) = Some (t1, p)" "holds t1 ?ys" "owns t1 = owns t" by blast
    have "ordered key ?ys" using ordered_insort [OF Cons.prems(2)] Cons.prems(2) by simp
    from Cons.IH [OF t1(2) this] Cons.prems(3,4) Ins t1(1,3) show ?thesis by simp
  next
    case (Del a)
    obtain t1 where t1: "del (cmp a) t (Some a) = Some (t1, Some a)" "holds t1 (remove1 a xs)" "owns t1 = owns t"
      using del_law [OF Cons.prems(1,2) cmp] Cons.prems(3) Del by auto
    from Cons.IH [OF t1(2) ordered_remove1 [OF Cons.prems(2)]] Cons.prems(3,4) Del t1(1,3) show ?thesis by simp
  qed
qed auto

text \<open>The minimum is an element with the least key, and removing it leaves the rest.\<close>

lemma pop_least:
  assumes "holds t xs" "ordered key xs" "xs \<noteq> []" "compares cmp key (key (hd xs) :: int) xs"
  shows "\<exists>t1 t2. least t = Some (t1, Some (hd xs)) \<and> (\<forall>a \<in> set xs. key (hd xs) \<le> key a) \<and>
    del cmp t1 (Some (hd xs)) = Some (t2, Some (hd xs)) \<and> holds t2 (tl xs) \<and> owns t2 = owns t"
proof -
  obtain y ys where xs: "xs = y # ys" using assms(3) by (cases xs) auto
  obtain t1 where 1: "least t = Some (t1, first xs)" "holds t1 xs" "owns t1 = owns t"
    using least_law [OF assms(1,2)] by auto
  obtain t2 where "del cmp t1 (Some y) = Some (t2, Some y)" "holds t2 (remove1 y xs)" "owns t2 = owns t1"
    using del_law [OF 1(2) assms(2), of cmp y] assms(4) xs by auto
  then show ?thesis using 1 xs assms(2) by (auto simp: ordered_Cons less_imp_le)
qed

end

subsection \<open>The red-black trees meet the contract\<close>

definition rb_holds :: "rb_tree \<Rightarrow> addr list \<Rightarrow> bool" where
  "rb_holds h xs = (\<exists>T. rep h T \<and> is_rbt T \<and> nodes T = xs)"

lemma rb_holds_distinct: "rb_holds h xs \<Longrightarrow> distinct xs"
  using rep_distinct by (auto simp: rb_holds_def)

lemma rb_holds_allocated: "rb_holds h xs \<Longrightarrow> a \<in> set xs \<Longrightarrow> allocated h a"
  using nodes_member_plug rep_reads(5) by (fastforce simp: rb_holds_def allocated_def)

lemma rb_holds_INIT: "rb_holds (RB_INIT h) []"
  by (auto simp: rb_holds_def RB_INIT_def rep_def is_rbt_def intro!: exI [of _ Leaf])

lemma rb_holds_MIN: "rb_holds h xs \<Longrightarrow> RB_MIN h = Some (first xs)"
  by (auto simp: rb_holds_def MIN_correct)

lemma rb_holds_EMPTY: "rb_holds h xs \<Longrightarrow> RB_EMPTY h = (xs = [])"
  by (auto simp: rb_holds_def RB_EMPTY_def RB_ROOT_def rep_root)

lemma rb_holds_FIND:
  assumes "rb_holds h xs" "ordered key xs" "compares cmp key x xs"
  shows "RB_FIND cmp h = Some (find (\<lambda>a. key a = x) xs)"
  using assms FIND_loop_correct [of h "[]" _ key cmp x] rep_root
  by (auto simp: rb_holds_def RB_FIND_def RB_ROOT_def)

lemma rb_holds_INSERT_new:
  assumes "rb_holds h xs" "ordered key xs" "compares cmp key (key e) xs" "allocated h e"
    "key e \<notin> key ` set xs"
  shows "\<exists>h'. RB_INSERT cmp h (Some e) = Some (h', NULL) \<and> rb_holds h' (insort_key key e xs) \<and>
    allocated h' = allocated h"
proof -
  obtain T where T: "rep h T" "is_rbt T" "nodes T = xs" using assms(1) by (auto simp: rb_holds_def)
  have "e \<notin> set (nodes T)" "\<forall>a \<in> set (nodes T). key a \<noteq> key e"
    using assms(5) unfolding T(3) by (auto, metis image_eqI)
  then obtain h' T' where "RB_INSERT cmp h (Some e) = Some (h', NULL)" "rep h' T'" "is_rbt T'"
      "nodes T' = insort_key key e xs"
    using INSERT_correct [OF T(1,2), of key cmp e] T(3) assms(2-4) unfolding allocated_def by blast
  then show ?thesis using INSERT_dom unfolding rb_holds_def by blast
qed

lemma rb_holds_INSERT_dup:
  assumes "rb_holds h xs" "ordered key xs" "compares cmp key (key e) xs" "allocated h e"
    "e \<notin> set xs" "a \<in> set xs" "key a = key e"
  shows "RB_INSERT cmp h (Some e) = Some (h, Some a)"
proof -
  obtain T where T: "rep h T" "is_rbt T" "nodes T = xs" using assms(1) by (auto simp: rb_holds_def)
  then obtain b where b: "b \<in> set xs" "key b = key e" "RB_INSERT cmp h (Some e) = Some (h, Some b)"
    using INSERT_correct [OF T(1,2), of key cmp e] assms by (auto simp: allocated_def)
  have "b = a"
  proof (rule ccontr)
    assume "b \<noteq> a"
    then have "key a < key b \<or> key b < key a"
      using assms(2,6) b(1) by (auto simp: ordered_def in_set_conv_nth sorted_wrt_iff_nth_less) (metis linorder_neqE_nat)
    then show False using assms(7) b(2) by auto
  qed
  then show ?thesis using b(3) by simp
qed

lemma rb_holds_REMOVE:
  assumes "rb_holds h xs" "a \<in> set xs"
  shows "\<exists>h'. RB_REMOVE h (Some a) = Some (h', Some a) \<and> rb_holds h' (remove1 a xs) \<and>
    allocated h' = allocated h"
proof -
  obtain T where T: "rep h T" "is_rbt T" "nodes T = xs" using assms(1) by (auto simp: rb_holds_def)
  then obtain h' T' where "RB_REMOVE h (Some a) = Some (h', Some a)" "rep h' T'" "is_rbt T'"
      "nodes T' = remove1 a xs"
    using REMOVE_correct [OF T(1,2), of a] assms(2) by auto
  then show ?thesis using REMOVE_dom unfolding rb_holds_def by blast
qed

interpretation rb: ordered_set rb_holds allocated
  "\<lambda>cmp h. map_option (Pair h) (RB_FIND cmp h)" RB_INSERT "\<lambda>cmp. RB_REMOVE"
  "\<lambda>h. map_option (Pair h) (RB_MIN h)"
  by unfold_locales
    (auto simp: rb_holds_distinct rb_holds_allocated rb_holds_FIND rb_holds_MIN rb_holds_INSERT_new
      rb_holds_INSERT_dup rb_holds_REMOVE)

subsection \<open>Height\<close>

lemma height_black: "invc t \<Longrightarrow> invh t \<Longrightarrow> height t \<le> 2 * bheight t + (if col t = RB_RED then 1 else 0)"
proof (induction t rule: invc.induct)
  case (2 l a c r)
  have L: "height l \<le> 2 * bheight l + (if col l = RB_RED then 1 else 0)"
    and R: "height r \<le> 2 * bheight r + (if col r = RB_RED then 1 else 0)"
    using 2 by auto
  show ?case
  proof (cases c)
    case RB_BLACK
    then show ?thesis using L R 2(4) by (auto split: if_splits)
  next
    case RB_RED
    then have "col l = RB_BLACK" "col r = RB_BLACK" using 2(3) by auto
    then show ?thesis using L R RB_RED 2(4) by auto
  qed
qed simp

lemma black_size: "invh t \<Longrightarrow> 2 ^ bheight t \<le> length (nodes t) + 1"
  by (induction t rule: invh.induct) auto

text \<open>A walk from a node along the links, left or right at each step; stepping from \<open>NULL\<close> is a fault.  The search loops of the
  macros are such walks from the root.\<close>

fun rb_walk :: "rb_tree \<Rightarrow> bool list \<Rightarrow> ptr \<Rightarrow> ptr option" where
  "rb_walk h [] p = Some p"
| "rb_walk h (d # ds) p = do { q \<leftarrow> (if d then RB_LEFT h p else RB_RIGHT h p); rb_walk h ds q }"

lemma walk_height:
  assumes "tree_at (rb_node h) par t" "rb_walk h ds (root_of t) = Some p"
  shows "length ds \<le> height t"
  using assms
proof (induction "rb_node h" par t arbitrary: ds rule: tree_at.induct)
  case (1 par)
  then show ?case by (cases ds) (auto simp: RB_LEFT_def RB_RIGHT_def split: if_splits)
next
  case (2 par l a c r)
  show ?case
  proof (cases ds)
    case (Cons d ds')
    have "rb_walk h ds' (root_of (if d then l else r)) = Some p"
      using "2.prems" Cons by (auto simp: RB_LEFT_def RB_RIGHT_def split: if_splits)
    then have "length ds' \<le> height (if d then l else r)" using "2.hyps" [of ds'] "2.prems"(1) by (auto split: if_splits)
    then show ?thesis using Cons by (auto split: if_splits)
  qed simp
qed

lemma walk_bound:
  assumes "rb_holds h xs" "rb_walk h ds (RB_ROOT h) = Some p"
  shows "2 ^ length ds \<le> (length xs + 1) ^ 2"
proof -
  obtain T where T: "rep h T" "is_rbt T" "nodes T = xs" using assms(1) by (auto simp: rb_holds_def)
  have "length ds \<le> height T" using walk_height [of h NULL T ds p] T(1) assms(2) by (simp add: rep_def RB_ROOT_def)
  also have "\<dots> \<le> bheight T * 2" using height_black [of T] T(2) by (simp add: is_rbt_def)
  finally have "(2 :: nat) ^ length ds \<le> (2 ^ bheight T) ^ 2" by (simp flip: power_mult add: power_increasing)
  also have "\<dots> \<le> (length xs + 1) ^ 2" using black_size [of T] T(2,3) by (intro power_mono) (simp_all add: is_rbt_def)
  finally show ?thesis .
qed

subsection \<open>Properties of the red-black trees\<close>

text \<open>A tree of one node and a second, free node: the concrete input of the witnesses.\<close>

definition demo_tree :: rb_tree where
  "demo_tree = \<lparr>rbh_root = Some 1, rb_node = [1 \<mapsto> \<lparr>rbe_left = NULL, rbe_right = NULL, rbe_parent = NULL,
     rbe_color = RB_BLACK\<rparr>, 2 \<mapsto> \<lparr>rbe_left = NULL, rbe_right = NULL, rbe_parent = NULL, rbe_color = RB_BLACK\<rparr>]\<rparr>"

definition demo_shape :: rbt where
  "demo_shape = Node Leaf (1, RB_BLACK) Leaf"

lemma demo_tree_rep: "rep demo_tree demo_shape" "is_rbt demo_shape" "nodes demo_shape = [1]"
  "ordered int [1]" "rb_node demo_tree 2 \<noteq> None"
  by (simp_all add: rep_def demo_tree_def demo_shape_def is_rbt_def ordered_def)

text \<open>C7.  \<open>RB_INSERT\<close> on a red-black tree ordered by a key, with a free node: it returns without a fault.
  If a node has the key already, the tree is unchanged and that node is returned; otherwise \<open>NULL\<close> is
  returned and the heap holds a red-black tree again (black root, no red node with a red child, equal
  black heights, consistent parent pointers), ordered, with the new node in its place in the in-order list.\<close>

theorem rb_insert_correct:
  assumes "rep h T" "is_rbt T" "ordered key (nodes T)" "compares cmp key (key e :: int) (nodes T)"
    "e \<notin> set (nodes T)" "rb_node h e \<noteq> None"
  shows "(\<exists>a \<in> set (nodes T). key a = key e \<and> RB_INSERT cmp h (Some e) = Some (h, Some a)) \<or>
    ((\<forall>a \<in> set (nodes T). key a \<noteq> key e) \<and>
     (\<exists>h' T'. RB_INSERT cmp h (Some e) = Some (h', NULL) \<and> rep h' T' \<and> is_rbt T' \<and>
        ordered key (nodes T') \<and> nodes T' = insort_key key e (nodes T)))"
  using INSERT_correct [OF assms] .

theorem rb_insert_correct_witness:
  "\<exists>h' T'. RB_INSERT (\<lambda>a. Some (2 - int a)) demo_tree (Some 2) = Some (h', NULL) \<and> rep h' T' \<and> is_rbt T' \<and>
     nodes T' = [1, 2]"
proof -
  have "compares (\<lambda>a. Some (2 - int a)) int (int 2) (nodes demo_shape)" by (simp add: compares_def demo_tree_rep)
  then show ?thesis
    using rb_insert_correct [of demo_tree demo_shape int "\<lambda>a. Some (2 - int a)" 2] demo_tree_rep by auto
qed

text \<open>C8.  \<open>RB_REMOVE\<close> of a node of a red-black tree returns that node without a fault and leaves a
  red-black tree whose in-order list is the old one without the node.\<close>

theorem rb_remove_correct:
  assumes "rep h T" "is_rbt T" "a \<in> set (nodes T)"
  shows "\<exists>h' T'. RB_REMOVE h (Some a) = Some (h', Some a) \<and> rep h' T' \<and> is_rbt T' \<and> nodes T' = remove1 a (nodes T)"
  using REMOVE_correct [OF assms] .

theorem rb_remove_correct_witness:
  "\<exists>h' T'. RB_REMOVE demo_tree (Some 1) = Some (h', Some 1) \<and> rep h' T' \<and> is_rbt T' \<and> nodes T' = []"
  using rb_remove_correct [of demo_tree demo_shape 1] demo_tree_rep by simp

text \<open>The two search loops: \<open>RB_FIND\<close> returns the node with the given key or \<open>NULL\<close>, \<open>RB_NFIND\<close> the
  first node whose key is at least the given one; neither faults.\<close>

lemma rb_search_correct:
  assumes "rep h T" "ordered key (nodes T)" "compares cmp key (x :: int) (nodes T)"
  shows "RB_FIND cmp h = Some (find (\<lambda>a. key a = x) (nodes T)) \<and>
    RB_NFIND cmp h = Some (find (\<lambda>a. x \<le> key a) (nodes T))"
  using assms FIND_loop_correct [of h "[]" T key cmp x] NFIND_loop_correct [of h "[]" T key cmp x NULL]
  by (auto simp: RB_FIND_def RB_NFIND_def RB_ROOT_def rep_root split: option.splits)

text \<open>C31.  Traversal: \<open>RB_FOREACH\<close> ends and visits the nodes in order, \<open>RB_FOREACH_REVERSE\<close> in reverse;
  \<open>RB_MIN\<close> and \<open>RB_MAX\<close> are the ends of the list, and \<open>RB_NEXT\<close> and \<open>RB_PREV\<close> the neighbours in it.\<close>

theorem rb_traverse:
  assumes "rep h T"
  shows "RB_FOREACH h = Some (nodes T) \<and> RB_FOREACH_REVERSE h = Some (rev (nodes T)) \<and>
    RB_MIN h = Some (first (nodes T)) \<and> RB_MAX h = Some (final (nodes T)) \<and>
    (\<forall>xs a ys. nodes T = xs @ a # ys \<longrightarrow>
      RB_NEXT h (Some a) = Some (first ys) \<and> RB_PREV h (Some a) = Some (final xs))"
  using assms
  by (simp add: FOREACH_nodes FOREACH_REVERSE_nodes MIN_correct MAX_correct NEXT_correct PREV_correct)

theorem rb_traverse_witness:
  "RB_FOREACH demo_tree = Some [1] \<and> RB_FOREACH_REVERSE demo_tree = Some [1] \<and> RB_NEXT demo_tree (Some 1) = Some NULL"
proof -
  have n: "nodes demo_shape = [] @ 1 # []" using demo_tree_rep by simp
  show ?thesis
    using rb_traverse [OF demo_tree_rep(1)] n by (metis append_Nil first_simps(1) rev_singleton_conv)
qed

text \<open>A node that was inserted is found by its key, and removing it gives the container back, through
  the contract of ordered containers.\<close>

lemma rb_insert_find_remove:
  assumes "rb_holds h xs" "ordered key xs" "allocated h e" "(key e :: int) \<notin> key ` set xs"
    "\<And>x ys. set ys \<subseteq> insert e (set xs) \<Longrightarrow> compares (cmp x) key x ys"
  shows "\<exists>h1 h2. RB_INSERT (cmp (key e)) h (Some e) = Some (h1, NULL) \<and>
    RB_FIND (cmp (key e)) h1 = Some (Some e) \<and> RB_REMOVE h1 (Some e) = Some (h2, Some e) \<and> rb_holds h2 xs"
  using rb.insert_search [OF assms] by auto

text \<open>C32.  Balance: in the heap that any sequence of \<open>RB_INSERT\<close> and \<open>RB_REMOVE\<close> makes from an empty tree, no walk along the
  links from the root, such as those of the search loops, has more than 2 log2 (n + 1) steps, where n is the number of
  elements (2 to the length of the walk is at most the square of n + 1).  The elements are those of the ordered list
  of the specification.\<close>

theorem rb_height_bound:
  assumes "set_fits key steps []" "\<forall>e. Ins e \<in> set steps \<longrightarrow> allocated h e" "\<And>e ys. compares (cmp e) key (key e) ys"
  shows "\<exists>h'. set_run RB_INSERT (\<lambda>_. RB_REMOVE) cmp steps (RB_INIT h) = Some h' \<and> RB_FOREACH h' = Some (set_spec key steps []) \<and>
    (\<forall>ds p. rb_walk h' ds (RB_ROOT h') = Some p \<longrightarrow> 2 ^ length ds \<le> (length (set_spec key steps []) + 1) ^ 2)"
proof -
  have "allocated (RB_INIT h) = allocated h" by (simp add: allocated_def RB_INIT_def)
  then obtain h' where h': "set_run RB_INSERT (\<lambda>_. RB_REMOVE) cmp steps (RB_INIT h) = Some h'" "rb_holds h' (set_spec key steps [])"
    using rb.run_refines [OF rb_holds_INIT, of key steps h cmp] assms by (auto simp: ordered_def)
  then have "RB_FOREACH h' = Some (set_spec key steps [])" using FOREACH_nodes by (auto simp: rb_holds_def)
  with h' show ?thesis using walk_bound by blast
qed

text \<open>Three insertions in the order of the keys and a removal.\<close>

definition free_nodes :: rb_tree where
  "free_nodes = \<lparr>rbh_root = NULL, rb_node = (\<lambda>_. Some \<lparr>rbe_left = NULL, rbe_right = NULL, rbe_parent = NULL, rbe_color = RB_BLACK\<rparr>)\<rparr>"

theorem rb_height_bound_witness:
  "\<exists>h'. set_run RB_INSERT (\<lambda>_. RB_REMOVE) (\<lambda>e a. Some (int e - int a)) [Ins 1, Ins 2, Ins 3, Del 2] (RB_INIT free_nodes) = Some h' \<and>
    RB_FOREACH h' = Some [1, 3] \<and> (\<forall>ds p. rb_walk h' ds (RB_ROOT h') = Some p \<longrightarrow> 2 ^ length ds \<le> (9 :: nat))"
proof -
  have "set_fits int [Ins 1, Ins 2, Ins 3, Del 2] []" "set_spec int [Ins 1, Ins 2, Ins 3, Del 2] [] = [1, 3]" by simp_all
  moreover have "(length [1, 3 :: addr] + 1) ^ 2 = (9 :: nat)" by (simp add: power2_eq_square)
  moreover have "allocated free_nodes e" for e by (simp add: allocated_def free_nodes_def)
  moreover have "compares (\<lambda>a. Some (int e - int a)) int (int e) ys" for e ys by (simp add: compares_def)
  ultimately show ?thesis
    using rb_height_bound [of int "[Ins 1, Ins 2, Ins 3, Del 2]" free_nodes "\<lambda>e a. Some (int e - int a)"] by metis
qed

end
