(* ===== verification/Splay_Refine.thy ===== *)
theory Splay_Refine
  imports Splay_Heap Ordered_Set
begin

text \<open>
  The splay trees of \<open>nty_tree.h\<close> as ordered sets.  The loop of \<open>SPLAY\<close> is top-down splaying: the tree is taken
  apart into what lies to the left of the searched element, what lies to the right of it and the rest, and put
  together again at the end.  \<open>splay\<close> is that algorithm on trees; the heap operations are shown to implement it
  (pointers, the local \<open>__node\<close> included) and to write only nodes of the tree, and the operations of the header meet
  the contract \<open>ordered_set\<close> of the red-black trees.
\<close>

subsection \<open>The algorithm on trees\<close>

text \<open>The state of the loop as trees: the current tree, and what was linked to the left and to the right of it,
  the last link first.\<close>

fun plugl :: "(addr tree \<times> addr) list \<Rightarrow> addr tree \<Rightarrow> addr tree" where
  "plugl [] x = x"
| "plugl ((l, a) # ls) x = plugl ls (Node l a x)"

fun plugr :: "(addr \<times> addr tree) list \<Rightarrow> addr tree \<Rightarrow> addr tree" where
  "plugr [] x = x"
| "plugr ((a, r) # rs) x = plugr rs (Node x a r)"

fun lnodes :: "(addr tree \<times> addr) list \<Rightarrow> addr list" where
  "lnodes [] = []"
| "lnodes ((l, a) # ls) = lnodes ls @ inorder l @ [a]"

fun rnodes :: "(addr \<times> addr tree) list \<Rightarrow> addr list" where
  "rnodes [] = []"
| "rnodes ((a, r) # rs) = a # inorder r @ rnodes rs"

lemma inorder_plugl [simp]: "inorder (plugl ls x) = lnodes ls @ inorder x"
  by (induction ls x rule: plugl.induct) auto

lemma inorder_plugr [simp]: "inorder (plugr rs x) = inorder x @ rnodes rs"
  by (induction rs x rule: plugr.induct) auto

type_synonym spl_parts = "(addr tree \<times> addr) list \<times> addr tree \<times> (addr \<times> addr tree) list"

fun splay :: "(addr \<Rightarrow> int) \<Rightarrow> (addr tree \<times> addr) list \<Rightarrow> addr tree \<Rightarrow> (addr \<times> addr tree) list \<Rightarrow> spl_parts" where
  "splay c ls Leaf rs = (ls, Leaf, rs)"
| "splay c ls (Node l a r) rs =
     (if c a < 0 then (case l of Leaf \<Rightarrow> (ls, Node l a r, rs)
        | Node ll b lr \<Rightarrow>
            if c b < 0 then (if ll = Leaf then (ls, Node ll b (Node lr a r), rs)
                             else splay c ls ll ((b, Node lr a r) # rs))
            else splay c ls l ((a, r) # rs))
      else if 0 < c a then (case r of Leaf \<Rightarrow> (ls, Node l a r, rs)
        | Node rl b rr \<Rightarrow>
            if 0 < c b then (if rr = Leaf then (ls, Node (Node l a rl) b rr, rs)
                             else splay c ((Node l a rl, b) # ls) rr rs)
            else splay c ((l, a) # ls) r rs)
      else (ls, Node l a r, rs))"

declare splay.simps(2) [simp del]

text \<open>One turn of the loop, as a case rule.\<close>

lemma splay_cases:
  assumes "splay c ls (Node l a r) rs = X"
  obtains "X = (ls, Node l a r, rs)" "c a < 0 \<longrightarrow> l = Leaf" "0 < c a \<longrightarrow> r = Leaf"
  | ll b lr where "l = Node ll b lr" "c a < 0" "c b < 0" "ll = Leaf" "X = (ls, Node ll b (Node lr a r), rs)"
  | ll b lr where "l = Node ll b lr" "c a < 0" "c b < 0" "ll \<noteq> Leaf" "splay c ls ll ((b, Node lr a r) # rs) = X"
  | ll b lr where "l = Node ll b lr" "c a < 0" "\<not> c b < 0" "splay c ls l ((a, r) # rs) = X"
  | rl b rr where "r = Node rl b rr" "0 < c a" "0 < c b" "rr = Leaf" "X = (ls, Node (Node l a rl) b rr, rs)"
  | rl b rr where "r = Node rl b rr" "0 < c a" "0 < c b" "rr \<noteq> Leaf" "splay c ((Node l a rl, b) # ls) rr rs = X"
  | rl b rr where "r = Node rl b rr" "0 < c a" "\<not> 0 < c b" "splay c ((l, a) # ls) r rs = X"
  using assms unfolding splay.simps(2) by (cases l; cases r) (auto split: if_splits)

text \<open>The order of the nodes is kept.\<close>

lemma splay_inorder:
  "splay c ls t rs = (ls', t', rs') \<Longrightarrow> lnodes ls' @ inorder t' @ rnodes rs' = lnodes ls @ inorder t @ rnodes rs"
proof (induction c ls t rs rule: splay.induct)
  case (2 c ls l a r rs)
  from 2(5) show ?case by (rule splay_cases) (use 2(1-4) in auto)
qed simp

lemma splay_Node: "splay c ls t rs = (ls', t', rs') \<Longrightarrow> t \<noteq> Leaf \<Longrightarrow> t' \<noteq> Leaf"
proof (induction c ls t rs rule: splay.induct)
  case (2 c ls l a r rs)
  from 2(5) show ?case by (rule splay_cases) (use 2(1-4) in auto)
qed simp

text \<open>What the loop has linked lies strictly on its side of the searched element, and it stops at the element or
  next to its place.\<close>

definition sided :: "(addr \<Rightarrow> int) \<Rightarrow> addr list \<Rightarrow> bool" where
  "sided c xs = sorted_wrt (\<lambda>x y. 0 < c x \<or> c y < 0) xs"

lemma sided_append [simp]:
  "sided c (xs @ ys) = (sided c xs \<and> sided c ys \<and> (\<forall>x \<in> set xs. \<forall>y \<in> set ys. 0 < c x \<or> c y < 0))"
  "sided c (x # ys) = (sided c ys \<and> (\<forall>y \<in> set ys. 0 < c x \<or> c y < 0))"
  "sided c []"
  by (auto simp: sided_def sorted_wrt_append)

lemma splay_sides:
  "splay c ls t rs = (ls', Node l' a' r', rs') \<Longrightarrow> \<forall>x \<in> set (lnodes ls). 0 < c x \<Longrightarrow>
   \<forall>x \<in> set (rnodes rs). c x < 0 \<Longrightarrow> sided c (inorder t) \<Longrightarrow>
   (\<forall>x \<in> set (lnodes ls'). 0 < c x) \<and> (\<forall>x \<in> set (rnodes rs'). c x < 0) \<and>
    (c a' < 0 \<longrightarrow> l' = Leaf) \<and> (0 < c a' \<longrightarrow> r' = Leaf)"
proof (induction c ls t rs rule: splay.induct)
  case (2 c ls l a r rs)
  from 2(5) show ?case
  proof (rule splay_cases)
    fix ll b lr assume "l = Node ll b lr" "c a < 0" "c b < 0" "ll \<noteq> Leaf"
      "splay c ls ll ((b, Node lr a r) # rs) = (ls', Node l' a' r', rs')"
    then show ?thesis using 2(1)[of ll b lr] 2(6-8) by fastforce
  next
    fix ll b lr assume "l = Node ll b lr" "c a < 0" "\<not> c b < 0"
      "splay c ls l ((a, r) # rs) = (ls', Node l' a' r', rs')"
    then show ?thesis using 2(2)[of ll b lr] 2(6-8) by fastforce
  next
    fix rl b rr assume "r = Node rl b rr" "0 < c a" "0 < c b" "rr \<noteq> Leaf"
      "splay c ((Node l a rl, b) # ls) rr rs = (ls', Node l' a' r', rs')"
    then show ?thesis using 2(3)[of rl b rr] 2(6-8) by fastforce
  next
    fix rl b rr assume "r = Node rl b rr" "0 < c a" "\<not> 0 < c b"
      "splay c ((l, a) # ls) r rs = (ls', Node l' a' r', rs')"
    then show ?thesis using 2(4)[of rl b rr] 2(6-8) by fastforce
  qed (use 2(6-8) in auto)
qed simp

subsection \<open>The heap implements the algorithm\<close>

fun spl_at :: "(addr \<Rightarrow> spl_entry option) \<Rightarrow> ptr \<Rightarrow> addr tree \<Rightarrow> bool" where
  "spl_at m p Leaf = (p = NULL)"
| "spl_at m p (Node l a r) = (p = Some a \<and> (\<exists>e. m a = Some e \<and> spl_at m (spe_left e) l \<and> spl_at m (spe_right e) r))"

text \<open>The pointer in the hole of the left part: the right field of its last node, or of \<open>__node\<close>; and the
  reference \<open>__left\<close> to that node.\<close>

fun lhole :: "(addr \<Rightarrow> spl_entry option) \<Rightarrow> ptr \<Rightarrow> (addr tree \<times> addr) list \<Rightarrow> ptr option" where
  "lhole m q [] = Some q"
| "lhole m q ((l, a) # ls) = map_option spe_right (m a)"

fun rhole :: "(addr \<Rightarrow> spl_entry option) \<Rightarrow> ptr \<Rightarrow> (addr \<times> addr tree) list \<Rightarrow> ptr option" where
  "rhole m q [] = Some q"
| "rhole m q ((a, r) # rs) = map_option spe_left (m a)"

fun lref :: "(addr tree \<times> addr) list \<Rightarrow> spl_ref" where
  "lref [] = Local"
| "lref ((l, a) # ls) = Elm (Some a)"

fun rref :: "(addr \<times> addr tree) list \<Rightarrow> spl_ref" where
  "rref [] = Local"
| "rref ((a, r) # rs) = Elm (Some a)"

fun left_at :: "(addr \<Rightarrow> spl_entry option) \<Rightarrow> ptr \<Rightarrow> (addr tree \<times> addr) list \<Rightarrow> bool" where
  "left_at m q [] = True"
| "left_at m q ((l, a) # ls) = ((\<exists>e. m a = Some e \<and> spl_at m (spe_left e) l) \<and> lhole m q ls = Some (Some a) \<and> left_at m q ls)"

fun right_at :: "(addr \<Rightarrow> spl_entry option) \<Rightarrow> ptr \<Rightarrow> (addr \<times> addr tree) list \<Rightarrow> bool" where
  "right_at m q [] = True"
| "right_at m q ((a, r) # rs) = ((\<exists>e. m a = Some e \<and> spl_at m (spe_right e) r) \<and> rhole m q rs = Some (Some a) \<and> right_at m q rs)"

lemma spl_at_frame [simp]: "a \<notin> set (inorder t) \<Longrightarrow> spl_at (m(a := v)) p t = spl_at m p t"
  by (induction m p t rule: spl_at.induct) auto

lemma lhole_frame [simp]: "a \<notin> set (lnodes ls) \<Longrightarrow> lhole (m(a := v)) q ls = lhole m q ls"
  by (cases "(m, q, ls)" rule: lhole.cases) auto

lemma rhole_frame [simp]: "a \<notin> set (rnodes rs) \<Longrightarrow> rhole (m(a := v)) q rs = rhole m q rs"
  by (cases "(m, q, rs)" rule: rhole.cases) auto

lemma left_at_frame [simp]: "a \<notin> set (lnodes ls) \<Longrightarrow> left_at (m(a := v)) q ls = left_at m q ls"
  by (induction m q ls rule: left_at.induct) auto

lemma right_at_frame [simp]: "a \<notin> set (rnodes rs) \<Longrightarrow> right_at (m(a := v)) q rs = right_at m q rs"
  by (induction m q rs rule: right_at.induct) auto

lemma spl_at_plugl: "left_at m q ls \<Longrightarrow> lhole m q ls = Some p \<Longrightarrow> spl_at m p x \<Longrightarrow> spl_at m q (plugl ls x)"
  by (induction ls x arbitrary: p rule: plugl.induct) auto

lemma spl_at_plugr: "right_at m q rs \<Longrightarrow> rhole m q rs = Some p \<Longrightarrow> spl_at m p x \<Longrightarrow> spl_at m q (plugr rs x)"
  by (induction rs x arbitrary: p rule: plugr.induct) auto

definition spl_dom :: "spl_tree \<Rightarrow> addr \<Rightarrow> bool" where
  "spl_dom h = (\<lambda>a. spl_node h a \<noteq> None)"

text \<open>Nothing is allocated or freed, and only the nodes of \<open>A\<close> are written.\<close>

definition spl_same :: "addr set \<Rightarrow> spl_tree \<Rightarrow> spl_tree \<Rightarrow> bool" where
  "spl_same A h h' = (\<forall>x. (spl_node h' x = None \<longleftrightarrow> spl_node h x = None) \<and> (x \<notin> A \<longrightarrow> spl_node h' x = spl_node h x))"

lemma spl_same_refl [simp]: "spl_same A h h"
  by (simp add: spl_same_def)

lemma spl_same_trans: "spl_same A h1 h2 \<Longrightarrow> spl_same A h2 h3 \<Longrightarrow> spl_same A h1 h3"
  by (simp add: spl_same_def)

lemma spl_same_dom: "spl_same A h h' \<Longrightarrow> spl_dom h' = spl_dom h"
  by (simp add: spl_same_def spl_dom_def)

lemma spl_same_root [simp]: "spl_same A h (h'\<lparr>sph_root := p\<rparr>) = spl_same A h h'"
  by (simp add: spl_same_def)

lemma spl_same_step:
  "spl_same A h h' \<Longrightarrow> a \<in> A \<Longrightarrow> spl_node h' a = Some e \<Longrightarrow> spl_same A h (h'\<lparr>spl_node := (spl_node h')(a \<mapsto> e')\<rparr>)"
  by (auto simp: spl_same_def) (metis option.distinct(1) option.exhaust)

definition parts :: "spl_parts \<Rightarrow> addr set" where
  "parts = (\<lambda>(ls, t, rs). set (lnodes ls @ inorder t @ rnodes rs))"

definition loop_at :: "spl_tree \<Rightarrow> spl_entry \<Rightarrow> spl_parts \<Rightarrow> bool" where
  "loop_at h n = (\<lambda>(ls, t, rs). distinct (lnodes ls @ inorder t @ rnodes rs) \<and>
     spl_at (spl_node h) (sph_root h) t \<and> left_at (spl_node h) (spe_right n) ls \<and> right_at (spl_node h) (spe_left n) rs)"

lemmas splay_ops = SPLAY_LEFT_def SPLAY_RIGHT_def set_SPLAY_LEFT_def set_SPLAY_RIGHT_def ref_LEFT_def ref_RIGHT_def

text \<open>Writing through \<open>__left\<close> and \<open>__right\<close> fills the hole.\<close>

lemma ref_RIGHT_ok:
  assumes "loop_at h n (ls, t, rs)"
  shows "\<exists>h' n'. ref_RIGHT h n (lref ls) v = Some (h', n') \<and> left_at (spl_node h') (spe_right n') ls \<and>
    lhole (spl_node h') (spe_right n') ls = Some v \<and> loop_at h' n' (ls, t, rs) \<and>
    rhole (spl_node h') (spe_left n') rs = rhole (spl_node h) (spe_left n) rs \<and>
    sph_root h' = sph_root h \<and> spl_same (parts (ls, t, rs)) h h'"
proof (cases ls)
  case Nil
  then show ?thesis using assms by (simp add: ref_RIGHT_def loop_at_def spl_same_refl)
next
  case (Cons la ls')
  obtain l a where la: "la = (l, a)" by (cases la)
  then obtain e where e: "spl_node h a = Some e" "spl_at (spl_node h) (spe_left e) l" using assms Cons by (auto simp: loop_at_def)
  show ?thesis using assms Cons la e by (auto simp: splay_ops spl_same_def loop_at_def parts_def)
qed

lemma ref_LEFT_ok:
  assumes "loop_at h n (ls, t, rs)"
  shows "\<exists>h' n'. ref_LEFT h n (rref rs) v = Some (h', n') \<and> right_at (spl_node h') (spe_left n') rs \<and>
    rhole (spl_node h') (spe_left n') rs = Some v \<and> loop_at h' n' (ls, t, rs) \<and>
    lhole (spl_node h') (spe_right n') ls = lhole (spl_node h) (spe_right n) ls \<and>
    sph_root h' = sph_root h \<and> spl_same (parts (ls, t, rs)) h h'"
proof (cases rs)
  case Nil
  then show ?thesis using assms by (simp add: ref_LEFT_def loop_at_def spl_same_refl)
next
  case (Cons ar rs')
  obtain a r where ar: "ar = (a, r)" by (cases ar)
  then obtain e where e: "spl_node h a = Some e" "spl_at (spl_node h) (spe_right e) r" using assms Cons by (auto simp: loop_at_def)
  show ?thesis using assms Cons ar e by (auto simp: splay_ops spl_same_def loop_at_def parts_def)
qed

lemma LINKRIGHT_ok:
  assumes "loop_at h n (ls, Node l a r, rs)"
  shows "\<exists>h' n'. SPLAY_LINKRIGHT h n (lref ls) = Some (h', n', lref ((l, a) # ls)) \<and>
    loop_at h' n' ((l, a) # ls, r, rs) \<and> spl_same (parts (ls, Node l a r, rs)) h h'"
proof -
  obtain h' n' where h': "ref_RIGHT h n (lref ls) (Some a) = Some (h', n')" "lhole (spl_node h') (spe_right n') ls = Some (Some a)"
      "loop_at h' n' (ls, Node l a r, rs)" "sph_root h' = sph_root h" "spl_same (parts (ls, Node l a r, rs)) h h'"
    using ref_RIGHT_ok [OF assms, of "Some a"] by blast
  then show ?thesis
    using assms by (auto simp: SPLAY_LINKRIGHT_def loop_at_def SPLAY_RIGHT_def)
qed

lemma LINKLEFT_ok:
  assumes "loop_at h n (ls, Node l a r, rs)"
  shows "\<exists>h' n'. SPLAY_LINKLEFT h n (rref rs) = Some (h', n', rref ((a, r) # rs)) \<and>
    loop_at h' n' (ls, l, (a, r) # rs) \<and> spl_same (parts (ls, Node l a r, rs)) h h'"
proof -
  obtain h' n' where h': "ref_LEFT h n (rref rs) (Some a) = Some (h', n')" "rhole (spl_node h') (spe_left n') rs = Some (Some a)"
      "loop_at h' n' (ls, Node l a r, rs)" "sph_root h' = sph_root h" "spl_same (parts (ls, Node l a r, rs)) h h'"
    using ref_LEFT_ok [OF assms, of "Some a"] by blast
  then show ?thesis
    using assms by (auto simp: SPLAY_LINKLEFT_def loop_at_def SPLAY_LEFT_def)
qed

lemma ROTATE_RIGHT_ok:
  assumes "loop_at h n (ls, Node (Node ll b lr) a r, rs)"
  shows "\<exists>h'. SPLAY_ROTATE_RIGHT h (Some b) = Some h' \<and> loop_at h' n (ls, Node ll b (Node lr a r), rs) \<and>
    spl_same (parts (ls, Node (Node ll b lr) a r, rs)) h h'"
proof -
  obtain e d where e: "sph_root h = Some a" "spl_node h a = Some e" "spe_left e = Some b" "spl_at (spl_node h) (spe_right e) r"
      "spl_node h b = Some d" "spl_at (spl_node h) (spe_left d) ll" "spl_at (spl_node h) (spe_right d) lr" "a \<noteq> b"
    using assms by (auto simp: loop_at_def)
  let ?m = "(spl_node h)(a \<mapsto> e\<lparr>spe_left := spe_right d\<rparr>, b \<mapsto> d\<lparr>spe_right := Some a\<rparr>)"
  have run: "SPLAY_ROTATE_RIGHT h (Some b) = Some (h\<lparr>sph_root := Some b, spl_node := ?m\<rparr>)"
    using e by (cases h) (simp add: SPLAY_ROTATE_RIGHT_def splay_ops)
  have same: "lnodes ls @ inorder (Node ll b (Node lr a r)) @ rnodes rs = lnodes ls @ inorder (Node (Node ll b lr) a r) @ rnodes rs"
    by simp
  have "distinct (lnodes ls @ inorder (Node ll b (Node lr a r)) @ rnodes rs)"
    unfolding same using assms by (simp only: loop_at_def prod.case)
  moreover have "spl_at ?m (Some b) (Node ll b (Node lr a r))" "left_at ?m (spe_right n) ls" "right_at ?m (spe_left n) rs"
    using assms e by (auto simp: loop_at_def)
  ultimately have "loop_at (h\<lparr>sph_root := Some b, spl_node := ?m\<rparr>) n (ls, Node ll b (Node lr a r), rs)"
    by (simp del: distinct_append inorder.simps add: loop_at_def)
  moreover have "spl_same (parts (ls, Node (Node ll b lr) a r, rs)) h (h\<lparr>sph_root := Some b, spl_node := ?m\<rparr>)"
    using e by (auto simp: spl_same_def parts_def)
  ultimately show ?thesis using run by blast
qed

lemma ROTATE_LEFT_ok:
  assumes "loop_at h n (ls, Node l a (Node rl b rr), rs)"
  shows "\<exists>h'. SPLAY_ROTATE_LEFT h (Some b) = Some h' \<and> loop_at h' n (ls, Node (Node l a rl) b rr, rs) \<and>
    spl_same (parts (ls, Node l a (Node rl b rr), rs)) h h'"
proof -
  obtain e d where e: "sph_root h = Some a" "spl_node h a = Some e" "spe_right e = Some b" "spl_at (spl_node h) (spe_left e) l"
      "spl_node h b = Some d" "spl_at (spl_node h) (spe_left d) rl" "spl_at (spl_node h) (spe_right d) rr" "a \<noteq> b"
    using assms by (auto simp: loop_at_def)
  let ?m = "(spl_node h)(a \<mapsto> e\<lparr>spe_right := spe_left d\<rparr>, b \<mapsto> d\<lparr>spe_left := Some a\<rparr>)"
  have run: "SPLAY_ROTATE_LEFT h (Some b) = Some (h\<lparr>sph_root := Some b, spl_node := ?m\<rparr>)"
    using e by (cases h) (simp add: SPLAY_ROTATE_LEFT_def splay_ops)
  have same: "lnodes ls @ inorder (Node (Node l a rl) b rr) @ rnodes rs = lnodes ls @ inorder (Node l a (Node rl b rr)) @ rnodes rs"
    by simp
  have "distinct (lnodes ls @ inorder (Node (Node l a rl) b rr) @ rnodes rs)"
    unfolding same using assms by (simp only: loop_at_def prod.case)
  moreover have "spl_at ?m (Some b) (Node (Node l a rl) b rr)" "left_at ?m (spe_right n) ls" "right_at ?m (spe_left n) rs"
    using assms e by (auto simp: loop_at_def)
  ultimately have "loop_at (h\<lparr>sph_root := Some b, spl_node := ?m\<rparr>) n (ls, Node (Node l a rl) b rr, rs)"
    by (simp del: distinct_append inorder.simps add: loop_at_def)
  moreover have "spl_same (parts (ls, Node l a (Node rl b rr), rs)) h (h\<lparr>sph_root := Some b, spl_node := ?m\<rparr>)"
    using e by (auto simp: spl_same_def parts_def)
  ultimately show ?thesis using run by blast
qed

definition spl_rep :: "spl_tree \<Rightarrow> addr tree \<Rightarrow> bool" where
  "spl_rep h t = (distinct (inorder t) \<and> spl_at (spl_node h) (sph_root h) t)"

lemma ASSEMBLE_ok:
  assumes "loop_at h n (ls, Node l a r, rs)"
  shows "\<exists>h'. SPLAY_ASSEMBLE h n (lref ls) (rref rs) = Some h' \<and> spl_rep h' (Node (plugl ls l) a (plugr rs r)) \<and>
    sph_root h' = Some a \<and> spl_same (parts (ls, Node l a r, rs)) h h'"
proof -
  obtain e where e: "sph_root h = Some a" "spl_node h a = Some e" "spl_at (spl_node h) (spe_left e) l"
      "spl_at (spl_node h) (spe_right e) r"
    using assms by (auto simp: loop_at_def)
  obtain h1 n1 where 1: "ref_RIGHT h n (lref ls) (spe_left e) = Some (h1, n1)"
      "lhole (spl_node h1) (spe_right n1) ls = Some (spe_left e)" "loop_at h1 n1 (ls, Node l a r, rs)"
      "sph_root h1 = Some a" "spl_same (parts (ls, Node l a r, rs)) h h1"
    using ref_RIGHT_ok [OF assms, of "spe_left e"] e(1) by auto
  have same1: "spl_node h1 a = Some e"
    using 1(1) assms e by (cases ls) (auto simp: splay_ops loop_at_def store_eq_Some split: if_splits)
  obtain h2 n2 where 2: "ref_LEFT h1 n1 (rref rs) (spe_right e) = Some (h2, n2)"
      "rhole (spl_node h2) (spe_left n2) rs = Some (spe_right e)" "loop_at h2 n2 (ls, Node l a r, rs)"
      "lhole (spl_node h2) (spe_right n2) ls = Some (spe_left e)" "sph_root h2 = Some a" "spl_same (parts (ls, Node l a r, rs)) h1 h2"
    using ref_LEFT_ok [OF 1(3), of "spe_right e"] 1(2,4) by auto
  have same2: "spl_node h2 a = Some e"
    using 2(1) same1 1(3) by (cases rs) (auto simp: splay_ops loop_at_def store_eq_Some split: if_splits)
  let ?h = "h2\<lparr>spl_node := (spl_node h2)(a \<mapsto> e\<lparr>spe_left := spe_right n2, spe_right := spe_left n2\<rparr>)\<rparr>"
  have run: "SPLAY_ASSEMBLE h n (lref ls) (rref rs) = Some ?h"
    using e(1,2) 1(1,4) 2(1,5) same1 same2 by (simp add: SPLAY_ASSEMBLE_def SPLAY_LEFT_def SPLAY_RIGHT_def set_SPLAY_LEFT_def set_SPLAY_RIGHT_def)
  have "spl_at (spl_node h2) (spe_right n2) (plugl ls l)" "spl_at (spl_node h2) (spe_left n2) (plugr rs r)"
    using spl_at_plugl [OF _ 2(4)] spl_at_plugr [OF _ 2(2)] 2(3) same2 by (auto simp: loop_at_def)
  then have "spl_rep ?h (Node (plugl ls l) a (plugr rs r))"
    using assms 2(5) by (auto simp: spl_rep_def loop_at_def)
  moreover have "spl_same (parts (ls, Node l a r, rs)) h ?h"
    using spl_same_step [OF spl_same_trans [OF 1(5) 2(6)] _ same2] by (simp add: parts_def)
  ultimately show ?thesis using run 2(5) by auto
qed

text \<open>One turn of the loop, on each side.\<close>

lemma body_left:
  assumes "loop_at h n (ls, Node l a r, rs)" "cp < 0" "\<forall>b \<in> set (inorder l). cmp b = Some (c b)"
  shows "case l of
      Leaf \<Rightarrow> SPLAY_body cmp cp (h, n, lref ls, rref rs) = Some ((h, n, lref ls, rref rs), True)
    | Node ll b lr \<Rightarrow> \<exists>h' n'. spl_same (parts (ls, Node l a r, rs)) h h' \<and>
        (if c b < 0 then
           (if ll = Leaf then SPLAY_body cmp cp (h, n, lref ls, rref rs) = Some ((h', n', lref ls, rref rs), True) \<and>
              loop_at h' n' (ls, Node ll b (Node lr a r), rs)
            else SPLAY_body cmp cp (h, n, lref ls, rref rs) = Some ((h', n', lref ls, Elm (Some b)), False) \<and>
              loop_at h' n' (ls, ll, (b, Node lr a r) # rs))
         else SPLAY_body cmp cp (h, n, lref ls, rref rs) = Some ((h', n', lref ls, Elm (Some a)), False) \<and>
              loop_at h' n' (ls, l, (a, r) # rs))"
proof (cases l)
  case Leaf
  then show ?thesis using assms(1,2) by (auto simp: SPLAY_body_def loop_at_def SPLAY_LEFT_def)
next
  case (Node ll b lr)
  obtain e where e: "sph_root h = Some a" "spl_node h a = Some e" "spe_left e = Some b"
    using assms(1) Node by (auto simp: loop_at_def)
  have b: "cmp b = Some (c b)" using assms(3) Node by simp
  show ?thesis
  proof (cases "c b < 0")
    case True
    obtain h1 where 1: "SPLAY_ROTATE_RIGHT h (Some b) = Some h1" "loop_at h1 n (ls, Node ll b (Node lr a r), rs)"
        "spl_same (parts (ls, Node l a r, rs)) h h1"
      using ROTATE_RIGHT_ok [of h n ls ll b lr a r rs] assms(1) Node by auto
    obtain e1 where e1: "sph_root h1 = Some b" "spl_node h1 b = Some e1" "spe_left e1 = NULL \<longleftrightarrow> ll = Leaf"
      using 1(2) by (cases ll) (auto simp: loop_at_def)
    obtain h2 n2 where 2: "SPLAY_LINKLEFT h1 n (rref rs) = Some (h2, n2, Elm (Some b))"
        "loop_at h2 n2 (ls, ll, (b, Node lr a r) # rs)" "spl_same (parts (ls, Node l a r, rs)) h1 h2"
      using LINKLEFT_ok [OF 1(2)] Node by (auto simp: parts_def Un_ac insert_commute)
    show ?thesis
      using Node True e b 1 e1 2 assms(2) by (auto simp: SPLAY_body_def SPLAY_LEFT_def intro: spl_same_trans)
  next
    case False
    obtain h2 n2 where 2: "SPLAY_LINKLEFT h n (rref rs) = Some (h2, n2, Elm (Some a))"
        "loop_at h2 n2 (ls, l, (a, r) # rs)" "spl_same (parts (ls, Node l a r, rs)) h h2"
      using LINKLEFT_ok [OF assms(1)] by auto
    then show ?thesis using Node False e b assms(2) by (auto simp: SPLAY_body_def SPLAY_LEFT_def)
  qed
qed

lemma body_right:
  assumes "loop_at h n (ls, Node l a r, rs)" "0 < cp" "\<forall>b \<in> set (inorder r). cmp b = Some (c b)"
  shows "case r of
      Leaf \<Rightarrow> SPLAY_body cmp cp (h, n, lref ls, rref rs) = Some ((h, n, lref ls, rref rs), True)
    | Node rl b rr \<Rightarrow> \<exists>h' n'. spl_same (parts (ls, Node l a r, rs)) h h' \<and>
        (if 0 < c b then
           (if rr = Leaf then SPLAY_body cmp cp (h, n, lref ls, rref rs) = Some ((h', n', lref ls, rref rs), True) \<and>
              loop_at h' n' (ls, Node (Node l a rl) b rr, rs)
            else SPLAY_body cmp cp (h, n, lref ls, rref rs) = Some ((h', n', Elm (Some b), rref rs), False) \<and>
              loop_at h' n' ((Node l a rl, b) # ls, rr, rs))
         else SPLAY_body cmp cp (h, n, lref ls, rref rs) = Some ((h', n', Elm (Some a), rref rs), False) \<and>
              loop_at h' n' ((l, a) # ls, r, rs))"
proof (cases r)
  case Leaf
  then show ?thesis using assms(1,2) by (auto simp: SPLAY_body_def loop_at_def SPLAY_RIGHT_def)
next
  case (Node rl b rr)
  obtain e where e: "sph_root h = Some a" "spl_node h a = Some e" "spe_right e = Some b"
    using assms(1) Node by (auto simp: loop_at_def)
  have b: "cmp b = Some (c b)" using assms(3) Node by simp
  show ?thesis
  proof (cases "0 < c b")
    case True
    obtain h1 where 1: "SPLAY_ROTATE_LEFT h (Some b) = Some h1" "loop_at h1 n (ls, Node (Node l a rl) b rr, rs)"
        "spl_same (parts (ls, Node l a r, rs)) h h1"
      using ROTATE_LEFT_ok [of h n ls l a rl b rr rs] assms(1) Node by auto
    obtain e1 where e1: "sph_root h1 = Some b" "spl_node h1 b = Some e1" "spe_right e1 = NULL \<longleftrightarrow> rr = Leaf"
      using 1(2) by (cases rr) (auto simp: loop_at_def)
    obtain h2 n2 where 2: "SPLAY_LINKRIGHT h1 n (lref ls) = Some (h2, n2, Elm (Some b))"
        "loop_at h2 n2 ((Node l a rl, b) # ls, rr, rs)" "spl_same (parts (ls, Node l a r, rs)) h1 h2"
      using LINKRIGHT_ok [OF 1(2)] Node by (auto simp: parts_def Un_ac insert_commute)
    show ?thesis
      using Node True e b 1 e1 2 assms(2) by (auto simp: SPLAY_body_def SPLAY_RIGHT_def intro: spl_same_trans)
  next
    case False
    obtain h2 n2 where 2: "SPLAY_LINKRIGHT h n (lref ls) = Some (h2, n2, Elm (Some a))"
        "loop_at h2 n2 ((l, a) # ls, r, rs)" "spl_same (parts (ls, Node l a r, rs)) h h2"
      using LINKRIGHT_ok [OF assms(1)] by auto
    then show ?thesis using Node False e b assms(2) by (auto simp: SPLAY_body_def SPLAY_RIGHT_def)
  qed
qed

text \<open>The loop ends, with the parts the algorithm on trees gives.\<close>

definition loop_result :: "spl_tree \<Rightarrow> (addr \<Rightarrow> int) \<Rightarrow> spl_parts \<Rightarrow> spl_state option \<Rightarrow> bool" where
  "loop_result h c = (\<lambda>(ls, t, rs) res. \<exists>h' n' ls' t' rs'. res = Some (h', n', lref ls', rref rs') \<and>
     splay c ls t rs = (ls', t', rs') \<and> loop_at h' n' (ls', t', rs') \<and> spl_same (parts (ls, t, rs)) h h')"

lemma loop_ok:
  assumes "loop_at h n (ls, t, rs)" "t \<noteq> Leaf"
    "\<forall>a \<in> set (inorder t). test (Some a) = Some (c a \<noteq> 0, c a) \<and> cmp a = Some (c a)"
  shows "loop_result h c (ls, t, rs) (SPLAY_loop test cmp (h, n, lref ls, rref rs))"
  using assms
proof (induction c ls t rs arbitrary: h n rule: splay.induct)
  case (2 c ls l a r rs)
  have a: "sph_root h = Some a" "test (Some a) = Some (c a \<noteq> 0, c a)" using "2.prems" by (auto simp: loop_at_def)
  consider "c a = 0" | "c a < 0" | "0 < c a" by linarith
  then show ?case
  proof cases
    case 1
    then show ?thesis
      using a "2.prems"(1) by (subst SPLAY_loop.simps) (auto simp: loop_result_def splay.simps(2) spl_same_refl)
  next
    case neg: 2
    note body = body_left [OF "2.prems"(1) neg, of cmp c]
    show ?thesis
    proof (cases l)
      case Leaf
      then show ?thesis
        using a neg body "2.prems"(1) by (subst SPLAY_loop.simps) (auto simp: loop_result_def splay.simps(2) spl_same_refl)
    next
      case l: (Node ll b lr)
      from body obtain h' n' where h': "spl_same (parts (ls, Node l a r, rs)) h h'"
        "if c b < 0 then
           (if ll = Leaf then SPLAY_body cmp (c a) (h, n, lref ls, rref rs) = Some ((h', n', lref ls, rref rs), True) \<and>
              loop_at h' n' (ls, Node ll b (Node lr a r), rs)
            else SPLAY_body cmp (c a) (h, n, lref ls, rref rs) = Some ((h', n', lref ls, Elm (Some b)), False) \<and>
              loop_at h' n' (ls, ll, (b, Node lr a r) # rs))
         else SPLAY_body cmp (c a) (h, n, lref ls, rref rs) = Some ((h', n', lref ls, Elm (Some a)), False) \<and>
              loop_at h' n' (ls, l, (a, r) # rs)"
        using "2.prems"(3) l by auto
      have sub: "set (inorder ll) \<subseteq> set (inorder (Node l a r))" "set (inorder l) \<subseteq> set (inorder (Node l a r))"
        using l by auto
      have zig: "loop_result h' c (ls, ll, (b, Node lr a r) # rs) (SPLAY_loop test cmp (h', n', lref ls, Elm (Some b)))"
        if "c b < 0" "ll \<noteq> Leaf"
        using "2.IH"(1) [OF neg l that, of h' n'] h'(2) that sub(1) "2.prems"(3) by auto
      have zag: "loop_result h' c (ls, l, (a, r) # rs) (SPLAY_loop test cmp (h', n', lref ls, Elm (Some a)))"
        if "\<not> c b < 0"
        using "2.IH"(2) [OF neg l that, of h' n'] h'(2) that l sub(2) "2.prems"(3) by auto
      have step: "splay c ls (Node l a r) rs = (if c b < 0 then if ll = Leaf then (ls, Node ll b (Node lr a r), rs)
          else splay c ls ll ((b, Node lr a r) # rs) else splay c ls l ((a, r) # rs))"
        using splay.simps(2) [of c ls l a r rs] neg unfolding l by simp
      have same: "parts (ls, ll, (b, Node lr a r) # rs) = parts (ls, Node l a r, rs)"
          "parts (ls, l, (a, r) # rs) = parts (ls, Node l a r, rs)"
        using l by (auto simp: parts_def)
      show ?thesis
        using a neg h' zig zag unfolding loop_result_def prod.case step same
        by (subst SPLAY_loop.simps) (auto split: if_splits intro: spl_same_trans)
    qed
  next
    case pos: 3
    note body = body_right [OF "2.prems"(1) pos, of cmp c]
    show ?thesis
    proof (cases r)
      case Leaf
      then show ?thesis
        using a pos body "2.prems"(1) by (subst SPLAY_loop.simps) (auto simp: loop_result_def splay.simps(2) spl_same_refl)
    next
      case r: (Node rl b rr)
      from body obtain h' n' where h': "spl_same (parts (ls, Node l a r, rs)) h h'"
        "if 0 < c b then
           (if rr = Leaf then SPLAY_body cmp (c a) (h, n, lref ls, rref rs) = Some ((h', n', lref ls, rref rs), True) \<and>
              loop_at h' n' (ls, Node (Node l a rl) b rr, rs)
            else SPLAY_body cmp (c a) (h, n, lref ls, rref rs) = Some ((h', n', Elm (Some b), rref rs), False) \<and>
              loop_at h' n' ((Node l a rl, b) # ls, rr, rs))
         else SPLAY_body cmp (c a) (h, n, lref ls, rref rs) = Some ((h', n', Elm (Some a), rref rs), False) \<and>
              loop_at h' n' ((l, a) # ls, r, rs)"
        using "2.prems"(3) r by auto
      have npos: "\<not> c a < 0" using pos by simp
      have sub: "set (inorder rr) \<subseteq> set (inorder (Node l a r))" "set (inorder r) \<subseteq> set (inorder (Node l a r))"
        using r by auto
      have zig: "loop_result h' c ((Node l a rl, b) # ls, rr, rs) (SPLAY_loop test cmp (h', n', Elm (Some b), rref rs))"
        if "0 < c b" "rr \<noteq> Leaf"
        using "2.IH"(3) [OF npos pos r that, of h' n'] h'(2) that sub(1) "2.prems"(3) by auto
      have zag: "loop_result h' c ((l, a) # ls, r, rs) (SPLAY_loop test cmp (h', n', Elm (Some a), rref rs))"
        if "\<not> 0 < c b"
        using "2.IH"(4) [OF npos pos r that, of h' n'] h'(2) that r sub(2) "2.prems"(3) by auto
      have step: "splay c ls (Node l a r) rs = (if 0 < c b then if rr = Leaf then (ls, Node (Node l a rl) b rr, rs)
          else splay c ((Node l a rl, b) # ls) rr rs else splay c ((l, a) # ls) r rs)"
        using splay.simps(2) [of c ls l a r rs] pos unfolding r by simp
      have same: "parts ((Node l a rl, b) # ls, rr, rs) = parts (ls, Node l a r, rs)"
          "parts ((l, a) # ls, r, rs) = parts (ls, Node l a r, rs)"
        using r by (auto simp: parts_def)
      show ?thesis
        using a pos h' zig zag unfolding loop_result_def prod.case step same
        by (subst SPLAY_loop.simps) (auto split: if_splits intro: spl_same_trans)
    qed
  qed
qed simp

subsection \<open>The operations\<close>

text \<open>\<open>SPLAY\<close> brings the searched element, or a neighbour of its place, to the root: what lies to the left is
  smaller, what lies to the right is greater.\<close>

lemma splay_result:
  assumes "loop_result h c ([], t, []) (Some st)" "t \<noteq> Leaf" "sided c (inorder t)"
  shows "\<exists>h' l a r. (case st of (h, n, lf, rg) \<Rightarrow> SPLAY_ASSEMBLE h n lf rg) = Some h' \<and> spl_rep h' (Node l a r) \<and>
    inorder l @ a # inorder r = inorder t \<and> (\<forall>x \<in> set (inorder l). 0 < c x) \<and> (\<forall>x \<in> set (inorder r). c x < 0) \<and>
    sph_root h' = Some a \<and> spl_same (set (inorder t)) h h'"
proof -
  obtain h1 n1 ls t1 rs where 1: "st = (h1, n1, lref ls, rref rs)" "splay c [] t [] = (ls, t1, rs)"
      "loop_at h1 n1 (ls, t1, rs)" "spl_same (set (inorder t)) h h1"
    using assms(1) by (auto simp: loop_result_def parts_def)
  obtain l a r where t1: "t1 = Node l a r" using splay_Node [OF 1(2) assms(2)] by (cases t1) auto
  have eq: "lnodes ls @ inorder t1 @ rnodes rs = inorder t" using splay_inorder [OF 1(2)] by simp
  have sides: "\<forall>x \<in> set (lnodes ls). 0 < c x" "\<forall>x \<in> set (rnodes rs). c x < 0" "c a < 0 \<longrightarrow> l = Leaf" "0 < c a \<longrightarrow> r = Leaf"
    using splay_sides [OF 1(2) [unfolded t1]] assms(3) by auto
  have "sided c (inorder t1)" using assms(3) eq [symmetric] by simp
  then have lr: "\<forall>x \<in> set (inorder l). 0 < c x" "\<forall>x \<in> set (inorder r). c x < 0"
    using sides(3,4) t1 by auto
  obtain h' where h': "SPLAY_ASSEMBLE h1 n1 (lref ls) (rref rs) = Some h'" "spl_rep h' (Node (plugl ls l) a (plugr rs r))"
      "sph_root h' = Some a" "spl_same (parts (ls, t1, rs)) h1 h'"
    using ASSEMBLE_ok [OF 1(3) [unfolded t1]] t1 by auto
  have "parts (ls, t1, rs) = set (inorder t)" using eq by (simp add: parts_def flip: eq)
  then have "spl_same (set (inorder t)) h h'" using spl_same_trans [OF 1(4)] h'(4) by simp
  moreover have "\<forall>x \<in> set (inorder (plugl ls l)). 0 < c x" "\<forall>x \<in> set (inorder (plugr rs r)). c x < 0"
    using lr sides by auto
  moreover have "inorder (plugl ls l) @ a # inorder (plugr rs r) = inorder t" using eq t1 by simp
  ultimately show ?thesis using h'(1-3) unfolding 1(1) prod.case by blast
qed

lemma loop_start: "spl_rep h t \<Longrightarrow> loop_at h \<lparr>spe_left = NULL, spe_right = NULL\<rparr> ([], t, [])"
  by (simp add: loop_at_def spl_rep_def)

lemma SPLAY_ok:
  assumes "spl_rep h t" "t \<noteq> Leaf" "sided c (inorder t)" "\<forall>a \<in> set (inorder t). cmp a = Some (c a)"
  shows "\<exists>h' l a r. SPLAY cmp h = Some h' \<and> spl_rep h' (Node l a r) \<and>
    inorder l @ a # inorder r = inorder t \<and> (\<forall>x \<in> set (inorder l). 0 < c x) \<and> (\<forall>x \<in> set (inorder r). c x < 0) \<and>
    sph_root h' = Some a \<and> spl_same (set (inorder t)) h h'"
proof -
  let ?test = "\<lambda>p. do { c \<leftarrow> deref cmp p; Some (c \<noteq> 0, c) }" and ?n = "\<lparr>spe_left = NULL, spe_right = NULL\<rparr>"
  have res: "loop_result h c ([], t, []) (SPLAY_loop ?test cmp (h, ?n, Local, Local))"
    using loop_ok [OF loop_start [OF assms(1)] assms(2), of ?test c cmp] assms(4) by simp
  then obtain st where st: "SPLAY_loop ?test cmp (h, ?n, Local, Local) = Some st" by (auto simp: loop_result_def)
  show ?thesis using splay_result [OF res [unfolded st] assms(2,3)] st by (simp add: SPLAY_def)
qed

lemma SPLAY_MINMAX_ok:
  assumes "spl_rep h t" "t \<noteq> Leaf" "cp \<noteq> 0"
  shows "\<exists>h' t'. SPLAY_MINMAX h cp = Some h' \<and> spl_rep h' t' \<and> inorder t' = inorder t \<and>
    sph_root h' = (if cp < 0 then first (inorder t) else final (inorder t)) \<and> spl_same (set (inorder t)) h h'"
proof -
  let ?n = "\<lparr>spe_left = NULL, spe_right = NULL\<rparr>"
  have res: "loop_result h (\<lambda>_. cp) ([], t, []) (SPLAY_loop (\<lambda>p. Some (True, cp)) (\<lambda>a. Some cp) (h, ?n, Local, Local))"
    using loop_ok [OF loop_start [OF assms(1)] assms(2), of "\<lambda>p. Some (True, cp)" "\<lambda>_. cp" "\<lambda>a. Some cp"] assms(3) by simp
  then obtain st where st: "SPLAY_loop (\<lambda>p. Some (True, cp)) (\<lambda>a. Some cp) (h, ?n, Local, Local) = Some st"
    by (auto simp: loop_result_def)
  have side: "sided (\<lambda>_. cp) (inorder t)" using assms(3) by (auto simp: sided_def sorted_wrt_iff_nth_less)
  obtain h' l a r where h': "SPLAY_MINMAX h cp = Some h'" "spl_rep h' (Node l a r)" "inorder l @ a # inorder r = inorder t"
      "\<forall>x \<in> set (inorder l). 0 < cp" "\<forall>x \<in> set (inorder r). cp < 0" "sph_root h' = Some a" "spl_same (set (inorder t)) h h'"
    using splay_result [OF res [unfolded st] assms(2) side] st by (auto simp: SPLAY_MINMAX_def)
  have "sph_root h' = (if cp < 0 then first (inorder t) else final (inorder t))"
  proof (cases "cp < 0")
    case True
    then have "inorder l = []" using h'(4) by (cases "inorder l") auto
    then show ?thesis using True h'(6) by (simp flip: h'(3))
  next
    case False
    then have "inorder r = []" using h'(5) by (cases "inorder r") auto
    then show ?thesis using False h'(6) by (simp add: final_def flip: h'(3))
  qed
  then show ?thesis using h' by (intro exI [of _ h'] exI [of _ "Node l a r"]) simp
qed

text \<open>A comparison function gives the sides.\<close>

lemma compares_sided:
  assumes "ordered key xs" "compares cmp key x xs"
  shows "sided (\<lambda>a. the (cmp a)) xs" "\<forall>a \<in> set xs. cmp a = Some (the (cmp a))"
    "\<And>a. a \<in> set xs \<Longrightarrow> (the (cmp a) < 0 \<longleftrightarrow> x < key a) \<and> (0 < the (cmp a) \<longleftrightarrow> key a < x)"
proof -
  show cmp: "\<forall>a \<in> set xs. cmp a = Some (the (cmp a))" using assms(2) by (auto simp: compares_def)
  show sign: "(the (cmp a) < 0 \<longleftrightarrow> x < key a) \<and> (0 < the (cmp a) \<longleftrightarrow> key a < x)" if "a \<in> set xs" for a
    using assms(2) that by (force simp: compares_def)
  show "sided (\<lambda>a. the (cmp a)) xs"
    unfolding sided_def
    by (rule sorted_wrt_mono_rel [OF _ assms(1) [unfolded ordered_def]]) (use sign in force)
qed

definition spl_holds :: "spl_tree \<Rightarrow> addr list \<Rightarrow> bool" where
  "spl_holds h xs = (\<exists>t. spl_rep h t \<and> inorder t = xs)"

lemma spl_EMPTY: "spl_rep h t \<Longrightarrow> SPLAY_EMPTY h = (t = Leaf)"
  by (cases t) (auto simp: SPLAY_EMPTY_def SPLAY_ROOT_def spl_rep_def)

text \<open>\<open>SPLAY\<close> in terms of keys.\<close>

lemma SPLAY_keys:
  assumes "spl_rep h t" "t \<noteq> Leaf" "ordered key (inorder t)" "compares cmp key x (inorder t)"
  shows "\<exists>h' l a r cp. SPLAY cmp h = Some h' \<and> spl_rep h' (Node l a r) \<and> inorder l @ a # inorder r = inorder t \<and>
    sph_root h' = Some a \<and> (\<forall>b \<in> set (inorder l). key b < x) \<and> (\<forall>b \<in> set (inorder r). x < key b) \<and>
    cmp a = Some cp \<and> (cp < 0 \<longleftrightarrow> x < key a) \<and> (0 < cp \<longleftrightarrow> key a < x) \<and> spl_same (set (inorder t)) h h'"
proof -
  note c = compares_sided [OF assms(3,4)]
  obtain h' l a r where h': "SPLAY cmp h = Some h'" "spl_rep h' (Node l a r)" "inorder l @ a # inorder r = inorder t"
      "\<forall>x \<in> set (inorder l). 0 < the (cmp x)" "\<forall>x \<in> set (inorder r). the (cmp x) < 0" "sph_root h' = Some a"
      "spl_same (set (inorder t)) h h'"
    using SPLAY_ok [OF assms(1,2) c(1,2)] by blast
  have sub: "set (inorder l) \<subseteq> set (inorder t)" "set (inorder r) \<subseteq> set (inorder t)" "a \<in> set (inorder t)"
    by (auto simp flip: h'(3))
  have "\<forall>b \<in> set (inorder l). key b < x" "\<forall>b \<in> set (inorder r). x < key b"
    using h'(4,5) c(3) sub(1,2) by blast+
  moreover have "cmp a = Some (the (cmp a))" "the (cmp a) < 0 \<longleftrightarrow> x < key a" "0 < the (cmp a) \<longleftrightarrow> key a < x"
    using c(2,3) sub(3) by blast+
  ultimately show ?thesis using h' by blast
qed

lemma spl_at_cong: "(\<And>x. x \<in> set (inorder t) \<Longrightarrow> m x = m' x) \<Longrightarrow> spl_at m p t = spl_at m' p t"
  by (induction m p t rule: spl_at.induct) auto

lemma spl_holds_distinct: "spl_holds h xs \<Longrightarrow> distinct xs"
  by (auto simp: spl_holds_def spl_rep_def)

lemma spl_at_dom: "spl_at m p t \<Longrightarrow> a \<in> set (inorder t) \<Longrightarrow> m a \<noteq> None"
  by (induction m p t rule: spl_at.induct) auto

lemma spl_holds_dom: "spl_holds h xs \<Longrightarrow> a \<in> set xs \<Longrightarrow> spl_dom h a"
  using spl_at_dom by (fastforce simp: spl_holds_def spl_rep_def spl_dom_def)

lemma find_at: "\<forall>b \<in> set xs. key b \<noteq> (x :: int) \<Longrightarrow> find (\<lambda>b. key b = x) (xs @ a # ys) = (if key a = x then Some a else find (\<lambda>b. key b = x) ys)"
  by (induction xs) auto

lemma find_none: "\<forall>b \<in> set xs. key b \<noteq> (x :: int) \<Longrightarrow> find (\<lambda>b. key b = x) xs = None"
  by (induction xs) auto

lemma spl_FIND:
  assumes "spl_holds h xs" "ordered key xs" "compares cmp key (x :: int) xs"
  shows "\<exists>h'. SPLAY_FIND cmp h = Some (h', find (\<lambda>a. key a = x) xs) \<and> spl_holds h' xs \<and> spl_dom h' = spl_dom h"
proof -
  obtain t where t: "spl_rep h t" "inorder t = xs" using assms(1) by (auto simp: spl_holds_def)
  show ?thesis
  proof (cases "t = Leaf")
    case True
    then show ?thesis using t assms(1) spl_EMPTY by (auto simp: SPLAY_FIND_def)
  next
    case False
    obtain h' l a r cp where h': "SPLAY cmp h = Some h'" "spl_rep h' (Node l a r)" "inorder l @ a # inorder r = xs"
        "sph_root h' = Some a" "\<forall>b \<in> set (inorder l). key b < x" "\<forall>b \<in> set (inorder r). x < key b"
        "cmp a = Some cp" "cp < 0 \<longleftrightarrow> x < key a" "0 < cp \<longleftrightarrow> key a < x" "spl_same (set xs) h h'"
      using SPLAY_keys [OF t(1) False, of key cmp x] assms(2,3) t(2) by auto
    have "find (\<lambda>a. key a = x) xs = (if key a = x then Some a else None)"
      using find_at [of "inorder l" key x a "inorder r"] find_none [of "inorder r" key x] h'(5,6) by (force simp flip: h'(3))
    moreover have "cp = 0 \<longleftrightarrow> key a = x" using h'(8,9) by linarith
    moreover have "spl_holds h' xs" using h'(2,3) by (auto simp: spl_holds_def intro!: exI [of _ "Node l a r"])
    ultimately show ?thesis
      using h' False spl_EMPTY [OF t(1)] spl_same_dom [OF h'(10)] by (auto simp: SPLAY_FIND_def)
  qed
qed

lemma insort_between:
  "\<forall>x \<in> set xs. key x < (key e :: int) \<Longrightarrow> \<forall>y \<in> set ys. key e < key y \<Longrightarrow> insort_key key e (xs @ ys) = xs @ e # ys"
  by (induction xs) (auto, cases ys, auto)

lemma spl_INSERT_new:
  assumes "spl_holds h xs" "ordered key xs" "compares cmp key (key e :: int) xs" "spl_dom h e" "key e \<notin> key ` set xs"
  shows "\<exists>h'. SPLAY_INSERT cmp h (Some e) = Some (h', NULL) \<and> spl_holds h' (insort_key key e xs) \<and> spl_dom h' = spl_dom h"
proof -
  obtain t where t: "spl_rep h t" "inorder t = xs" using assms(1) by (auto simp: spl_holds_def)
  obtain d where d: "spl_node h e = Some d" using assms(4) by (auto simp: spl_dom_def)
  show ?thesis
  proof (cases "t = Leaf")
    case True
    let ?h = "h\<lparr>sph_root := Some e, spl_node := (spl_node h)(e \<mapsto> d\<lparr>spe_right := NULL, spe_left := NULL\<rparr>)\<rparr>"
    have "SPLAY_INSERT cmp h (Some e) = Some (?h, NULL)"
      using True t d spl_EMPTY [OF t(1)] by (cases h) (simp add: SPLAY_INSERT_def splay_ops)
    moreover have "spl_rep ?h (Node Leaf e Leaf)" by (simp add: spl_rep_def)
    ultimately show ?thesis
      using True t d by (auto simp: spl_holds_def spl_dom_def fun_eq_iff intro!: exI [of _ "Node Leaf e Leaf"])
  next
    case False
    obtain h' l a r cp where h': "SPLAY cmp h = Some h'" "spl_rep h' (Node l a r)" "inorder l @ a # inorder r = xs"
        "sph_root h' = Some a" "\<forall>b \<in> set (inorder l). key b < key e" "\<forall>b \<in> set (inorder r). key e < key b"
        "cmp a = Some cp" "cp < 0 \<longleftrightarrow> key e < key a" "0 < cp \<longleftrightarrow> key a < key e" "spl_same (set xs) h h'"
      using SPLAY_keys [OF t(1) False, of key cmp "key e"] assms(2,3) t(2) by auto
    have notin: "e \<notin> set xs" using assms(5) by auto
    have e: "spl_node h' e = Some d" "e \<notin> set (inorder (Node l a r))"
      using notin h'(3,10) d by (auto simp: spl_same_def)
    obtain f where f: "spl_node h' a = Some f" "spl_at (spl_node h') (spe_left f) l" "spl_at (spl_node h') (spe_right f) r"
      using h'(2,4) by (auto simp: spl_rep_def)
    have dist: "distinct (inorder l @ a # inorder r)" using h'(2) by (simp add: spl_rep_def)
    have "key a \<noteq> key e" using assms(5) by (auto simp flip: h'(3))
    then consider "cp < 0" "key e < key a" | "0 < cp" "\<not> cp < 0" "key a < key e" using h'(8,9) by linarith
    then show ?thesis
    proof cases
      case 1
      let ?m = "(spl_node h')(e \<mapsto> d\<lparr>spe_left := spe_left f, spe_right := Some a\<rparr>, a \<mapsto> f\<lparr>spe_left := NULL\<rparr>)"
      let ?h = "h'\<lparr>sph_root := Some e, spl_node := ?m\<rparr>"
      have "SPLAY_INSERT cmp h (Some e) = Some (?h, NULL)"
        using False spl_EMPTY [OF t(1)] h'(1,4,7) 1(1) e f(1) by (cases h') (auto simp: SPLAY_INSERT_def splay_ops)
      moreover have "spl_rep ?h (Node l e (Node Leaf a r))" using dist e(2) f by (auto simp: spl_rep_def)
      moreover have "inorder (Node l e (Node Leaf a r)) = insort_key key e xs"
        using insort_between [of "inorder l" key e "a # inorder r"] h'(3,5,6) 1(2) by simp
      moreover have "spl_dom ?h = spl_dom h" using spl_same_dom [OF h'(10)] e(1) f(1) by (auto simp: spl_dom_def fun_eq_iff)
      ultimately show ?thesis unfolding spl_holds_def by blast
    next
      case 2
      let ?m = "(spl_node h')(e \<mapsto> d\<lparr>spe_right := spe_right f, spe_left := Some a\<rparr>, a \<mapsto> f\<lparr>spe_right := NULL\<rparr>)"
      let ?h = "h'\<lparr>sph_root := Some e, spl_node := ?m\<rparr>"
      have "SPLAY_INSERT cmp h (Some e) = Some (?h, NULL)"
        using False spl_EMPTY [OF t(1)] h'(1,4,7) 2(1,2) e f(1) by (cases h') (auto simp: SPLAY_INSERT_def splay_ops)
      moreover have "spl_rep ?h (Node (Node l a Leaf) e r)" using dist e(2) f by (auto simp: spl_rep_def)
      moreover have "inorder (Node (Node l a Leaf) e r) = insort_key key e xs"
        using insort_between [of "inorder l @ [a]" key e "inorder r"] h'(3,5,6) 2(3) by simp
      moreover have "spl_dom ?h = spl_dom h" using spl_same_dom [OF h'(10)] e(1) f(1) by (auto simp: spl_dom_def fun_eq_iff)
      ultimately show ?thesis unfolding spl_holds_def by blast
    qed
  qed
qed

lemma ordered_key_inj: "ordered key xs \<Longrightarrow> a \<in> set xs \<Longrightarrow> b \<in> set xs \<Longrightarrow> key a = (key b :: int) \<Longrightarrow> a = b"
  by (induction xs) (auto simp: ordered_Cons)

lemma spl_INSERT_dup:
  assumes "spl_holds h xs" "ordered key xs" "compares cmp key (key e :: int) xs" "a \<in> set xs" "key a = key e"
  shows "\<exists>h'. SPLAY_INSERT cmp h (Some e) = Some (h', Some a) \<and> spl_holds h' xs \<and> spl_dom h' = spl_dom h"
proof -
  obtain t where t: "spl_rep h t" "inorder t = xs" using assms(1) by (auto simp: spl_holds_def)
  have False: "t \<noteq> Leaf" using t(2) assms(4) by auto
  obtain h' l b r cp where h': "SPLAY cmp h = Some h'" "spl_rep h' (Node l b r)" "inorder l @ b # inorder r = xs"
      "sph_root h' = Some b" "\<forall>b \<in> set (inorder l). key b < key e" "\<forall>b \<in> set (inorder r). key e < key b"
      "cmp b = Some cp" "cp < 0 \<longleftrightarrow> key e < key b" "0 < cp \<longleftrightarrow> key b < key e" "spl_same (set xs) h h'"
    using SPLAY_keys [OF t(1) False, of key cmp "key e"] assms(2,3) t(2) by auto
  have "b = a" using assms(4,5) h'(5,6) by (auto simp flip: h'(3))
  moreover have "spl_holds h' xs" using h'(2,3) by (auto simp: spl_holds_def intro!: exI [of _ "Node l b r"])
  ultimately show ?thesis
    using h' False assms(5) spl_EMPTY [OF t(1)] spl_same_dom [OF h'(10)] by (auto simp: SPLAY_INSERT_def)
qed

text \<open>\<open>SPLAY_REMOVE\<close> joins the two sides: it splays the left one for the removed key, which is greater than all of
  it, so that the new root has no right child.\<close>

lemma spl_REMOVE:
  assumes "spl_holds h xs" "ordered key xs" "compares cmp key (key a :: int) xs" "a \<in> set xs"
  shows "\<exists>h'. SPLAY_REMOVE cmp h (Some a) = Some (h', Some a) \<and> spl_holds h' (remove1 a xs) \<and> spl_dom h' = spl_dom h"
proof -
  obtain t where t: "spl_rep h t" "inorder t = xs" using assms(1) by (auto simp: spl_holds_def)
  have False: "t \<noteq> Leaf" using t(2) assms(4) by auto
  obtain h' l b r cp where h': "SPLAY cmp h = Some h'" "spl_rep h' (Node l b r)" "inorder l @ b # inorder r = xs"
      "sph_root h' = Some b" "\<forall>b \<in> set (inorder l). key b < key a" "\<forall>b \<in> set (inorder r). key a < key b"
      "cmp b = Some cp" "cp < 0 \<longleftrightarrow> key a < key b" "0 < cp \<longleftrightarrow> key b < key a" "spl_same (set xs) h h'"
    using SPLAY_keys [OF t(1) False, of key cmp "key a"] assms(2,3) t(2) by auto
  have ba: "b = a" using assms(4) h'(5,6) by (auto simp flip: h'(3))
  have cp: "cp = 0" using h'(8,9) ba by auto
  obtain f where f: "spl_node h' a = Some f" "spl_at (spl_node h') (spe_left f) l" "spl_at (spl_node h') (spe_right f) r"
    using h'(2,4) ba by (auto simp: spl_rep_def)
  have dist: "distinct (inorder l @ a # inorder r)" using h'(2) ba by (simp add: spl_rep_def)
  have rem: "remove1 a xs = inorder l @ inorder r" using dist ba by (auto simp: remove1_append simp flip: h'(3))
  show ?thesis
  proof (cases "l = Leaf")
    case True
    let ?h = "h'\<lparr>sph_root := spe_right f\<rparr>"
    have "SPLAY_REMOVE cmp h (Some a) = Some (?h, Some a)"
      using True False spl_EMPTY [OF t(1)] h'(1,4,7) cp f ba by (simp add: SPLAY_REMOVE_def splay_ops)
    moreover have "spl_rep ?h r" using dist f by (simp add: spl_rep_def)
    moreover have "spl_dom ?h = spl_dom h" using spl_same_dom [OF h'(10)] by (simp add: spl_dom_def)
    ultimately show ?thesis using True rem unfolding spl_holds_def by auto
  next
    case l: False
    let ?h1 = "h'\<lparr>sph_root := spe_left f\<rparr>"
    have l1: "spl_rep ?h1 l" using dist f by (simp add: spl_rep_def)
    have sub: "set (inorder l) \<subseteq> set xs" by (auto simp flip: h'(3))
    have ord: "ordered key (inorder l)" using assms(2) by (auto simp: ordered_def sorted_wrt_append simp flip: h'(3))
    have cmp: "compares cmp key (key a) (inorder l)" using assms(3) sub unfolding compares_def by blast
    obtain h2 l2 c r2 where h2: "SPLAY cmp ?h1 = Some h2" "spl_rep h2 (Node l2 c r2)" "inorder l2 @ c # inorder r2 = inorder l"
        "sph_root h2 = Some c" "\<forall>b \<in> set (inorder r2). key a < key b" "spl_same (set (inorder l)) ?h1 h2"
      using SPLAY_keys [OF l1 l ord cmp] by blast
    have "\<forall>b \<in> set (inorder r2). key b < key a" using h'(5) by (auto simp flip: h2(3))
    then have r2: "r2 = Leaf" using h2(5) by (cases r2) force+
    obtain g where g: "spl_node h2 c = Some g" "spl_at (spl_node h2) (spe_left g) l2" using h2(2,4) by (auto simp: spl_rep_def)
    have cl: "c \<in> set (inorder l)" by (simp flip: h2(3))
    have r: "spl_at (spl_node h2) (spe_right f) r"
    proof -
      have "spl_node h2 x = spl_node h' x" if "x \<in> set (inorder r)" for x
        using h2(6) that dist by (auto simp: spl_same_def)
      then show ?thesis using spl_at_cong [of r "spl_node h2" "spl_node h'" "spe_right f"] f(3) by auto
    qed
    let ?h = "h2\<lparr>spl_node := (spl_node h2)(c \<mapsto> g\<lparr>spe_right := spe_right f\<rparr>)\<rparr>"
    have "spe_left f \<noteq> NULL" using f(2) l by (cases l) auto
    then have "SPLAY_REMOVE cmp h (Some a) = Some (?h, Some a)"
      using False spl_EMPTY [OF t(1)] h'(1,4,7) cp f(1) ba h2(1,4) g(1) by (auto simp: SPLAY_REMOVE_def splay_ops)
    moreover have "spl_rep ?h (Node l2 c r)"
    proof -
      have "distinct (inorder l2 @ c # inorder r)" using dist r2 by (auto simp flip: h2(3))
      then show ?thesis using g r h2(4) by (auto simp: spl_rep_def)
    qed
    moreover have "inorder (Node l2 c r) = remove1 a xs" using rem r2 by (simp flip: h2(3))
    moreover have "spl_dom ?h = spl_dom h"
      using spl_same_dom [OF h'(10)] spl_same_dom [OF h2(6)] g(1) by (auto simp: spl_dom_def fun_eq_iff)
    ultimately show ?thesis unfolding spl_holds_def by blast
  qed
qed

lemma spl_MIN:
  assumes "spl_holds h xs"
  shows "\<exists>h'. SPLAY_MIN h = Some (h', first xs) \<and> spl_holds h' xs \<and> spl_dom h' = spl_dom h"
    and "\<exists>h'. SPLAY_MAX h = Some (h', final xs) \<and> spl_holds h' xs \<and> spl_dom h' = spl_dom h"
proof -
  obtain t where t: "spl_rep h t" "inorder t = xs" using assms by (auto simp: spl_holds_def)
  have minmax: "\<exists>h'. SPLAY_MIN_MAX h cp = Some (h', if cp < 0 then first xs else final xs) \<and> spl_holds h' xs \<and> spl_dom h' = spl_dom h"
    if "t \<noteq> Leaf" "cp \<noteq> 0" for cp
    using SPLAY_MINMAX_ok [OF t(1) that] t(2) spl_same_dom
    by (fastforce simp: SPLAY_MIN_MAX_def SPLAY_ROOT_def spl_holds_def)
  show "\<exists>h'. SPLAY_MIN h = Some (h', first xs) \<and> spl_holds h' xs \<and> spl_dom h' = spl_dom h"
    using minmax [of "-1"] spl_EMPTY [OF t(1)] t(2) assms by (cases "t = Leaf") (auto simp: SPLAY_MIN_def)
  show "\<exists>h'. SPLAY_MAX h = Some (h', final xs) \<and> spl_holds h' xs \<and> spl_dom h' = spl_dom h"
    using minmax [of 1] spl_EMPTY [OF t(1)] t(2) assms by (cases "t = Leaf") (auto simp: SPLAY_MAX_def final_def)
qed

interpretation sp: ordered_set spl_holds spl_dom SPLAY_FIND SPLAY_INSERT SPLAY_REMOVE SPLAY_MIN
proof unfold_locales
qed (simp_all add: spl_holds_distinct spl_holds_dom spl_FIND spl_INSERT_new spl_INSERT_dup spl_REMOVE spl_MIN)

subsection \<open>Traversal\<close>

lemma spl_leftmost: "spl_at (spl_node h) p t \<Longrightarrow> t \<noteq> Leaf \<Longrightarrow> SPLAY_leftmost h p = Some (first (inorder t))"
proof (induction t arbitrary: p)
  case (Node l a r)
  then obtain e where e: "p = Some a" "spl_node h a = Some e" "spl_at (spl_node h) (spe_left e) l" by auto
  show ?case
  proof (cases "l = Leaf")
    case True
    then show ?thesis using e by (subst SPLAY_leftmost.simps) (simp add: splay_ops)
  next
    case False
    then have "spe_left e \<noteq> NULL" using e(3) by (cases l) auto
    then show ?thesis
      using e False Node.IH(1) [OF e(3) False]
      by (subst SPLAY_leftmost.simps) (auto simp: splay_ops first_append)
  qed
qed simp

lemma spl_NEXT:
  assumes "spl_holds h xs" "ordered key xs" "compares cmp key (key a :: int) xs" "xs = ys @ a # zs"
  shows "\<exists>h'. SPLAY_NEXT cmp h (Some a) = Some (h', first zs) \<and> spl_holds h' xs \<and> spl_dom h' = spl_dom h"
proof -
  obtain t where t: "spl_rep h t" "inorder t = xs" using assms(1) by (auto simp: spl_holds_def)
  have False: "t \<noteq> Leaf" using t(2) assms(4) by auto
  obtain h' l b r where h': "SPLAY cmp h = Some h'" "spl_rep h' (Node l b r)" "inorder l @ b # inorder r = xs"
      "\<forall>b \<in> set (inorder l). key b < key a" "\<forall>b \<in> set (inorder r). key a < key b" "spl_same (set xs) h h'"
    using SPLAY_keys [OF t(1) False, of key cmp "key a"] assms(2,3) t(2) by auto
  have "a \<in> set (inorder l @ b # inorder r)" using h'(3) assms(4) by simp
  then have ba: "b = a" using h'(4,5) by auto
  have zs: "inorder r = zs"
  proof -
    have "distinct (inorder l @ a # inorder r)" using h'(2) ba by (simp add: spl_rep_def)
    moreover have "inorder l @ a # inorder r = ys @ a # zs" using h'(3) ba assms(4) by simp
    ultimately show ?thesis using distinct_split_unique by metis
  qed
  obtain f where f: "spl_node h' a = Some f" "spl_at (spl_node h') (spe_right f) r" using h'(2) ba by (auto simp: spl_rep_def)
  have "SPLAY_NEXT cmp h (Some a) = Some (h', first zs)"
  proof (cases r)
    case Leaf
    then show ?thesis using h'(1) f zs by (auto simp: SPLAY_NEXT_def splay_ops)
  next
    case (Node rl c rr)
    then show ?thesis using h'(1) f zs spl_leftmost [OF f(2)] by (auto simp: SPLAY_NEXT_def splay_ops)
  qed
  moreover have "spl_holds h' xs" using h'(2,3) by (auto simp: spl_holds_def intro!: exI [of _ "Node l b r"])
  ultimately show ?thesis using spl_same_dom [OF h'(6)] by blast
qed

lemma spl_FOREACH_from:
  assumes "spl_holds h xs" "ordered key xs" "\<And>a. a \<in> set xs \<Longrightarrow> compares (cmp a) key (key a :: int) xs" "xs = ys @ zs"
  shows "\<exists>h'. SPLAY_FOREACH_from cmp h (first zs) = Some (h', zs) \<and> spl_holds h' xs \<and> spl_dom h' = spl_dom h"
  using assms(1,4)
proof (induction zs arbitrary: h ys)
  case Nil
  then show ?case by (subst SPLAY_FOREACH_from.simps) simp
next
  case (Cons a zs)
  obtain h1 where 1: "SPLAY_NEXT (cmp a) h (Some a) = Some (h1, first zs)" "spl_holds h1 xs" "spl_dom h1 = spl_dom h"
    using spl_NEXT [OF Cons.prems(1) assms(2) _ Cons.prems(2)] assms(3) Cons.prems(2) by auto
  obtain h2 where 2: "SPLAY_FOREACH_from cmp h1 (first zs) = Some (h2, zs)" "spl_holds h2 xs" "spl_dom h2 = spl_dom h1"
    using Cons.IH [OF 1(2), of "ys @ [a]"] Cons.prems(2) by auto
  show ?case using 1 2 by (subst SPLAY_FOREACH_from.simps) simp
qed

lemma spl_FOREACH:
  assumes "spl_holds h xs" "ordered key xs" "\<And>a. a \<in> set xs \<Longrightarrow> compares (cmp a) key (key a :: int) xs"
  shows "\<exists>h'. SPLAY_FOREACH cmp h = Some (h', xs) \<and> spl_holds h' xs \<and> spl_dom h' = spl_dom h"
proof -
  obtain h1 where 1: "SPLAY_MIN h = Some (h1, first xs)" "spl_holds h1 xs" "spl_dom h1 = spl_dom h"
    using spl_MIN(1) [OF assms(1)] by blast
  then show ?thesis using spl_FOREACH_from [OF 1(2) assms(2,3), of "[]" xs] by (auto simp: SPLAY_FOREACH_def)
qed

subsection \<open>Properties\<close>

text \<open>A tree of the two nodes 1 and 3, and a free node 2; the key of a node is its address.\<close>

definition demo_splay :: spl_tree where
  "demo_splay = \<lparr>sph_root = Some 1, spl_node = [1 \<mapsto> \<lparr>spe_left = NULL, spe_right = Some 3\<rparr>,
     2 \<mapsto> \<lparr>spe_left = NULL, spe_right = NULL\<rparr>, 3 \<mapsto> \<lparr>spe_left = NULL, spe_right = NULL\<rparr>]\<rparr>"

definition demo_cmp :: "int \<Rightarrow> addr \<Rightarrow> int option" where
  "demo_cmp x a = Some (x - int a)"

lemma demo_splay_holds: "spl_holds demo_splay [1, 3]" "ordered int [1, 3]" "spl_dom demo_splay 2"
  "compares (demo_cmp x) int x ys"
  by (auto simp: spl_holds_def spl_rep_def demo_splay_def ordered_def spl_dom_def compares_def demo_cmp_def
      intro!: exI [of _ "Node Leaf 1 (Node Leaf 3 Leaf)"])

text \<open>C35.  Splay trees: inserting a free node with a new key returns \<open>NULL\<close>; searching its key then returns it, and
  removing it returns it and leaves the nodes that were there before, in order.  No operation faults, whatever the
  shape of the tree.\<close>

theorem splay_insert_find_remove:
  assumes "spl_holds h xs" "ordered key xs" "spl_dom h e" "(key e :: int) \<notin> key ` set xs"
    and "\<And>x ys. set ys \<subseteq> insert e (set xs) \<Longrightarrow> compares (cmp x) key x ys"
  shows "\<exists>h1 h2 h3. SPLAY_INSERT (cmp (key e)) h (Some e) = Some (h1, NULL) \<and>
    SPLAY_FIND (cmp (key e)) h1 = Some (h2, Some e) \<and>
    SPLAY_REMOVE (cmp (key e)) h2 (Some e) = Some (h3, Some e) \<and> spl_holds h3 xs"
  by (rule sp.insert_search [OF assms(1-4)]) (rule assms(5))

theorem splay_insert_find_remove_witness:
  "\<exists>h1 h2 h3. SPLAY_INSERT (demo_cmp 2) demo_splay (Some 2) = Some (h1, NULL) \<and>
    SPLAY_FIND (demo_cmp 2) h1 = Some (h2, Some 2) \<and>
    SPLAY_REMOVE (demo_cmp 2) h2 (Some 2) = Some (h3, Some 2) \<and> spl_holds h3 [1, 3]"
  using splay_insert_find_remove [OF demo_splay_holds(1-3), of demo_cmp] demo_splay_holds(4) by simp

text \<open>Traversal of a splay tree, which restructures it at every step: \<open>SPLAY_FOREACH\<close> visits every node once, in
  the order of the keys, and ends; \<open>SPLAY_MIN\<close> and \<open>SPLAY_MAX\<close> return the first and the last.\<close>

lemma splay_traverse:
  assumes "spl_holds h xs" "ordered key xs" "\<And>a. a \<in> set xs \<Longrightarrow> compares (cmp a) key (key a :: int) xs"
  shows "(\<exists>h'. SPLAY_FOREACH cmp h = Some (h', xs) \<and> spl_holds h' xs) \<and>
    (\<exists>h'. SPLAY_MIN h = Some (h', first xs) \<and> spl_holds h' xs) \<and>
    (\<exists>h'. SPLAY_MAX h = Some (h', final xs) \<and> spl_holds h' xs)"
  using spl_FOREACH [OF assms] spl_MIN [OF assms(1)] by blast

end
