(* ===== verification/Queue_Heap.thy ===== *)
theory Queue_Heap
  imports RB_Iterate
begin

text \<open>
  The memory the linked structures of \<open>nty_queue.h\<close> live in.  A \<open>struct type *\<close> cell is either the
  \<open>first\<close> field of a head or the \<open>next\<close> field of an element; \<open>loc\<close> names these cells, so that it is the
  type of a \<open>struct type **\<close>.  Beside each such cell a head or an entry may have a second field, the
  \<open>struct type **\<close> that points to the last or to the previous cell.  The head
  \<open>{tqh_first, tqh_last}\<close> and the entry \<open>{tqe_next, tqe_prev}\<close> thus have one layout, which is what
  \<open>TAILQ_LAST\<close> and \<open>TAILQ_PREV\<close> rely on when they cast one to the other.
\<close>

datatype loc = Head nat | Next addr

record qheap =
  slot :: "loc \<Rightarrow> ptr option"
  pslot :: "loc \<Rightarrow> loc option option"

definition rd :: "qheap \<Rightarrow> loc option \<Rightarrow> ptr option" where
  "rd h l = Option.bind l (slot h)"

definition wr :: "qheap \<Rightarrow> loc option \<Rightarrow> ptr \<Rightarrow> qheap option" where
  "wr h l v = (case l of None \<Rightarrow> None
     | Some m \<Rightarrow> if slot h m = None then None else Some (h\<lparr>slot := (slot h)(m := Some v)\<rparr>))"

definition rdb :: "qheap \<Rightarrow> loc option \<Rightarrow> loc option option" where
  "rdb h l = Option.bind l (pslot h)"

definition wrb :: "qheap \<Rightarrow> loc option \<Rightarrow> loc option \<Rightarrow> qheap option" where
  "wrb h l v = (case l of None \<Rightarrow> None
     | Some m \<Rightarrow> if pslot h m = None then None else Some (h\<lparr>pslot := (pslot h)(m := Some v)\<rparr>))"

text \<open>The address of the \<open>next\<close> field of the element a pointer points to.\<close>

definition nx :: "ptr \<Rightarrow> loc option" where
  "nx p = map_option Next p"

lemma nx_simps [simp]: "nx (Some a) = Some (Next a)" "nx None = None"
  by (simp_all add: nx_def)

lemma rd_simps [simp]: "rd h (Some l) = slot h l" "rd h None = None" "rdb h (Some l) = pslot h l" "rdb h None = None"
  by (simp_all add: rd_def rdb_def)

lemma wr_simps [simp]:
  "slot h m = Some x \<Longrightarrow> wr h (Some m) v = Some (h\<lparr>slot := (slot h)(m := Some v)\<rparr>)"
  "pslot h m = Some y \<Longrightarrow> wrb h (Some m) w = Some (h\<lparr>pslot := (pslot h)(m := Some w)\<rparr>)"
  by (simp_all add: wr_def wrb_def)

lemma Next_image [simp]: "Next x \<in> Next ` S \<longleftrightarrow> x \<in> S" "Head i \<notin> Next ` S"
  by auto

text \<open>The walk along the \<open>next\<close> fields that every \<open>FOREACH\<close> macro performs, started with the pointer
  in a cell; the result is the list of elements visited.  The \<open>_SAFE\<close> forms read the next pointer
  before the body runs and visit the same elements.\<close>

partial_function (option) walk :: "qheap \<Rightarrow> ptr \<Rightarrow> addr list option" where
  "walk h p = (case p of None \<Rightarrow> Some []
     | Some a \<Rightarrow> do { q \<leftarrow> rd h (nx p); as \<leftarrow> walk h q; Some (a # as) })"

text \<open>The search loop of \<open>SLIST_REMOVE\<close> and \<open>STAILQ_REMOVE\<close>:
  \<open>while (NEXT(curelm, field) != (elm)) curelm = NEXT(curelm, field)\<close>.\<close>

partial_function (option) seek :: "qheap \<Rightarrow> ptr \<Rightarrow> ptr \<Rightarrow> ptr option" where
  "seek h curelm elm = do {
     n \<leftarrow> rd h (nx curelm);
     if n \<noteq> elm then seek h n elm else Some curelm
   }"

subsection \<open>Chains of cells\<close>

text \<open>\<open>chain h l xs e\<close>: from the cell \<open>l\<close> the elements \<open>xs\<close> are linked one after the other, and \<open>e\<close> is
  the cell after the last of them.\<close>

fun endl :: "loc \<Rightarrow> addr list \<Rightarrow> loc" where
  "endl l [] = l"
| "endl l (x # xs) = endl (Next x) xs"

fun chain :: "qheap \<Rightarrow> loc \<Rightarrow> addr list \<Rightarrow> bool" where
  "chain h l [] = True"
| "chain h l (x # xs) = (slot h l = Some (Some x) \<and> chain h (Next x) xs)"

text \<open>The back pointers of a doubly linked chain.\<close>

fun backs :: "qheap \<Rightarrow> loc \<Rightarrow> addr list \<Rightarrow> bool" where
  "backs h l [] = True"
| "backs h l (x # xs) = (pslot h (Next x) = Some (Some l) \<and> backs h (Next x) xs)"

lemma endl_append [simp]: "endl l (xs @ ys) = endl (endl l xs) ys"
  by (induction l xs rule: endl.induct) simp_all

lemma endl_cases: "endl l xs = l \<or> endl l xs \<in> Next ` set xs"
  by (induction l xs rule: endl.induct) auto

lemma endl_Head: "endl (Head i) xs = Head j \<longleftrightarrow> xs = [] \<and> i = j"
  by (cases xs rule: rev_cases) auto

lemma endl_Next_eq: "endl (Head i) xs = Next a \<longleftrightarrow> (\<exists>ys. xs = ys @ [a])"
  by (cases xs rule: rev_cases) auto

lemma endl_notin [simp]:
  "l \<noteq> Next a \<Longrightarrow> a \<notin> set xs \<Longrightarrow> endl l xs \<noteq> Next a"
  "l \<noteq> Next a \<Longrightarrow> a \<notin> set xs \<Longrightarrow> Next a \<noteq> endl l xs"
  using endl_cases [of l xs] by auto

lemma chain_append [simp]: "chain h l (xs @ ys) \<longleftrightarrow> chain h l xs \<and> chain h (endl l xs) ys"
  by (induction h l xs rule: chain.induct) auto

lemma backs_append [simp]: "backs h l (xs @ ys) \<longleftrightarrow> backs h l xs \<and> backs h (endl l xs) ys"
  by (induction h l xs rule: backs.induct) auto

lemma chain_back_upd [simp]: "chain (h\<lparr>pslot := b\<rparr>) l xs = chain h l xs"
  by (induction h l xs rule: chain.induct) auto

lemma backs_slot_upd [simp]: "backs (h\<lparr>slot := s\<rparr>) l xs = backs h l xs"
  by (induction h l xs rule: backs.induct) auto

lemma chain_frame [simp]:
  "m \<noteq> l \<Longrightarrow> m \<notin> Next ` set xs \<Longrightarrow> chain (h\<lparr>slot := s(m := v)\<rparr>) l xs = chain (h\<lparr>slot := s\<rparr>) l xs"
  by (induction h l xs rule: chain.induct) auto

lemma chain_frame_end [simp]:
  "l \<notin> Next ` set xs \<Longrightarrow> distinct xs \<Longrightarrow>
   chain (h\<lparr>slot := s(endl l xs := v)\<rparr>) l xs = chain (h\<lparr>slot := s\<rparr>) l xs"
proof (induction h l xs rule: chain.induct)
  case (2 h l x xs)
  have "endl (Next x) xs \<noteq> l" using endl_cases [of "Next x" xs] 2(2,3) by auto
  then show ?case using 2 by auto
qed simp

lemma backs_frame [simp]:
  "m \<notin> Next ` set xs \<Longrightarrow> backs (h\<lparr>pslot := b(m := v)\<rparr>) l xs = backs (h\<lparr>pslot := b\<rparr>) l xs"
  by (induction h l xs rule: backs.induct) auto

lemma walk_chain:
  "chain h (Next a) xs \<Longrightarrow> slot h (endl (Next a) xs) = Some NULL \<Longrightarrow> walk h (Some a) = Some (a # xs)"
proof (induction xs arbitrary: a)
  case Nil
  then show ?case by (subst walk.simps) (simp, subst walk.simps, simp)
next
  case (Cons x xs)
  then show ?case by (subst walk.simps) simp
qed

lemma walk_from:
  assumes "chain h l xs" "slot h (endl l xs) = Some NULL"
  shows "Option.bind (slot h l) (walk h) = Some xs"
  using assms walk_chain by (cases xs) (auto simp: walk.simps [of h NULL])

lemma seek_chain:
  assumes "chain h (Next a) (xs @ [x])" "x \<notin> set xs"
  shows "seek h (Some a) (Some x) = Some (Some (last (a # xs)))"
  using assms
proof (induction xs arbitrary: a)
  case Nil
  then show ?case by (subst seek.simps) simp
next
  case (Cons y xs)
  then show ?case by (subst seek.simps) auto
qed

text \<open>Which cells are allocated; every operation keeps them.\<close>

definition cells :: "qheap \<Rightarrow> loc \<Rightarrow> bool \<times> bool" where
  "cells h = (\<lambda>l. (slot h l \<noteq> None, pslot h l \<noteq> None))"

lemma cells_upd [simp]:
  "slot h m = Some x \<Longrightarrow> cells (h\<lparr>slot := (slot h)(m := Some v)\<rparr>) = cells h"
  "pslot h m = Some y \<Longrightarrow> cells (h\<lparr>pslot := (pslot h)(m := Some u)\<rparr>) = cells h"
  by (auto simp: cells_def fun_eq_iff)

lemma wr_cells: "wr h l v = Some h' \<Longrightarrow> cells h' = cells h" "wrb h l w = Some h' \<Longrightarrow> cells h' = cells h"
  by (auto simp: wr_def wrb_def cells_def fun_eq_iff split: option.splits if_splits)

end
