(* ===== verification/Tail_Queue.thy ===== *)
theory Tail_Queue
  imports Queue_Heap
begin

text \<open>
  The tail queues of \<open>nty_queue.h\<close> (\<open>TAILQ_*\<close>), which hold the ready and the deferred coroutines of a
  scheduler: every macro as a heap program, the representation predicate \<open>tailq\<close>, and the proof that
  each macro acts on the represented list as its name says.  The consistency checks under
  \<open>_KERNEL && INVARIANTS\<close> and the tracing under \<open>QUEUE_MACRO_DEBUG\<close> are compiled out of the library
  and are not modelled.
\<close>

definition TAILQ_FIRST :: "qheap \<Rightarrow> loc \<Rightarrow> ptr option" where
  "TAILQ_FIRST h q = rd h (Some q)"

definition TAILQ_EMPTY :: "qheap \<Rightarrow> loc \<Rightarrow> bool option" where
  "TAILQ_EMPTY h q = do { f \<leftarrow> rd h (Some q); Some (f = NULL) }"

definition TAILQ_NEXT :: "qheap \<Rightarrow> ptr \<Rightarrow> ptr option" where
  "TAILQ_NEXT h elm = rd h (nx elm)"

definition TAILQ_INIT :: "qheap \<Rightarrow> loc \<Rightarrow> qheap option" where
  "TAILQ_INIT h q = do {
     h \<leftarrow> wr h (Some q) NULL;
     wrb h (Some q) (Some q)
   }"

definition TAILQ_CONCAT :: "qheap \<Rightarrow> loc \<Rightarrow> loc \<Rightarrow> qheap option" where
  "TAILQ_CONCAT h q1 q2 = do {
     f2 \<leftarrow> rd h (Some q2);
     if f2 \<noteq> NULL then do {
       l1 \<leftarrow> rdb h (Some q1);
       h \<leftarrow> wr h l1 f2;
       f2 \<leftarrow> rd h (Some q2);
       l1 \<leftarrow> rdb h (Some q1);
       h \<leftarrow> wrb h (nx f2) l1;
       l2 \<leftarrow> rdb h (Some q2);
       h \<leftarrow> wrb h (Some q1) l2;
       TAILQ_INIT h q2
     } else Some h
   }"

definition TAILQ_INSERT_AFTER :: "qheap \<Rightarrow> loc \<Rightarrow> ptr \<Rightarrow> ptr \<Rightarrow> qheap option" where
  "TAILQ_INSERT_AFTER h q listelm elm = do {
     n \<leftarrow> rd h (nx listelm);
     h \<leftarrow> wr h (nx elm) n;
     h \<leftarrow> (if n \<noteq> NULL then do {
              n \<leftarrow> rd h (nx elm);
              wrb h (nx n) (nx elm) }
            else wrb h (Some q) (nx elm));
     h \<leftarrow> wr h (nx listelm) elm;
     wrb h (nx elm) (nx listelm)
   }"

definition TAILQ_INSERT_BEFORE :: "qheap \<Rightarrow> ptr \<Rightarrow> ptr \<Rightarrow> qheap option" where
  "TAILQ_INSERT_BEFORE h listelm elm = do {
     pv \<leftarrow> rdb h (nx listelm);
     h \<leftarrow> wrb h (nx elm) pv;
     h \<leftarrow> wr h (nx elm) listelm;
     pv \<leftarrow> rdb h (nx listelm);
     h \<leftarrow> wr h pv elm;
     wrb h (nx listelm) (nx elm)
   }"

definition TAILQ_INSERT_HEAD :: "qheap \<Rightarrow> loc \<Rightarrow> ptr \<Rightarrow> qheap option" where
  "TAILQ_INSERT_HEAD h q elm = do {
     f \<leftarrow> rd h (Some q);
     h \<leftarrow> wr h (nx elm) f;
     h \<leftarrow> (if f \<noteq> NULL then do {
              f \<leftarrow> rd h (Some q);
              wrb h (nx f) (nx elm) }
            else wrb h (Some q) (nx elm));
     h \<leftarrow> wr h (Some q) elm;
     wrb h (nx elm) (Some q)
   }"

definition TAILQ_INSERT_TAIL :: "qheap \<Rightarrow> loc \<Rightarrow> ptr \<Rightarrow> qheap option" where
  "TAILQ_INSERT_TAIL h q elm = do {
     h \<leftarrow> wr h (nx elm) NULL;
     l \<leftarrow> rdb h (Some q);
     h \<leftarrow> wrb h (nx elm) l;
     l \<leftarrow> rdb h (Some q);
     h \<leftarrow> wr h l elm;
     wrb h (Some q) (nx elm)
   }"

text \<open>\<open>( *(((struct headname * )((head)->tqh_last))->tqh_last))\<close>: the cell the last pointer points to is
  read as a head, whose second field is the \<open>tqe_prev\<close> of the last element.\<close>

definition TAILQ_LAST :: "qheap \<Rightarrow> loc \<Rightarrow> ptr option" where
  "TAILQ_LAST h q = do {
     l \<leftarrow> rdb h (Some q);
     p \<leftarrow> rdb h l;
     rd h p
   }"

definition TAILQ_PREV :: "qheap \<Rightarrow> ptr \<Rightarrow> ptr option" where
  "TAILQ_PREV h elm = do {
     l \<leftarrow> rdb h (nx elm);
     p \<leftarrow> rdb h l;
     rd h p
   }"

definition TAILQ_REMOVE :: "qheap \<Rightarrow> loc \<Rightarrow> ptr \<Rightarrow> qheap option" where
  "TAILQ_REMOVE h q elm = do {
     n \<leftarrow> rd h (nx elm);
     h \<leftarrow> (if n \<noteq> NULL then do {
              p \<leftarrow> rdb h (nx elm);
              wrb h (nx n) p }
            else do {
              p \<leftarrow> rdb h (nx elm);
              wrb h (Some q) p });
     p \<leftarrow> rdb h (nx elm);
     n \<leftarrow> rd h (nx elm);
     wr h p n
   }"

definition TAILQ_SWAP :: "qheap \<Rightarrow> loc \<Rightarrow> loc \<Rightarrow> qheap option" where
  "TAILQ_SWAP h q1 q2 = do {
     swap_first \<leftarrow> rd h (Some q1);
     swap_last \<leftarrow> rdb h (Some q1);
     f2 \<leftarrow> rd h (Some q2);
     h \<leftarrow> wr h (Some q1) f2;
     l2 \<leftarrow> rdb h (Some q2);
     h \<leftarrow> wrb h (Some q1) l2;
     h \<leftarrow> wr h (Some q2) swap_first;
     h \<leftarrow> wrb h (Some q2) swap_last;
     f \<leftarrow> rd h (Some q1);
     h \<leftarrow> (if f \<noteq> NULL then wrb h (nx f) (Some q1) else wrb h (Some q1) (Some q1));
     f \<leftarrow> rd h (Some q2);
     if f \<noteq> NULL then wrb h (nx f) (Some q2) else wrb h (Some q2) (Some q2)
   }"

definition TAILQ_FOREACH :: "qheap \<Rightarrow> loc \<Rightarrow> addr list option" where
  "TAILQ_FOREACH h q = do { p \<leftarrow> TAILQ_FIRST h q; walk h p }"

partial_function (option) TAILQ_walk_back :: "qheap \<Rightarrow> ptr \<Rightarrow> addr list option" where
  "TAILQ_walk_back h p = (case p of None \<Rightarrow> Some []
     | Some a \<Rightarrow> do { q \<leftarrow> TAILQ_PREV h p; as \<leftarrow> TAILQ_walk_back h q; Some (a # as) })"

definition TAILQ_FOREACH_REVERSE :: "qheap \<Rightarrow> loc \<Rightarrow> addr list option" where
  "TAILQ_FOREACH_REVERSE h q = do { p \<leftarrow> TAILQ_LAST h q; TAILQ_walk_back h p }"

subsection \<open>Representation\<close>

definition is_head :: "loc \<Rightarrow> bool" where
  "is_head q = (case q of Head _ \<Rightarrow> True | Next _ \<Rightarrow> False)"

definition tailq :: "qheap \<Rightarrow> loc \<Rightarrow> addr list \<Rightarrow> bool" where
  "tailq h q xs = (is_head q \<and> chain h q xs \<and> backs h q xs \<and> slot h (endl q xs) = Some NULL \<and>
     pslot h q = Some (Some (endl q xs)) \<and> distinct xs)"

text \<open>An element whose entry is allocated.\<close>

definition entry :: "qheap \<Rightarrow> addr \<Rightarrow> bool" where
  "entry h a = (slot h (Next a) \<noteq> None \<and> pslot h (Next a) \<noteq> None)"

lemma is_head_simps [simp]: "is_head (Head i)" "\<not> is_head (Next a)"
  by (simp_all add: is_head_def)

lemma is_head_notin [simp]: "is_head q \<Longrightarrow> q \<noteq> Next a" "is_head q \<Longrightarrow> Next a \<noteq> q" "is_head q \<Longrightarrow> q \<notin> Next ` S"
  by (cases q; auto)+

lemma endl_notin_set [simp]: "l \<notin> Next ` S \<Longrightarrow> set xs \<inter> S = {} \<Longrightarrow> endl l xs \<notin> Next ` S"
  using endl_cases [of l xs] by auto

lemma not_head_endl [simp]: "\<not> is_head (endl (Next a) xs)"
  using endl_cases [of "Next a" xs] by auto

lemma chain_slot: "chain h l xs \<Longrightarrow> slot h (endl l xs) = Some v \<Longrightarrow> \<exists>w. slot h l = Some w"
  by (cases xs) auto

lemma INSERT_TAIL_tailq:
  assumes "tailq h q xs" "entry h a" "a \<notin> set xs"
  shows "\<exists>h'. TAILQ_INSERT_TAIL h q (Some a) = Some h' \<and> tailq h' q (xs @ [a])"
proof -
  have "endl q xs \<noteq> Next a" using assms by (auto simp: tailq_def)
  then show ?thesis using assms by (auto simp: tailq_def entry_def TAILQ_INSERT_TAIL_def)
qed

lemma INIT_tailq:
  assumes "is_head q" "slot h q \<noteq> None" "pslot h q \<noteq> None"
  shows "\<exists>h'. TAILQ_INIT h q = Some h' \<and> tailq h' q []"
  using assms by (auto simp: TAILQ_INIT_def tailq_def)

lemma INSERT_HEAD_tailq:
  assumes "tailq h q xs" "entry h a" "a \<notin> set xs"
  shows "\<exists>h'. TAILQ_INSERT_HEAD h q (Some a) = Some h' \<and> tailq h' q (a # xs)"
  using assms by (cases xs) (auto simp: tailq_def entry_def TAILQ_INSERT_HEAD_def)

lemma INSERT_AFTER_tailq:
  assumes "tailq h q (xs @ b # ys)" "entry h a" "a \<notin> set (xs @ b # ys)"
  shows "\<exists>h'. TAILQ_INSERT_AFTER h q (Some b) (Some a) = Some h' \<and> tailq h' q (xs @ b # a # ys)"
  using assms by (cases ys) (auto simp: tailq_def entry_def TAILQ_INSERT_AFTER_def)

lemma INSERT_BEFORE_tailq:
  assumes "tailq h q (xs @ b # ys)" "entry h a" "a \<notin> set (xs @ b # ys)"
  shows "\<exists>h'. TAILQ_INSERT_BEFORE h (Some b) (Some a) = Some h' \<and> tailq h' q (xs @ a # b # ys)"
  using assms by (auto simp: tailq_def entry_def TAILQ_INSERT_BEFORE_def)

lemma REMOVE_tailq:
  assumes "tailq h q (xs @ a # ys)"
  shows "\<exists>h'. TAILQ_REMOVE h q (Some a) = Some h' \<and> tailq h' q (xs @ ys)"
  using assms by (cases ys) (auto simp: tailq_def TAILQ_REMOVE_def)

lemma FIRST_tailq: "tailq h q xs \<Longrightarrow> TAILQ_FIRST h q = Some (first xs)"
  by (cases xs) (auto simp: tailq_def TAILQ_FIRST_def)

lemma EMPTY_tailq: "tailq h q xs \<Longrightarrow> TAILQ_EMPTY h q = Some (xs = [])"
  by (cases xs) (auto simp: tailq_def TAILQ_EMPTY_def)

lemma NEXT_tailq: "tailq h q (xs @ a # ys) \<Longrightarrow> TAILQ_NEXT h (Some a) = Some (first ys)"
  by (cases ys) (auto simp: tailq_def TAILQ_NEXT_def)

lemma LAST_tailq: "tailq h q xs \<Longrightarrow> TAILQ_LAST h q = Some (final xs)"
  by (cases xs rule: rev_cases) (auto simp: tailq_def TAILQ_LAST_def)

lemma PREV_tailq: "tailq h q (xs @ a # ys) \<Longrightarrow> TAILQ_PREV h (Some a) = Some (final xs)"
  by (cases xs rule: rev_cases) (auto simp: tailq_def TAILQ_PREV_def)

lemma FOREACH_tailq: "tailq h q xs \<Longrightarrow> TAILQ_FOREACH h q = Some xs"
  using walk_from by (auto simp: tailq_def TAILQ_FOREACH_def TAILQ_FIRST_def)

lemma FOREACH_REVERSE_tailq:
  assumes "tailq h q xs"
  shows "TAILQ_FOREACH_REVERSE h q = Some (rev xs)"
proof -
  have "TAILQ_walk_back h (final ys) = Some (rev ys)" if "xs = ys @ zs" for ys zs
    using that
  proof (induction ys arbitrary: zs rule: rev_induct)
    case Nil
    then show ?case by (subst TAILQ_walk_back.simps) simp
  next
    case (snoc y ys)
    then show ?case
      using PREV_tailq [of h q ys y zs] assms by (subst TAILQ_walk_back.simps) simp
  qed
  then show ?thesis using LAST_tailq [OF assms] by (simp add: TAILQ_FOREACH_REVERSE_def)
qed

lemma CONCAT_tailq:
  assumes "tailq h q1 xs" "tailq h q2 ys" "q1 \<noteq> q2" "set xs \<inter> set ys = {}"
  shows "\<exists>h'. TAILQ_CONCAT h q1 q2 = Some h' \<and> tailq h' q1 (xs @ ys) \<and> tailq h' q2 []"
proof (cases ys)
  case Nil
  then show ?thesis using assms by (auto simp: tailq_def TAILQ_CONCAT_def)
next
  case (Cons y ys')
  have "endl q1 xs \<noteq> q2" "endl q1 xs \<noteq> Next y"
    using endl_cases [of q1 xs] assms Cons by (auto simp: tailq_def)
  moreover have "endl q1 xs \<notin> Next ` set ys" using endl_cases [of q1 xs] assms by (auto simp: tailq_def)
  moreover have "endl (Next y) ys' \<noteq> q1" "endl (Next y) ys' \<noteq> q2" "endl (Next y) ys' \<noteq> endl q1 xs"
    using endl_cases [of "Next y" ys'] endl_cases [of q1 xs] assms Cons by (auto simp: tailq_def)
  ultimately show ?thesis using assms Cons by (auto simp: tailq_def TAILQ_CONCAT_def TAILQ_INIT_def)
qed

lemma SWAP_tailq:
  assumes "tailq h q1 xs" "tailq h q2 ys" "q1 \<noteq> q2" "set xs \<inter> set ys = {}"
  shows "\<exists>h'. TAILQ_SWAP h q1 q2 = Some h' \<and> tailq h' q1 ys \<and> tailq h' q2 xs"
  using assms by (cases xs; cases ys) (auto simp: tailq_def TAILQ_SWAP_def)

lemma TAILQ_cells:
  "TAILQ_INSERT_TAIL h q p = Some h' \<Longrightarrow> cells h' = cells h"
  "TAILQ_REMOVE h q p = Some h' \<Longrightarrow> cells h' = cells h"
  by (auto simp: TAILQ_INSERT_TAIL_def TAILQ_REMOVE_def bind_eq_Some_conv dest!: wr_cells split: if_splits)

end
