(* ===== verification/Linked_Lists.thy ===== *)
theory Linked_Lists
  imports Tail_Queue
begin

text \<open>
  The other three families of \<open>nty_queue.h\<close>: singly linked lists (\<open>SLIST_*\<close>), singly linked tail queues
  (\<open>STAILQ_*\<close>) and doubly linked lists (\<open>LIST_*\<close>, which hold the busy coroutines of a scheduler), on
  the memory of \<open>Queue_Heap\<close>, each with its representation predicate and the list operation every
  macro implements.  The last section states the contract of a queue as a locale and interprets it
  for both tail-queue families.
\<close>

subsection \<open>Singly linked lists\<close>

definition SLIST_FIRST :: "qheap \<Rightarrow> loc \<Rightarrow> ptr option" where
  "SLIST_FIRST h q = rd h (Some q)"

definition SLIST_EMPTY :: "qheap \<Rightarrow> loc \<Rightarrow> bool option" where
  "SLIST_EMPTY h q = do { f \<leftarrow> rd h (Some q); Some (f = NULL) }"

definition SLIST_NEXT :: "qheap \<Rightarrow> ptr \<Rightarrow> ptr option" where
  "SLIST_NEXT h elm = rd h (nx elm)"

definition SLIST_FOREACH :: "qheap \<Rightarrow> loc \<Rightarrow> addr list option" where
  "SLIST_FOREACH h q = do { p \<leftarrow> SLIST_FIRST h q; walk h p }"

definition SLIST_INIT :: "qheap \<Rightarrow> loc \<Rightarrow> qheap option" where
  "SLIST_INIT h q = wr h (Some q) NULL"

definition SLIST_INSERT_AFTER :: "qheap \<Rightarrow> ptr \<Rightarrow> ptr \<Rightarrow> qheap option" where
  "SLIST_INSERT_AFTER h slistelm elm = do {
     n \<leftarrow> rd h (nx slistelm);
     h \<leftarrow> wr h (nx elm) n;
     wr h (nx slistelm) elm
   }"

definition SLIST_INSERT_HEAD :: "qheap \<Rightarrow> loc \<Rightarrow> ptr \<Rightarrow> qheap option" where
  "SLIST_INSERT_HEAD h q elm = do {
     f \<leftarrow> rd h (Some q);
     h \<leftarrow> wr h (nx elm) f;
     wr h (Some q) elm
   }"

definition SLIST_REMOVE_AFTER :: "qheap \<Rightarrow> ptr \<Rightarrow> qheap option" where
  "SLIST_REMOVE_AFTER h elm = do {
     n \<leftarrow> rd h (nx elm);
     nn \<leftarrow> rd h (nx n);
     wr h (nx elm) nn
   }"

definition SLIST_REMOVE_HEAD :: "qheap \<Rightarrow> loc \<Rightarrow> qheap option" where
  "SLIST_REMOVE_HEAD h q = do {
     f \<leftarrow> rd h (Some q);
     n \<leftarrow> rd h (nx f);
     wr h (Some q) n
   }"

definition SLIST_REMOVE :: "qheap \<Rightarrow> loc \<Rightarrow> ptr \<Rightarrow> qheap option" where
  "SLIST_REMOVE h q elm = do {
     f \<leftarrow> rd h (Some q);
     if f = elm then SLIST_REMOVE_HEAD h q
     else do {
       curelm \<leftarrow> seek h f elm;
       SLIST_REMOVE_AFTER h curelm
     }
   }"

definition slist :: "qheap \<Rightarrow> loc \<Rightarrow> addr list \<Rightarrow> bool" where
  "slist h q xs = (is_head q \<and> chain h q xs \<and> slot h (endl q xs) = Some NULL \<and> distinct xs)"

lemma SLIST_INIT_slist:
  "is_head q \<Longrightarrow> slot h q \<noteq> None \<Longrightarrow> \<exists>h'. SLIST_INIT h q = Some h' \<and> slist h' q []"
  by (auto simp: SLIST_INIT_def slist_def)

lemma SLIST_FIRST_slist: "slist h q xs \<Longrightarrow> SLIST_FIRST h q = Some (first xs)"
  by (cases xs) (auto simp: slist_def SLIST_FIRST_def)

lemma SLIST_EMPTY_slist: "slist h q xs \<Longrightarrow> SLIST_EMPTY h q = Some (xs = [])"
  by (cases xs) (auto simp: slist_def SLIST_EMPTY_def)

lemma SLIST_NEXT_slist: "slist h q (xs @ a # ys) \<Longrightarrow> SLIST_NEXT h (Some a) = Some (first ys)"
  by (cases ys) (auto simp: slist_def SLIST_NEXT_def)

lemma SLIST_FOREACH_slist: "slist h q xs \<Longrightarrow> SLIST_FOREACH h q = Some xs"
  using walk_from by (auto simp: slist_def SLIST_FOREACH_def SLIST_FIRST_def)

lemma SLIST_INSERT_HEAD_slist:
  "slist h q xs \<Longrightarrow> slot h (Next a) \<noteq> None \<Longrightarrow> a \<notin> set xs \<Longrightarrow>
   \<exists>h'. SLIST_INSERT_HEAD h q (Some a) = Some h' \<and> slist h' q (a # xs)"
  by (cases xs) (auto simp: slist_def SLIST_INSERT_HEAD_def)

lemma SLIST_INSERT_AFTER_slist:
  "slist h q (xs @ b # ys) \<Longrightarrow> slot h (Next a) \<noteq> None \<Longrightarrow> a \<notin> set (xs @ b # ys) \<Longrightarrow>
   \<exists>h'. SLIST_INSERT_AFTER h (Some b) (Some a) = Some h' \<and> slist h' q (xs @ b # a # ys)"
  by (cases ys) (auto simp: slist_def SLIST_INSERT_AFTER_def)

lemma seek_head:
  assumes "chain h q (xs @ [x])" "x \<notin> set xs" "xs \<noteq> []"
  shows "\<exists>p. slot h q = Some (Some p) \<and> p \<noteq> x \<and> seek h (Some p) (Some x) = Some (Some (last xs))"
proof (cases xs)
  case (Cons p ys)
  then show ?thesis using assms seek_chain [of h p ys x] by auto
qed (use assms in simp)

lemma SLIST_REMOVE_slist:
  assumes "slist h q (xs @ a # ys)"
  shows "\<exists>h'. SLIST_REMOVE h q (Some a) = Some h' \<and> slist h' q (xs @ ys)"
proof (cases xs rule: rev_cases)
  case Nil
  then show ?thesis using assms
    by (cases ys) (auto simp: slist_def SLIST_REMOVE_def SLIST_REMOVE_HEAD_def)
next
  case (snoc zs z)
  have "chain h q (xs @ [a])" "a \<notin> set xs" using assms by (auto simp: slist_def)
  then obtain p where "slot h q = Some (Some p)" "p \<noteq> a" "seek h (Some p) (Some a) = Some (Some z)"
    using seek_head [of h q xs a] snoc by auto
  then show ?thesis using assms snoc
    by (cases ys) (auto simp: slist_def SLIST_REMOVE_def SLIST_REMOVE_AFTER_def)
qed

subsection \<open>Singly linked tail queues\<close>

definition STAILQ_FIRST :: "qheap \<Rightarrow> loc \<Rightarrow> ptr option" where
  "STAILQ_FIRST h q = rd h (Some q)"

definition STAILQ_EMPTY :: "qheap \<Rightarrow> loc \<Rightarrow> bool option" where
  "STAILQ_EMPTY h q = do { f \<leftarrow> rd h (Some q); Some (f = NULL) }"

definition STAILQ_NEXT :: "qheap \<Rightarrow> ptr \<Rightarrow> ptr option" where
  "STAILQ_NEXT h elm = rd h (nx elm)"

definition STAILQ_FOREACH :: "qheap \<Rightarrow> loc \<Rightarrow> addr list option" where
  "STAILQ_FOREACH h q = do { p \<leftarrow> STAILQ_FIRST h q; walk h p }"

definition STAILQ_INIT :: "qheap \<Rightarrow> loc \<Rightarrow> qheap option" where
  "STAILQ_INIT h q = do {
     h \<leftarrow> wr h (Some q) NULL;
     wrb h (Some q) (Some q)
   }"

definition STAILQ_CONCAT :: "qheap \<Rightarrow> loc \<Rightarrow> loc \<Rightarrow> qheap option" where
  "STAILQ_CONCAT h q1 q2 = do {
     e2 \<leftarrow> STAILQ_EMPTY h q2;
     if \<not> e2 then do {
       l1 \<leftarrow> rdb h (Some q1);
       f2 \<leftarrow> rd h (Some q2);
       h \<leftarrow> wr h l1 f2;
       l2 \<leftarrow> rdb h (Some q2);
       h \<leftarrow> wrb h (Some q1) l2;
       STAILQ_INIT h q2
     } else Some h
   }"

definition STAILQ_INSERT_AFTER :: "qheap \<Rightarrow> loc \<Rightarrow> ptr \<Rightarrow> ptr \<Rightarrow> qheap option" where
  "STAILQ_INSERT_AFTER h q tqelm elm = do {
     n \<leftarrow> rd h (nx tqelm);
     h \<leftarrow> wr h (nx elm) n;
     h \<leftarrow> (if n = NULL then wrb h (Some q) (nx elm) else Some h);
     wr h (nx tqelm) elm
   }"

definition STAILQ_INSERT_HEAD :: "qheap \<Rightarrow> loc \<Rightarrow> ptr \<Rightarrow> qheap option" where
  "STAILQ_INSERT_HEAD h q elm = do {
     f \<leftarrow> rd h (Some q);
     h \<leftarrow> wr h (nx elm) f;
     h \<leftarrow> (if f = NULL then wrb h (Some q) (nx elm) else Some h);
     wr h (Some q) elm
   }"

definition STAILQ_INSERT_TAIL :: "qheap \<Rightarrow> loc \<Rightarrow> ptr \<Rightarrow> qheap option" where
  "STAILQ_INSERT_TAIL h q elm = do {
     h \<leftarrow> wr h (nx elm) NULL;
     l \<leftarrow> rdb h (Some q);
     h \<leftarrow> wr h l elm;
     wrb h (Some q) (nx elm)
   }"

text \<open>\<open>STAILQ_LAST\<close> subtracts the offset of the link field from the last pointer: the element that the
  cell is the \<open>next\<close> field of.  On the head's own cell that is not an element (a fault).\<close>

definition container_of :: "loc option \<Rightarrow> ptr option" where
  "container_of l = (case l of Some (Next a) \<Rightarrow> Some (Some a) | _ \<Rightarrow> None)"

definition STAILQ_LAST :: "qheap \<Rightarrow> loc \<Rightarrow> ptr option" where
  "STAILQ_LAST h q = do {
     e \<leftarrow> STAILQ_EMPTY h q;
     if e then Some NULL else do { l \<leftarrow> rdb h (Some q); container_of l }
   }"

definition STAILQ_REMOVE_HEAD :: "qheap \<Rightarrow> loc \<Rightarrow> qheap option" where
  "STAILQ_REMOVE_HEAD h q = do {
     f \<leftarrow> rd h (Some q);
     n \<leftarrow> rd h (nx f);
     h \<leftarrow> wr h (Some q) n;
     if n = NULL then wrb h (Some q) (Some q) else Some h
   }"

definition STAILQ_REMOVE_AFTER :: "qheap \<Rightarrow> loc \<Rightarrow> ptr \<Rightarrow> qheap option" where
  "STAILQ_REMOVE_AFTER h q elm = do {
     n \<leftarrow> rd h (nx elm);
     nn \<leftarrow> rd h (nx n);
     h \<leftarrow> wr h (nx elm) nn;
     if nn = NULL then wrb h (Some q) (nx elm) else Some h
   }"

definition STAILQ_REMOVE :: "qheap \<Rightarrow> loc \<Rightarrow> ptr \<Rightarrow> qheap option" where
  "STAILQ_REMOVE h q elm = do {
     f \<leftarrow> rd h (Some q);
     if f = elm then STAILQ_REMOVE_HEAD h q
     else do {
       curelm \<leftarrow> seek h f elm;
       STAILQ_REMOVE_AFTER h q curelm
     }
   }"

definition STAILQ_SWAP :: "qheap \<Rightarrow> loc \<Rightarrow> loc \<Rightarrow> qheap option" where
  "STAILQ_SWAP h q1 q2 = do {
     swap_first \<leftarrow> rd h (Some q1);
     swap_last \<leftarrow> rdb h (Some q1);
     f2 \<leftarrow> rd h (Some q2);
     h \<leftarrow> wr h (Some q1) f2;
     l2 \<leftarrow> rdb h (Some q2);
     h \<leftarrow> wrb h (Some q1) l2;
     h \<leftarrow> wr h (Some q2) swap_first;
     h \<leftarrow> wrb h (Some q2) swap_last;
     e1 \<leftarrow> STAILQ_EMPTY h q1;
     h \<leftarrow> (if e1 then wrb h (Some q1) (Some q1) else Some h);
     e2 \<leftarrow> STAILQ_EMPTY h q2;
     if e2 then wrb h (Some q2) (Some q2) else Some h
   }"

definition stailq :: "qheap \<Rightarrow> loc \<Rightarrow> addr list \<Rightarrow> bool" where
  "stailq h q xs = (slist h q xs \<and> pslot h q = Some (Some (endl q xs)))"

lemmas stailq_defs = stailq_def slist_def

lemma STAILQ_INIT_stailq:
  "is_head q \<Longrightarrow> slot h q \<noteq> None \<Longrightarrow> pslot h q \<noteq> None \<Longrightarrow> \<exists>h'. STAILQ_INIT h q = Some h' \<and> stailq h' q []"
  by (auto simp: STAILQ_INIT_def stailq_defs)

lemma STAILQ_FIRST_stailq: "stailq h q xs \<Longrightarrow> STAILQ_FIRST h q = Some (first xs)"
  by (cases xs) (auto simp: stailq_defs STAILQ_FIRST_def)

lemma STAILQ_EMPTY_stailq: "stailq h q xs \<Longrightarrow> STAILQ_EMPTY h q = Some (xs = [])"
  by (cases xs) (auto simp: stailq_defs STAILQ_EMPTY_def)

lemma STAILQ_NEXT_stailq: "stailq h q (xs @ a # ys) \<Longrightarrow> STAILQ_NEXT h (Some a) = Some (first ys)"
  by (cases ys) (auto simp: stailq_defs STAILQ_NEXT_def)

lemma STAILQ_LAST_stailq: "stailq h q xs \<Longrightarrow> STAILQ_LAST h q = Some (final xs)"
  using STAILQ_EMPTY_stailq [of h q xs]
  by (cases xs rule: rev_cases) (auto simp: stailq_defs STAILQ_LAST_def container_of_def)

lemma STAILQ_FOREACH_stailq: "stailq h q xs \<Longrightarrow> STAILQ_FOREACH h q = Some xs"
  using walk_from by (auto simp: stailq_defs STAILQ_FOREACH_def STAILQ_FIRST_def)

lemma STAILQ_INSERT_TAIL_stailq:
  assumes "stailq h q xs" "slot h (Next a) \<noteq> None" "a \<notin> set xs"
  shows "\<exists>h'. STAILQ_INSERT_TAIL h q (Some a) = Some h' \<and> stailq h' q (xs @ [a])"
proof -
  have "endl q xs \<noteq> Next a" using assms by (auto simp: stailq_defs)
  then show ?thesis using assms by (auto simp: stailq_defs STAILQ_INSERT_TAIL_def)
qed

lemma STAILQ_INSERT_HEAD_stailq:
  "stailq h q xs \<Longrightarrow> slot h (Next a) \<noteq> None \<Longrightarrow> a \<notin> set xs \<Longrightarrow>
   \<exists>h'. STAILQ_INSERT_HEAD h q (Some a) = Some h' \<and> stailq h' q (a # xs)"
  by (cases xs) (auto simp: stailq_defs STAILQ_INSERT_HEAD_def)

lemma STAILQ_INSERT_AFTER_stailq:
  "stailq h q (xs @ b # ys) \<Longrightarrow> slot h (Next a) \<noteq> None \<Longrightarrow> a \<notin> set (xs @ b # ys) \<Longrightarrow>
   \<exists>h'. STAILQ_INSERT_AFTER h q (Some b) (Some a) = Some h' \<and> stailq h' q (xs @ b # a # ys)"
  by (cases ys) (auto simp: stailq_defs STAILQ_INSERT_AFTER_def)

lemma STAILQ_REMOVE_stailq:
  assumes "stailq h q (xs @ a # ys)"
  shows "\<exists>h'. STAILQ_REMOVE h q (Some a) = Some h' \<and> stailq h' q (xs @ ys)"
proof (cases xs rule: rev_cases)
  case Nil
  then show ?thesis using assms
    by (cases ys) (auto simp: stailq_defs STAILQ_REMOVE_def STAILQ_REMOVE_HEAD_def)
next
  case (snoc zs z)
  have "chain h q (xs @ [a])" "a \<notin> set xs" using assms by (auto simp: stailq_defs)
  then obtain p where "slot h q = Some (Some p)" "p \<noteq> a" "seek h (Some p) (Some a) = Some (Some z)"
    using seek_head [of h q xs a] snoc by auto
  then show ?thesis using assms snoc
    by (cases ys) (auto simp: stailq_defs STAILQ_REMOVE_def STAILQ_REMOVE_AFTER_def)
qed

lemma STAILQ_CONCAT_stailq:
  assumes "stailq h q1 xs" "stailq h q2 ys" "q1 \<noteq> q2" "set xs \<inter> set ys = {}"
  shows "\<exists>h'. STAILQ_CONCAT h q1 q2 = Some h' \<and> stailq h' q1 (xs @ ys) \<and> stailq h' q2 []"
proof (cases ys)
  case Nil
  then show ?thesis using assms by (auto simp: stailq_defs STAILQ_CONCAT_def STAILQ_EMPTY_def)
next
  case (Cons y ys')
  have "endl q1 xs \<noteq> q2" "endl q1 xs \<noteq> Next y"
    using endl_cases [of q1 xs] assms Cons by (auto simp: stailq_defs)
  moreover have "endl q1 xs \<notin> Next ` set ys" using endl_cases [of q1 xs] assms by (auto simp: stailq_defs)
  moreover have "endl (Next y) ys' \<noteq> q1" "endl (Next y) ys' \<noteq> q2" "endl (Next y) ys' \<noteq> endl q1 xs"
    using endl_cases [of "Next y" ys'] endl_cases [of q1 xs] assms Cons by (auto simp: stailq_defs)
  ultimately show ?thesis using assms Cons
    by (auto simp: stailq_defs STAILQ_CONCAT_def STAILQ_INIT_def STAILQ_EMPTY_def)
qed

lemma STAILQ_SWAP_stailq:
  assumes "stailq h q1 xs" "stailq h q2 ys" "q1 \<noteq> q2" "set xs \<inter> set ys = {}"
  shows "\<exists>h'. STAILQ_SWAP h q1 q2 = Some h' \<and> stailq h' q1 ys \<and> stailq h' q2 xs"
  using assms by (cases xs; cases ys) (auto simp: stailq_defs STAILQ_SWAP_def STAILQ_EMPTY_def)

subsection \<open>Doubly linked lists\<close>

definition LIST_FIRST :: "qheap \<Rightarrow> loc \<Rightarrow> ptr option" where
  "LIST_FIRST h q = rd h (Some q)"

definition LIST_EMPTY :: "qheap \<Rightarrow> loc \<Rightarrow> bool option" where
  "LIST_EMPTY h q = do { f \<leftarrow> rd h (Some q); Some (f = NULL) }"

definition LIST_NEXT :: "qheap \<Rightarrow> ptr \<Rightarrow> ptr option" where
  "LIST_NEXT h elm = rd h (nx elm)"

definition LIST_FOREACH :: "qheap \<Rightarrow> loc \<Rightarrow> addr list option" where
  "LIST_FOREACH h q = do { p \<leftarrow> LIST_FIRST h q; walk h p }"

definition LIST_INIT :: "qheap \<Rightarrow> loc \<Rightarrow> qheap option" where
  "LIST_INIT h q = wr h (Some q) NULL"

definition LIST_INSERT_AFTER :: "qheap \<Rightarrow> ptr \<Rightarrow> ptr \<Rightarrow> qheap option" where
  "LIST_INSERT_AFTER h listelm elm = do {
     n \<leftarrow> rd h (nx listelm);
     h \<leftarrow> wr h (nx elm) n;
     h \<leftarrow> (if n \<noteq> NULL then do { n \<leftarrow> rd h (nx listelm); wrb h (nx n) (nx elm) } else Some h);
     h \<leftarrow> wr h (nx listelm) elm;
     wrb h (nx elm) (nx listelm)
   }"

definition LIST_INSERT_BEFORE :: "qheap \<Rightarrow> ptr \<Rightarrow> ptr \<Rightarrow> qheap option" where
  "LIST_INSERT_BEFORE h listelm elm = do {
     pv \<leftarrow> rdb h (nx listelm);
     h \<leftarrow> wrb h (nx elm) pv;
     h \<leftarrow> wr h (nx elm) listelm;
     pv \<leftarrow> rdb h (nx listelm);
     h \<leftarrow> wr h pv elm;
     wrb h (nx listelm) (nx elm)
   }"

definition LIST_INSERT_HEAD :: "qheap \<Rightarrow> loc \<Rightarrow> ptr \<Rightarrow> qheap option" where
  "LIST_INSERT_HEAD h q elm = do {
     f \<leftarrow> rd h (Some q);
     h \<leftarrow> wr h (nx elm) f;
     h \<leftarrow> (if f \<noteq> NULL then do { f \<leftarrow> rd h (Some q); wrb h (nx f) (nx elm) } else Some h);
     h \<leftarrow> wr h (Some q) elm;
     wrb h (nx elm) (Some q)
   }"

definition LIST_REMOVE :: "qheap \<Rightarrow> ptr \<Rightarrow> qheap option" where
  "LIST_REMOVE h elm = do {
     n \<leftarrow> rd h (nx elm);
     h \<leftarrow> (if n \<noteq> NULL then do { p \<leftarrow> rdb h (nx elm); wrb h (nx n) p } else Some h);
     p \<leftarrow> rdb h (nx elm);
     n \<leftarrow> rd h (nx elm);
     wr h p n
   }"

definition LIST_SWAP :: "qheap \<Rightarrow> loc \<Rightarrow> loc \<Rightarrow> qheap option" where
  "LIST_SWAP h q1 q2 = do {
     swap_tmp \<leftarrow> rd h (Some q1);
     f2 \<leftarrow> rd h (Some q2);
     h \<leftarrow> wr h (Some q1) f2;
     h \<leftarrow> wr h (Some q2) swap_tmp;
     swap_tmp \<leftarrow> rd h (Some q1);
     h \<leftarrow> (if swap_tmp \<noteq> NULL then wrb h (nx swap_tmp) (Some q1) else Some h);
     swap_tmp \<leftarrow> rd h (Some q2);
     if swap_tmp \<noteq> NULL then wrb h (nx swap_tmp) (Some q2) else Some h
   }"

definition dlist :: "qheap \<Rightarrow> loc \<Rightarrow> addr list \<Rightarrow> bool" where
  "dlist h q xs = (slist h q xs \<and> backs h q xs)"

lemmas dlist_defs = dlist_def slist_def

lemma LIST_INIT_dlist:
  "is_head q \<Longrightarrow> slot h q \<noteq> None \<Longrightarrow> \<exists>h'. LIST_INIT h q = Some h' \<and> dlist h' q []"
  by (auto simp: LIST_INIT_def dlist_defs)

lemma LIST_FIRST_dlist: "dlist h q xs \<Longrightarrow> LIST_FIRST h q = Some (first xs)"
  by (cases xs) (auto simp: dlist_defs LIST_FIRST_def)

lemma LIST_EMPTY_dlist: "dlist h q xs \<Longrightarrow> LIST_EMPTY h q = Some (xs = [])"
  by (cases xs) (auto simp: dlist_defs LIST_EMPTY_def)

lemma LIST_NEXT_dlist: "dlist h q (xs @ a # ys) \<Longrightarrow> LIST_NEXT h (Some a) = Some (first ys)"
  by (cases ys) (auto simp: dlist_defs LIST_NEXT_def)

lemma LIST_FOREACH_dlist: "dlist h q xs \<Longrightarrow> LIST_FOREACH h q = Some xs"
  using walk_from by (auto simp: dlist_defs LIST_FOREACH_def LIST_FIRST_def)

lemma LIST_INSERT_HEAD_dlist:
  "dlist h q xs \<Longrightarrow> entry h a \<Longrightarrow> a \<notin> set xs \<Longrightarrow>
   \<exists>h'. LIST_INSERT_HEAD h q (Some a) = Some h' \<and> dlist h' q (a # xs)"
  by (cases xs) (auto simp: dlist_defs entry_def LIST_INSERT_HEAD_def)

lemma LIST_INSERT_AFTER_dlist:
  "dlist h q (xs @ b # ys) \<Longrightarrow> entry h a \<Longrightarrow> a \<notin> set (xs @ b # ys) \<Longrightarrow>
   \<exists>h'. LIST_INSERT_AFTER h (Some b) (Some a) = Some h' \<and> dlist h' q (xs @ b # a # ys)"
  by (cases ys) (auto simp: dlist_defs entry_def LIST_INSERT_AFTER_def)

lemma LIST_INSERT_BEFORE_dlist:
  "dlist h q (xs @ b # ys) \<Longrightarrow> entry h a \<Longrightarrow> a \<notin> set (xs @ b # ys) \<Longrightarrow>
   \<exists>h'. LIST_INSERT_BEFORE h (Some b) (Some a) = Some h' \<and> dlist h' q (xs @ a # b # ys)"
  by (auto simp: dlist_defs entry_def LIST_INSERT_BEFORE_def)

lemma LIST_REMOVE_dlist:
  "dlist h q (xs @ a # ys) \<Longrightarrow> \<exists>h'. LIST_REMOVE h (Some a) = Some h' \<and> dlist h' q (xs @ ys)"
  by (cases ys) (auto simp: dlist_defs LIST_REMOVE_def)

lemma LIST_SWAP_dlist:
  assumes "dlist h q1 xs" "dlist h q2 ys" "q1 \<noteq> q2" "set xs \<inter> set ys = {}"
  shows "\<exists>h'. LIST_SWAP h q1 q2 = Some h' \<and> dlist h' q1 ys \<and> dlist h' q2 xs"
  using assms by (cases xs; cases ys) (auto simp: dlist_defs LIST_SWAP_def)

subsection \<open>The contract of a queue\<close>

text \<open>A client of a queue: it appends elements and takes the first one out (\<open>NULL\<close> when there is none), in any order.  \<open>queue_run\<close> is
  the client on an implementation, with the elements it has taken out; \<open>queue_spec\<close> is the client on the list of the
  elements; \<open>queue_fits\<close> says that no element is appended that is in the queue.\<close>

datatype queue_step = Enq addr | Deq

fun queue_run :: "('h \<Rightarrow> ptr \<Rightarrow> 'h option) \<Rightarrow> ('h \<Rightarrow> ptr \<Rightarrow> 'h option) \<Rightarrow> ('h \<Rightarrow> ptr option) \<Rightarrow> queue_step list \<Rightarrow> 'h \<Rightarrow>
    (ptr list \<times> 'h) option" where
  "queue_run enq drop_elm front [] h = Some ([], h)"
| "queue_run enq drop_elm front (Enq a # steps) h = do { h \<leftarrow> enq h (Some a); queue_run enq drop_elm front steps h }"
| "queue_run enq drop_elm front (Deq # steps) h = do {
     p \<leftarrow> front h;
     h \<leftarrow> (if p = NULL then Some h else drop_elm h p);
     (ps, h) \<leftarrow> queue_run enq drop_elm front steps h;
     Some (p # ps, h) }"

fun queue_spec :: "queue_step list \<Rightarrow> addr list \<Rightarrow> ptr list \<times> addr list" where
  "queue_spec [] xs = ([], xs)"
| "queue_spec (Enq a # steps) xs = queue_spec steps (xs @ [a])"
| "queue_spec (Deq # steps) xs = (case queue_spec steps (tl xs) of (ps, ys) \<Rightarrow> (first xs # ps, ys))"

fun queue_fits :: "queue_step list \<Rightarrow> addr list \<Rightarrow> bool" where
  "queue_fits [] xs = True"
| "queue_fits (Enq a # steps) xs = (a \<notin> set xs \<and> queue_fits steps (xs @ [a]))"
| "queue_fits (Deq # steps) xs = queue_fits steps (tl xs)"

definition enqueued :: "queue_step list \<Rightarrow> addr set" where
  "enqueued steps = {a. Enq a \<in> set steps}"

lemma enqueued_simps [simp]: "enqueued [] = {}" "enqueued (Enq a # steps) = insert a (enqueued steps)" "enqueued (Deq # steps) = enqueued steps"
  by (auto simp: enqueued_def)

text \<open>What the scheduler needs of its ready queue: append at the tail, look at both ends, remove an
  element wherever it stands.  \<open>room\<close> says that the element has a link the queue can use.\<close>

locale fifo =
  fixes queue :: "'h \<Rightarrow> addr list \<Rightarrow> bool"
    and room :: "'h \<Rightarrow> addr \<Rightarrow> bool"
    and enq :: "'h \<Rightarrow> ptr \<Rightarrow> 'h option"
    and drop_elm :: "'h \<Rightarrow> ptr \<Rightarrow> 'h option"
    and front :: "'h \<Rightarrow> ptr option"
    and rear :: "'h \<Rightarrow> ptr option"
  assumes queue_distinct: "queue h xs \<Longrightarrow> distinct xs"
    and enq_law: "queue h xs \<Longrightarrow> room h a \<Longrightarrow> a \<notin> set xs \<Longrightarrow>
      \<exists>h'. enq h (Some a) = Some h' \<and> queue h' (xs @ [a])"
    and drop_law: "queue h (xs @ a # ys) \<Longrightarrow> \<exists>h'. drop_elm h (Some a) = Some h' \<and> queue h' (xs @ ys)"
    and front_law: "queue h xs \<Longrightarrow> front h = Some (first xs)"
    and rear_law: "queue h xs \<Longrightarrow> rear h = Some (final xs)"
    and enq_room: "enq h p = Some h' \<Longrightarrow> room h' = room h"
    and drop_room: "drop_elm h p = Some h' \<Longrightarrow> room h' = room h"
begin

text \<open>What goes in last comes out last: an element appended to a queue is its rear, and it is removed
  only after everything that was there before.\<close>

lemma enq_rear:
  assumes "queue h xs" "room h a" "a \<notin> set xs"
  shows "\<exists>h'. enq h (Some a) = Some h' \<and> rear h' = Some (Some a) \<and> front h' = Some (first (xs @ [a]))"
  using enq_law [OF assms] rear_law front_law by fastforce

lemma pop_front:
  assumes "queue h (a # xs)"
  shows "\<exists>h'. front h = Some (Some a) \<and> drop_elm h (Some a) = Some h' \<and> queue h' xs"
  using front_law [OF assms] drop_law [of h "[]" a xs] assms by auto

lemma drop_member:
  assumes "queue h xs" "a \<in> set xs"
  shows "\<exists>h'. drop_elm h (Some a) = Some h' \<and> queue h' (remove1 a xs)"
proof -
  obtain ys zs where xs: "xs = ys @ a # zs" "a \<notin> set ys" using split_list_first [OF assms(2)] by auto
  then show ?thesis using drop_law [of h ys a zs] assms(1) by (auto simp: remove1_append)
qed

text \<open>An implementation that meets the contract gives every client what the list gives it.\<close>

lemma run_refines:
  assumes "queue h xs" "queue_fits steps xs" "\<forall>a \<in> enqueued steps. room h a"
  shows "\<exists>h'. queue_run enq drop_elm front steps h = Some (fst (queue_spec steps xs), h') \<and> queue h' (snd (queue_spec steps xs))"
  using assms
proof (induction steps xs arbitrary: h rule: queue_spec.induct)
  case (2 a steps xs)
  obtain h1 where h1: "enq h (Some a) = Some h1" "queue h1 (xs @ [a])" using enq_law [OF "2.prems"(1), of a] "2.prems"(2,3) by auto
  then show ?case using "2.IH" [OF h1(2)] "2.prems"(2,3) enq_room [OF h1(1)] by simp
next
  case (3 steps xs)
  show ?case
  proof (cases xs)
    case Nil
    then show ?thesis using "3.IH" [of h] "3.prems" front_law [OF "3.prems"(1)] by (auto split: prod.split)
  next
    case (Cons x ys)
    obtain h1 where h1: "front h = Some (Some x)" "drop_elm h (Some x) = Some h1" "queue h1 ys"
      using pop_front "3.prems"(1) Cons by blast
    then show ?thesis using "3.IH" [of h1] "3.prems"(2,3) Cons drop_room [OF h1(2)] by (auto split: prod.split)
  qed
qed auto

end

lemma tailq_distinct: "tailq h q xs \<Longrightarrow> distinct xs"
  by (simp add: tailq_def)

interpretation tq: fifo "\<lambda>h. tailq h (Head i)" entry "\<lambda>h. TAILQ_INSERT_TAIL h (Head i)"
  "\<lambda>h. TAILQ_REMOVE h (Head i)" "\<lambda>h. TAILQ_FIRST h (Head i)" "\<lambda>h. TAILQ_LAST h (Head i)" for i
proof unfold_locales
  show "TAILQ_INSERT_TAIL h (Head i) p = Some h' \<Longrightarrow> entry h' = entry h" for h h' p
    using TAILQ_cells(1) [of h "Head i" p h'] by (auto simp: cells_def entry_def fun_eq_iff)
  show "TAILQ_REMOVE h (Head i) p = Some h' \<Longrightarrow> entry h' = entry h" for h h' p
    using TAILQ_cells(2) [of h "Head i" p h'] by (auto simp: cells_def entry_def fun_eq_iff)
qed (auto simp: INSERT_TAIL_tailq REMOVE_tailq FIRST_tailq LAST_tailq tailq_distinct)

lemma stailq_distinct: "stailq h q xs \<Longrightarrow> distinct xs"
  by (simp add: stailq_defs)

lemma STAILQ_cells: "STAILQ_INSERT_TAIL h q p = Some h' \<Longrightarrow> cells h' = cells h"
  by (auto simp: STAILQ_INSERT_TAIL_def bind_eq_Some_conv dest!: wr_cells)

lemma STAILQ_REMOVE_cells: "STAILQ_REMOVE h q p = Some h' \<Longrightarrow> cells h' = cells h"
  by (auto simp: STAILQ_REMOVE_def STAILQ_REMOVE_HEAD_def STAILQ_REMOVE_AFTER_def bind_eq_Some_conv
      dest!: wr_cells split: if_splits)

interpretation stq: fifo "\<lambda>h. stailq h (Head i)" "\<lambda>h a. slot h (Next a) \<noteq> None"
  "\<lambda>h. STAILQ_INSERT_TAIL h (Head i)" "\<lambda>h. STAILQ_REMOVE h (Head i)"
  "\<lambda>h. STAILQ_FIRST h (Head i)" "\<lambda>h. STAILQ_LAST h (Head i)" for i
proof unfold_locales
  show "STAILQ_INSERT_TAIL h (Head i) p = Some h' \<Longrightarrow> (\<lambda>a. slot h' (Next a) \<noteq> None) = (\<lambda>a. slot h (Next a) \<noteq> None)"
    for h h' p
    using STAILQ_cells [of h "Head i" p h'] by (auto simp: cells_def fun_eq_iff)
  show "STAILQ_REMOVE h (Head i) p = Some h' \<Longrightarrow> (\<lambda>a. slot h' (Next a) \<noteq> None) = (\<lambda>a. slot h (Next a) \<noteq> None)" for h h' p
    using STAILQ_REMOVE_cells [of h "Head i" p h'] by (auto simp: cells_def fun_eq_iff)
qed (auto simp: STAILQ_INSERT_TAIL_stailq STAILQ_REMOVE_stailq STAILQ_FIRST_stailq STAILQ_LAST_stailq stailq_distinct)

subsection \<open>Properties of the queues\<close>

text \<open>Two tail queues, the first with the element 1, and two free elements: the concrete input of the
  witnesses.\<close>

definition demo_queues :: qheap where
  "demo_queues = \<lparr>slot = [Head 0 \<mapsto> Some 1, Head 1 \<mapsto> NULL, Next 1 \<mapsto> NULL, Next 2 \<mapsto> NULL, Next 3 \<mapsto> NULL],
     pslot = [Head 0 \<mapsto> Some (Next 1), Head 1 \<mapsto> Some (Head 1), Next 1 \<mapsto> Some (Head 0), Next 2 \<mapsto> None, Next 3 \<mapsto> None]\<rparr>"

lemma demo_queues_ok:
  "tailq demo_queues (Head 0) [1]" "tailq demo_queues (Head 1) []" "entry demo_queues 2" "entry demo_queues 3"
  "stailq demo_queues (Head 0) [1]" "stailq demo_queues (Head 1) []" "dlist demo_queues (Head 0) [1]"
  "dlist demo_queues (Head 1) []" "slist demo_queues (Head 0) [1]"
  by (simp_all add: demo_queues_def tailq_def entry_def stailq_defs dlist_defs)

text \<open>C33.  A tail queue is first in, first out: a client that appends free elements with \<open>TAILQ_INSERT_TAIL\<close> and takes the first
  element out with \<open>TAILQ_FIRST\<close> and \<open>TAILQ_REMOVE\<close>, in any order, gets without a fault exactly the elements that the list of
  waiting elements gives it, \<open>NULL\<close> when there is none; what is left is visited by \<open>TAILQ_FOREACH\<close> in the order of that list
  and by \<open>TAILQ_FOREACH_REVERSE\<close> in the opposite one.\<close>

theorem tailq_fifo:
  assumes "tailq h (Head i) xs" "queue_fits steps xs" "\<forall>a \<in> enqueued steps. entry h a"
  shows "\<exists>h'. queue_run (\<lambda>h. TAILQ_INSERT_TAIL h (Head i)) (\<lambda>h. TAILQ_REMOVE h (Head i)) (\<lambda>h. TAILQ_FIRST h (Head i)) steps h =
      Some (fst (queue_spec steps xs), h') \<and>
    TAILQ_FOREACH h' (Head i) = Some (snd (queue_spec steps xs)) \<and>
    TAILQ_FOREACH_REVERSE h' (Head i) = Some (rev (snd (queue_spec steps xs)))"
  using tq.run_refines [OF assms] FOREACH_tailq FOREACH_REVERSE_tailq by blast

theorem tailq_fifo_witness:
  "\<exists>h'. queue_run (\<lambda>h. TAILQ_INSERT_TAIL h (Head 0)) (\<lambda>h. TAILQ_REMOVE h (Head 0)) (\<lambda>h. TAILQ_FIRST h (Head 0))
      [Enq 2, Deq, Enq 3, Deq, Enq 1] demo_queues = Some ([Some 1, Some 2], h') \<and> TAILQ_FOREACH h' (Head 0) = Some [3, 1]"
proof -
  have "entry demo_queues 1" by (simp add: demo_queues_def entry_def)
  then show ?thesis
    using tailq_fifo [OF demo_queues_ok(1), of "[Enq 2, Deq, Enq 3, Deq, Enq 1]"] demo_queues_ok(3,4) by auto
qed

text \<open>\<open>TAILQ_REMOVE\<close> takes an element out of a queue wherever it stands and keeps the order of the
  others; \<open>TAILQ_INSERT_HEAD\<close>, \<open>TAILQ_INSERT_AFTER\<close> and \<open>TAILQ_INSERT_BEFORE\<close> put a free element in front, after
  and before a given one.  None of them faults.\<close>

lemma tailq_insert_remove:
  assumes "tailq h q (xs @ b # ys)" "entry h a" "a \<notin> set (xs @ b # ys)"
  shows "(\<exists>h'. TAILQ_REMOVE h q (Some b) = Some h' \<and> tailq h' q (xs @ ys)) \<and>
    (\<exists>h'. TAILQ_INSERT_HEAD h q (Some a) = Some h' \<and> tailq h' q (a # xs @ b # ys)) \<and>
    (\<exists>h'. TAILQ_INSERT_AFTER h q (Some b) (Some a) = Some h' \<and> tailq h' q (xs @ b # a # ys)) \<and>
    (\<exists>h'. TAILQ_INSERT_BEFORE h (Some b) (Some a) = Some h' \<and> tailq h' q (xs @ a # b # ys))"
  using REMOVE_tailq [OF assms(1)] INSERT_HEAD_tailq [OF assms] INSERT_AFTER_tailq [OF assms]
    INSERT_BEFORE_tailq [OF assms] by blast

text \<open>\<open>TAILQ_CONCAT\<close> appends one queue to another and leaves the first empty; \<open>TAILQ_SWAP\<close> exchanges two
  queues.  The element lists are disjoint.\<close>

lemma tailq_concat_swap:
  assumes "tailq h q1 xs" "tailq h q2 ys" "q1 \<noteq> q2" "set xs \<inter> set ys = {}"
  shows "(\<exists>h'. TAILQ_CONCAT h q1 q2 = Some h' \<and> tailq h' q1 (xs @ ys) \<and> tailq h' q2 []) \<and>
    (\<exists>h'. TAILQ_SWAP h q1 q2 = Some h' \<and> tailq h' q1 ys \<and> tailq h' q2 xs)"
  using CONCAT_tailq [OF assms] SWAP_tailq [OF assms] by blast

text \<open>The singly linked tail queues keep their last pointer right: insertion at the tail after the
  removal of any element appends, and \<open>STAILQ_LAST\<close> finds the new element.\<close>

lemma stailq_remove_insert:
  assumes "stailq h (Head i) (xs @ a # ys)"
  shows "\<exists>h1 h2. STAILQ_REMOVE h (Head i) (Some a) = Some h1 \<and> STAILQ_INSERT_TAIL h1 (Head i) (Some a) = Some h2 \<and>
    stailq h2 (Head i) (xs @ ys @ [a]) \<and> STAILQ_LAST h2 (Head i) = Some (Some a) \<and>
    STAILQ_FOREACH h2 (Head i) = Some (xs @ ys @ [a])"
proof -
  obtain h1 where 1: "STAILQ_REMOVE h (Head i) (Some a) = Some h1" "stailq h1 (Head i) (xs @ ys)"
    using STAILQ_REMOVE_stailq [OF assms(1)] by blast
  have "slot h (Next a) \<noteq> None" using assms by (cases ys) (auto simp: stailq_defs)
  then have room: "slot h1 (Next a) \<noteq> None"
    using STAILQ_REMOVE_cells [OF 1(1)] by (auto simp: cells_def fun_eq_iff)
  have "a \<notin> set (xs @ ys)" using stailq_distinct [OF assms(1)] by auto
  then obtain h2 where 2: "STAILQ_INSERT_TAIL h1 (Head i) (Some a) = Some h2" "stailq h2 (Head i) ((xs @ ys) @ [a])"
    using stq.enq_law [OF 1(2), of a] room by blast
  then show ?thesis
    using 1(1) STAILQ_LAST_stailq [OF 2(2)] STAILQ_FOREACH_stailq [OF 2(2)] by (auto simp: final_append)
qed

text \<open>The doubly linked lists: \<open>LIST_REMOVE\<close> needs no head, \<open>LIST_INSERT_HEAD\<close>, \<open>LIST_INSERT_AFTER\<close> and
  \<open>LIST_INSERT_BEFORE\<close> put a free element in its place, and \<open>LIST_FOREACH\<close> visits the list.\<close>

lemma list_insert_remove:
  assumes "dlist h q (xs @ b # ys)" "entry h a" "a \<notin> set (xs @ b # ys)"
  shows "LIST_FOREACH h q = Some (xs @ b # ys) \<and>
    (\<exists>h'. LIST_REMOVE h (Some b) = Some h' \<and> dlist h' q (xs @ ys)) \<and>
    (\<exists>h'. LIST_INSERT_HEAD h q (Some a) = Some h' \<and> dlist h' q (a # xs @ b # ys)) \<and>
    (\<exists>h'. LIST_INSERT_AFTER h (Some b) (Some a) = Some h' \<and> dlist h' q (xs @ b # a # ys)) \<and>
    (\<exists>h'. LIST_INSERT_BEFORE h (Some b) (Some a) = Some h' \<and> dlist h' q (xs @ a # b # ys))"
  using LIST_FOREACH_dlist [OF assms(1)] LIST_REMOVE_dlist [OF assms(1)] LIST_INSERT_HEAD_dlist [OF assms]
    LIST_INSERT_AFTER_dlist [OF assms] LIST_INSERT_BEFORE_dlist [OF assms] by blast

end
