(* ===== verification/Queue_Checks.thy ===== *)
theory Queue_Checks
  imports Linked_Lists
begin

text \<open>
  The consistency checks of \<open>nty_queue.h\<close> (\<open>QMD_LIST_CHECK_*\<close>, \<open>QMD_TAILQ_CHECK_*\<close>), which are compiled in with \<open>_KERNEL\<close> and
  \<open>INVARIANTS\<close> and empty otherwise, and the operations with the checks in front of them.  A \<open>panic\<close> is a fault, \<open>None\<close>.
\<close>

subsection \<open>The checks\<close>

definition QMD_LIST_CHECK_HEAD :: "qheap \<Rightarrow> loc \<Rightarrow> unit option" where
  "QMD_LIST_CHECK_HEAD h q = do {
     f \<leftarrow> LIST_FIRST h q;
     if f \<noteq> NULL then do { p \<leftarrow> rdb h (nx f); c_assert (p = Some q) } else Some () }"

definition QMD_LIST_CHECK_NEXT :: "qheap \<Rightarrow> ptr \<Rightarrow> unit option" where
  "QMD_LIST_CHECK_NEXT h elm = do {
     n \<leftarrow> LIST_NEXT h elm;
     if n \<noteq> NULL then do { p \<leftarrow> rdb h (nx n); c_assert (p = nx elm) } else Some () }"

definition QMD_LIST_CHECK_PREV :: "qheap \<Rightarrow> ptr \<Rightarrow> unit option" where
  "QMD_LIST_CHECK_PREV h elm = do { p \<leftarrow> rdb h (nx elm); v \<leftarrow> rd h p; c_assert (v = elm) }"

definition QMD_TAILQ_CHECK_HEAD :: "qheap \<Rightarrow> loc \<Rightarrow> unit option" where
  "QMD_TAILQ_CHECK_HEAD h q = do {
     e \<leftarrow> TAILQ_EMPTY h q;
     if \<not> e then do { f \<leftarrow> TAILQ_FIRST h q; p \<leftarrow> rdb h (nx f); c_assert (p = Some q) } else Some () }"

definition QMD_TAILQ_CHECK_TAIL :: "qheap \<Rightarrow> loc \<Rightarrow> unit option" where
  "QMD_TAILQ_CHECK_TAIL h q = do { l \<leftarrow> rdb h (Some q); v \<leftarrow> rd h l; c_assert (v = NULL) }"

definition QMD_TAILQ_CHECK_NEXT :: "qheap \<Rightarrow> ptr \<Rightarrow> unit option" where
  "QMD_TAILQ_CHECK_NEXT h elm = do {
     n \<leftarrow> TAILQ_NEXT h elm;
     if n \<noteq> NULL then do { p \<leftarrow> rdb h (nx n); c_assert (p = nx elm) } else Some () }"

definition QMD_TAILQ_CHECK_PREV :: "qheap \<Rightarrow> ptr \<Rightarrow> unit option" where
  "QMD_TAILQ_CHECK_PREV h elm = do { p \<leftarrow> rdb h (nx elm); v \<leftarrow> rd h p; c_assert (v = elm) }"

subsection \<open>The operations that check first\<close>

definition checked_LIST_INSERT_AFTER :: "qheap \<Rightarrow> ptr \<Rightarrow> ptr \<Rightarrow> qheap option" where
  "checked_LIST_INSERT_AFTER h listelm elm = do { QMD_LIST_CHECK_NEXT h listelm; LIST_INSERT_AFTER h listelm elm }"

definition checked_LIST_INSERT_BEFORE :: "qheap \<Rightarrow> ptr \<Rightarrow> ptr \<Rightarrow> qheap option" where
  "checked_LIST_INSERT_BEFORE h listelm elm = do { QMD_LIST_CHECK_PREV h listelm; LIST_INSERT_BEFORE h listelm elm }"

definition checked_LIST_INSERT_HEAD :: "qheap \<Rightarrow> loc \<Rightarrow> ptr \<Rightarrow> qheap option" where
  "checked_LIST_INSERT_HEAD h q elm = do { QMD_LIST_CHECK_HEAD h q; LIST_INSERT_HEAD h q elm }"

definition checked_LIST_REMOVE :: "qheap \<Rightarrow> ptr \<Rightarrow> qheap option" where
  "checked_LIST_REMOVE h elm = do { QMD_LIST_CHECK_NEXT h elm; QMD_LIST_CHECK_PREV h elm; LIST_REMOVE h elm }"

definition checked_TAILQ_INSERT_AFTER :: "qheap \<Rightarrow> loc \<Rightarrow> ptr \<Rightarrow> ptr \<Rightarrow> qheap option" where
  "checked_TAILQ_INSERT_AFTER h q listelm elm = do { QMD_TAILQ_CHECK_NEXT h listelm; TAILQ_INSERT_AFTER h q listelm elm }"

definition checked_TAILQ_INSERT_BEFORE :: "qheap \<Rightarrow> ptr \<Rightarrow> ptr \<Rightarrow> qheap option" where
  "checked_TAILQ_INSERT_BEFORE h listelm elm = do { QMD_TAILQ_CHECK_PREV h listelm; TAILQ_INSERT_BEFORE h listelm elm }"

definition checked_TAILQ_INSERT_HEAD :: "qheap \<Rightarrow> loc \<Rightarrow> ptr \<Rightarrow> qheap option" where
  "checked_TAILQ_INSERT_HEAD h q elm = do { QMD_TAILQ_CHECK_HEAD h q; TAILQ_INSERT_HEAD h q elm }"

definition checked_TAILQ_INSERT_TAIL :: "qheap \<Rightarrow> loc \<Rightarrow> ptr \<Rightarrow> qheap option" where
  "checked_TAILQ_INSERT_TAIL h q elm = do { QMD_TAILQ_CHECK_TAIL h q; TAILQ_INSERT_TAIL h q elm }"

definition checked_TAILQ_REMOVE :: "qheap \<Rightarrow> loc \<Rightarrow> ptr \<Rightarrow> qheap option" where
  "checked_TAILQ_REMOVE h q elm = do { QMD_TAILQ_CHECK_NEXT h elm; QMD_TAILQ_CHECK_PREV h elm; TAILQ_REMOVE h q elm }"

lemmas check_defs = QMD_LIST_CHECK_HEAD_def QMD_LIST_CHECK_NEXT_def QMD_LIST_CHECK_PREV_def QMD_TAILQ_CHECK_HEAD_def
  QMD_TAILQ_CHECK_TAIL_def QMD_TAILQ_CHECK_NEXT_def QMD_TAILQ_CHECK_PREV_def LIST_FIRST_def LIST_NEXT_def
  TAILQ_FIRST_def TAILQ_EMPTY_def TAILQ_NEXT_def

subsection \<open>A well-formed structure passes\<close>

lemma list_checks_pass:
  assumes "dlist h q (xs @ a # ys)"
  shows "QMD_LIST_CHECK_HEAD h q = Some ()" "QMD_LIST_CHECK_NEXT h (Some a) = Some ()" "QMD_LIST_CHECK_PREV h (Some a) = Some ()"
  using assms by (cases xs; cases ys; auto simp: dlist_defs check_defs)+

lemma tailq_checks_pass:
  assumes "tailq h q (xs @ a # ys)"
  shows "QMD_TAILQ_CHECK_NEXT h (Some a) = Some ()" "QMD_TAILQ_CHECK_PREV h (Some a) = Some ()"
  using assms by (cases xs; cases ys; auto simp: tailq_def check_defs)+

lemma tailq_head_checks_pass:
  assumes "tailq h q xs"
  shows "QMD_TAILQ_CHECK_HEAD h q = Some ()" "QMD_TAILQ_CHECK_TAIL h q = Some ()"
  using assms by (cases xs; auto simp: tailq_def check_defs)+

text \<open>A list whose cells are linked forwards has the right back pointers exactly when the checks at the head and at every
  element pass.\<close>

lemma next_check_iff:
  "slot h (Next a) = Some (Some b) \<Longrightarrow> QMD_LIST_CHECK_NEXT h (Some a) = Some () \<longleftrightarrow> pslot h (Next b) = Some (Some (Next a))"
  by (auto simp: check_defs bind_eq_Some_conv)

lemma next_checks_backs:
  assumes "chain h l xs" "slot h (endl l xs) = Some NULL"
  shows "backs h l xs \<longleftrightarrow> (xs = [] \<or> pslot h (Next (hd xs)) = Some (Some l)) \<and> (\<forall>a \<in> set xs. QMD_LIST_CHECK_NEXT h (Some a) = Some ())"
  using assms
proof (induction xs arbitrary: l)
  case (Cons a xs)
  show ?case
  proof (cases xs)
    case Nil
    then show ?thesis using Cons.prems by (auto simp: check_defs)
  next
    case (Cons b ys)
    then show ?thesis using Cons.IH [of "Next a"] Cons.prems next_check_iff [of h a b] by auto
  qed
qed simp

lemma list_checks_dlist:
  assumes "slist h q xs"
  shows "dlist h q xs \<longleftrightarrow> QMD_LIST_CHECK_HEAD h q = Some () \<and> (\<forall>a \<in> set xs. QMD_LIST_CHECK_NEXT h (Some a) = Some ())"
  using assms next_checks_backs [of h q xs] by (cases xs) (auto simp: dlist_defs check_defs bind_eq_Some_conv)

subsection \<open>A second removal is caught\<close>

lemma removed_entry:
  assumes "tailq h q (xs @ a # ys)" "TAILQ_REMOVE h q (Some a) = Some h'"
  shows "pslot h' (Next a) = Some (Some (endl q xs))" "slot h' (Next a) = Some (first ys)"
  using assms by (cases ys; auto simp: tailq_def TAILQ_REMOVE_def)+

lemma removed_slot:
  assumes "tailq h q (xs @ ys)"
  shows "slot h (endl q xs) = Some (first ys)"
  using assms by (cases ys) (auto simp: tailq_def)

subsection \<open>Properties\<close>

text \<open>C20.  With the checks compiled in, an element of a tail queue is removed as without them; a second removal of the same
  element, which without the checks would write into the queue through the stale pointers, panics.\<close>

theorem double_remove_panics:
  assumes "tailq h q (xs @ a # ys)"
  shows "\<exists>h'. checked_TAILQ_REMOVE h q (Some a) = Some h' \<and> TAILQ_REMOVE h q (Some a) = Some h' \<and> tailq h' q (xs @ ys) \<and>
    checked_TAILQ_REMOVE h' q (Some a) = None"
proof -
  obtain h' where h': "TAILQ_REMOVE h q (Some a) = Some h'" "tailq h' q (xs @ ys)" using REMOVE_tailq [OF assms] by blast
  have "a \<notin> set ys" using assms by (simp add: tailq_def)
  then have "first ys \<noteq> Some a" by (cases ys) auto
  then have "QMD_TAILQ_CHECK_PREV h' (Some a) = None"
    using removed_entry [OF assms h'(1)] removed_slot [OF h'(2)] by (simp add: check_defs)
  then have "checked_TAILQ_REMOVE h' q (Some a) = None"
    by (cases "QMD_TAILQ_CHECK_NEXT h' (Some a)") (simp_all add: checked_TAILQ_REMOVE_def)
  then show ?thesis using h' tailq_checks_pass [OF assms] by (simp add: checked_TAILQ_REMOVE_def)
qed

definition two_queued :: qheap where
  "two_queued = \<lparr>slot = [Head 0 \<mapsto> Some 1, Next 1 \<mapsto> Some 2, Next 2 \<mapsto> NULL],
     pslot = [Head 0 \<mapsto> Some (Next 2), Next 1 \<mapsto> Some (Head 0), Next 2 \<mapsto> Some (Next 1)]\<rparr>"

theorem double_remove_panics_witness:
  "\<exists>h'. checked_TAILQ_REMOVE two_queued (Head 0) (Some 1) = Some h' \<and> TAILQ_FIRST h' (Head 0) = Some (Some 2) \<and>
    checked_TAILQ_REMOVE h' (Head 0) (Some 1) = None"
proof -
  have "tailq two_queued (Head 0) ([] @ 1 # [2])" by (simp add: tailq_def two_queued_def)
  from double_remove_panics [OF this] show ?thesis using FIRST_tailq by fastforce
qed

end
