(* ===== verification/Context_Switch.thy ===== *)
theory Context_Switch
  imports Prelude
begin

unbundle bit_operations_syntax

text \<open>
  The assembler context switch of \<open>nty_coroutine.c\<close>, the build without \<open>_USE_UCONTEXT\<close>: the routine \<open>_switch\<close> for the
  64-bit and the 32-bit processor, the first context of a coroutine (\<open>nty_coroutine_init\<close>) and the release of stack
  pages (\<open>nty_coroutine_madvise\<close>).  In this build every coroutine has a stack of its own.

  The machine has the registers that the routine names, an instruction pointer and a memory of words.  The memory maps the
  addresses of words to their contents; an access to an address that is not a multiple of the word size or not in
  the memory is a fault, the value \<open>None\<close>.  A routine is the list of its instructions; it ends with the \<open>ret\<close>.
\<close>

subsection \<open>The machine\<close>

text \<open>An operand is a register or \<open>disp(base)\<close>; \<open>Mov\<close> has its source first, as in the source text.\<close>

datatype 'r operand = Reg 'r | Mem nat 'r

datatype 'r instr = Mov "'r operand" "'r operand" | Ret

record ('r, 'v) cpu =
  regs :: "'r \<Rightarrow> 'v"
  ram :: "'v \<Rightarrow> 'v option"
  ip :: 'v

text \<open>The size of a word in bytes, which is that of a pointer.\<close>

definition word_bytes :: "'w::len itself \<Rightarrow> nat" where
  "word_bytes _ = LENGTH('w) div 8"

definition aligned :: "'w::len word \<Rightarrow> bool" where
  "aligned a = (unat a mod word_bytes TYPE('w) = 0)"

definition load :: "('r, 'w::len word) cpu \<Rightarrow> 'w word \<Rightarrow> 'w word option" where
  "load c a = (if aligned a then ram c a else None)"

definition poke :: "('r, 'w::len word) cpu \<Rightarrow> 'w word \<Rightarrow> 'w word \<Rightarrow> ('r, 'w word) cpu option" where
  "poke c a v = (if load c a = None then None else Some (c\<lparr>ram := (ram c)(a := Some v)\<rparr>))"

definition set_reg :: "('r, 'w::len word) cpu \<Rightarrow> 'r \<Rightarrow> 'w word \<Rightarrow> ('r, 'w word) cpu" where
  "set_reg c r v = c\<lparr>regs := (regs c)(r := v)\<rparr>"

fun fetch :: "('r, 'w::len word) cpu \<Rightarrow> 'r operand \<Rightarrow> 'w word option" where
  "fetch c (Reg r) = Some (regs c r)"
| "fetch c (Mem d r) = load c (regs c r + of_nat d)"

fun put_op :: "('r, 'w::len word) cpu \<Rightarrow> 'r operand \<Rightarrow> 'w word \<Rightarrow> ('r, 'w word) cpu option" where
  "put_op c (Reg r) v = Some (set_reg c r v)"
| "put_op c (Mem d r) v = poke c (regs c r + of_nat d) v"

text \<open>\<open>ret\<close> takes the address it goes on at from the stack; \<open>sp\<close> is the stack pointer of the machine.\<close>

fun run :: "'r \<Rightarrow> 'r instr list \<Rightarrow> ('r, 'w::len word) cpu \<Rightarrow> ('r, 'w word) cpu option" where
  "run sp [] c = None"
| "run sp (Mov s d # is) c = do { v \<leftarrow> fetch c s; c \<leftarrow> put_op c d v; run sp is c }"
| "run sp (Ret # is) c = do { v \<leftarrow> load c (regs c sp);
     Some ((set_reg c sp (regs c sp + of_nat (word_bytes TYPE('w))))\<lparr>ip := v\<rparr>) }"

text \<open>A push, by which the caller passes arguments and the \<open>call\<close> instruction the return address.\<close>

definition push :: "'r \<Rightarrow> 'w word \<Rightarrow> ('r, 'w::len word) cpu \<Rightarrow> ('r, 'w word) cpu option" where
  "push sp v c = (let a = regs c sp - of_nat (word_bytes TYPE('w)) in poke (set_reg c sp a) a v)"

subsection \<open>\<open>_switch\<close>\<close>

datatype reg64 = RAX | RBX | RBP | RSP | RDI | RSI | R12 | R13 | R14 | R15

definition switch64 :: "reg64 instr list" where
  "switch64 =
    [Mov (Reg RSP) (Mem 0 RSI),
     Mov (Reg RBP) (Mem 8 RSI),
     Mov (Mem 0 RSP) (Reg RAX),
     Mov (Reg RAX) (Mem 16 RSI),
     Mov (Reg RBX) (Mem 24 RSI),
     Mov (Reg R12) (Mem 32 RSI),
     Mov (Reg R13) (Mem 40 RSI),
     Mov (Reg R14) (Mem 48 RSI),
     Mov (Reg R15) (Mem 56 RSI),
     Mov (Mem 56 RDI) (Reg R15),
     Mov (Mem 48 RDI) (Reg R14),
     Mov (Mem 40 RDI) (Reg R13),
     Mov (Mem 32 RDI) (Reg R12),
     Mov (Mem 24 RDI) (Reg RBX),
     Mov (Mem 8 RDI) (Reg RBP),
     Mov (Mem 0 RDI) (Reg RSP),
     Mov (Mem 16 RDI) (Reg RAX),
     Mov (Reg RAX) (Mem 0 RSP),
     Ret]"

datatype reg32 = EAX | EBX | EDX | EBP | ESP | EDI | ESI

definition switch32 :: "reg32 instr list" where
  "switch32 =
    [Mov (Mem 8 ESP) (Reg EDX),
     Mov (Reg ESP) (Mem 0 EDX),
     Mov (Reg EBP) (Mem 4 EDX),
     Mov (Mem 0 ESP) (Reg EAX),
     Mov (Reg EAX) (Mem 8 EDX),
     Mov (Reg EBX) (Mem 12 EDX),
     Mov (Reg ESI) (Mem 16 EDX),
     Mov (Reg EDI) (Mem 20 EDX),
     Mov (Mem 4 ESP) (Reg EDX),
     Mov (Mem 20 EDX) (Reg EDI),
     Mov (Mem 16 EDX) (Reg ESI),
     Mov (Mem 12 EDX) (Reg EBX),
     Mov (Mem 0 EDX) (Reg ESP),
     Mov (Mem 4 EDX) (Reg EBP),
     Mov (Mem 8 EDX) (Reg EAX),
     Mov (Reg EAX) (Mem 0 ESP),
     Ret]"

text \<open>The call \<open>_switch(new_ctx, cur_ctx)\<close> with the return address \<open>ret\<close>: the arguments are in \<open>rdi\<close> and \<open>rsi\<close> on the 64-bit
  processor and on the stack, the last one first, on the other.\<close>

definition switch_call64 :: "u64 \<Rightarrow> u64 \<Rightarrow> u64 \<Rightarrow> (reg64, u64) cpu \<Rightarrow> (reg64, u64) cpu option" where
  "switch_call64 new_ctx cur_ctx ret c = do {
     c \<leftarrow> push RSP ret (set_reg (set_reg c RDI new_ctx) RSI cur_ctx);
     run RSP switch64 c }"

definition switch_call32 :: "u32 \<Rightarrow> u32 \<Rightarrow> u32 \<Rightarrow> (reg32, u32) cpu \<Rightarrow> (reg32, u32) cpu option" where
  "switch_call32 new_ctx cur_ctx ret c = do {
     c \<leftarrow> push ESP cur_ctx c;
     c \<leftarrow> push ESP new_ctx c;
     c \<leftarrow> push ESP ret c;
     run ESP switch32 c }"

subsection \<open>The coroutine\<close>

text \<open>\<open>ctx\<close> is the first member of \<open>nty_coroutine\<close> and follows the eight bytes of \<open>birth\<close> in \<open>nty_schedule\<close>.  The members
  \<open>esp\<close>, \<open>ebp\<close> and \<open>eip\<close> are the first three words of a context.\<close>

definition co_ctx_at :: "'w::len word \<Rightarrow> 'w word" where "co_ctx_at co = co"

definition sched_ctx_at :: "'w::len word \<Rightarrow> 'w word" where "sched_ctx_at sched = sched + 8"

text \<open>The branch of \<open>nty_coroutine_init\<close>: the words \<open>stack[-3]\<close> and \<open>stack[-2]\<close> below the top of the stack and the first
  context; \<open>exec\<close> is the address of \<open>_exec\<close>.\<close>

definition init_ctx :: "'w::len word \<Rightarrow> 'w word \<Rightarrow> 'w word \<Rightarrow> 'w word \<Rightarrow> ('r, 'w word) cpu \<Rightarrow> ('r, 'w word) cpu option" where
  "init_ctx exec co stack stack_size c = (let w = of_nat (word_bytes TYPE('w)); stack_top = stack + stack_size in do {
     c \<leftarrow> poke c (stack_top - 3 * w) 0;
     c \<leftarrow> poke c (stack_top - 2 * w) co;
     c \<leftarrow> poke c (co_ctx_at co) (stack_top - 4 * w);
     c \<leftarrow> poke c (co_ctx_at co + w) (stack_top - 3 * w);
     poke c (co_ctx_at co + 2 * w) exec })"

text \<open>The switches of \<open>nty_coroutine_yield\<close> and \<open>nty_coroutine_resume\<close>.\<close>

definition yield64 :: "u64 \<Rightarrow> u64 \<Rightarrow> u64 \<Rightarrow> (reg64, u64) cpu \<Rightarrow> (reg64, u64) cpu option" where
  "yield64 sched co ret c = switch_call64 (sched_ctx_at sched) (co_ctx_at co) ret c"

definition resume64 :: "u64 \<Rightarrow> u64 \<Rightarrow> u64 \<Rightarrow> (reg64, u64) cpu \<Rightarrow> (reg64, u64) cpu option" where
  "resume64 sched co ret c = switch_call64 (co_ctx_at co) (sched_ctx_at sched) ret c"

definition yield32 :: "u32 \<Rightarrow> u32 \<Rightarrow> u32 \<Rightarrow> (reg32, u32) cpu \<Rightarrow> (reg32, u32) cpu option" where
  "yield32 sched co ret c = switch_call32 (sched_ctx_at sched) (co_ctx_at co) ret c"

definition resume32 :: "u32 \<Rightarrow> u32 \<Rightarrow> u32 \<Rightarrow> (reg32, u32) cpu \<Rightarrow> (reg32, u32) cpu option" where
  "resume32 sched co ret c = switch_call32 (co_ctx_at co) (sched_ctx_at sched) ret c"

text \<open>\<open>nty_coroutine_madvise\<close> after a resume: the range it gives to \<open>madvise\<close>, if any, and the new \<open>last_stack_size\<close>; the
  parameter says what \<open>madvise\<close> returns.  \<open>page_size\<close> is an \<open>int\<close> that is converted to \<open>size_t\<close>.\<close>

definition nty_coroutine_madvise :: "(u64 \<Rightarrow> u64 \<Rightarrow> int) \<Rightarrow> u64 \<Rightarrow> u64 \<Rightarrow> u64 \<Rightarrow> u64 \<Rightarrow> u64 \<Rightarrow> ((u64 \<times> u64) option \<times> u64) option" where
  "nty_coroutine_madvise madvise stack stack_size last_stack_size page_size esp = do {
     let current_stack = (stack + stack_size) - esp;
     c_assert (current_stack \<le> stack_size);
     if current_stack < last_stack_size \<and> last_stack_size > page_size then do {
       let tmp = current_stack + ((- current_stack) AND (page_size - 1));
       c_assert (madvise stack (stack_size - tmp) = 0);
       Some (Some (stack, stack_size - tmp), current_stack) }
     else Some (None, current_stack) }"

subsection \<open>What a context holds\<close>

text \<open>The words of \<open>nty_cpu_ctx\<close> that the routine uses: eight of the eleven on the 64-bit processor, six on the other.\<close>

definition ctx64 :: "u64 \<Rightarrow> u64 list" where
  "ctx64 p = [p, p + 8, p + 16, p + 24, p + 32, p + 40, p + 48, p + 56]"

definition ctx32 :: "u32 \<Rightarrow> u32 list" where
  "ctx32 p = [p, p + 4, p + 8, p + 12, p + 16, p + 20]"

text \<open>A frame: where execution is, and the registers a function keeps for its caller, the stack pointer first.\<close>

type_synonym 'v cpu_frame = "'v \<times> 'v list"

definition kept64 :: "reg64 list" where "kept64 = [RSP, RBP, RBX, R12, R13, R14, R15]"

definition kept32 :: "reg32 list" where "kept32 = [ESP, EBP, EBX, ESI, EDI]"

definition frame64 :: "(reg64, u64) cpu \<Rightarrow> u64 cpu_frame" where
  "frame64 c = (ip c, map (regs c) kept64)"

definition frame32 :: "(reg32, u32) cpu \<Rightarrow> u32 cpu_frame" where
  "frame32 c = (ip c, map (regs c) kept32)"

text \<open>What the caller of \<open>_switch\<close> expects when the call returns; on the 32-bit processor its two arguments are still
  on the stack.\<close>

definition caller64 :: "(reg64, u64) cpu \<Rightarrow> u64 \<Rightarrow> u64 cpu_frame" where
  "caller64 c ret = (ret, map (regs c) kept64)"

definition caller32 :: "(reg32, u32) cpu \<Rightarrow> u32 \<Rightarrow> u32 cpu_frame" where
  "caller32 c ret = (ret, map (regs (set_reg c ESP (regs c ESP - 8))) kept32)"

text \<open>The frame a saved context stands for.\<close>

definition held64 :: "(reg64, u64) cpu \<Rightarrow> u64 \<Rightarrow> u64 cpu_frame option" where
  "held64 c p = do {
     sp \<leftarrow> load c p; bp \<leftarrow> load c (p + 8); pc \<leftarrow> load c (p + 16); bx \<leftarrow> load c (p + 24);
     r12 \<leftarrow> load c (p + 32); r13 \<leftarrow> load c (p + 40); r14 \<leftarrow> load c (p + 48); r15 \<leftarrow> load c (p + 56);
     Some (pc, [sp + 8, bp, bx, r12, r13, r14, r15]) }"

definition held32 :: "(reg32, u32) cpu \<Rightarrow> u32 \<Rightarrow> u32 cpu_frame option" where
  "held32 c p = do {
     sp \<leftarrow> load c p; bp \<leftarrow> load c (p + 4); pc \<leftarrow> load c (p + 8); bx \<leftarrow> load c (p + 12);
     si \<leftarrow> load c (p + 16); di \<leftarrow> load c (p + 20);
     Some (pc, [sp + 4, bp, bx, si, di]) }"

text \<open>The words the call itself writes on the stack of the caller.\<close>

definition args64 :: "(reg64, u64) cpu \<Rightarrow> u64 list" where
  "args64 c = [regs c RSP - 8]"

definition args32 :: "(reg32, u32) cpu \<Rightarrow> u32 list" where
  "args32 c = [regs c ESP - 4, regs c ESP - 8, regs c ESP - 12]"

text \<open>The memory a switch needs: the two contexts and the words of the call are apart, and the slot of the
  return address on the stack of the new context does not lie in the context that is being saved.\<close>

definition room64 :: "(reg64, u64) cpu \<Rightarrow> u64 \<Rightarrow> u64 \<Rightarrow> bool" where
  "room64 c new_ctx cur_ctx = (distinct (args64 c @ ctx64 new_ctx @ ctx64 cur_ctx) \<and>
     (\<forall>a \<in> set (args64 c @ ctx64 new_ctx @ ctx64 cur_ctx). load c a \<noteq> None) \<and>
     (case load c new_ctx of None \<Rightarrow> False | Some sp \<Rightarrow> load c sp \<noteq> None \<and> sp \<notin> set (ctx64 cur_ctx)))"

definition room32 :: "(reg32, u32) cpu \<Rightarrow> u32 \<Rightarrow> u32 \<Rightarrow> bool" where
  "room32 c new_ctx cur_ctx = (distinct (args32 c @ ctx32 new_ctx @ ctx32 cur_ctx) \<and>
     (\<forall>a \<in> set (args32 c @ ctx32 new_ctx @ ctx32 cur_ctx). load c a \<noteq> None) \<and>
     (case load c new_ctx of None \<Rightarrow> False | Some sp \<Rightarrow> load c sp \<noteq> None \<and> sp \<notin> set (ctx32 cur_ctx)))"

text \<open>All words a switch writes: those of the call, the context of the caller, and the slot of the return address.\<close>

definition written64 :: "(reg64, u64) cpu \<Rightarrow> u64 \<Rightarrow> u64 \<Rightarrow> u64 set" where
  "written64 c new_ctx cur_ctx = set (args64 c) \<union> set (ctx64 cur_ctx) \<union> set_option (load c new_ctx)"

definition written32 :: "(reg32, u32) cpu \<Rightarrow> u32 \<Rightarrow> u32 \<Rightarrow> u32 set" where
  "written32 c new_ctx cur_ctx = set (args32 c) \<union> set (ctx32 cur_ctx) \<union> set_option (load c new_ctx)"

subsection \<open>One switch\<close>

lemma word_bytes_simps [simp]: "word_bytes TYPE(64) = 8" "word_bytes TYPE(32) = 4"
  by (simp_all add: word_bytes_def)

lemma load_Some: "load c a = Some v \<longleftrightarrow> aligned a \<and> ram c a = Some v"
  by (auto simp: load_def)

text \<open>The instructions on a state that is written out, as rewrite rules.\<close>

lemma run_get: "aligned (g r + of_nat d) \<Longrightarrow> h (g r + of_nat d) \<noteq> None \<Longrightarrow>
    run sp (Mov (Mem d r) (Reg q) # is) \<lparr>regs = g, ram = h, ip = i\<rparr> = run sp is \<lparr>regs = g(q := the (h (g r + of_nat d))), ram = h, ip = i\<rparr>"
  by (auto simp: load_def set_reg_def)

lemma run_set: "aligned (g r + of_nat d) \<Longrightarrow> h (g r + of_nat d) \<noteq> None \<Longrightarrow>
    run sp (Mov (Reg q) (Mem d r) # is) \<lparr>regs = g, ram = h, ip = i\<rparr> = run sp is \<lparr>regs = g, ram = h(g r + of_nat d := Some (g q)), ip = i\<rparr>"
  by (auto simp: load_def poke_def)

lemma run_ret: "aligned (g sp) \<Longrightarrow> h (g sp) \<noteq> None \<Longrightarrow>
    run sp (Ret # is) \<lparr>regs = g, ram = h, ip = i :: 'w::len word\<rparr> =
      Some \<lparr>regs = g(sp := g sp + of_nat (word_bytes TYPE('w))), ram = h, ip = the (h (g sp))\<rparr>"
  by (auto simp: load_def set_reg_def)

lemmas machine_simps = switch_call64_def switch_call32_def switch64_def switch32_def push_def poke_def load_def set_reg_def Let_def
  run_get run_set run_ret

text \<open>The call of \<open>_switch\<close> goes on in the frame that the new context holds, leaves the frame of its caller in the current
  one and writes nothing else.\<close>

lemma switch64_runs:
  assumes room: "room64 c new_ctx cur_ctx"
  shows "\<exists>c'. switch_call64 new_ctx cur_ctx ret c = Some c' \<and> held64 c new_ctx = Some (frame64 c') \<and> regs c' RDI = new_ctx \<and>
    held64 c' cur_ctx = Some (caller64 c ret) \<and> (\<forall>a. a \<notin> written64 c new_ctx cur_ctx \<longrightarrow> ram c' a = ram c a)"
proof -
  obtain g h i where c: "c = \<lparr>regs = g, ram = h, ip = i\<rparr>" by (cases c) 
  obtain p n1 n2 n3 n4 n5 n6 n7 k1 k2 k3 k4 k5 k6 k7 where
    e: "g RSP - 8 = p" "new_ctx + 8 = n1" "new_ctx + 16 = n2" "new_ctx + 24 = n3" "new_ctx + 32 = n4" "new_ctx + 40 = n5"
     "new_ctx + 48 = n6" "new_ctx + 56 = n7" "cur_ctx + 8 = k1" "cur_ctx + 16 = k2" "cur_ctx + 24 = k3" "cur_ctx + 32 = k4"
     "cur_ctx + 40 = k5" "cur_ctx + 48 = k6" "cur_ctx + 56 = k7" by blast
  have top: "p + 8 = g RSP" using e(1) by auto
  have d0: "distinct (args64 c @ ctx64 new_ctx @ ctx64 cur_ctx)"
   and m0: "\<forall>a \<in> set (args64 c @ ctx64 new_ctx @ ctx64 cur_ctx). aligned a \<and> (\<exists>v. ram c a = Some v)"
   using room by (auto simp: room64_def load_Some)
  note d = d0 [unfolded args64_def ctx64_def c cpu.simps e, simplified]
  have "distinct (rev (args64 c @ ctx64 new_ctx @ ctx64 cur_ctx))" using d0 by (simp only: distinct_rev)
  note d' = this [unfolded args64_def ctx64_def c cpu.simps e, simplified]
  note m = m0 [unfolded args64_def ctx64_def c cpu.simps e, simplified]
  obtain sp s where sp: "h new_ctx = Some sp" "aligned sp" "h sp = Some s" "sp \<notin> set (ctx64 cur_ctx)"
    using room by (auto simp: room64_def c load_def split: option.splits if_splits)
  have sp': "\<forall>a \<in> set (ctx64 cur_ctx). sp \<noteq> a \<and> a \<noteq> sp" using sp(4) by auto
  note sp4 = sp' [unfolded ctx64_def e, simplified]
  obtain v0 v1 v2 v3 v4 v5 v6 v7 u0 u1 u2 u3 u4 u5 u6 u7 where v: "h p = Some v0" "h n1 = Some v1" "h n2 = Some v2" "h n3 = Some v3" "h n4 = Some v4"
    "h n5 = Some v5" "h n6 = Some v6" "h n7 = Some v7" "h cur_ctx = Some u0"
    "h k1 = Some u1" "h k2 = Some u2" "h k3 = Some u3" "h k4 = Some u4"
    "h k5 = Some u5" "h k6 = Some u6" "h k7 = Some u7" using m by blast
  let ?m = "h(p := Some ret, cur_ctx := Some p, k1 := Some (g RBP), k2 := Some ret, k3 := Some (g RBX),
     k4 := Some (g R12), k5 := Some (g R13), k6 := Some (g R14), k7 := Some (g R15), sp := Some v2)"
  have "\<exists>c'. switch_call64 new_ctx cur_ctx ret c = Some c' \<and> ip c' = v2 \<and> ram c' = ?m \<and> 
      map (regs c') kept64 = [sp + 8, v1, v3, v4, v5, v6, v7] \<and> regs c' RDI = new_ctx"
    using d d' m sp(1-3) sp4 v
    by (simp add: e c machine_simps kept64_def del: run.simps)
  then obtain c' where c': "switch_call64 new_ctx cur_ctx ret c = Some c'" "ip c' = v2" "ram c' = ?m" 
      "map (regs c') kept64 = [sp + 8, v1, v3, v4, v5, v6, v7]" "regs c' RDI = new_ctx" by (elim exE conjE)
  have "held64 c new_ctx = Some (frame64 c')"
    using m sp(1) v c'(2,4) by (simp add: held64_def load_def c e frame64_def)
  moreover have "held64 c' cur_ctx = Some (caller64 c ret)"
    using d d' m sp4 top c'(3) by (simp add: held64_def load_def c e caller64_def kept64_def)
  moreover have "\<forall>a. a \<notin> written64 c new_ctx cur_ctx \<longrightarrow> ram c' a = ram c a"
    using m sp(1) c'(3) by (simp add: written64_def args64_def ctx64_def c e load_def)
  ultimately show ?thesis using c'(1,5) by blast
qed

lemma switch32_runs:
  assumes room: "room32 c new_ctx cur_ctx"
  shows "\<exists>c'. switch_call32 new_ctx cur_ctx ret c = Some c' \<and> held32 c new_ctx = Some (frame32 c') \<and>
    held32 c' cur_ctx = Some (caller32 c ret) \<and> (\<forall>a. a \<notin> written32 c new_ctx cur_ctx \<longrightarrow> ram c' a = ram c a)"
proof -
  obtain g h i where c: "c = \<lparr>regs = g, ram = h, ip = i\<rparr>" by (cases c) 
  obtain p1 p2 p3 n1 n2 n3 n4 n5 k1 k2 k3 k4 k5 where
    e: "g ESP - 4 = p1" "g ESP - 8 = p2" "g ESP - 12 = p3" "new_ctx + 4 = n1" "new_ctx + 8 = n2" "new_ctx + 12 = n3"
     "new_ctx + 16 = n4" "new_ctx + 20 = n5" "cur_ctx + 4 = k1" "cur_ctx + 8 = k2" "cur_ctx + 12 = k3" "cur_ctx + 16 = k4"
     "cur_ctx + 20 = k5" by blast
  have top: "p1 - 4 = p2" "p2 - 4 = p3" "p3 + 4 = p2" "p3 + 8 = p1" using e(1-3) by auto
  have d0: "distinct (args32 c @ ctx32 new_ctx @ ctx32 cur_ctx)"
   and m0: "\<forall>a \<in> set (args32 c @ ctx32 new_ctx @ ctx32 cur_ctx). aligned a \<and> (\<exists>v. ram c a = Some v)"
   using room by (auto simp: room32_def load_Some)
  note d = d0 [unfolded args32_def ctx32_def c cpu.simps e, simplified]
  have "distinct (rev (args32 c @ ctx32 new_ctx @ ctx32 cur_ctx))" using d0 by (simp only: distinct_rev)
  note d' = this [unfolded args32_def ctx32_def c cpu.simps e, simplified]
  note m = m0 [unfolded args32_def ctx32_def c cpu.simps e, simplified]
  obtain sp s where sp: "h new_ctx = Some sp" "aligned sp" "h sp = Some s" "sp \<notin> set (ctx32 cur_ctx)"
    using room by (auto simp: room32_def c load_def split: option.splits if_splits)
  have sp': "\<forall>a \<in> set (ctx32 cur_ctx). sp \<noteq> a \<and> a \<noteq> sp" using sp(4) by auto
  note sp4 = sp' [unfolded ctx32_def e, simplified]
  obtain v1 v2 v3 v4 v5 where v: "h n1 = Some v1" "h n2 = Some v2" "h n3 = Some v3" "h n4 = Some v4" "h n5 = Some v5" using m by blast
  let ?m = "h(p1 := Some cur_ctx, p2 := Some new_ctx, p3 := Some ret, cur_ctx := Some p3, k1 := Some (g EBP), k2 := Some ret,
     k3 := Some (g EBX), k4 := Some (g ESI), k5 := Some (g EDI), sp := Some v2)"
  have "\<exists>c'. switch_call32 new_ctx cur_ctx ret c = Some c' \<and> ip c' = v2 \<and> ram c' = ?m \<and> 
      map (regs c') kept32 = [sp + 4, v1, v3, v4, v5]"
    using d d' m sp(1-3) sp4 v
    by (auto simp add: e top c machine_simps kept32_def simp del: run.simps)
  then obtain c' where c': "switch_call32 new_ctx cur_ctx ret c = Some c'" "ip c' = v2" "ram c' = ?m" 
      "map (regs c') kept32 = [sp + 4, v1, v3, v4, v5]" by (elim exE conjE)
  have "held32 c new_ctx = Some (frame32 c')"
    using m sp(1) v c'(2,4) by (simp add: held32_def load_def c e frame32_def)
  moreover have "held32 c' cur_ctx = Some (caller32 c ret)"
    using d d' m sp4 top c'(3) by (simp add: held32_def load_def c e caller32_def kept32_def set_reg_def)
  moreover have "\<forall>a. a \<notin> written32 c new_ctx cur_ctx \<longrightarrow> ram c' a = ram c a"
    using m sp(1) c'(3) by (simp add: written32_def args32_def ctx32_def c e load_def)
  ultimately show ?thesis using c'(1) by blast
qed

subsection \<open>Leaving and coming back\<close>

text \<open>What a switch promises, for any processor: it goes on in the frame the new context holds and keeps the frame of its
  caller in the current context; a context depends on its own words only.\<close>

locale context_switch =
  fixes switch_call :: "'v \<Rightarrow> 'v \<Rightarrow> 'v \<Rightarrow> ('r, 'v) cpu \<Rightarrow> ('r, 'v) cpu option"
    and room :: "('r, 'v) cpu \<Rightarrow> 'v \<Rightarrow> 'v \<Rightarrow> bool"
    and ctx :: "'v \<Rightarrow> 'v list"
    and held :: "('r, 'v) cpu \<Rightarrow> 'v \<Rightarrow> 'v cpu_frame option"
    and frame :: "('r, 'v) cpu \<Rightarrow> 'v cpu_frame"
    and caller :: "('r, 'v) cpu \<Rightarrow> 'v \<Rightarrow> 'v cpu_frame"
    and written :: "('r, 'v) cpu \<Rightarrow> 'v \<Rightarrow> 'v \<Rightarrow> 'v set"
  assumes switch_law: "room c new_ctx cur_ctx \<Longrightarrow> \<exists>c'. switch_call new_ctx cur_ctx ret c = Some c' \<and> held c new_ctx = Some (frame c') \<and>
      held c' cur_ctx = Some (caller c ret) \<and> (\<forall>a. a \<notin> written c new_ctx cur_ctx \<longrightarrow> ram c' a = ram c a)"
    and held_local: "(\<And>a. a \<in> set (ctx p) \<Longrightarrow> ram c' a = ram c a) \<Longrightarrow> held c' p = held c p"
begin

lemma round_trip:
  assumes "room c new_ctx cur_ctx"
  shows "\<exists>c1. switch_call new_ctx cur_ctx ret c = Some c1 \<and> held c new_ctx = Some (frame c1) \<and>
    (\<forall>c2 other ret2. (\<forall>a \<in> set (ctx cur_ctx). ram c2 a = ram c1 a) \<and> room c2 cur_ctx other \<longrightarrow>
      (\<exists>c3. switch_call cur_ctx other ret2 c2 = Some c3 \<and> frame c3 = caller c ret \<and>
        (\<forall>a. a \<notin> written c2 cur_ctx other \<longrightarrow> ram c3 a = ram c2 a)))"
proof -
  obtain c1 where c1: "switch_call new_ctx cur_ctx ret c = Some c1" "held c new_ctx = Some (frame c1)" "held c1 cur_ctx = Some (caller c ret)"
    using switch_law [OF assms] by blast
  have "\<exists>c3. switch_call cur_ctx other ret2 c2 = Some c3 \<and> frame c3 = caller c ret \<and>
      (\<forall>a. a \<notin> written c2 cur_ctx other \<longrightarrow> ram c3 a = ram c2 a)"
    if "\<forall>a \<in> set (ctx cur_ctx). ram c2 a = ram c1 a" "room c2 cur_ctx other" for c2 other ret2
  proof -
    have "held c2 cur_ctx = Some (caller c ret)" using held_local [of cur_ctx c2 c1] that(1) c1(3) by simp
    then show ?thesis using switch_law [OF that(2), of ret2] by auto
  qed
  then show ?thesis using c1 by blast
qed

end

interpretation sw64: context_switch switch_call64 room64 ctx64 held64 frame64 caller64 written64
proof
  show "\<exists>c'. switch_call64 new_ctx cur_ctx ret c = Some c' \<and> held64 c new_ctx = Some (frame64 c') \<and>
      held64 c' cur_ctx = Some (caller64 c ret) \<and> (\<forall>a. a \<notin> written64 c new_ctx cur_ctx \<longrightarrow> ram c' a = ram c a)"
    if "room64 c new_ctx cur_ctx" for c new_ctx cur_ctx ret
    using switch64_runs [OF that, of ret] by blast
  show "held64 c' p = held64 c p" if "\<And>a. a \<in> set (ctx64 p) \<Longrightarrow> ram c' a = ram c a" for c c' p
    using that by (simp add: held64_def ctx64_def load_def)
qed

interpretation sw32: context_switch switch_call32 room32 ctx32 held32 frame32 caller32 written32
proof
  show "\<exists>c'. switch_call32 new_ctx cur_ctx ret c = Some c' \<and> held32 c new_ctx = Some (frame32 c') \<and>
      held32 c' cur_ctx = Some (caller32 c ret) \<and> (\<forall>a. a \<notin> written32 c new_ctx cur_ctx \<longrightarrow> ram c' a = ram c a)"
    if "room32 c new_ctx cur_ctx" for c new_ctx cur_ctx ret
    using switch32_runs [OF that, of ret] by blast
  show "held32 c' p = held32 c p" if "\<And>a. a \<in> set (ctx32 p) \<Longrightarrow> ram c' a = ram c a" for c c' p
    using that by (simp add: held32_def ctx32_def load_def)
qed

subsection \<open>The first resume\<close>

lemma load_poke: "poke c a v = Some c' \<Longrightarrow> load c' b = (if b = a then Some v else load c b)"
  by (auto simp: poke_def load_def split: if_splits)

lemma init_ctx_done:
  assumes "init_ctx exec co stack stack_size c = Some c'" "w = of_nat (word_bytes TYPE('w))" "stack_top = stack + stack_size"
    and "distinct [stack_top - 3 * w, stack_top - 2 * w, co, co + w, co + 2 * w]"
  shows "load c' co = Some (stack_top - 4 * w)" "load c' (co + w) = Some (stack_top - 3 * w)" "load c' (co + 2 * w) = Some exec"
    "load c' (stack_top - 3 * w) = Some 0" "load c' (stack_top - 2 * w) = Some (co :: 'w::len word)"
proof -
  obtain a1 a2 a3 a4 where a: "stack_top - 3 * w = a1" "stack_top - 2 * w = a2" "co + w = a3" "co + 2 * w = a4" by blast
  obtain c1 c2 c3 c4 where "poke c a1 0 = Some c1" "poke c1 a2 co = Some c2" "poke c2 co (stack_top - 4 * w) = Some c3"
      "poke c3 a3 a1 = Some c4" "poke c4 a4 exec = Some c'"
    using assms(1) unfolding init_ctx_def Let_def co_ctx_at_def assms(2,3) [symmetric] a by (elim bind_SomeE)
  then have "load c' b = (if b = a4 then Some exec else if b = a3 then Some a1 else if b = co then Some (stack_top - 4 * w)
      else if b = a2 then Some co else if b = a1 then Some 0 else load c b)" for b
    by (simp add: load_poke)
  then show "load c' co = Some (stack_top - 4 * w)" "load c' (co + w) = Some (stack_top - 3 * w)" "load c' (co + 2 * w) = Some exec"
    "load c' (stack_top - 3 * w) = Some 0" "load c' (stack_top - 2 * w) = Some co"
    using assms(4) unfolding a by auto
qed

lemma fresh64_starts:
  assumes "init_ctx exec co stack stack_size c0 = Some c" "room64 c (co_ctx_at co) (sched_ctx_at sched)"
    and "stack_top = stack + stack_size" "distinct ([stack_top - 24, stack_top - 16] @ ctx64 co)"
    and "{stack_top - 24, stack_top - 16} \<inter> set (args64 c @ ctx64 (sched_ctx_at sched)) = {}"
  shows "\<exists>c'. resume64 sched co ret c = Some c' \<and> ip c' = exec \<and> regs c' RDI = co \<and> regs c' RSP = stack_top - 24 \<and>
    load c' (regs c' RSP) = Some 0"
proof -
  have d: "distinct [stack_top - 3 * 8, stack_top - 2 * 8, co, co + 8, co + 2 * 8]" using assms(4) by (simp add: ctx64_def)
  note i = init_ctx_done [OF assms(1) refl assms(3), simplified, OF d [simplified]]
  obtain c' where c': "resume64 sched co ret c = Some c'" "held64 c co = Some (frame64 c')" "regs c' RDI = co"
      "\<forall>a. a \<notin> written64 c co (sched_ctx_at sched) \<longrightarrow> ram c' a = ram c a"
    using switch64_runs [OF assms(2), of ret] unfolding resume64_def co_ctx_at_def by blast
  have "ip c' = exec" "regs c' RSP = stack_top - 32 + 8"
    using c'(2) i(1-3) by (auto simp: held64_def frame64_def kept64_def bind_eq_Some_conv)
  moreover have "stack_top - 24 \<notin> written64 c co (sched_ctx_at sched)" using assms(5) i(1) by (auto simp: written64_def)
  then have "load c' (stack_top - 24) = Some 0" using c'(4) i(4) by (simp add: load_Some)
  ultimately show ?thesis using c'(1,3) by simp
qed


lemma fresh32_starts:
  assumes "init_ctx exec co stack stack_size c0 = Some c" "room32 c (co_ctx_at co) (sched_ctx_at sched)"
    and "stack_top = stack + stack_size" "distinct ([stack_top - 12, stack_top - 8] @ ctx32 co)"
    and "{stack_top - 12, stack_top - 8} \<inter> set (args32 c @ ctx32 (sched_ctx_at sched)) = {}"
  shows "\<exists>c'. resume32 sched co ret c = Some c' \<and> ip c' = exec \<and> regs c' ESP = stack_top - 12 \<and>
    load c' (regs c' ESP) = Some 0 \<and> load c' (regs c' ESP + 4) = Some co"
proof -
  have d: "distinct [stack_top - 3 * 4, stack_top - 2 * 4, co, co + 4, co + 2 * 4]" using assms(4) by (simp add: ctx32_def)
  note i = init_ctx_done [OF assms(1) refl assms(3), simplified, OF d [simplified]]
  obtain c' where c': "resume32 sched co ret c = Some c'" "held32 c co = Some (frame32 c')"
      "\<forall>a. a \<notin> written32 c co (sched_ctx_at sched) \<longrightarrow> ram c' a = ram c a"
    using switch32_runs [OF assms(2), of ret] unfolding resume32_def co_ctx_at_def by blast
  have "ip c' = exec" "regs c' ESP = stack_top - 16 + 4"
    using c'(2) i(1-3) by (auto simp: held32_def frame32_def kept32_def bind_eq_Some_conv)
  moreover have "stack_top - 12 \<notin> written32 c co (sched_ctx_at sched)" "stack_top - 8 \<notin> written32 c co (sched_ctx_at sched)"
    using assms(5) i(1) by (auto simp: written32_def)
  then have "load c' (stack_top - 12) = Some 0" "load c' (stack_top - 8) = Some co" using c'(3) i(4,5) by (simp_all add: load_Some)
  ultimately show ?thesis using c'(1) by simp
qed

subsection \<open>Released pages\<close>

text \<open>The size that is kept, rounded up to pages, covers the live part of the stack and does not exceed the stack.\<close>

lemma round_up:
  assumes "take_bit k (sz :: u64) = 0" "cur \<le> sz" "k \<le> 64"
  shows "uint cur \<le> uint (cur + take_bit k (- cur))" "uint (cur + take_bit k (- cur)) \<le> uint sz"
    "take_bit k (sz - (cur + take_bit k (- cur))) = 0"
proof -
  let ?r = "(- uint cur) mod 2 ^ k"
  have r: "uint (take_bit k (- cur)) = ?r"
  proof -
    have "uint (take_bit k (- cur)) = take_bit k (uint (- cur))" by (rule unsigned_take_bit_eq)
    also have "uint (- cur) = take_bit 64 (- uint cur)" by (simp add: uint_word_arith_bintrs)
    finally show ?thesis using assms(3) by (simp add: min_absorb1 take_bit_eq_mod [of k "- uint cur"])
  qed
  have "uint sz mod 2 ^ k = 0" using assms(1) unsigned_take_bit_eq [of k sz, where ?'a = int] by (simp add: take_bit_eq_mod)
  then have "(uint sz - uint cur) mod 2 ^ k = ?r" using mod_diff_left_eq [of "uint sz" "2 ^ k" "uint cur"] by simp
  moreover have "0 \<le> uint sz - uint cur" using assms(2) by (simp add: word_le_def)
  ultimately have le: "?r \<le> uint sz - uint cur" using zmod_le_nonneg_dividend [of "uint sz - uint cur" "2 ^ k"] by simp
  have "uint cur + ?r < 2 ^ 64" using le uint_lt2p [of sz] by simp
  then have sum: "uint (cur + take_bit k (- cur)) = uint cur + ?r"
    using r by (subst uint_add_lem [THEN iffD1]) simp_all
  show "uint cur \<le> uint (cur + take_bit k (- cur))" "uint (cur + take_bit k (- cur)) \<le> uint sz" using sum le by simp_all
  have "uint (sz - (cur + take_bit k (- cur))) = uint sz - (uint cur + ?r)" using sum le by (subst uint_sub_lem [THEN iffD1]) simp_all
  moreover have "(uint sz - (uint cur + ?r)) mod 2 ^ k = 0"
  proof -
    have "(uint cur + ?r) mod 2 ^ k = 0" by (simp add: mod_add_right_eq)
    then show ?thesis using \<open>uint sz mod 2 ^ k = 0\<close> by (metis diff_self mod_0 mod_diff_eq)
  qed
  ultimately have "uint (take_bit k (sz - (cur + take_bit k (- cur)))) = 0"
    by (simp add: unsigned_take_bit_eq take_bit_eq_mod [where ?'a = int])
  then show "take_bit k (sz - (cur + take_bit k (- cur))) = 0" by (simp only: uint_0_iff)
qed


subsection \<open>Properties\<close>

text \<open>C10.  Leaving and coming back, on the 64-bit processor: \<open>_switch\<close> at a yield goes on in the frame that the scheduler
  saved; whatever runs meanwhile, other switches included, as long as it leaves the words of the saved context alone,
  the switch of the next resume returns from the yield with the stack pointer and all registers that a function
  keeps for its caller (\<open>rbp\<close>, \<open>rbx\<close>, \<open>r12\<close> to \<open>r15\<close>) as they were, and writes only the saved context of the scheduler and the
  two slots of the return addresses.\<close>

theorem yield_resume_registers:
  assumes "room64 c (sched_ctx_at sched) (co_ctx_at co)"
  shows "\<exists>c1. yield64 sched co ret c = Some c1 \<and> held64 c (sched_ctx_at sched) = Some (ip c1, map (regs c1) kept64) \<and>
    (\<forall>c2 ret2. (\<forall>a \<in> set (ctx64 (co_ctx_at co)). ram c2 a = ram c1 a) \<and> room64 c2 (co_ctx_at co) (sched_ctx_at sched) \<longrightarrow>
      (\<exists>c3. resume64 sched co ret2 c2 = Some c3 \<and> ip c3 = ret \<and> map (regs c3) kept64 = map (regs c) kept64 \<and>
        (\<forall>a. a \<notin> written64 c2 (co_ctx_at co) (sched_ctx_at sched) \<longrightarrow> ram c3 a = ram c2 a)))"
  using sw64.round_trip [OF assms, of ret]
  unfolding yield64_def resume64_def frame64_def caller64_def prod.inject by metis

text \<open>A machine with the words 0, 8, ..., 504: the scheduler at 0, a coroutine at 128, its stack below 512 and the
  stack pointer in it.\<close>

definition demo_cpu :: "(reg64, u64) cpu" where
  "demo_cpu = \<lparr>regs = (\<lambda>_. 5)(RSP := 480), ram = (\<lambda>a. if a < 512 then Some (if a = 8 then 240 else 7) else None), ip = 0\<rparr>"

lemma demo_room: "room64 demo_cpu (sched_ctx_at 0) (co_ctx_at 128)"
  by (simp add: room64_def demo_cpu_def sched_ctx_at_def co_ctx_at_def args64_def ctx64_def load_def aligned_def)

lemma demo_left: "room64 (the (yield64 0 128 77 demo_cpu)) (co_ctx_at 128) (sched_ctx_at 0)"
  by code_simp


theorem yield_resume_registers_witness:
  "\<exists>c1 c3. yield64 0 128 77 demo_cpu = Some c1 \<and> resume64 0 128 99 c1 = Some c3 \<and> ip c3 = 77 \<and> regs c3 RSP = 480 \<and> regs c3 R15 = 5"
proof -
  obtain c1 where c1: "yield64 0 128 77 demo_cpu = Some c1"
      "\<forall>c2 ret2. (\<forall>a \<in> set (ctx64 (co_ctx_at 128)). ram c2 a = ram c1 a) \<and> room64 c2 (co_ctx_at 128) (sched_ctx_at 0) \<longrightarrow>
        (\<exists>c3. resume64 0 128 ret2 c2 = Some c3 \<and> ip c3 = 77 \<and> map (regs c3) kept64 = map (regs demo_cpu) kept64)"
    using yield_resume_registers [OF demo_room, of 77] by metis
  then have "room64 c1 (co_ctx_at 128) (sched_ctx_at 0)" using demo_left by simp
  with c1(2) obtain c3 where "resume64 0 128 99 c1 = Some c3" "ip c3 = 77" "map (regs c3) kept64 = map (regs demo_cpu) kept64"
    by metis
  then show ?thesis using c1(1) by (auto simp: kept64_def demo_cpu_def)
qed

text \<open>The same on the 32-bit processor: the registers kept are \<open>ebp\<close>, \<open>ebx\<close>, \<open>esi\<close> and \<open>edi\<close>, and the stack pointer is that of
  the call with its two arguments still on the stack, as the caller expects it.\<close>

lemma yield_resume_registers_32:
  assumes "room32 c (sched_ctx_at sched) (co_ctx_at co)"
  shows "\<exists>c1. yield32 sched co ret c = Some c1 \<and> held32 c (sched_ctx_at sched) = Some (frame32 c1) \<and>
    (\<forall>c2 ret2. (\<forall>a \<in> set (ctx32 (co_ctx_at co)). ram c2 a = ram c1 a) \<and> room32 c2 (co_ctx_at co) (sched_ctx_at sched) \<longrightarrow>
      (\<exists>c3. resume32 sched co ret2 c2 = Some c3 \<and> frame32 c3 = caller32 c ret \<and>
        (\<forall>a. a \<notin> written32 c2 (co_ctx_at co) (sched_ctx_at sched) \<longrightarrow> ram c3 a = ram c2 a)))"
  using sw32.round_trip [OF assms, of ret] unfolding yield32_def resume32_def by metis

text \<open>C19.  The first resume of a coroutine, on the 64-bit processor: from the context that \<open>nty_coroutine_init\<close> lays out,
  \<open>_switch\<close> goes on at \<open>_exec\<close> with a zero as return address.  The argument register holds the coroutine, because the new
  context, whose address \<open>rdi\<close> still is, is the first member of it; and the stack is aligned to 16 bytes as the calling
  convention asks, when its top is.\<close>

theorem first_resume_enters_exec:
  assumes "init_ctx exec co stack stack_size c0 = Some c" "room64 c (co_ctx_at co) (sched_ctx_at sched)"
    and "stack_top = stack + stack_size" "distinct ([stack_top - 24, stack_top - 16] @ ctx64 co)"
    and "{stack_top - 24, stack_top - 16} \<inter> set (args64 c @ ctx64 (sched_ctx_at sched)) = {}" "16 dvd uint stack_top"
  shows "\<exists>c'. resume64 sched co ret c = Some c' \<and> ip c' = exec \<and> regs c' RDI = co \<and> load c' (regs c' RSP) = Some 0 \<and>
      16 dvd uint (regs c' RSP + 8)"
proof -
  have "uint (stack_top - 16) = (uint stack_top - 16) mod 2 ^ 64" by (simp add: uint_word_ariths)
  moreover have "16 dvd uint stack_top - 16" using assms(6) by simp
  ultimately have "16 dvd uint (stack_top - 16)" by (simp add: dvd_mod)
  then show ?thesis using fresh64_starts [OF assms(1-5), of ret] by auto
qed

text \<open>A coroutine at 128 with the stack from 256 to 512; the scheduler has its stack pointer at 240.\<close>

definition fresh_cpu :: "(reg64, u64) cpu option" where
  "fresh_cpu = init_ctx 4096 128 256 256 (set_reg demo_cpu RSP 240)"

lemma fresh_room: "fresh_cpu \<noteq> None" "room64 (the fresh_cpu) (co_ctx_at 128) (sched_ctx_at 0)" "args64 (the fresh_cpu) = [232]"
  by code_simp+

theorem first_resume_enters_exec_witness:
  "\<exists>c c'. fresh_cpu = Some c \<and> resume64 0 128 99 c = Some c' \<and> ip c' = 4096 \<and> regs c' RDI = 128"
proof -
  obtain c where c: "fresh_cpu = Some c" using fresh_room(1) by blast
  then have "room64 c (co_ctx_at 128) (sched_ctx_at 0)" "args64 c = [232]" using fresh_room(2,3) by (metis option.sel)+
  with c show ?thesis
    using first_resume_enters_exec [of 4096 128 256 256 "set_reg demo_cpu RSP 240" c 0 512 99]
    by (auto simp: fresh_cpu_def ctx64_def sched_ctx_at_def)
qed

text \<open>The release of stack pages (\<open>nty_coroutine_madvise\<close>): for a stack pointer inside the stack and a stack of whole pages,
  the assertion holds and only whole pages that lie below the stack pointer are given back: no live word of the stack is lost.\<close>

lemma madvise_below_stack_pointer:
  assumes "\<And>a n. madvise a n = 0" "page_size = 2 ^ k" "k < 64" "take_bit k stack_size = 0"
    and "uint stack + uint stack_size < 2 ^ 64" "stack \<le> esp" "esp \<le> stack + stack_size"
  shows "\<exists>r. nty_coroutine_madvise madvise stack stack_size last_stack_size page_size esp = Some (r, stack + stack_size - esp) \<and>
    (\<forall>a n. r = Some (a, n) \<longrightarrow> a = stack \<and> uint stack + uint n \<le> uint esp \<and> take_bit k n = 0)"
proof -
  define cur where "cur = stack + stack_size - esp"
  have top: "uint (stack + stack_size) = uint stack + uint stack_size" using assms(5) by (subst uint_add_lem [THEN iffD1]) simp_all
  have size: "uint cur = uint stack + uint stack_size - uint esp"
    unfolding cur_def using assms(7) top by (subst uint_sub_lem [THEN iffD1]) (simp_all add: word_le_def)
  then have le: "cur \<le> stack_size" using assms(6) by (simp add: word_le_def)
  have mask: "(- cur) AND (page_size - 1) = take_bit k (- cur)" using assms(2) by (simp add: take_bit_eq_mask mask_eq_exp_minus_1)
  note r = round_up [OF assms(4) le less_imp_le [OF assms(3)]]
  have "uint (stack_size - (cur + take_bit k (- cur))) = uint stack_size - uint (cur + take_bit k (- cur))"
    using r(2) by (subst uint_sub_lem [THEN iffD1]) simp_all
  then have "uint stack + uint (stack_size - (cur + take_bit k (- cur))) \<le> uint esp" using r(1) size by simp
  then show ?thesis using le r(3) assms(1) 
    by (simp add: nty_coroutine_madvise_def Let_def cur_def [symmetric] mask)
qed

end
