(* ===== verification/World.thy ===== *)
theory World
  imports Ordered_Set Linked_Lists
begin

unbundle bit_operations_syntax

text \<open>
  The data of \<open>nty_coroutine.h\<close>: the status bits, the coroutine and the scheduler structures, and the
  memory of one thread that uses the library.

  Field maps.  The scalar fields of a coroutine are a record; its intrusive nodes (\<open>sleep_node\<close>,
  \<open>wait_node\<close>, \<open>ready_next\<close>, \<open>defer_next\<close>, \<open>busy_next\<close>) live in the tree and queue memories of
  \<open>RB_Heap\<close> and \<open>Queue_Heap\<close>.  Allocating a coroutine adds its address to all of them, freeing it
  removes it from all of them, so that a use after free is a fault.  The fields no function of the
  library reads or writes (\<open>data\<close>, \<open>funcname\<close>, \<open>co_join\<close>, \<open>co_exit_ptr\<close>, \<open>ebp\<close>, \<open>io\<close>, \<open>compute_sched\<close>,
  \<open>ready_fds\<close>, \<open>pfds\<close>, \<open>nfds\<close>, and \<open>last_stack_size\<close> of the build without ucontext) are left out.

  The kernel and the C library's allocator are parameters: a record of functions over an abstract
  state.  Coroutine bodies are computations that may yield: the resumption type \<open>comp\<close>.
\<close>

subsection \<open>Status bits\<close>

datatype nty_coroutine_status =
    NTY_COROUTINE_STATUS_WAIT_READ
  | NTY_COROUTINE_STATUS_WAIT_WRITE
  | NTY_COROUTINE_STATUS_NEW
  | NTY_COROUTINE_STATUS_READY
  | NTY_COROUTINE_STATUS_EXITED
  | NTY_COROUTINE_STATUS_BUSY
  | NTY_COROUTINE_STATUS_SLEEPING
  | NTY_COROUTINE_STATUS_EXPIRED
  | NTY_COROUTINE_STATUS_FDEOF
  | NTY_COROUTINE_STATUS_DETACH
  | NTY_COROUTINE_STATUS_CANCELLED
  | NTY_COROUTINE_STATUS_PENDING_RUNCOMPUTE
  | NTY_COROUTINE_STATUS_RUNCOMPUTE
  | NTY_COROUTINE_STATUS_WAIT_IO_READ
  | NTY_COROUTINE_STATUS_WAIT_IO_WRITE
  | NTY_COROUTINE_STATUS_WAIT_MULTI

text \<open>The value of the enumerator.\<close>

primrec status_code :: "nty_coroutine_status \<Rightarrow> nat" where
  "status_code NTY_COROUTINE_STATUS_WAIT_READ = 0"
| "status_code NTY_COROUTINE_STATUS_WAIT_WRITE = 1"
| "status_code NTY_COROUTINE_STATUS_NEW = 2"
| "status_code NTY_COROUTINE_STATUS_READY = 3"
| "status_code NTY_COROUTINE_STATUS_EXITED = 4"
| "status_code NTY_COROUTINE_STATUS_BUSY = 5"
| "status_code NTY_COROUTINE_STATUS_SLEEPING = 6"
| "status_code NTY_COROUTINE_STATUS_EXPIRED = 7"
| "status_code NTY_COROUTINE_STATUS_FDEOF = 8"
| "status_code NTY_COROUTINE_STATUS_DETACH = 9"
| "status_code NTY_COROUTINE_STATUS_CANCELLED = 10"
| "status_code NTY_COROUTINE_STATUS_PENDING_RUNCOMPUTE = 11"
| "status_code NTY_COROUTINE_STATUS_RUNCOMPUTE = 12"
| "status_code NTY_COROUTINE_STATUS_WAIT_IO_READ = 13"
| "status_code NTY_COROUTINE_STATUS_WAIT_IO_WRITE = 14"
| "status_code NTY_COROUTINE_STATUS_WAIT_MULTI = 15"

definition BIT :: "nty_coroutine_status \<Rightarrow> u32" where
  "BIT s = push_bit (status_code s) 1"

definition CLEARBIT :: "nty_coroutine_status \<Rightarrow> u32" where
  "CLEARBIT s = NOT (push_bit (status_code s) 1)"

text \<open>The test \<open>status & BIT(s)\<close> of the conditions.\<close>

definition has :: "u32 \<Rightarrow> nty_coroutine_status \<Rightarrow> bool" where
  "has st s = (st AND BIT s \<noteq> 0)"

lemma status_code_less: "status_code s < 32"
  by (cases s) simp_all

lemma status_code_inj [simp]: "status_code s = status_code s' \<longleftrightarrow> s = s'"
  by (cases s; cases s'; simp)

lemma bit_BIT [simp]: "bit (BIT s) n \<longleftrightarrow> n = status_code s"
  using status_code_less [of s] by (auto simp: BIT_def bit_simps)

lemma has_bit: "has st s \<longleftrightarrow> bit st (status_code s)"
proof
  assume "has st s"
  then obtain n where "bit (st AND BIT s) n" unfolding has_def by (auto simp: bit_eq_iff)
  then show "bit st (status_code s)" by (auto simp: bit_and_iff)
next
  assume "bit st (status_code s)"
  then have "bit (st AND BIT s) (status_code s)" by (simp add: bit_and_iff)
  then show "has st s" unfolding has_def by (metis bit_0_eq bot_apply bot_bool_def)
qed

lemma has_simps [simp]:
  "has 0 s = False"
  "has (BIT s') s = (s = s')"
  "has (st OR st') s = (has st s \<or> has st' s)"
  "has (st AND st') s = (has st s \<and> has st' s)"
  "has (CLEARBIT s') s = (s \<noteq> s')"
  using status_code_less [of s]
  by (auto simp: has_bit bit_or_iff bit_and_iff CLEARBIT_def bit_not_iff bit_simps)

subsection \<open>Structures\<close>

definition NTY_CO_MAX_EVENTS :: int where
  "NTY_CO_MAX_EVENTS = 1024 * 1024"

definition NTY_CO_MAX_STACKSIZE :: nat where
  "NTY_CO_MAX_STACKSIZE = 128 * 1024"

record nty_coroutine =
  co_ctx :: nat
  co_func :: nat
  co_arg :: nat
  co_stack :: "u8 list option"
  co_stack_size :: nat
  co_status :: u32
  co_birth :: u64
  co_id :: u64
  co_fd :: int
  co_events :: u16
  co_ops :: u32
  co_sleep_usecs :: u64

record nty_schedule =
  sc_birth :: u64
  sc_stack :: "u8 list option"
  sc_stack_size :: nat
  sc_spawned_coroutines :: u32
  sc_default_timeout :: u64
  sc_curr_thread :: ptr
  sc_page_size :: int
  sc_poller_fd :: int
  sc_eventfd :: int
  sc_eventlist :: "(int \<times> u32) list"
  sc_nevents :: int
  sc_num_new_events :: int

text \<open>What \<open>calloc\<close> leaves in a coroutine.\<close>

definition zero_co :: nty_coroutine where
  "zero_co = \<lparr>co_ctx = 0, co_func = 0, co_arg = 0, co_stack = None, co_stack_size = 0, co_status = 0,
     co_birth = 0, co_id = 0, co_fd = 0, co_events = 0, co_ops = 0, co_sleep_usecs = 0\<rparr>"

definition zero_sched :: nty_schedule where
  "zero_sched = \<lparr>sc_birth = 0, sc_stack = None, sc_stack_size = 0, sc_spawned_coroutines = 0,
     sc_default_timeout = 0, sc_curr_thread = NULL, sc_page_size = 0, sc_poller_fd = 0, sc_eventfd = 0,
     sc_eventlist = [], sc_nevents = 0, sc_num_new_events = 0\<rparr>"

text \<open>The operations of an \<open>epoll\<close> instance.\<close>

datatype epoll_op = EPOLL_CTL_ADD | EPOLL_CTL_DEL | EPOLL_CTL_MOD

text \<open>The kernel and the allocator.  A call that can fail returns its result and the \<open>errno\<close> it leaves.\<close>

record 'k kernel =
  k_gettimeofday :: "'k \<Rightarrow> (u64 \<times> u64) \<times> 'k"
  k_calloc_co :: "'k \<Rightarrow> ptr \<times> 'k"
  k_calloc_sched :: "'k \<Rightarrow> bool \<times> 'k"
  k_realloc :: "'k \<Rightarrow> nat \<Rightarrow> bool \<times> 'k"
  k_memalign :: "'k \<Rightarrow> nat \<Rightarrow> u8 list option \<times> 'k"
  k_pagesize :: int
  k_epoll_create :: "'k \<Rightarrow> int \<Rightarrow> int \<times> int \<times> 'k"
  k_eventfd :: "'k \<Rightarrow> int \<times> int \<times> 'k"
  k_epoll_ctl :: "'k \<Rightarrow> int \<Rightarrow> epoll_op \<Rightarrow> int \<Rightarrow> u32 \<Rightarrow> int \<times> int \<times> 'k"
  k_epoll_wait :: "'k \<Rightarrow> int \<Rightarrow> int \<Rightarrow> int \<Rightarrow> int \<times> (int \<times> u32) list \<times> int \<times> 'k"
  k_poll :: "'k \<Rightarrow> (int \<times> u16) list \<Rightarrow> int \<Rightarrow> int \<times> int \<times> 'k"
  k_socket :: "'k \<Rightarrow> int \<Rightarrow> int \<Rightarrow> int \<Rightarrow> int \<times> int \<times> 'k"
  k_setnonblock :: "'k \<Rightarrow> int \<Rightarrow> int \<times> int \<times> 'k"
  k_setreuse :: "'k \<Rightarrow> int \<Rightarrow> int \<times> int \<times> 'k"
  k_accept :: "'k \<Rightarrow> int \<Rightarrow> int \<times> int \<times> 'k"
  k_connect :: "'k \<Rightarrow> int \<Rightarrow> int \<Rightarrow> int \<times> int \<times> 'k"
  k_read :: "'k \<Rightarrow> int \<Rightarrow> nat \<Rightarrow> int \<times> u8 list \<times> int \<times> 'k"
  k_recv :: "'k \<Rightarrow> int \<Rightarrow> nat \<Rightarrow> int \<Rightarrow> int \<times> u8 list \<times> int \<times> 'k"
  k_recvfrom :: "'k \<Rightarrow> int \<Rightarrow> nat \<Rightarrow> int \<Rightarrow> int \<times> u8 list \<times> int \<times> 'k"
  k_write :: "'k \<Rightarrow> int \<Rightarrow> u8 list \<Rightarrow> int \<times> int \<times> 'k"
  k_send :: "'k \<Rightarrow> int \<Rightarrow> u8 list \<Rightarrow> int \<Rightarrow> int \<times> int \<times> 'k"
  k_sendto :: "'k \<Rightarrow> int \<Rightarrow> u8 list \<Rightarrow> int \<Rightarrow> int \<Rightarrow> int \<times> int \<times> 'k"
  k_close :: "'k \<Rightarrow> int \<Rightarrow> int \<times> int \<times> 'k"

text \<open>The memory of a thread.  \<open>sched\<close> is the value of \<open>pthread_getspecific(global_sched_key)\<close>; a
  thread has one scheduler, and \<open>co->sched\<close> of its coroutines is that one.  \<open>sp\<close> is the stack pointer as
  an offset into the scheduler's stack.  \<open>hooks\<close> says whether \<open>init_hook\<close> has set the pointers to the
  system's own socket functions.\<close>

record 'k world =
  cos :: "addr \<Rightarrow> nty_coroutine option"
  sched :: "nty_schedule option"
  sleeping :: rb_tree
  waiting :: rb_tree
  ready :: qheap
  defer_q :: qheap
  busy :: qheap
  sp :: nat
  errno :: int
  hooks :: bool
  kern :: 'k

text \<open>The heads of the queues of the scheduler.\<close>

abbreviation ready_head :: loc where "ready_head \<equiv> Head 0"
abbreviation defer_head :: loc where "defer_head \<equiv> Head 0"
abbreviation busy_head :: loc where "busy_head \<equiv> Head 0"

definition get_co :: "'k world \<Rightarrow> ptr \<Rightarrow> nty_coroutine option" where
  "get_co w p = deref (cos w) p"

definition upd_co :: "'k world \<Rightarrow> ptr \<Rightarrow> (nty_coroutine \<Rightarrow> nty_coroutine) \<Rightarrow> 'k world option" where
  "upd_co w p f = do { m \<leftarrow> store (cos w) p f; Some (w\<lparr>cos := m\<rparr>) }"

definition upd_sched :: "'k world \<Rightarrow> (nty_schedule \<Rightarrow> nty_schedule) \<Rightarrow> 'k world option" where
  "upd_sched w f = do { s \<leftarrow> sched w; Some (w\<lparr>sched := Some (f s)\<rparr>) }"

lemma get_co_Some [simp]: "get_co w (Some a) = cos w a" "get_co w None = None"
  by (simp_all add: get_co_def)

lemma upd_co_Some [simp]:
  "cos w a = Some c \<Longrightarrow> upd_co w (Some a) f = Some (w\<lparr>cos := (cos w)(a := Some (f c))\<rparr>)"
  "upd_co w None f = None"
  by (simp_all add: upd_co_def)

lemma upd_sched_Some [simp]: "sched w = Some s \<Longrightarrow> upd_sched w f = Some (w\<lparr>sched := Some (f s)\<rparr>)"
  by (simp add: upd_sched_def)

text \<open>\<open>nty_coroutine_get_sched\<close>, \<open>nty_coroutine_diff_usecs\<close>, \<open>nty_coroutine_usec_now\<close>: 64-bit
  arithmetic that wraps.\<close>

definition nty_coroutine_get_sched :: "'k world \<Rightarrow> nty_schedule option" where
  "nty_coroutine_get_sched w = sched w"

definition nty_coroutine_diff_usecs :: "u64 \<Rightarrow> u64 \<Rightarrow> u64" where
  "nty_coroutine_diff_usecs t1 t2 = t2 - t1"

definition nty_coroutine_usec_now :: "'k kernel \<Rightarrow> 'k world \<Rightarrow> u64 \<times> 'k world" where
  "nty_coroutine_usec_now K w = (case k_gettimeofday K (kern w) of
     ((tv_sec, tv_usec), k) \<Rightarrow> (tv_sec * 1000000 + tv_usec, w\<lparr>kern := k\<rparr>))"

text \<open>Adding a coroutine to the field maps, with the zeroes of \<open>calloc\<close>, and removing it.\<close>

definition zero_rb :: rb_entry where
  "zero_rb = \<lparr>rbe_left = NULL, rbe_right = NULL, rbe_parent = NULL, rbe_color = RB_BLACK\<rparr>"

definition rb_alloc :: "rb_tree \<Rightarrow> addr \<Rightarrow> rb_entry option \<Rightarrow> rb_tree" where
  "rb_alloc h a e = h\<lparr>rb_node := (rb_node h)(a := e)\<rparr>"

definition q_alloc :: "qheap \<Rightarrow> loc \<Rightarrow> bool \<Rightarrow> qheap" where
  "q_alloc h l b = h\<lparr>slot := (slot h)(l := (if b then Some NULL else None)),
     pslot := (pslot h)(l := (if b then Some None else None))\<rparr>"

definition calloc_co :: "'k world \<Rightarrow> addr \<Rightarrow> 'k world" where
  "calloc_co w a = w\<lparr>cos := (cos w)(a := Some zero_co),
     sleeping := rb_alloc (sleeping w) a (Some zero_rb),
     waiting := rb_alloc (waiting w) a (Some zero_rb),
     ready := q_alloc (ready w) (Next a) True,
     defer_q := q_alloc (defer_q w) (Next a) True,
     busy := q_alloc (busy w) (Next a) True\<rparr>"

definition free_co :: "'k world \<Rightarrow> addr \<Rightarrow> 'k world" where
  "free_co w a = w\<lparr>cos := (cos w)(a := None),
     sleeping := rb_alloc (sleeping w) a None,
     waiting := rb_alloc (waiting w) a None,
     ready := q_alloc (ready w) (Next a) False,
     defer_q := q_alloc (defer_q w) (Next a) False,
     busy := q_alloc (busy w) (Next a) False\<rparr>"

subsection \<open>Computations that yield\<close>

text \<open>A computation faults, runs out of the fuel given to its loops, returns, or yields: it hands the
  memory to the scheduler together with what is left of it, a function of the memory it is resumed
  with.  The function is the saved context of \<open>swapcontext\<close>.\<close>

datatype ('w, 'a) comp =
    Fault
  | Out_of_fuel
  | Ret 'a 'w
  | Yield 'w "'w \<Rightarrow> ('w, 'a) comp"

primrec comp_bind :: "('w, 'a) comp \<Rightarrow> ('a \<Rightarrow> 'w \<Rightarrow> ('w, 'b) comp) \<Rightarrow> ('w, 'b) comp" where
  "comp_bind Fault f = Fault"
| "comp_bind Out_of_fuel f = Out_of_fuel"
| "comp_bind (Ret x w) f = f x w"
| "comp_bind (Yield w k) f = Yield w (\<lambda>w'. comp_bind (k w') f)"

definition lift_opt :: "'w option \<Rightarrow> ('w, unit) comp" where
  "lift_opt m = (case m of None \<Rightarrow> Fault | Some w \<Rightarrow> Ret () w)"

definition lift_res :: "('a \<times> 'w) option \<Rightarrow> ('w, 'a) comp" where
  "lift_res m = (case m of None \<Rightarrow> Fault | Some (x, w) \<Rightarrow> Ret x w)"

lemma lift_simps [simp]:
  "lift_opt None = Fault" "lift_opt (Some w) = Ret () w"
  "lift_res None = Fault" "lift_res (Some (x, w)) = Ret x w"
  by (simp_all add: lift_opt_def lift_res_def)

lemma comp_bind_assoc: "comp_bind (comp_bind m f) g = comp_bind m (\<lambda>x w. comp_bind (f x w) g)"
  by (induction m) auto

lemma comp_bind_Ret [simp]: "comp_bind m Ret = m"
  by (induction m) auto

subsection \<open>A concrete memory\<close>

text \<open>The input of the witnesses: a kernel that never fails, whose clock counts its own readings and whose
  allocator hands out the addresses from 10 on, and a thread with a scheduler, one coroutine (address 1),
  empty trees and queues.\<close>

definition demo_kernel :: "nat kernel" where
  "demo_kernel = \<lparr>k_gettimeofday = (\<lambda>k. ((0, of_nat k), k + 1)), k_calloc_co = (\<lambda>k. (Some (k + 10), k + 1)),
     k_calloc_sched = (\<lambda>k. (True, k)), k_realloc = (\<lambda>k n. (True, k)),
     k_memalign = (\<lambda>k n. (Some (replicate n 0), k)), k_pagesize = 4096,
     k_epoll_create = (\<lambda>k n. (3, 0, k)), k_eventfd = (\<lambda>k. (4, 0, k)),
     k_epoll_ctl = (\<lambda>k ep oper fd ev. (0, 0, k)), k_epoll_wait = (\<lambda>k ep n ms. (0, [], 0, k)),
     k_poll = (\<lambda>k fds t. (0, 0, k)), k_socket = (\<lambda>k d t p. (5, 0, k)), k_setnonblock = (\<lambda>k fd. (0, 0, k)),
     k_setreuse = (\<lambda>k fd. (0, 0, k)), k_accept = (\<lambda>k fd. (6, 0, k)), k_connect = (\<lambda>k fd a. (0, 0, k)),
     k_read = (\<lambda>k fd n. (0, [], 0, k)), k_recv = (\<lambda>k fd n f. (0, [], 0, k)),
     k_recvfrom = (\<lambda>k fd n f. (0, [], 0, k)), k_write = (\<lambda>k fd bs. (int (length bs), 0, k)),
     k_send = (\<lambda>k fd bs f. (int (length bs), 0, k)), k_sendto = (\<lambda>k fd bs f a. (int (length bs), 0, k)),
     k_close = (\<lambda>k fd. (0, 0, k))\<rparr>"

definition demo_co :: nty_coroutine where
  "demo_co = zero_co\<lparr>co_fd := -1, co_status := BIT NTY_COROUTINE_STATUS_NEW\<rparr>"

definition demo_sched :: nty_schedule where
  "demo_sched = zero_sched\<lparr>sc_stack := Some [1, 2, 3, 4], sc_stack_size := 4, sc_default_timeout := 3000000,
     sc_curr_thread := Some 1, sc_spawned_coroutines := 1, sc_poller_fd := 3, sc_eventfd := 4\<rparr>"

definition demo_nodes :: rb_tree where
  "demo_nodes = \<lparr>rbh_root = NULL, rb_node = [1 \<mapsto> zero_rb]\<rparr>"

definition demo_links :: qheap where
  "demo_links = \<lparr>slot = [Head 0 \<mapsto> NULL, Next 1 \<mapsto> NULL], pslot = [Head 0 \<mapsto> Some (Head 0), Next 1 \<mapsto> None]\<rparr>"

definition demo_world :: "nat world" where
  "demo_world = \<lparr>cos = [1 \<mapsto> demo_co], sched = Some demo_sched, sleeping = demo_nodes, waiting = demo_nodes,
     ready = demo_links, defer_q = demo_links, busy = demo_links, sp = 2, errno = 0, hooks = True, kern = 0\<rparr>"

lemma demo_memory:
  "rb_holds demo_nodes []" "allocated demo_nodes = (\<lambda>a. a = 1)" "tailq demo_links (Head 0) []"
  "entry demo_links = (\<lambda>a. a = 1)" "dlist demo_links (Head 0) []"
  "cos demo_world = [1 \<mapsto> demo_co]" "sched demo_world = Some demo_sched"
proof -
  show "rb_holds demo_nodes []"
    by (auto simp: rb_holds_def demo_nodes_def rep_def is_rbt_def intro!: exI [of _ Leaf])
qed (auto simp: allocated_def demo_nodes_def tailq_def demo_links_def entry_def dlist_defs demo_world_def fun_eq_iff)

end
