(* ===== verification/Timers.thy ===== *)
theory Timers
  imports World
begin

text \<open>
  The sleep tree and the wait tree of \<open>nty_schedule.c\<close>: the two comparison functions, putting a
  coroutine to sleep and waking it, arming and disarming the wait for a descriptor, the expiry test
  and the computation of the next timeout.  The two \<open>RB_GENERATE\<close> instances are the red-black trees of
  \<open>RB_Heap\<close> over these comparison functions; their proofs go through the contract of \<open>Ordered_Set\<close>.
\<close>

definition nty_coroutine_sleep_cmp :: "nty_coroutine \<Rightarrow> nty_coroutine \<Rightarrow> int" where
  "nty_coroutine_sleep_cmp co1 co2 =
     (if co_sleep_usecs co1 < co_sleep_usecs co2 then -1
      else if co_sleep_usecs co1 = co_sleep_usecs co2 then 0
      else 1)"

definition nty_coroutine_wait_cmp :: "nty_coroutine \<Rightarrow> nty_coroutine \<Rightarrow> int" where
  "nty_coroutine_wait_cmp co1 co2 =
     (if co_fd co1 < co_fd co2 then -1 else if co_fd co1 = co_fd co2 then 0 else 1)"

text \<open>The comparison of a given coroutine with the one at an address, as the tree macros call it.\<close>

definition sleep_cmp :: "'k world \<Rightarrow> nty_coroutine \<Rightarrow> addr \<Rightarrow> int option" where
  "sleep_cmp w c = (\<lambda>a. map_option (nty_coroutine_sleep_cmp c) (cos w a))"

definition wait_cmp :: "'k world \<Rightarrow> nty_coroutine \<Rightarrow> addr \<Rightarrow> int option" where
  "wait_cmp w c = (\<lambda>a. map_option (nty_coroutine_wait_cmp c) (cos w a))"

text \<open>The loop \<open>while (msecs)\<close> of \<open>nty_schedule_sched_sleepdown\<close>: insert, and count \<open>sleep_usecs\<close> up while
  another coroutine has the same wake-up time.\<close>

partial_function (option) sleepdown_insert :: "'k world \<Rightarrow> ptr \<Rightarrow> 'k world option" where
  "sleepdown_insert w co = do {
     c \<leftarrow> get_co w co;
     (t, co_tmp) \<leftarrow> RB_INSERT (sleep_cmp w c) (sleeping w) co;
     let w = w\<lparr>sleeping := t\<rparr>;
     if co_tmp \<noteq> NULL then do {
       w \<leftarrow> upd_co w co (\<lambda>c. c\<lparr>co_sleep_usecs := co_sleep_usecs c + 1\<rparr>);
       sleepdown_insert w co
     } else upd_co w co (\<lambda>c. c\<lparr>co_status := co_status c OR BIT NTY_COROUTINE_STATUS_SLEEPING\<rparr>)
   }"

definition nty_schedule_sched_sleepdown ::
  "'k kernel \<Rightarrow> 'k world \<Rightarrow> ptr \<Rightarrow> u64 \<Rightarrow> 'k world option" where
  "nty_schedule_sched_sleepdown K w co msecs = do {
     let usecs = msecs * 1000;
     c \<leftarrow> get_co w co;
     s \<leftarrow> sched w;
     co_tmp \<leftarrow> RB_FIND (sleep_cmp w c) (sleeping w);
     w \<leftarrow> (if co_tmp \<noteq> NULL then do {
              (t, _) \<leftarrow> RB_REMOVE (sleeping w) co_tmp;
              Some (w\<lparr>sleeping := t\<rparr>) }
            else Some w);
     let (now, w) = nty_coroutine_usec_now K w;
     w \<leftarrow> upd_co w co (\<lambda>c. c\<lparr>co_sleep_usecs := nty_coroutine_diff_usecs (sc_birth s) now + usecs\<rparr>);
     if msecs \<noteq> 0 then sleepdown_insert w co else Some w
   }"

definition nty_schedule_desched_sleepdown :: "'k world \<Rightarrow> ptr \<Rightarrow> 'k world option" where
  "nty_schedule_desched_sleepdown w co = do {
     c \<leftarrow> get_co w co;
     if has (co_status c) NTY_COROUTINE_STATUS_SLEEPING then do {
       _ \<leftarrow> sched w;
       (t, _) \<leftarrow> RB_REMOVE (sleeping w) co;
       upd_co (w\<lparr>sleeping := t\<rparr>) co (\<lambda>c. c\<lparr>co_status :=
         (co_status c AND CLEARBIT NTY_COROUTINE_STATUS_SLEEPING
           OR BIT NTY_COROUTINE_STATUS_READY) AND CLEARBIT NTY_COROUTINE_STATUS_EXPIRED\<rparr>)
     } else Some w
   }"

definition nty_schedule_search_wait :: "'k world \<Rightarrow> int \<Rightarrow> (ptr \<times> 'k world) option" where
  "nty_schedule_search_wait w fd = do {
     let find_it = zero_co\<lparr>co_fd := fd\<rparr>;
     _ \<leftarrow> sched w;
     co \<leftarrow> RB_FIND (wait_cmp w find_it) (waiting w);
     w \<leftarrow> upd_co w co (\<lambda>c. c\<lparr>co_status := 0\<rparr>);
     Some (co, w)
   }"

definition nty_schedule_desched_wait :: "'k world \<Rightarrow> int \<Rightarrow> (ptr \<times> 'k world) option" where
  "nty_schedule_desched_wait w fd = do {
     let find_it = zero_co\<lparr>co_fd := fd\<rparr>;
     _ \<leftarrow> sched w;
     co \<leftarrow> RB_FIND (wait_cmp w find_it) (waiting w);
     w \<leftarrow> (if co \<noteq> NULL then do {
              (t, _) \<leftarrow> RB_REMOVE (waiting w) co;
              Some (w\<lparr>waiting := t\<rparr>) }
            else Some w);
     w \<leftarrow> upd_co w co (\<lambda>c. c\<lparr>co_status := 0\<rparr>);
     w \<leftarrow> nty_schedule_desched_sleepdown w co;
     Some (co, w)
   }"

text \<open>\<open>POLLIN\<close> and \<open>POLLOUT\<close> of \<open>poll.h\<close>.\<close>

definition POLLIN :: u16 where "POLLIN = 1"
definition POLLOUT :: u16 where "POLLOUT = 4"

text \<open>The two assignments \<open>status |= NTY_COROUTINE_STATUS_WAIT_READ\<close> and \<open>... WAIT_WRITE\<close> take the value of
  the enumerator, not its bit.\<close>

definition nty_schedule_sched_wait ::
  "'k kernel \<Rightarrow> 'k world \<Rightarrow> ptr \<Rightarrow> int \<Rightarrow> u16 \<Rightarrow> u64 \<Rightarrow> 'k world option" where
  "nty_schedule_sched_wait K w co fd events timeout = do {
     c \<leftarrow> get_co w co;
     c_assert (\<not> (has (co_status c) NTY_COROUTINE_STATUS_WAIT_READ \<or>
                   has (co_status c) NTY_COROUTINE_STATUS_WAIT_WRITE));
     w \<leftarrow> (if events AND POLLIN \<noteq> 0 then
              upd_co w co (\<lambda>c. c\<lparr>co_status :=
                co_status c OR of_nat (status_code NTY_COROUTINE_STATUS_WAIT_READ)\<rparr>)
            else if events AND POLLOUT \<noteq> 0 then
              upd_co w co (\<lambda>c. c\<lparr>co_status :=
                co_status c OR of_nat (status_code NTY_COROUTINE_STATUS_WAIT_WRITE)\<rparr>)
            else None);
     w \<leftarrow> upd_co w co (\<lambda>c. c\<lparr>co_fd := fd, co_events := events\<rparr>);
     c \<leftarrow> get_co w co;
     _ \<leftarrow> sched w;
     (t, co_tmp) \<leftarrow> RB_INSERT (wait_cmp w c) (waiting w) co;
     let w = w\<lparr>waiting := t\<rparr>;
     c_assert (co_tmp = NULL);
     if timeout = 1 then Some w
     else nty_schedule_sched_sleepdown K w co timeout
   }"

definition nty_schedule_cancel_wait :: "'k world \<Rightarrow> ptr \<Rightarrow> 'k world option" where
  "nty_schedule_cancel_wait w co = do {
     _ \<leftarrow> get_co w co;
     _ \<leftarrow> sched w;
     (t, _) \<leftarrow> RB_REMOVE (waiting w) co;
     Some (w\<lparr>waiting := t\<rparr>)
   }"

definition nty_schedule_expired :: "'k kernel \<Rightarrow> 'k world \<Rightarrow> (ptr \<times> 'k world) option" where
  "nty_schedule_expired K w = do {
     s \<leftarrow> sched w;
     let (now, w) = nty_coroutine_usec_now K w;
     let t_diff_usecs = nty_coroutine_diff_usecs (sc_birth s) now;
     co \<leftarrow> RB_MIN (sleeping w);
     if co = NULL then Some (NULL, w)
     else do {
       c \<leftarrow> get_co w co;
       if co_sleep_usecs c \<le> t_diff_usecs then do {
         (t, _) \<leftarrow> RB_REMOVE (sleeping w) co;
         Some (co, w\<lparr>sleeping := t\<rparr>)
       } else Some (NULL, w)
     }
   }"

definition nty_schedule_min_timeout :: "'k kernel \<Rightarrow> 'k world \<Rightarrow> (u64 \<times> 'k world) option" where
  "nty_schedule_min_timeout K w = do {
     s \<leftarrow> sched w;
     let (now, w) = nty_coroutine_usec_now K w;
     let t_diff_usecs = nty_coroutine_diff_usecs (sc_birth s) now;
     co \<leftarrow> RB_MIN (sleeping w);
     if co = NULL then Some (sc_default_timeout s, w)
     else do {
       c \<leftarrow> get_co w co;
       if co_sleep_usecs c > t_diff_usecs then Some (co_sleep_usecs c - t_diff_usecs, w)
       else Some (0, w)
     }
   }"

subsection \<open>Invariants\<close>

definition sleep_key :: "'k world \<Rightarrow> addr \<Rightarrow> int" where
  "sleep_key w a = (case cos w a of None \<Rightarrow> 0 | Some c \<Rightarrow> uint (co_sleep_usecs c))"

definition wait_key :: "'k world \<Rightarrow> addr \<Rightarrow> int" where
  "wait_key w a = (case cos w a of None \<Rightarrow> 0 | Some c \<Rightarrow> co_fd c)"

text \<open>\<open>sleep_ok w S\<close>: the sleep tree holds the coroutines \<open>S\<close>, in the order of their wake-up times, and its
  nodes are those of the allocated coroutines.\<close>

definition sleep_ok :: "'k world \<Rightarrow> addr list \<Rightarrow> bool" where
  "sleep_ok w S = (rb_holds (sleeping w) S \<and> ordered (sleep_key w) S \<and>
     allocated (sleeping w) = (\<lambda>a. cos w a \<noteq> None))"

definition wait_ok :: "'k world \<Rightarrow> addr list \<Rightarrow> bool" where
  "wait_ok w W = (rb_holds (waiting w) W \<and> ordered (wait_key w) W \<and>
     allocated (waiting w) = (\<lambda>a. cos w a \<noteq> None))"

lemma sleep_ok_alive: "sleep_ok w S \<Longrightarrow> a \<in> set S \<Longrightarrow> \<exists>c. cos w a = Some c"
  using rb.holds_owns [of "sleeping w" S a] by (auto simp: sleep_ok_def)

lemma wait_ok_alive: "wait_ok w W \<Longrightarrow> a \<in> set W \<Longrightarrow> \<exists>c. cos w a = Some c"
  using rb.holds_owns [of "waiting w" W a] by (auto simp: wait_ok_def)

lemma sleep_cmp_sign:
  "nty_coroutine_sleep_cmp c d < 0 \<longleftrightarrow> uint (co_sleep_usecs c) < uint (co_sleep_usecs d)"
  "0 < nty_coroutine_sleep_cmp c d \<longleftrightarrow> uint (co_sleep_usecs d) < uint (co_sleep_usecs c)"
  by (auto simp: nty_coroutine_sleep_cmp_def word_less_def word_uint_eq_iff)

lemma wait_cmp_sign:
  "nty_coroutine_wait_cmp c d < 0 \<longleftrightarrow> co_fd c < co_fd d"
  "0 < nty_coroutine_wait_cmp c d \<longleftrightarrow> co_fd d < co_fd c"
  by (auto simp: nty_coroutine_wait_cmp_def)

lemma sleep_compares:
  assumes "sleep_ok w S"
  shows "compares (sleep_cmp w c) (sleep_key w) (uint (co_sleep_usecs c)) S"
  unfolding compares_def
proof
  fix a assume "a \<in> set S"
  then obtain d where "cos w a = Some d" using sleep_ok_alive [OF assms] by blast
  then show "\<exists>i. sleep_cmp w c a = Some i \<and> (i < 0) = (uint (co_sleep_usecs c) < sleep_key w a) \<and>
      (0 < i) = (sleep_key w a < uint (co_sleep_usecs c))"
    by (auto simp: sleep_cmp_def sleep_key_def sleep_cmp_sign)
qed

lemma wait_compares:
  assumes "wait_ok w W"
  shows "compares (wait_cmp w c) (wait_key w) (co_fd c) W"
  unfolding compares_def
proof
  fix a assume "a \<in> set W"
  then obtain d where "cos w a = Some d" using wait_ok_alive [OF assms] by blast
  then show "\<exists>i. wait_cmp w c a = Some i \<and> (i < 0) = (co_fd c < wait_key w a) \<and>
      (0 < i) = (wait_key w a < co_fd c)"
    by (auto simp: wait_cmp_def wait_key_def wait_cmp_sign)
qed

text \<open>The keys depend on the coroutines of the tree only.\<close>

lemma ordered_cong: "(\<And>a. a \<in> set xs \<Longrightarrow> key a = key' a) \<Longrightarrow> ordered key xs = ordered key' xs"
  by (induction xs) (auto simp: ordered_Cons)

lemma insort_key_cong:
  "key e = key' e \<Longrightarrow> (\<And>a. a \<in> set xs \<Longrightarrow> key a = key' a) \<Longrightarrow> insort_key key e xs = insort_key key' e xs"
  by (induction xs) auto

lemma sleep_ok_upd:
  assumes "sleep_ok w S" "cos w a = Some c" "co_sleep_usecs d = co_sleep_usecs c \<or> a \<notin> set S"
  shows "sleep_ok (w\<lparr>cos := (cos w)(a := Some d)\<rparr>) S"
proof -
  have "ordered (sleep_key (w\<lparr>cos := (cos w)(a := Some d)\<rparr>)) S = ordered (sleep_key w) S"
    using assms(2,3) by (intro ordered_cong) (auto simp: sleep_key_def)
  then show ?thesis using assms by (auto simp: sleep_ok_def fun_eq_iff)
qed

lemma wait_ok_upd:
  assumes "wait_ok w W" "cos w a = Some c" "co_fd d = co_fd c \<or> a \<notin> set W"
  shows "wait_ok (w\<lparr>cos := (cos w)(a := Some d)\<rparr>) W"
proof -
  have "ordered (wait_key (w\<lparr>cos := (cos w)(a := Some d)\<rparr>)) W = ordered (wait_key w) W"
    using assms(2,3) by (intro ordered_cong) (auto simp: wait_key_def)
  then show ?thesis using assms by (auto simp: wait_ok_def fun_eq_iff)
qed

lemma ok_frame [simp]:
  "sleep_ok (w\<lparr>waiting := t\<rparr>) S = sleep_ok w S" "wait_ok (w\<lparr>sleeping := t\<rparr>) W = wait_ok w W"
  "sleep_ok (w\<lparr>ready := q\<rparr>) S = sleep_ok w S" "wait_ok (w\<lparr>ready := q\<rparr>) W = wait_ok w W"
  "sleep_ok (w\<lparr>kern := k\<rparr>) S = sleep_ok w S" "wait_ok (w\<lparr>kern := k\<rparr>) W = wait_ok w W"
  "sleep_ok (w\<lparr>sched := s\<rparr>) S = sleep_ok w S" "wait_ok (w\<lparr>sched := s\<rparr>) W = wait_ok w W"
  "sleep_ok (w\<lparr>sp := n\<rparr>) S = sleep_ok w S" "wait_ok (w\<lparr>sp := n\<rparr>) W = wait_ok w W"
  "sleep_ok (w\<lparr>hooks := b\<rparr>) S = sleep_ok w S" "wait_ok (w\<lparr>hooks := b\<rparr>) W = wait_ok w W"
  "sleep_ok (w\<lparr>errno := e\<rparr>) S = sleep_ok w S" "wait_ok (w\<lparr>errno := e\<rparr>) W = wait_ok w W"
  by (simp_all add: sleep_ok_def wait_ok_def sleep_key_def [abs_def] wait_key_def [abs_def])

subsection \<open>Falling asleep\<close>

text \<open>The wake-up times in use.\<close>

definition wake_times :: "'k world \<Rightarrow> addr list \<Rightarrow> u64 set" where
  "wake_times w S = {co_sleep_usecs d |d b. b \<in> set S \<and> cos w b = Some d}"

lemma wake_times_key:
  assumes ok: "sleep_ok w S"
  shows "u \<in> wake_times w S \<longleftrightarrow> uint u \<in> sleep_key w ` set S"
proof
  assume "u \<in> wake_times w S"
  then obtain b d where "b \<in> set S" "cos w b = Some d" "u = co_sleep_usecs d"
    by (auto simp: wake_times_def)
  then show "uint u \<in> sleep_key w ` set S" by (intro image_eqI [of _ _ b]) (auto simp: sleep_key_def)
next
  assume "uint u \<in> sleep_key w ` set S"
  then obtain b where b: "b \<in> set S" "uint u = sleep_key w b" by auto
  then obtain d where "cos w b = Some d" using sleep_ok_alive [OF ok] by blast
  with b show "u \<in> wake_times w S" by (auto simp: wake_times_def sleep_key_def word_uint_eq_iff)
qed

lemma wake_times_cong:
  "(\<And>b. b \<in> set S \<Longrightarrow> cos w' b = cos w b) \<Longrightarrow> wake_times w' S = wake_times w S"
  unfolding wake_times_def by (metis (no_types, lifting))

text \<open>Among fewer than \<open>2 ^ 64\<close> sleepers some wake-up time is free, at or after a given one (counting up
  modulo \<open>2 ^ 64\<close>).\<close>

lemma free_time:
  assumes "length S < 2 ^ 64"
  shows "\<exists>n. u + of_nat n \<notin> wake_times w S"
proof -
  have "wake_times w S \<subseteq> (\<lambda>b. co_sleep_usecs (the (cos w b))) ` set S" by (force simp: wake_times_def)
  then have "card (wake_times w S) \<le> length S"
    by (meson List.finite_set card_image_le card_length card_mono finite_imageI le_trans)
  then have "card (wake_times w S) < card (UNIV :: u64 set)" using assms by (simp add: card_word)
  then obtain v where "v \<notin> wake_times w S" by (metis UNIV_I card_mono finite subsetI leD)
  then have "u + of_nat (unat (v - u)) \<notin> wake_times w S" by simp
  then show ?thesis by blast
qed

text \<open>What falling asleep makes of the memory: the coroutine in its place in the tree, with its wake-up
  time and the status bit.\<close>

definition asleep :: "'k world \<Rightarrow> addr list \<Rightarrow> addr \<Rightarrow> u64 \<Rightarrow> 'k world \<Rightarrow> bool" where
  "asleep w S a u w' = (\<exists>c t. cos w a = Some c \<and>
     w' = w\<lparr>sleeping := t, cos := (cos w)(a := Some (c\<lparr>co_sleep_usecs := u,
       co_status := co_status c OR BIT NTY_COROUTINE_STATUS_SLEEPING\<rparr>))\<rparr> \<and>
     sleep_ok w' (insort_key (sleep_key w') a S))"

lemma sleepdown_insert_correct:
  assumes "sleep_ok w S" "a \<notin> set S" "cos w a = Some c"
    "\<And>m. m < n \<Longrightarrow> co_sleep_usecs c + of_nat m \<in> wake_times w S"
    "co_sleep_usecs c + of_nat n \<notin> wake_times w S"
  shows "\<exists>w'. sleepdown_insert w (Some a) = Some w' \<and> asleep w S a (co_sleep_usecs c + of_nat n) w'"
  using assms
proof (induction n arbitrary: w c)
  case 0
  let ?u = "co_sleep_usecs c"
  have ok: "rb_holds (sleeping w) S" "ordered (sleep_key w) S" "allocated (sleeping w) a"
    using 0 by (auto simp: sleep_ok_def)
  have key: "sleep_key w a = uint ?u" using 0(3) by (simp add: sleep_key_def)
  have "sleep_key w a \<notin> sleep_key w ` set S" using 0(5) wake_times_key [OF 0(1)] key by simp
  then obtain t where t: "RB_INSERT (sleep_cmp w c) (sleeping w) (Some a) = Some (t, NULL)"
      "rb_holds t (insort_key (sleep_key w) a S)" "allocated t = allocated (sleeping w)"
    using rb.ins_new_law [OF ok(1,2) _ ok(3), of "sleep_cmp w c"] sleep_compares [OF 0(1)] key by auto
  let ?c = "c\<lparr>co_status := co_status c OR BIT NTY_COROUTINE_STATUS_SLEEPING\<rparr>"
  let ?w = "w\<lparr>sleeping := t, cos := (cos w)(a := Some ?c)\<rparr>"
  have same: "sleep_key ?w = sleep_key w" using 0(3) by (auto simp: sleep_key_def fun_eq_iff)
  have "sleep_ok ?w (insort_key (sleep_key ?w) a S)"
    using t(2,3) 0(1,3) \<open>sleep_key w a \<notin> sleep_key w ` set S\<close> rb.ordered_insort [OF ok(2)]
    by (auto simp: sleep_ok_def same fun_eq_iff)
  moreover have "sleepdown_insert w (Some a) = Some ?w"
    using 0(3) t(1) by (subst sleepdown_insert.simps) simp
  ultimately show ?case using 0(3) unfolding asleep_def by (intro exI [of _ ?w]) auto
next
  case (Suc n)
  let ?u = "co_sleep_usecs c"
  have ok: "rb_holds (sleeping w) S" "ordered (sleep_key w) S" "allocated (sleeping w) a"
    using Suc.prems by (auto simp: sleep_ok_def)
  have key: "sleep_key w a = uint ?u" using Suc.prems(3) by (simp add: sleep_key_def)
  have "?u \<in> wake_times w S" using Suc.prems(4) [of 0] by simp
  then obtain b where b: "b \<in> set S" "sleep_key w b = sleep_key w a"
    using wake_times_key [OF Suc.prems(1)] key by auto
  have ins: "RB_INSERT (sleep_cmp w c) (sleeping w) (Some a) = Some (sleeping w, Some b)"
    using rb_holds_INSERT_dup [OF ok(1,2) _ ok(3) Suc.prems(2) b] sleep_compares [OF Suc.prems(1)] key by auto
  let ?c = "c\<lparr>co_sleep_usecs := ?u + 1\<rparr>"
  let ?w = "w\<lparr>cos := (cos w)(a := Some ?c)\<rparr>"
  have run: "sleepdown_insert w (Some a) = sleepdown_insert ?w (Some a)"
    using Suc.prems(3) ins by (subst sleepdown_insert.simps) simp
  have ok': "sleep_ok ?w S" using sleep_ok_upd [OF Suc.prems(1,3)] Suc.prems(2) by simp
  have wt: "wake_times ?w S = wake_times w S" using Suc.prems(2) by (intro wake_times_cong) auto
  have "\<exists>w'. sleepdown_insert ?w (Some a) = Some w' \<and> asleep ?w S a (co_sleep_usecs ?c + of_nat n) w'"
  proof (intro Suc.IH [OF ok' Suc.prems(2)])
    show "cos ?w a = Some ?c" by simp
    show "co_sleep_usecs ?c + of_nat m \<in> wake_times ?w S" if "m < n" for m
      using Suc.prems(4) [of "Suc m"] that unfolding wt by (simp add: ac_simps)
    show "co_sleep_usecs ?c + of_nat n \<notin> wake_times ?w S"
      using Suc.prems(5) unfolding wt by (simp add: ac_simps)
  qed
  then show ?case unfolding run asleep_def using Suc.prems(3) by (auto simp: ac_simps)
qed

text \<open>The first step of \<open>nty_schedule_sched_sleepdown\<close>: a coroutine that is in the tree is taken out.\<close>

lemma sleepdown_leave:
  assumes "sleep_ok w S" "cos w a = Some c"
    "a \<in> set S \<or> co_sleep_usecs c \<notin> wake_times w S"
  shows "\<exists>t. (do { co_tmp \<leftarrow> RB_FIND (sleep_cmp w c) (sleeping w);
      if co_tmp \<noteq> NULL then do { (t, _) \<leftarrow> RB_REMOVE (sleeping w) co_tmp; Some (w\<lparr>sleeping := t\<rparr>) }
      else Some w }) = Some (w\<lparr>sleeping := t\<rparr>) \<and> sleep_ok (w\<lparr>sleeping := t\<rparr>) (remove1 a S)"
proof -
  have ok: "rb_holds (sleeping w) S" "ordered (sleep_key w) S" using assms(1) by (auto simp: sleep_ok_def)
  have key: "sleep_key w a = uint (co_sleep_usecs c)" using assms(2) by (simp add: sleep_key_def)
  have find: "RB_FIND (sleep_cmp w c) (sleeping w) = Some (find (\<lambda>b. sleep_key w b = uint (co_sleep_usecs c)) S)"
    using rb_holds_FIND [OF ok sleep_compares [OF assms(1)]] .
  show ?thesis
  proof (cases "a \<in> set S")
    case True
    have "find (\<lambda>b. sleep_key w b = uint (co_sleep_usecs c)) S = Some a"
      using rb.ordered_find [OF ok(2) True key] .
    moreover obtain t where t: "RB_REMOVE (sleeping w) (Some a) = Some (t, Some a)"
        "rb_holds t (remove1 a S)" "allocated t = allocated (sleeping w)"
      using rb_holds_REMOVE [OF ok(1) True] by auto
    moreover have "sleep_key (w\<lparr>sleeping := t\<rparr>) = sleep_key w" by (auto simp: sleep_key_def)
    ultimately show ?thesis using find assms(1) rb.ordered_remove1 [OF ok(2)]
      by (intro exI [of _ t]) (auto simp: sleep_ok_def)
  next
    case False
    then have "find (\<lambda>b. sleep_key w b = uint (co_sleep_usecs c)) S = None"
      using assms(3) wake_times_key [OF assms(1)] by (force simp: find_None_iff)
    then show ?thesis using find assms(1) False by (intro exI [of _ "sleeping w"]) (simp add: remove1_idem)
  qed
qed

lemma usec_now_frame:
  assumes "nty_coroutine_usec_now K w = (now, w1)"
  shows "\<exists>k. w1 = w\<lparr>kern := k\<rparr> \<and>
    (\<forall>w'. kern w' = kern w \<longrightarrow> nty_coroutine_usec_now K w' = (now, w'\<lparr>kern := k\<rparr>))"
  using assms by (auto simp: nty_coroutine_usec_now_def split: prod.splits)

lemma sched_sleepdown_correct:
  assumes "sleep_ok w S" "cos w a = Some c" "sched w = Some s" "length S < 2 ^ 64" "msecs \<noteq> 0"
    "a \<in> set S \<or> co_sleep_usecs c \<notin> wake_times w S"
    "nty_coroutine_usec_now K w = (now, w1)" "target = (now - sc_birth s) + msecs * 1000"
  shows "\<exists>n w'. nty_schedule_sched_sleepdown K w (Some a) msecs = Some w' \<and>
    asleep (w1\<lparr>cos := (cos w)(a := Some (c\<lparr>co_sleep_usecs := target\<rparr>))\<rparr>) (remove1 a S) a (target + of_nat n) w' \<and>
    (\<forall>m<n. target + of_nat m \<in> wake_times w (remove1 a S)) \<and> target + of_nat n \<notin> wake_times w (remove1 a S)"
proof -
  let ?S = "remove1 a S" and ?c = "c\<lparr>co_sleep_usecs := target\<rparr>"
  obtain k where w1: "w1 = w\<lparr>kern := k\<rparr>" and
    clock: "\<And>w'. kern w' = kern w \<Longrightarrow> nty_coroutine_usec_now K w' = (now, w'\<lparr>kern := k\<rparr>)"
    using usec_now_frame [OF assms(7)] by blast
  obtain t where t: "(do { co_tmp \<leftarrow> RB_FIND (sleep_cmp w c) (sleeping w);
      if co_tmp \<noteq> NULL then do { (t, _) \<leftarrow> RB_REMOVE (sleeping w) co_tmp; Some (w\<lparr>sleeping := t\<rparr>) }
      else Some w }) = Some (w\<lparr>sleeping := t\<rparr>)" "sleep_ok (w\<lparr>sleeping := t\<rparr>) ?S"
    using sleepdown_leave [OF assms(1,2,6)] by blast
  let ?w = "w\<lparr>sleeping := t, kern := k, cos := (cos w)(a := Some ?c)\<rparr>"
  have notin: "a \<notin> set ?S" using rb.holds_distinct [of "sleeping w" S] assms(1) by (simp add: sleep_ok_def)
  have ok: "sleep_ok ?w ?S"
    using sleep_ok_upd [of "w\<lparr>sleeping := t, kern := k\<rparr>" ?S a c ?c] t(2) assms(2) notin by simp
  have wt: "wake_times ?w ?S = wake_times w ?S" using notin by (intro wake_times_cong) auto
  have "length ?S < 2 ^ 64" using assms(4) by (auto simp: length_remove1)
  then have "\<exists>n. target + of_nat n \<notin> wake_times w ?S" by (rule free_time)
  then obtain n where n: "target + of_nat n \<notin> wake_times w ?S" "\<forall>m<n. target + of_nat m \<in> wake_times w ?S"
    using exists_least_iff [of "\<lambda>n. target + of_nat n \<notin> wake_times w ?S"] by auto
  obtain w' where w': "sleepdown_insert ?w (Some a) = Some w'" "asleep ?w ?S a (target + of_nat n) w'"
    using sleepdown_insert_correct [OF ok notin, of ?c n] n wt by auto
  have now: "nty_coroutine_usec_now K (w\<lparr>sleeping := t\<rparr>) = (now, w\<lparr>sleeping := t, kern := k\<rparr>)"
    using clock by simp
  have "nty_schedule_sched_sleepdown K w (Some a) msecs = Some w'"
    using assms(2,3,5,8) t(1) w'(1) now
    by (auto simp: nty_schedule_sched_sleepdown_def nty_coroutine_diff_usecs_def bind_eq_Some_conv Let_def
        split: if_splits)
  moreover have "asleep (w1\<lparr>cos := (cos w)(a := Some ?c)\<rparr>) ?S a (target + of_nat n) w'"
    using w'(2) by (auto simp: asleep_def w1)
  ultimately show ?thesis using n by blast
qed

subsection \<open>Waking up\<close>

lemma sleep_remove:
  assumes "sleep_ok w S" "a \<in> set S"
  shows "\<exists>t. RB_REMOVE (sleeping w) (Some a) = Some (t, Some a) \<and> sleep_ok (w\<lparr>sleeping := t\<rparr>) (remove1 a S)"
proof -
  obtain t where t: "RB_REMOVE (sleeping w) (Some a) = Some (t, Some a)"
      "rb_holds t (remove1 a S)" "allocated t = allocated (sleeping w)"
    using rb_holds_REMOVE [of "sleeping w" S a] assms by (auto simp: sleep_ok_def)
  moreover have "sleep_key (w\<lparr>sleeping := t\<rparr>) = sleep_key w" by (auto simp: sleep_key_def)
  ultimately show ?thesis using assms rb.ordered_remove1 by (auto simp: sleep_ok_def)
qed

lemma wait_remove:
  assumes "wait_ok w W" "a \<in> set W"
  shows "\<exists>t. RB_REMOVE (waiting w) (Some a) = Some (t, Some a) \<and> wait_ok (w\<lparr>waiting := t\<rparr>) (remove1 a W)"
proof -
  obtain t where t: "RB_REMOVE (waiting w) (Some a) = Some (t, Some a)"
      "rb_holds t (remove1 a W)" "allocated t = allocated (waiting w)"
    using rb_holds_REMOVE [of "waiting w" W a] assms by (auto simp: wait_ok_def)
  moreover have "wait_key (w\<lparr>waiting := t\<rparr>) = wait_key w" by (auto simp: wait_key_def)
  ultimately show ?thesis using assms rb.ordered_remove1 by (auto simp: wait_ok_def)
qed

lemma sleep_MIN: "sleep_ok w S \<Longrightarrow> RB_MIN (sleeping w) = Some (first S)"
  by (simp add: sleep_ok_def rb_holds_MIN)

lemma sleep_hd_least:
  assumes "sleep_ok w (a # S)" "cos w a = Some c" "b \<in> set S" "cos w b = Some d"
  shows "co_sleep_usecs c < co_sleep_usecs d"
  using assms by (auto simp: sleep_ok_def ordered_Cons sleep_key_def word_less_def)

lemma desched_sleepdown_sleeping:
  assumes "sleep_ok w S" "a \<in> set S" "cos w a = Some c" "sched w = Some s"
    "has (co_status c) NTY_COROUTINE_STATUS_SLEEPING"
  shows "\<exists>t d. nty_schedule_desched_sleepdown w (Some a) = Some (w\<lparr>sleeping := t, cos := (cos w)(a := Some d)\<rparr>) \<and>
    sleep_ok (w\<lparr>sleeping := t, cos := (cos w)(a := Some d)\<rparr>) (remove1 a S) \<and>
    \<not> has (co_status d) NTY_COROUTINE_STATUS_SLEEPING \<and> \<not> has (co_status d) NTY_COROUTINE_STATUS_EXPIRED \<and>
    has (co_status d) NTY_COROUTINE_STATUS_READY \<and> d\<lparr>co_status := co_status c\<rparr> = c"
proof -
  obtain t where t: "RB_REMOVE (sleeping w) (Some a) = Some (t, Some a)"
      "sleep_ok (w\<lparr>sleeping := t\<rparr>) (remove1 a S)"
    using sleep_remove [OF assms(1,2)] by blast
  let ?d = "c\<lparr>co_status := (co_status c AND CLEARBIT NTY_COROUTINE_STATUS_SLEEPING
           OR BIT NTY_COROUTINE_STATUS_READY) AND CLEARBIT NTY_COROUTINE_STATUS_EXPIRED\<rparr>"
  have "nty_schedule_desched_sleepdown w (Some a) = Some (w\<lparr>sleeping := t, cos := (cos w)(a := Some ?d)\<rparr>)"
    using assms(3-5) t(1) by (simp add: nty_schedule_desched_sleepdown_def)
  moreover have "sleep_ok (w\<lparr>sleeping := t, cos := (cos w)(a := Some ?d)\<rparr>) (remove1 a S)"
    using sleep_ok_upd [OF t(2), of a c ?d] assms(3) by simp
  ultimately show ?thesis by (intro exI [of _ t] exI [of _ ?d]) simp
qed

lemma desched_sleepdown_awake:
  "cos w a = Some c \<Longrightarrow> \<not> has (co_status c) NTY_COROUTINE_STATUS_SLEEPING \<Longrightarrow>
   nty_schedule_desched_sleepdown w (Some a) = Some w"
  by (simp add: nty_schedule_desched_sleepdown_def)

text \<open>\<open>nty_schedule_expired\<close> returns the coroutine with the earliest wake-up time if that time has come,
  and takes it out of the tree.\<close>

lemma expired_correct:
  assumes "sleep_ok w S" "sched w = Some s" "nty_coroutine_usec_now K w = (now, w1)"
  shows "(S = [] \<and> nty_schedule_expired K w = Some (NULL, w1)) \<or>
    (\<exists>a S' c. S = a # S' \<and> cos w a = Some c \<and>
      (if co_sleep_usecs c \<le> now - sc_birth s
       then \<exists>t. nty_schedule_expired K w = Some (Some a, w1\<lparr>sleeping := t\<rparr>) \<and> sleep_ok (w1\<lparr>sleeping := t\<rparr>) S'
       else nty_schedule_expired K w = Some (NULL, w1)))"
proof -
  obtain k where w1: "w1 = w\<lparr>kern := k\<rparr>" using usec_now_frame [OF assms(3)] by blast
  have ok: "sleep_ok w1 S" using assms(1) w1 by simp
  show ?thesis
  proof (cases S)
    case Nil
    then show ?thesis using assms(2,3) sleep_MIN [OF ok] by (simp add: nty_schedule_expired_def)
  next
    case (Cons a S')
    obtain c where c: "cos w a = Some c" using sleep_ok_alive [OF assms(1)] Cons by auto
    obtain t where t: "RB_REMOVE (sleeping w1) (Some a) = Some (t, Some a)" "sleep_ok (w1\<lparr>sleeping := t\<rparr>) S'"
      using sleep_remove [OF ok, of a] Cons by auto
    then show ?thesis
      using assms(2,3) sleep_MIN [OF ok] Cons c w1
      by (auto simp: nty_schedule_expired_def nty_coroutine_diff_usecs_def)
  qed
qed

lemma min_timeout_correct:
  assumes "sleep_ok w S" "sched w = Some s" "nty_coroutine_usec_now K w = (now, w1)"
  shows "nty_schedule_min_timeout K w = Some
    (case S of [] \<Rightarrow> sc_default_timeout s
      | a # _ \<Rightarrow> (case cos w a of None \<Rightarrow> 0
          | Some c \<Rightarrow> if now - sc_birth s < co_sleep_usecs c then co_sleep_usecs c - (now - sc_birth s) else 0), w1)"
proof -
  obtain k where w1: "w1 = w\<lparr>kern := k\<rparr>" using usec_now_frame [OF assms(3)] by blast
  have ok: "sleep_ok w1 S" using assms(1) w1 by simp
  show ?thesis
  proof (cases S)
    case Nil
    then show ?thesis using assms(2,3) sleep_MIN [OF ok] by (simp add: nty_schedule_min_timeout_def)
  next
    case (Cons a S')
    obtain c where "cos w a = Some c" using sleep_ok_alive [OF assms(1)] Cons by auto
    then show ?thesis
      using assms(2,3) sleep_MIN [OF ok] Cons w1
      by (simp add: nty_schedule_min_timeout_def nty_coroutine_diff_usecs_def)
  qed
qed

subsection \<open>Waiting for a descriptor\<close>

lemma find_it_fd [simp]: "co_fd (zero_co\<lparr>co_fd := fd\<rparr>) = fd"
  by simp

lemma wait_FIND:
  assumes "wait_ok w W"
  shows "RB_FIND (wait_cmp w (zero_co\<lparr>co_fd := fd\<rparr>)) (waiting w) = Some (find (\<lambda>a. wait_key w a = fd) W)"
  using rb_holds_FIND [of "waiting w" W "wait_key w"] wait_compares [OF assms, of "zero_co\<lparr>co_fd := fd\<rparr>"] assms
  by (simp add: wait_ok_def)

lemma wait_find_some:
  assumes "wait_ok w W" "a \<in> set W" "cos w a = Some c"
  shows "find (\<lambda>b. wait_key w b = co_fd c) W = Some a"
proof -
  have "wait_key w a = co_fd c" using assms(3) by (simp add: wait_key_def)
  then show ?thesis using rb.ordered_find [of "wait_key w" W a] assms(1,2) by (simp add: wait_ok_def)
qed

lemma wait_find_none:
  assumes "wait_ok w W" "\<forall>a \<in> set W. \<forall>c. cos w a = Some c \<longrightarrow> co_fd c \<noteq> fd"
  shows "find (\<lambda>b. wait_key w b = fd) W = None"
  using assms wait_ok_alive [OF assms(1)] by (fastforce simp: find_None_iff wait_key_def)

lemma search_wait_found:
  assumes "wait_ok w W" "a \<in> set W" "cos w a = Some c" "sched w = Some s"
  shows "nty_schedule_search_wait w (co_fd c) = Some (Some a, w\<lparr>cos := (cos w)(a := Some (c\<lparr>co_status := 0\<rparr>))\<rparr>)"
  using wait_FIND [OF assms(1)] wait_find_some [OF assms(1-3)] assms
  by (simp add: nty_schedule_search_wait_def)

lemma wait_missing:
  assumes "wait_ok w W" "\<forall>a \<in> set W. \<forall>c. cos w a = Some c \<longrightarrow> co_fd c \<noteq> fd"
  shows "nty_schedule_search_wait w fd = None" "nty_schedule_desched_wait w fd = None"
  using wait_FIND [OF assms(1)] wait_find_none [OF assms]
  by (cases "sched w"; simp add: nty_schedule_search_wait_def nty_schedule_desched_wait_def)+

lemma desched_wait_found:
  assumes "wait_ok w W" "a \<in> set W" "cos w a = Some c" "sched w = Some s"
  shows "\<exists>t. nty_schedule_desched_wait w (co_fd c) =
      Some (Some a, w\<lparr>waiting := t, cos := (cos w)(a := Some (c\<lparr>co_status := 0\<rparr>))\<rparr>) \<and>
    wait_ok (w\<lparr>waiting := t, cos := (cos w)(a := Some (c\<lparr>co_status := 0\<rparr>))\<rparr>) (remove1 a W)"
proof -
  obtain t where t: "RB_REMOVE (waiting w) (Some a) = Some (t, Some a)"
      "wait_ok (w\<lparr>waiting := t\<rparr>) (remove1 a W)"
    using wait_remove [OF assms(1,2)] by blast
  let ?w = "w\<lparr>waiting := t, cos := (cos w)(a := Some (c\<lparr>co_status := 0\<rparr>))\<rparr>"
  have "nty_schedule_desched_sleepdown ?w (Some a) = Some ?w"
    by (rule desched_sleepdown_awake [of _ _ "c\<lparr>co_status := 0\<rparr>"]) simp_all
  then have "nty_schedule_desched_wait w (co_fd c) = Some (Some a, ?w)"
    using wait_FIND [OF assms(1)] wait_find_some [OF assms(1-3)] assms t(1)
    by (simp add: nty_schedule_desched_wait_def)
  moreover have "wait_ok ?w (remove1 a W)" using wait_ok_upd [OF t(2), of a c] assms(3) by simp
  ultimately show ?thesis by blast
qed

text \<open>The status a coroutine waits with: for \<open>POLLIN\<close> nothing is added, for \<open>POLLOUT\<close> the bit of
  \<open>NTY_COROUTINE_STATUS_WAIT_READ\<close>.\<close>

lemma wait_status:
  "st OR of_nat (status_code NTY_COROUTINE_STATUS_WAIT_READ) = st"
  "st OR of_nat (status_code NTY_COROUTINE_STATUS_WAIT_WRITE) = st OR BIT NTY_COROUTINE_STATUS_WAIT_READ"
  by (simp_all add: BIT_def)

definition no_wait_bits :: "u32 \<Rightarrow> bool" where
  "no_wait_bits st = (\<not> has st NTY_COROUTINE_STATUS_WAIT_READ \<and> \<not> has st NTY_COROUTINE_STATUS_WAIT_WRITE)"

definition armed :: "nty_coroutine \<Rightarrow> int \<Rightarrow> u16 \<Rightarrow> nty_coroutine" where
  "armed c fd events = c\<lparr>co_status := (if events AND POLLIN \<noteq> 0 then co_status c
       else co_status c OR BIT NTY_COROUTINE_STATUS_WAIT_READ), co_fd := fd, co_events := events\<rparr>"

lemma sched_wait_step:
  assumes "wait_ok w W" "cos w a = Some c" "sched w = Some s" "no_wait_bits (co_status c)"
    "events AND POLLIN \<noteq> 0 \<or> events AND POLLOUT \<noteq> 0" "a \<notin> set W"
    "\<forall>b \<in> set W. \<forall>d. cos w b = Some d \<longrightarrow> co_fd d \<noteq> fd"
  shows "\<exists>w'. nty_schedule_sched_wait K w (Some a) fd events timeout =
      (if timeout = 1 then Some w' else nty_schedule_sched_sleepdown K w' (Some a) timeout) \<and>
    wait_ok w' (insort_key (wait_key w') a W) \<and>
    (\<exists>t. w' = w\<lparr>cos := (cos w)(a := Some (armed c fd events)), waiting := t\<rparr>)"
proof -
  let ?c = "armed c fd events" and ?w = "w\<lparr>cos := (cos w)(a := Some (armed c fd events))\<rparr>"
  have ok: "wait_ok ?w W" using wait_ok_upd [OF assms(1,2)] assms(6) by simp
  have key: "wait_key ?w a = co_fd ?c" by (simp add: wait_key_def)
  have "wait_key ?w a \<noteq> wait_key ?w b" if "b \<in> set W" for b
    using assms(6,7) wait_ok_alive [OF assms(1) that] that by (auto simp: wait_key_def armed_def)
  then have new: "wait_key ?w a \<notin> wait_key ?w ` set W" by blast
  have "wait_ok ?w W" "allocated (waiting ?w) a" using ok by (auto simp: wait_ok_def)
  then obtain t where t: "RB_INSERT (wait_cmp ?w ?c) (waiting ?w) (Some a) = Some (t, NULL)"
      "rb_holds t (insort_key (wait_key ?w) a W)" "allocated t = allocated (waiting ?w)"
    using rb.ins_new_law [of "waiting ?w" W "wait_key ?w" "wait_cmp ?w ?c" a] wait_compares [OF ok, of ?c] new key
    by (auto simp: wait_ok_def)
  let ?w' = "?w\<lparr>waiting := t\<rparr>"
  have same: "wait_key ?w' = wait_key ?w" by (auto simp: wait_key_def)
  have "wait_ok ?w' (insort_key (wait_key ?w') a W)"
    using t(2,3) ok rb.ordered_insort [OF _ new] by (auto simp: wait_ok_def same)
  moreover have "nty_schedule_sched_wait K w (Some a) fd events timeout =
      (if timeout = 1 then Some ?w' else nty_schedule_sched_sleepdown K ?w' (Some a) timeout)"
    using assms(2-5) t(1)
    by (auto simp: nty_schedule_sched_wait_def no_wait_bits_def wait_status [simplified] armed_def)
  ultimately show ?thesis by (intro exI [of _ ?w']) auto
qed

lemma sched_wait_faults:
  assumes "cos w a = Some c"
  shows "\<not> no_wait_bits (co_status c) \<Longrightarrow> nty_schedule_sched_wait K w (Some a) fd events timeout = None"
    and "events AND POLLIN = 0 \<Longrightarrow> events AND POLLOUT = 0 \<Longrightarrow>
      nty_schedule_sched_wait K w (Some a) fd events timeout = None"
  using assms by (auto simp: nty_schedule_sched_wait_def no_wait_bits_def c_assert_def)

lemma sched_wait_busy_fd:
  assumes "wait_ok w W" "cos w a = Some c" "a \<notin> set W" "b \<in> set W" "cos w b = Some d" "co_fd d = fd"
  shows "nty_schedule_sched_wait K w (Some a) fd events timeout = None"
proof -
  have "RB_INSERT (wait_cmp (w\<lparr>cos := (cos w)(a := Some x)\<rparr>) x) (waiting w) (Some a) = Some (waiting w, Some b)"
    if "co_fd x = fd" for x
  proof -
    let ?w = "w\<lparr>cos := (cos w)(a := Some x)\<rparr>"
    have ok: "wait_ok ?w W" using wait_ok_upd [OF assms(1,2)] assms(3) by simp
    have key: "wait_key ?w a = co_fd x" by (simp add: wait_key_def)
    have "wait_key ?w b = wait_key ?w a" using assms(3-6) that by (auto simp: wait_key_def)
    then show ?thesis
      using rb_holds_INSERT_dup [of "waiting ?w" W "wait_key ?w" "wait_cmp ?w x" a b] ok
        wait_compares [OF ok, of x] key assms(3,4) by (auto simp: wait_ok_def)
  qed
  then show ?thesis using assms(2)
    by (auto simp: nty_schedule_sched_wait_def bind_eq_None_conv c_assert_def)
qed

subsection \<open>Properties of sleeping and waiting\<close>

lemma demo_sleep_ok: "sleep_ok demo_world []" "wait_ok demo_world []"
  using demo_memory by (auto simp: sleep_ok_def wait_ok_def demo_world_def)

text \<open>C16.  \<open>nty_schedule_sched_sleepdown\<close> with a positive time always returns (its loop ends, wherever 64-bit
  arithmetic wraps), provided that the coroutine is in the sleep tree itself or no sleeper has its stale
  \<open>sleep_usecs\<close>, and that fewer than 2^64 coroutines sleep.  The coroutine is then in the tree, once, in the
  order of wake-up times, with the status bit set; its wake-up time is the first one, counting up from
  now + msecs * 1000, that no other sleeper has.\<close>

theorem sleepdown_places:
  assumes "sleep_ok w S" "cos w a = Some c" "sched w = Some s" "length S < 2 ^ 64" "msecs \<noteq> 0"
    "a \<in> set S \<or> co_sleep_usecs c \<notin> wake_times w S"
    "nty_coroutine_usec_now K w = (now, w1)" "target = (now - sc_birth s) + msecs * 1000"
  shows "\<exists>n w' d. nty_schedule_sched_sleepdown K w (Some a) msecs = Some w' \<and>
    sleep_ok w' (insort_key (sleep_key w') a (remove1 a S)) \<and> cos w' = (cos w)(a := Some d) \<and>
    has (co_status d) NTY_COROUTINE_STATUS_SLEEPING \<and> co_sleep_usecs d = target + of_nat n \<and>
    (\<forall>m<n. target + of_nat m \<in> wake_times w (remove1 a S)) \<and> target + of_nat n \<notin> wake_times w (remove1 a S)"
  using sched_sleepdown_correct [OF assms] unfolding asleep_def by fastforce

theorem sleepdown_places_witness:
  "\<exists>w' d. nty_schedule_sched_sleepdown demo_kernel demo_world (Some 1) 5 = Some w' \<and>
    cos w' 1 = Some d \<and> has (co_status d) NTY_COROUTINE_STATUS_SLEEPING"
proof -
  have n: "nty_coroutine_usec_now demo_kernel demo_world = (0, demo_world\<lparr>kern := 1\<rparr>)"
    by (simp add: nty_coroutine_usec_now_def demo_kernel_def demo_world_def)
  show ?thesis
    using sleepdown_places [OF demo_sleep_ok(1), of 1 demo_co demo_sched 5 demo_kernel 0 "demo_world\<lparr>kern := 1\<rparr>" 5000]
      demo_memory n by (auto simp: wake_times_def demo_sched_def zero_sched_def)
qed

text \<open>Two coroutines with the same wake-up time, the second one asleep.\<close>

definition demo_sleepers :: "nat world" where
  "demo_sleepers = demo_world\<lparr>cos := [1 \<mapsto> demo_co, 2 \<mapsto> demo_co],
     sleeping := \<lparr>rbh_root = Some 2, rb_node = [1 \<mapsto> zero_rb, 2 \<mapsto> zero_rb]\<rparr>\<rparr>"

lemma demo_sleepers_ok: "sleep_ok demo_sleepers [2]"
proof -
  have "rep (sleeping demo_sleepers) (Node Leaf (2, RB_BLACK) Leaf)" "is_rbt (Node Leaf (2, RB_BLACK) Leaf)"
    by (simp_all add: rep_def demo_sleepers_def zero_rb_def is_rbt_def)
  then have "rb_holds (sleeping demo_sleepers) [2]" by (force simp: rb_holds_def)
  then show ?thesis by (auto simp: sleep_ok_def ordered_def demo_sleepers_def allocated_def fun_eq_iff)
qed

text \<open>C17.  \<open>nty_schedule_expired\<close> returns \<open>NULL\<close> when nobody sleeps or the earliest wake-up time is still to
  come; otherwise it returns the coroutine with the earliest time and takes it out of the tree.\<close>

theorem expired_earliest:
  assumes "sleep_ok w S" "sched w = Some s" "nty_coroutine_usec_now K w = (now, w1)"
  shows "\<exists>p w'. nty_schedule_expired K w = Some (p, w') \<and> cos w' = cos w \<and>
    (case p of
       None \<Rightarrow> w' = w1 \<and> (\<forall>a c. a \<in> set S \<longrightarrow> cos w a = Some c \<longrightarrow> now - sc_birth s < co_sleep_usecs c)
     | Some a \<Rightarrow> S \<noteq> [] \<and> a = hd S \<and> sleep_ok w' (tl S) \<and>
         (\<forall>c. cos w a = Some c \<longrightarrow> co_sleep_usecs c \<le> now - sc_birth s \<and>
           (\<forall>b d. b \<in> set (tl S) \<longrightarrow> cos w b = Some d \<longrightarrow> co_sleep_usecs c < co_sleep_usecs d)))"
proof -
  obtain k where w1: "w1 = w\<lparr>kern := k\<rparr>" using usec_now_frame [OF assms(3)] by blast
  from expired_correct [OF assms] consider
      (none) "S = []" "nty_schedule_expired K w = Some (NULL, w1)"
    | (due) a S' c t where "S = a # S'" "cos w a = Some c" "co_sleep_usecs c \<le> now - sc_birth s"
        "nty_schedule_expired K w = Some (Some a, w1\<lparr>sleeping := t\<rparr>)" "sleep_ok (w1\<lparr>sleeping := t\<rparr>) S'"
    | (later) a S' c where "S = a # S'" "cos w a = Some c" "\<not> co_sleep_usecs c \<le> now - sc_birth s"
        "nty_schedule_expired K w = Some (NULL, w1)"
    by (auto split: if_splits)
  then show ?thesis
  proof cases
    case none
    then show ?thesis using w1 by simp
  next
    case due
    then show ?thesis using w1 sleep_hd_least [of w a S'] assms(1) by auto
  next
    case later
    have "now - sc_birth s < co_sleep_usecs d" if "b \<in> set S" "cos w b = Some d" for b d
      using that later sleep_hd_least [of w a S' c b d] assms(1) by (auto simp: not_le intro: less_trans)
    then show ?thesis using later w1 by auto
  qed
qed

theorem expired_earliest_witness:
  "\<exists>w'. nty_schedule_expired demo_kernel demo_sleepers = Some (Some 2, w') \<and> sleep_ok w' []"
proof -
  have n: "nty_coroutine_usec_now demo_kernel demo_sleepers = (0, demo_sleepers\<lparr>kern := 1\<rparr>)"
    by (simp add: nty_coroutine_usec_now_def demo_kernel_def demo_sleepers_def demo_world_def)
  have d: "sched demo_sleepers = Some demo_sched" "cos demo_sleepers 2 = Some demo_co" "sc_birth demo_sched = 0" "co_sleep_usecs demo_co = 0"
    by (simp_all add: demo_sleepers_def demo_world_def demo_sched_def zero_sched_def demo_co_def zero_co_def)
  show ?thesis
    using expired_earliest [OF demo_sleepers_ok d(1) n] d by (auto split: option.splits)
qed

text \<open>\<open>nty_schedule_min_timeout\<close> is the default timeout when nobody sleeps, and otherwise the time to the
  earliest wake-up, or 0 when that has passed: no sleeper is due before it.\<close>

lemma min_timeout_bound:
  assumes "sleep_ok w S" "sched w = Some s" "nty_coroutine_usec_now K w = (now, w1)"
  shows "\<exists>t. nty_schedule_min_timeout K w = Some (t, w1) \<and>
    (S = [] \<longrightarrow> t = sc_default_timeout s) \<and>
    (\<forall>a c. a \<in> set S \<longrightarrow> cos w a = Some c \<longrightarrow> uint t \<le> max 0 (uint (co_sleep_usecs c) - uint (now - sc_birth s)))"
proof (cases S)
  case Nil
  then show ?thesis using min_timeout_correct [OF assms] by simp
next
  case (Cons b S')
  obtain d where d: "cos w b = Some d" using sleep_ok_alive [OF assms(1)] Cons by auto
  let ?n = "now - sc_birth s"
  let ?t = "if ?n < co_sleep_usecs d then co_sleep_usecs d - ?n else 0"
  have run: "nty_schedule_min_timeout K w = Some (?t, w1)" using min_timeout_correct [OF assms] Cons d by simp
  have t: "uint ?t = max 0 (uint (co_sleep_usecs d) - uint ?n)"
    by (auto simp: word_less_def uint_sub_if' max_def split: if_splits)
  have le: "uint (co_sleep_usecs d) \<le> uint (co_sleep_usecs c)" if "a \<in> set S" "cos w a = Some c" for a c
    using that Cons d sleep_hd_least [of w b S' d a c] assms(1) by (auto simp: word_less_def)
  then have "uint ?t \<le> max 0 (uint (co_sleep_usecs c) - uint ?n)" if "a \<in> set S" "cos w a = Some c" for a c
    using le [OF that] unfolding t by (auto simp: max_def)
  then show ?thesis using run Cons by blast
qed

text \<open>C18.  Arming and disarming the wait for a descriptor: with a timeout of 1 (no timer)
  \<open>nty_schedule_sched_wait\<close> puts the coroutine into the wait tree under its descriptor; the event look-up
  \<open>nty_schedule_search_wait\<close> then finds it and clears its status, and \<open>nty_schedule_desched_wait\<close> returns it and
  leaves the wait tree as it was before.\<close>

theorem wait_arm_disarm:
  assumes "wait_ok w W" "cos w a = Some c" "sched w = Some s" "no_wait_bits (co_status c)"
    "events AND POLLIN \<noteq> 0 \<or> events AND POLLOUT \<noteq> 0" "a \<notin> set W"
    "\<forall>b \<in> set W. \<forall>d. cos w b = Some d \<longrightarrow> co_fd d \<noteq> fd"
  shows "\<exists>w1 w2 w3. nty_schedule_sched_wait K w (Some a) fd events 1 = Some w1 \<and>
    nty_schedule_search_wait w1 fd = Some (Some a, w2) \<and> cos w2 a = Some ((armed c fd events)\<lparr>co_status := 0\<rparr>) \<and>
    nty_schedule_desched_wait w2 fd = Some (Some a, w3) \<and> wait_ok w3 W"
proof -
  let ?c = "armed c fd events"
  obtain w1 t where w1: "nty_schedule_sched_wait K w (Some a) fd events 1 = Some w1"
      "wait_ok w1 (insort_key (wait_key w1) a W)" "w1 = w\<lparr>cos := (cos w)(a := Some ?c), waiting := t\<rparr>"
    using sched_wait_step [OF assms, of K 1] by auto
  have mem: "a \<in> set (insort_key (wait_key w1) a W)" by (simp add: set_insort_key)
  have fd: "co_fd ?c = fd" by (simp add: armed_def)
  let ?w2 = "w1\<lparr>cos := (cos w1)(a := Some (?c\<lparr>co_status := 0\<rparr>))\<rparr>"
  have s2: "nty_schedule_search_wait w1 fd = Some (Some a, ?w2)"
    using search_wait_found [OF w1(2) mem, of ?c s] w1(3) assms(3) fd by simp
  have ok2: "wait_ok ?w2 (insort_key (wait_key w1) a W)"
    using wait_ok_upd [OF w1(2), of a ?c] w1(3) by simp
  obtain w3 where w3: "nty_schedule_desched_wait ?w2 fd = Some (Some a, w3)" "wait_ok w3 (remove1 a (insort_key (wait_key w1) a W))"
    using desched_wait_found [OF ok2 mem, of "?c\<lparr>co_status := 0\<rparr>" s] w1(3) assms(3) fd by auto
  then have "wait_ok w3 W" using rb.remove1_insort_at [OF assms(6)] by simp
  then show ?thesis using w1(1) s2 w3(1) by (intro exI [of _ w1] exI [of _ ?w2] exI [of _ w3]) simp
qed

theorem wait_arm_disarm_witness:
  "\<exists>w1 w2 w3. nty_schedule_sched_wait demo_kernel demo_world (Some 1) 9 POLLIN 1 = Some w1 \<and>
    nty_schedule_search_wait w1 9 = Some (Some 1, w2) \<and>
    nty_schedule_desched_wait w2 9 = Some (Some 1, w3) \<and> wait_ok w3 []"
  using wait_arm_disarm [OF demo_sleep_ok(2), of 1 demo_co demo_sched POLLIN 9 demo_kernel] demo_memory
  by (auto simp: demo_co_def no_wait_bits_def POLLIN_def)

text \<open>The failures of arming: a coroutine that waits already, a mask without \<open>POLLIN\<close> and \<open>POLLOUT\<close>, and a
  descriptor another coroutine waits for each end in a failed assertion, never in a corrupted tree.\<close>

lemma wait_arm_faults:
  assumes "wait_ok w W" "cos w a = Some c" "a \<notin> set W"
    "\<not> no_wait_bits (co_status c) \<or> (events AND POLLIN = 0 \<and> events AND POLLOUT = 0) \<or>
     (\<exists>b \<in> set W. \<exists>d. cos w b = Some d \<and> co_fd d = fd)"
  shows "nty_schedule_sched_wait K w (Some a) fd events timeout = None"
  using assms(4)
proof (elim disjE conjE bexE exE)
  fix b d assume "b \<in> set W" "cos w b = Some d" "co_fd d = fd"
  then show ?thesis by (rule sched_wait_busy_fd [OF assms(1-3)])
qed (simp_all add: sched_wait_faults [OF assms(2)])

text \<open>An event on a descriptor that no coroutine waits for is a null-pointer write: the test
  \<open>if (co != NULL)\<close> comes after, or guards only a part of, the writes to \<open>co\<close> in \<open>nty_schedule_search_wait\<close> and
  \<open>nty_schedule_desched_wait\<close>.\<close>

lemma wait_unknown_fd_faults:
  assumes "wait_ok w W" "\<forall>a \<in> set W. \<forall>c. cos w a = Some c \<longrightarrow> co_fd c \<noteq> fd"
  shows "nty_schedule_search_wait w fd = None \<and> nty_schedule_desched_wait w fd = None"
  using wait_missing [OF assms] by simp

text \<open>The status of a coroutine that waits: for reading no bit is set, for writing the bit of
  \<open>NTY_COROUTINE_STATUS_WAIT_READ\<close>; the bit of \<open>NTY_COROUTINE_STATUS_WAIT_WRITE\<close> is set in neither case.\<close>

lemma wait_status_bits:
  assumes "wait_ok w W" "cos w a = Some c" "sched w = Some s" "no_wait_bits (co_status c)"
    "events AND POLLIN \<noteq> 0 \<or> events AND POLLOUT \<noteq> 0" "a \<notin> set W"
    "\<forall>b \<in> set W. \<forall>d. cos w b = Some d \<longrightarrow> co_fd d \<noteq> fd"
  shows "\<exists>w' d. nty_schedule_sched_wait K w (Some a) fd events 1 = Some w' \<and> cos w' a = Some d \<and>
    has (co_status d) NTY_COROUTINE_STATUS_WAIT_READ = (events AND POLLIN = 0) \<and>
    \<not> has (co_status d) NTY_COROUTINE_STATUS_WAIT_WRITE"
  using sched_wait_step [OF assms, of K 1] assms(4) by (auto simp: armed_def no_wait_bits_def)

text \<open>A stale wake-up time evicts another sleeper: \<open>nty_schedule_sched_sleepdown\<close> looks the coroutine up by
  its old \<open>sleep_usecs\<close>; when the coroutine is not in the tree and another one has that time, the other one
  is removed, and with a time of 0 (as \<open>nty_schedule_sched_wait\<close> passes on) nothing is inserted.\<close>

lemma sleepdown_evicts:
  assumes "sleep_ok w S" "cos w a = Some c" "a \<notin> set S" "b \<in> set S" "cos w b = Some d"
    "co_sleep_usecs c = co_sleep_usecs d" "sched w = Some s"
  shows "\<exists>w'. nty_schedule_sched_sleepdown K w (Some a) 0 = Some w' \<and> sleep_ok w' (remove1 b S)"
proof -
  have ok: "rb_holds (sleeping w) S" "ordered (sleep_key w) S" using assms(1) by (auto simp: sleep_ok_def)
  have "sleep_key w b = uint (co_sleep_usecs c)" using assms(5,6) by (simp add: sleep_key_def)
  then have find: "RB_FIND (sleep_cmp w c) (sleeping w) = Some (Some b)"
    using rb_holds_FIND [OF ok sleep_compares [OF assms(1)]] rb.ordered_find [OF ok(2) assms(4)] by simp
  obtain t where t: "RB_REMOVE (sleeping w) (Some b) = Some (t, Some b)" "sleep_ok (w\<lparr>sleeping := t\<rparr>) (remove1 b S)"
    using sleep_remove [OF assms(1,4)] by blast
  obtain now k where clock: "nty_coroutine_usec_now K (w\<lparr>sleeping := t\<rparr>) = (now, w\<lparr>sleeping := t, kern := k\<rparr>)"
    using usec_now_frame [of K "w\<lparr>sleeping := t\<rparr>"] by (metis surj_pair)
  let ?c = "c\<lparr>co_sleep_usecs := now - sc_birth s\<rparr>"
  have "a \<notin> set (remove1 b S)" using assms(3) set_remove1_subset by fast
  then have "sleep_ok (w\<lparr>sleeping := t, kern := k, cos := (cos w)(a := Some ?c)\<rparr>) (remove1 b S)"
    using sleep_ok_upd [of "w\<lparr>sleeping := t, kern := k\<rparr>" "remove1 b S" a c ?c] t(2) assms(2) by simp
  then show ?thesis
    using assms(2,7) find t(1) clock
    by (simp add: nty_schedule_sched_sleepdown_def nty_coroutine_diff_usecs_def)
qed

end
