(* ===== verification/Coroutine.thy ===== *)
theory Coroutine
  imports Timers
begin

text \<open>
  The poller of \<open>nty_epoll.c\<close>, the creation and destruction of a scheduler (\<open>nty_schedule.c\<close>), and the
  life of a coroutine (\<open>nty_coroutine.c\<close>, the build with \<open>_USE_UCONTEXT\<close>): creation, the shared stack
  that is saved at a yield and restored at a resume, yield, resume, exit and release.

  The code pointers \<open>func\<close> of coroutines index a table \<open>code\<close> of bodies, a parameter.  A saved context
  (\<open>ucontext_t\<close>) is the rest of a computation and a stack pointer; the contexts of all coroutines are a
  map beside the memory, which \<open>nty_coroutine_init\<close> and the switch back at a yield change.
\<close>

subsection \<open>The poller\<close>

definition EPOLLIN :: u32 where "EPOLLIN = 1"

definition nty_epoller_create :: "'k kernel \<Rightarrow> 'k world \<Rightarrow> int \<times> 'k world" where
  "nty_epoller_create K w = (case k_epoll_create K (kern w) 1024 of
     (fd, e, k) \<Rightarrow> (fd, w\<lparr>kern := k, errno := e\<rparr>))"

text \<open>The timeout in milliseconds, \<open>t.tv_sec*1000.0 + t.tv_nsec/1000000.0\<close> truncated to an \<open>int\<close>; the
  conversion of a value that does not fit is undefined.\<close>

definition timespec_ms :: "int \<Rightarrow> int \<Rightarrow> int option" where
  "timespec_ms tv_sec tv_nsec = (let ms = tv_sec * 1000 + tv_nsec div 1000000 in
     if ms < 2 ^ 31 then Some ms else None)"

definition nty_epoller_wait :: "'k kernel \<Rightarrow> 'k world \<Rightarrow> int \<Rightarrow> int \<Rightarrow> (int \<times> 'k world) option" where
  "nty_epoller_wait K w tv_sec tv_nsec = do {
     s \<leftarrow> sched w;
     ms \<leftarrow> timespec_ms tv_sec tv_nsec;
     let (n, evs, e, k) = k_epoll_wait K (kern w) (sc_poller_fd s) NTY_CO_MAX_EVENTS ms;
     w \<leftarrow> upd_sched (w\<lparr>kern := k, errno := e\<rparr>)
            (\<lambda>s. s\<lparr>sc_eventlist := evs @ drop (length evs) (sc_eventlist s)\<rparr>);
     Some (n, w)
   }"

definition nty_epoller_ev_register_trigger :: "'k kernel \<Rightarrow> 'k world \<Rightarrow> 'k world option" where
  "nty_epoller_ev_register_trigger K w = do {
     s \<leftarrow> sched w;
     w \<leftarrow> (if sc_eventfd s = 0 then do {
              let (fd, e, k) = k_eventfd K (kern w);
              c_assert (fd \<noteq> -1);
              upd_sched (w\<lparr>kern := k, errno := e\<rparr>) (\<lambda>s. s\<lparr>sc_eventfd := fd\<rparr>) }
            else Some w);
     s \<leftarrow> sched w;
     let (ret, e, k) = k_epoll_ctl K (kern w) (sc_poller_fd s) EPOLL_CTL_ADD (sc_eventfd s) EPOLLIN;
     c_assert (ret \<noteq> -1);
     Some (w\<lparr>kern := k, errno := e\<rparr>)
   }"

subsection \<open>Scheduler objects\<close>

definition sys_close :: "'k kernel \<Rightarrow> 'k world \<Rightarrow> int \<Rightarrow> int \<times> 'k world" where
  "sys_close K w fd = (case k_close K (kern w) fd of (ret, e, k) \<Rightarrow> (ret, w\<lparr>kern := k, errno := e\<rparr>))"

text \<open>The scheduler structure holds the heads of the queues and the roots of the trees.\<close>

definition calloc_sched :: "'k world \<Rightarrow> 'k world" where
  "calloc_sched w = w\<lparr>sched := Some zero_sched,
     ready := q_alloc (ready w) ready_head True,
     defer_q := q_alloc (defer_q w) defer_head True,
     busy := q_alloc (busy w) busy_head True,
     sleeping := (sleeping w)\<lparr>rbh_root := NULL\<rparr>,
     waiting := (waiting w)\<lparr>rbh_root := NULL\<rparr>\<rparr>"

definition nty_schedule_free :: "'k kernel \<Rightarrow> 'k world \<Rightarrow> 'k world option" where
  "nty_schedule_free K w = do {
     s \<leftarrow> sched w;
     let w = (if sc_poller_fd s > 0 then snd (sys_close K w (sc_poller_fd s)) else w);
     let w = (if sc_eventfd s > 0 then snd (sys_close K w (sc_eventfd s)) else w);
     Some (w\<lparr>sched := None,
       ready := q_alloc (ready w) ready_head False,
       defer_q := q_alloc (defer_q w) defer_head False,
       busy := q_alloc (busy w) busy_head False\<rparr>)
   }"

text \<open>The result is \<open>Some\<close> of the returned value; \<open>None\<close> where control reaches the end of the function
  without a \<open>return\<close>.\<close>

definition nty_schedule_create :: "'k kernel \<Rightarrow> 'k world \<Rightarrow> int \<Rightarrow> (int option \<times> 'k world) option" where
  "nty_schedule_create K w stack_size = do {
     let sched_stack_size = (if stack_size \<noteq> 0 then stack_size else int NTY_CO_MAX_STACKSIZE);
     let (got, k) = k_calloc_sched K (kern w);
     let w = w\<lparr>kern := k\<rparr>;
     if \<not> got then Some (Some (-1), w)
     else do {
       let w = calloc_sched w;
       let (fd, w) = nty_epoller_create K w;
       w \<leftarrow> upd_sched w (\<lambda>s. s\<lparr>sc_poller_fd := fd\<rparr>);
       if fd = -1 then do { w \<leftarrow> nty_schedule_free K w; Some (Some (-2), w) }
       else do {
         w \<leftarrow> nty_epoller_ev_register_trigger K w;
         w \<leftarrow> upd_sched w (\<lambda>s. s\<lparr>sc_stack_size := nat (sched_stack_size mod 2 ^ 64), sc_page_size := k_pagesize K\<rparr>);
         let (block, k) = k_memalign K (kern w) (nat (sched_stack_size mod 2 ^ 64));
         c_assert (block \<noteq> None);
         w \<leftarrow> upd_sched (w\<lparr>kern := k\<rparr>)
           (\<lambda>s. s\<lparr>sc_stack := block, sc_spawned_coroutines := 0, sc_default_timeout := 3000000\<rparr>);
         let w = w\<lparr>sleeping := RB_INIT (sleeping w), waiting := RB_INIT (waiting w)\<rparr>;
         let (now, w) = nty_coroutine_usec_now K w;
         w \<leftarrow> upd_sched w (\<lambda>s. s\<lparr>sc_birth := now\<rparr>);
         r \<leftarrow> TAILQ_INIT (ready w) ready_head;
         d \<leftarrow> TAILQ_INIT (defer_q w) defer_head;
         b \<leftarrow> LIST_INIT (busy w) busy_head;
         Some (None, w\<lparr>ready := r, defer_q := d, busy := b\<rparr>)
       }
     }
   }"

subsection \<open>The shared stack\<close>

text \<open>All coroutines run on the stack of the scheduler.  \<open>sp\<close> is the address of the local \<open>dummy\<close>; the bytes
  from there to the top are what a coroutine has on the stack.  \<open>realloc\<close> gives a block of the new size;
  the bytes past the old contents are overwritten by the \<open>memcpy\<close> that follows.\<close>

definition save_stack :: "'k kernel \<Rightarrow> 'k world \<Rightarrow> ptr \<Rightarrow> 'k world option" where
  "save_stack K w co = do {
     c \<leftarrow> get_co w co;
     s \<leftarrow> sched w;
     stk \<leftarrow> sc_stack s;
     c_assert (sp w \<le> sc_stack_size s);
     let n = sc_stack_size s - sp w;
     c_assert (n \<le> NTY_CO_MAX_STACKSIZE);
     w \<leftarrow> (if co_stack_size c < n then do {
              let (got, k) = k_realloc K (kern w) n;
              c_assert got;
              upd_co (w\<lparr>kern := k\<rparr>) co (\<lambda>c. c\<lparr>co_stack :=
                Some (take n (case co_stack c of None \<Rightarrow> [] | Some b \<Rightarrow> b) @
                      replicate (n - length (case co_stack c of None \<Rightarrow> [] | Some b \<Rightarrow> b)) 0)\<rparr>) }
            else Some w);
     w \<leftarrow> upd_co w co (\<lambda>c. c\<lparr>co_stack_size := n\<rparr>);
     c \<leftarrow> get_co w co;
     b \<leftarrow> co_stack c;
     c_assert (n \<le> length b \<and> sp w + n \<le> length stk);
     upd_co w co (\<lambda>c. c\<lparr>co_stack := Some (take n (drop (sp w) stk) @ drop n b)\<rparr>)
   }"

definition load_stack :: "'k world \<Rightarrow> ptr \<Rightarrow> 'k world option" where
  "load_stack w co = do {
     c \<leftarrow> get_co w co;
     s \<leftarrow> sched w;
     if co_stack_size c = 0 then Some w
     else do {
       stk \<leftarrow> sc_stack s;
       b \<leftarrow> co_stack c;
       c_assert (co_stack_size c \<le> sc_stack_size s \<and> sc_stack_size s \<le> length stk \<and> co_stack_size c \<le> length b);
       let dst = sc_stack_size s - co_stack_size c;
       upd_sched w (\<lambda>s. s\<lparr>sc_stack :=
         Some (take dst stk @ take (co_stack_size c) b @ drop (sc_stack_size s) stk)\<rparr>)
     }
   }"

subsection \<open>Coroutines\<close>

type_synonym 'k code = "nat \<Rightarrow> nat \<Rightarrow> 'k world \<Rightarrow> ('k world, unit) comp"
type_synonym 'k contexts = "addr \<Rightarrow> ('k world \<Rightarrow> ('k world, unit) comp) option"

text \<open>What is left to do of a bare yield: it returns to its caller.\<close>

definition resumed :: "'k world \<Rightarrow> ('k world, unit) comp" where
  "resumed w = Ret () w"

text \<open>\<open>swapcontext\<close> away from the coroutine: the stack pointer and what is left to do are saved; when the
  coroutine is resumed, \<open>nty_coroutine_yield\<close> returns.\<close>

definition nty_coroutine_yield :: "'k kernel \<Rightarrow> 'k world \<Rightarrow> ptr \<Rightarrow> ('k world, unit) comp" where
  "nty_coroutine_yield K w co = (case do {
       w \<leftarrow> upd_co w co (\<lambda>c. c\<lparr>co_ops := 0\<rparr>);
       c \<leftarrow> get_co w co;
       w \<leftarrow> (if \<not> has (co_status c) NTY_COROUTINE_STATUS_EXITED then save_stack K w co else Some w);
       _ \<leftarrow> sched w;
       upd_co w co (\<lambda>c. c\<lparr>co_ctx := sp w\<rparr>)
     } of None \<Rightarrow> Fault | Some w \<Rightarrow> Yield w resumed)"

text \<open>The function every context starts with.\<close>

definition exec :: "'k kernel \<Rightarrow> 'k code \<Rightarrow> ptr \<Rightarrow> 'k world \<Rightarrow> ('k world, unit) comp" where
  "exec K code lt w = (case get_co w lt of None \<Rightarrow> Fault
     | Some c \<Rightarrow> comp_bind (code (co_func c) (co_arg c) w) (\<lambda>_ w.
         comp_bind (lift_opt (upd_co w lt (\<lambda>c. c\<lparr>co_status := co_status c OR
           (BIT NTY_COROUTINE_STATUS_EXITED OR BIT NTY_COROUTINE_STATUS_FDEOF
            OR BIT NTY_COROUTINE_STATUS_DETACH)\<rparr>))) (\<lambda>_ w.
         nty_coroutine_yield K w lt)))"

definition nty_coroutine_free :: "'k world \<Rightarrow> ptr \<Rightarrow> 'k world option" where
  "nty_coroutine_free w co = (case co of None \<Rightarrow> Some w
     | Some a \<Rightarrow> do {
         _ \<leftarrow> get_co w co;
         w \<leftarrow> upd_sched w (\<lambda>s. s\<lparr>sc_spawned_coroutines := sc_spawned_coroutines s - 1\<rparr>);
         Some (free_co w a)
       })"

definition nty_coroutine_init ::
  "'k kernel \<Rightarrow> 'k code \<Rightarrow> 'k world \<times> 'k contexts \<Rightarrow> ptr \<Rightarrow> ('k world \<times> 'k contexts) option" where
  "nty_coroutine_init K code = (\<lambda>(w, cx) co. do {
     a \<leftarrow> co;
     s \<leftarrow> sched w;
     w \<leftarrow> upd_co w co (\<lambda>c. c\<lparr>co_ctx := sc_stack_size s, co_status := BIT NTY_COROUTINE_STATUS_READY\<rparr>);
     Some (w, cx(a := Some (exec K code co)))
   })"

text \<open>\<open>swapcontext\<close> to the coroutine: it runs until it yields or returns, and the context that is left is
  saved.  A body that returns goes on at \<open>uc_link\<close>, the context of the scheduler.\<close>

definition switch_to :: "'k world \<times> 'k contexts \<Rightarrow> ptr \<Rightarrow> ('k world \<times> 'k contexts) option" where
  "switch_to = (\<lambda>(w, cx) co. do {
     a \<leftarrow> co;
     c \<leftarrow> get_co w co;
     k \<leftarrow> cx a;
     (case k (w\<lparr>sp := co_ctx c\<rparr>) of
        Fault \<Rightarrow> None
      | Out_of_fuel \<Rightarrow> None
      | Ret _ w \<Rightarrow> Some (w, cx(a := None))
      | Yield w k' \<Rightarrow> Some (w, cx(a := Some k')))
   })"

definition nty_coroutine_resume ::
  "'k kernel \<Rightarrow> 'k code \<Rightarrow> 'k world \<times> 'k contexts \<Rightarrow> ptr \<Rightarrow> (int \<times> 'k world \<times> 'k contexts) option" where
  "nty_coroutine_resume K code = (\<lambda>(w, cx) co. do {
     c \<leftarrow> get_co w co;
     (w, cx) \<leftarrow> (if has (co_status c) NTY_COROUTINE_STATUS_NEW then nty_coroutine_init K code (w, cx) co
                  else do { w \<leftarrow> load_stack w co; Some (w, cx) });
     w \<leftarrow> upd_sched w (\<lambda>s. s\<lparr>sc_curr_thread := co\<rparr>);
     (w, cx) \<leftarrow> switch_to (w, cx) co;
     w \<leftarrow> upd_sched w (\<lambda>s. s\<lparr>sc_curr_thread := NULL\<rparr>);
     c \<leftarrow> get_co w co;
     if has (co_status c) NTY_COROUTINE_STATUS_EXITED then do {
       w \<leftarrow> (if has (co_status c) NTY_COROUTINE_STATUS_DETACH then nty_coroutine_free w co else Some w);
       Some (-1, w, cx)
     } else Some (0, w, cx)
   })"

definition ready_enqueue :: "'k world \<Rightarrow> ptr \<Rightarrow> 'k world option" where
  "ready_enqueue w co = do {
     _ \<leftarrow> sched w;
     q \<leftarrow> TAILQ_INSERT_TAIL (ready w) ready_head co;
     Some (w\<lparr>ready := q\<rparr>)
   }"

definition nty_coroutine_renice :: "'k kernel \<Rightarrow> 'k world \<Rightarrow> ptr \<Rightarrow> ('k world, unit) comp" where
  "nty_coroutine_renice K w co =
     comp_bind (lift_opt (upd_co w co (\<lambda>c. c\<lparr>co_ops := co_ops c + 1\<rparr>))) (\<lambda>_ w.
       case get_co w co of None \<Rightarrow> Fault
       | Some c \<Rightarrow> if co_ops c < 5 then Ret () w
           else comp_bind (lift_opt (ready_enqueue w co)) (\<lambda>_ w. nty_coroutine_yield K w co))"

definition nty_coroutine_sleep :: "'k kernel \<Rightarrow> 'k world \<Rightarrow> u64 \<Rightarrow> ('k world, unit) comp" where
  "nty_coroutine_sleep K w msecs = (case sched w of None \<Rightarrow> Fault
     | Some s \<Rightarrow>
         if msecs = 0 then comp_bind (lift_opt (ready_enqueue w (sc_curr_thread s)))
           (\<lambda>_ w. nty_coroutine_yield K w (sc_curr_thread s))
         else lift_opt (nty_schedule_sched_sleepdown K w (sc_curr_thread s) msecs))"

definition nty_coroutine_detach :: "'k world \<Rightarrow> 'k world option" where
  "nty_coroutine_detach w = do {
     s \<leftarrow> sched w;
     upd_co w (sc_curr_thread s) (\<lambda>c. c\<lparr>co_status := co_status c OR BIT NTY_COROUTINE_STATUS_DETACH\<rparr>)
   }"

text \<open>The result: the returned code and, on success, the new coroutine (\<open>*new_co\<close>).\<close>

definition nty_coroutine_create ::
  "'k kernel \<Rightarrow> 'k world \<Rightarrow> nat \<Rightarrow> nat \<Rightarrow> ((int \<times> ptr) \<times> 'k world) option" where
  "nty_coroutine_create K w func arg = do {
     w \<leftarrow> (if sched w = None then map_option snd (nty_schedule_create K w 0) else Some w);
     if sched w = None then Some ((-1, NULL), w)
     else do {
       let (co, k) = k_calloc_co K (kern w);
       let w = w\<lparr>kern := k\<rparr>;
       (case co of None \<Rightarrow> Some ((-2, NULL), w)
        | Some a \<Rightarrow> do {
            let w = calloc_co w a;
            s \<leftarrow> sched w;
            w \<leftarrow> upd_co w co (\<lambda>c. c\<lparr>co_stack := None, co_stack_size := 0,
                   co_status := BIT NTY_COROUTINE_STATUS_NEW, co_id := scast (sc_spawned_coroutines s)\<rparr>);
            w \<leftarrow> upd_sched w (\<lambda>s. s\<lparr>sc_spawned_coroutines := sc_spawned_coroutines s + 1\<rparr>);
            w \<leftarrow> upd_co w co (\<lambda>c. c\<lparr>co_func := func, co_fd := -1, co_events := 0, co_arg := arg\<rparr>);
            let (now, w) = nty_coroutine_usec_now K w;
            w \<leftarrow> upd_co w co (\<lambda>c. c\<lparr>co_birth := now\<rparr>);
            w \<leftarrow> ready_enqueue w co;
            Some ((0, co), w)
          })
     }
   }"

subsection \<open>The invariant of the memory\<close>

definition ready_ok :: "'k world \<Rightarrow> addr list \<Rightarrow> bool" where
  "ready_ok w R = (tailq (ready w) ready_head R \<and> entry (ready w) = (\<lambda>a. cos w a \<noteq> None))"

text \<open>\<open>world_ok w S W R\<close>: there is a scheduler, its sleep tree holds \<open>S\<close>, its wait tree \<open>W\<close>, its ready queue \<open>R\<close>.\<close>

definition world_ok :: "'k world \<Rightarrow> addr list \<Rightarrow> addr list \<Rightarrow> addr list \<Rightarrow> bool" where
  "world_ok w S W R = (sched w \<noteq> None \<and> sleep_ok w S \<and> wait_ok w W \<and> ready_ok w R)"

lemma tailq_entry: "tailq h q xs \<Longrightarrow> a \<in> set xs \<Longrightarrow> entry h a"
proof -
  assume "tailq h q xs" "a \<in> set xs"
  then obtain ys zs where "xs = ys @ a # zs" "tailq h q xs" by (auto simp: in_set_conv_decomp)
  then show "entry h a" by (cases zs) (auto simp: tailq_def entry_def)
qed

lemma ready_ok_alive: "ready_ok w R \<Longrightarrow> a \<in> set R \<Longrightarrow> \<exists>c. cos w a = Some c"
  using tailq_entry [of "ready w" ready_head R a] by (auto simp: ready_ok_def)

lemma ready_ok_upd: "ready_ok w R \<Longrightarrow> cos w a = Some c \<Longrightarrow> ready_ok (w\<lparr>cos := (cos w)(a := Some d)\<rparr>) R"
  by (auto simp: ready_ok_def fun_eq_iff)

lemma ready_frame [simp]:
  "ready_ok (w\<lparr>waiting := t\<rparr>) R = ready_ok w R" "ready_ok (w\<lparr>sleeping := t\<rparr>) R = ready_ok w R"
  "ready_ok (w\<lparr>kern := k\<rparr>) R = ready_ok w R" "ready_ok (w\<lparr>sched := s\<rparr>) R = ready_ok w R"
  "ready_ok (w\<lparr>hooks := b\<rparr>) R = ready_ok w R"
  "ready_ok (w\<lparr>sp := n\<rparr>) R = ready_ok w R" "ready_ok (w\<lparr>errno := e\<rparr>) R = ready_ok w R"
  by (simp_all add: ready_ok_def)

lemma world_frame [simp]:
  "world_ok (w\<lparr>kern := k\<rparr>) S W R = world_ok w S W R" "world_ok (w\<lparr>sp := n\<rparr>) S W R = world_ok w S W R"
  "world_ok (w\<lparr>errno := e\<rparr>) S W R = world_ok w S W R" "world_ok (w\<lparr>hooks := b\<rparr>) S W R = world_ok w S W R"
  by (simp_all add: world_ok_def)

lemma world_ok_sched: "world_ok w S W R \<Longrightarrow> world_ok (w\<lparr>sched := Some s\<rparr>) S W R"
  by (simp add: world_ok_def)

text \<open>Writing fields of a coroutine that are not keys keeps the invariant.\<close>

lemma world_ok_upd:
  assumes "world_ok w S W R" "cos w a = Some c" "co_sleep_usecs d = co_sleep_usecs c \<or> a \<notin> set S"
    "co_fd d = co_fd c \<or> a \<notin> set W"
  shows "world_ok (w\<lparr>cos := (cos w)(a := Some d)\<rparr>) S W R"
  using assms sleep_ok_upd [of w S a c d] wait_ok_upd [of w W a c d] ready_ok_upd [of w R a c d]
  by (simp add: world_ok_def)

lemma ready_enqueue_ok:
  assumes "ready_ok w R" "cos w a = Some c" "a \<notin> set R" "sched w = Some s"
  shows "\<exists>q. ready_enqueue w (Some a) = Some (w\<lparr>ready := q\<rparr>) \<and> ready_ok (w\<lparr>ready := q\<rparr>) (R @ [a])"
proof -
  have "tailq (ready w) ready_head R" "entry (ready w) a" using assms by (auto simp: ready_ok_def)
  then obtain q where q: "TAILQ_INSERT_TAIL (ready w) ready_head (Some a) = Some q" "tailq q ready_head (R @ [a])"
    using tq.enq_law assms(3) by blast
  have "entry q = entry (ready w)" using tq.enq_room [OF q(1)] .
  then show ?thesis using q assms by (auto simp: ready_enqueue_def ready_ok_def)
qed

lemma enqueue_world_ok:
  assumes "world_ok w S W R" "cos w a = Some c" "a \<notin> set R"
  shows "\<exists>q. ready_enqueue w (Some a) = Some (w\<lparr>ready := q\<rparr>) \<and> world_ok (w\<lparr>ready := q\<rparr>) S W (R @ [a])"
proof -
  obtain s where "sched w = Some s" using assms(1) by (auto simp: world_ok_def)
  then show ?thesis using ready_enqueue_ok [of w R a c s] assms by (auto simp: world_ok_def)
qed

subsection \<open>Allocation and release\<close>

lemma rb_holds_alloc: "rb_holds h xs \<Longrightarrow> a \<notin> set xs \<Longrightarrow> rb_holds (rb_alloc h a e) xs"
  by (auto simp: rb_holds_def rb_alloc_def rep_def)

lemma allocated_alloc: "allocated (rb_alloc h a e) = (allocated h)(a := (e \<noteq> None))"
  by (auto simp: allocated_def rb_alloc_def)

lemma tailq_alloc:
  assumes "tailq h q xs" "a \<notin> set xs"
  shows "tailq (q_alloc h (Next a) b) q xs"
proof -
  have "endl q xs \<noteq> Next a" using assms by (auto simp: tailq_def)
  then show ?thesis using assms by (auto simp: tailq_def q_alloc_def)
qed

lemma entry_alloc: "entry (q_alloc h (Next a) b) = (entry h)(a := b)"
  by (auto simp: entry_def q_alloc_def fun_eq_iff)

text \<open>Adding a fresh coroutine, or removing one that no container holds.\<close>

lemma world_ok_calloc:
  assumes "world_ok w S W R" "cos w a = None"
  shows "world_ok (calloc_co w a) S W R" "a \<notin> set S" "a \<notin> set W" "a \<notin> set R"
proof -
  show n: "a \<notin> set S" "a \<notin> set W"
    using assms sleep_ok_alive [of w S a] wait_ok_alive [of w W a] by (auto simp: world_ok_def)
  show r: "a \<notin> set R" using assms ready_ok_alive [of w R a] by (auto simp: world_ok_def)
  have "ordered (sleep_key (calloc_co w a)) S = ordered (sleep_key w) S"
    using n by (intro ordered_cong) (auto simp: sleep_key_def calloc_co_def)
  moreover have "ordered (wait_key (calloc_co w a)) W = ordered (wait_key w) W"
    using n by (intro ordered_cong) (auto simp: wait_key_def calloc_co_def)
  ultimately show "world_ok (calloc_co w a) S W R"
    using assms n r
    by (auto simp: world_ok_def sleep_ok_def wait_ok_def ready_ok_def calloc_co_def rb_holds_alloc
        allocated_alloc tailq_alloc entry_alloc fun_eq_iff)
qed

lemma world_ok_free:
  assumes "world_ok w S W R" "a \<notin> set S" "a \<notin> set W" "a \<notin> set R"
  shows "world_ok (free_co w a) S W R"
proof -
  have "ordered (sleep_key (free_co w a)) S = ordered (sleep_key w) S"
    using assms(2) by (intro ordered_cong) (auto simp: sleep_key_def free_co_def)
  moreover have "ordered (wait_key (free_co w a)) W = ordered (wait_key w) W"
    using assms(3) by (intro ordered_cong) (auto simp: wait_key_def free_co_def)
  ultimately show ?thesis
    using assms
    by (auto simp: world_ok_def sleep_ok_def wait_ok_def ready_ok_def free_co_def rb_holds_alloc
        allocated_alloc tailq_alloc entry_alloc fun_eq_iff)
qed

lemma coroutine_free_ok:
  assumes "world_ok w S W R" "cos w a = Some c" "a \<notin> set S" "a \<notin> set W" "a \<notin> set R"
  shows "\<exists>w'. nty_coroutine_free w (Some a) = Some w' \<and> world_ok w' S W R \<and> cos w' = (cos w)(a := None) \<and>
    kern w' = kern w \<and> busy w' = q_alloc (busy w) (Next a) False \<and>
    (\<forall>s. sched w = Some s \<longrightarrow> sched w' = Some (s\<lparr>sc_spawned_coroutines := sc_spawned_coroutines s - 1\<rparr>))"
proof -
  obtain s where "sched w = Some s" using assms(1) by (auto simp: world_ok_def)
  then show ?thesis
    using assms world_ok_free [OF world_ok_sched [OF assms(1)] assms(3-5)]
    by (auto simp: nty_coroutine_free_def free_co_def)
qed

lemma usec_now_at: "\<exists>now k2. \<forall>w. kern w = k \<longrightarrow> nty_coroutine_usec_now K w = (now, w\<lparr>kern := k2\<rparr>)"
  by (cases "k_gettimeofday K k") (auto simp: nty_coroutine_usec_now_def split: prod.splits)

text \<open>A new coroutine is at the end of the ready queue, with the status bit of a new one.\<close>

lemma create_ok:
  assumes "world_ok w S W R" "sched w = Some s" "k_calloc_co K (kern w) = (Some a, k)" "cos w a = None"
  shows "\<exists>w' c. nty_coroutine_create K w func arg = Some ((0, Some a), w') \<and> world_ok w' S W (R @ [a]) \<and>
    cos w' = (cos w)(a := Some c) \<and> co_status c = BIT NTY_COROUTINE_STATUS_NEW \<and> co_func c = func \<and>
    co_arg c = arg \<and> co_fd c = -1 \<and> co_id c = scast (sc_spawned_coroutines s) \<and> co_stack c = None \<and>
    sched w' = Some (s\<lparr>sc_spawned_coroutines := sc_spawned_coroutines s + 1\<rparr>)"
proof -
  let ?v = "calloc_co (w\<lparr>kern := k\<rparr>) a"
  have ok: "world_ok ?v S W R" and new: "a \<notin> set S" "a \<notin> set W" "a \<notin> set R"
    using world_ok_calloc [of "w\<lparr>kern := k\<rparr>" S W R a] assms(1,4) by simp_all
  obtain now k2 where clock: "\<And>w'. kern w' = k \<Longrightarrow> nty_coroutine_usec_now K w' = (now, w'\<lparr>kern := k2\<rparr>)"
    using usec_now_at [of k K] by blast
  let ?c = "zero_co\<lparr>co_stack := None, co_stack_size := 0, co_status := BIT NTY_COROUTINE_STATUS_NEW,
    co_id := scast (sc_spawned_coroutines s), co_func := func, co_fd := -1, co_events := 0, co_arg := arg,
    co_birth := now\<rparr>"
  let ?w = "?v\<lparr>kern := k2, sched := Some (s\<lparr>sc_spawned_coroutines := sc_spawned_coroutines s + 1\<rparr>),
    cos := (cos ?v)(a := Some ?c)\<rparr>"
  have c0: "cos ?v a = Some zero_co" by (simp add: calloc_co_def)
  have ok2: "world_ok (?v\<lparr>kern := k2, sched := Some (s\<lparr>sc_spawned_coroutines := sc_spawned_coroutines s + 1\<rparr>)\<rparr>) S W R"
    using ok by (intro world_ok_sched) simp
  have "world_ok ?w S W R"
    using world_ok_upd [OF ok2, of a zero_co ?c] c0 new by simp
  then obtain q where q: "ready_enqueue ?w (Some a) = Some (?w\<lparr>ready := q\<rparr>)" "world_ok (?w\<lparr>ready := q\<rparr>) S W (R @ [a])"
    using enqueue_world_ok [of ?w S W R a ?c] new by auto
  have "nty_coroutine_create K w func arg = Some ((0, Some a), ?w\<lparr>ready := q\<rparr>)"
    using assms(2,3) clock q(1) by (cases w) (simp add: nty_coroutine_create_def calloc_co_def)
  then show ?thesis using q(2)
    by (intro exI [of _ "?w\<lparr>ready := q\<rparr>"] exI [of _ ?c]) (simp add: calloc_co_def zero_co_def)
qed

subsection \<open>The stack across a yield\<close>

text \<open>The stack of a scheduler is one block of the size it was created with.\<close>

definition stack_ok :: "nty_schedule \<Rightarrow> bool" where
  "stack_ok s = (case sc_stack s of None \<Rightarrow> False | Some stk \<Rightarrow> length stk = sc_stack_size s)"

text \<open>The block of a coroutine is at least as long as its \<open>stack_size\<close> says.\<close>

definition saved_ok :: "nty_coroutine \<Rightarrow> bool" where
  "saved_ok c = (case co_stack c of None \<Rightarrow> co_stack_size c = 0 | Some b \<Rightarrow> co_stack_size c \<le> length b)"

lemma save_stack_ok:
  assumes "cos w a = Some c" "saved_ok c" "sched w = Some s" "stack_ok s" "sc_stack s = Some stk"
    "sp w < sc_stack_size s" "sc_stack_size s - sp w \<le> NTY_CO_MAX_STACKSIZE"
    "\<And>k n. fst (k_realloc K k n)"
  shows "\<exists>k b. save_stack K w (Some a) = Some (w\<lparr>kern := k, cos := (cos w)(a := Some (c\<lparr>co_stack_size := sc_stack_size s - sp w,
      co_stack := Some b\<rparr>))\<rparr>) \<and> take (sc_stack_size s - sp w) b = drop (sp w) stk \<and> sc_stack_size s - sp w \<le> length b \<and>
      (k = kern w \<or> (\<exists>n. k = snd (k_realloc K (kern w) n)))"
proof -
  let ?n = "sc_stack_size s - sp w"
  have len: "length stk = sc_stack_size s" using assms(4,5) by (simp add: stack_ok_def)
  have all: "take ?n (drop (sp w) stk) = drop (sp w) stk" using len by simp
  show ?thesis
  proof (cases "co_stack_size c < ?n")
    case True
    obtain k where k: "k_realloc K (kern w) ?n = (True, k)" using assms(8) by (metis prod.collapse)
    moreover have "\<exists>n. k = snd (k_realloc K (kern w) n)" using k by (metis snd_conv)
    ultimately show ?thesis
      using True assms len all
      by (intro exI [of _ k] exI [of _ "drop (sp w) stk"]) (cases w, auto simp: save_stack_def Let_def c_assert_def min_def)
  next
    case False
    then obtain b where b: "co_stack c = Some b" "?n \<le> length b"
      using assms(2,6) by (auto simp: saved_ok_def split: option.splits)
    show ?thesis
      using False assms len all b
      by (intro exI [of _ "kern w"] exI [of _ "drop (sp w) stk @ drop ?n b"]) (cases w, auto simp: save_stack_def Let_def)
  qed
qed

lemma load_stack_ok:
  assumes "cos w a = Some c" "sched w = Some s" "stack_ok s" "sc_stack s = Some stk"
    "co_stack c = Some b" "co_stack_size c \<le> sc_stack_size s" "co_stack_size c \<le> length b"
  shows "load_stack w (Some a) = Some (w\<lparr>sched := Some (s\<lparr>sc_stack :=
    Some (take (sc_stack_size s - co_stack_size c) stk @ take (co_stack_size c) b)\<rparr>)\<rparr>)"
  using assms by (cases w) (auto simp: load_stack_def stack_ok_def Let_def)

lemma yield_ok:
  assumes "cos w a = Some c" "saved_ok c" "sched w = Some s" "stack_ok s" "sc_stack s = Some stk"
    "sp w < sc_stack_size s" "sc_stack_size s - sp w \<le> NTY_CO_MAX_STACKSIZE"
    "\<And>k n. fst (k_realloc K k n)" "\<not> has (co_status c) NTY_COROUTINE_STATUS_EXITED"
  shows "\<exists>k b. nty_coroutine_yield K w (Some a) = Yield (w\<lparr>kern := k, cos := (cos w)(a := Some (c\<lparr>co_ops := 0,
      co_stack_size := sc_stack_size s - sp w, co_stack := Some b, co_ctx := sp w\<rparr>))\<rparr>) resumed \<and>
    take (sc_stack_size s - sp w) b = drop (sp w) stk \<and> sc_stack_size s - sp w \<le> length b \<and>
    (k = kern w \<or> (\<exists>n. k = snd (k_realloc K (kern w) n)))"
proof -
  let ?w = "w\<lparr>cos := (cos w)(a := Some (c\<lparr>co_ops := 0\<rparr>))\<rparr>"
  have so: "saved_ok (c\<lparr>co_ops := 0\<rparr>)" using assms(2) by (cases "co_stack c") (simp_all add: saved_ok_def)
  obtain k b where b: "save_stack K ?w (Some a) = Some (?w\<lparr>kern := k, cos := (cos ?w)(a := Some (c\<lparr>co_ops := 0,
      co_stack_size := sc_stack_size s - sp ?w, co_stack := Some b\<rparr>))\<rparr>)"
      "take (sc_stack_size s - sp ?w) b = drop (sp ?w) stk" "sc_stack_size s - sp ?w \<le> length b"
      "k = kern ?w \<or> (\<exists>n. k = snd (k_realloc K (kern ?w) n))"
    using save_stack_ok [of ?w a "c\<lparr>co_ops := 0\<rparr>" s stk K] assms so by auto
  then show ?thesis using assms(1,3,9)
    by (intro exI [of _ k] exI [of _ b]) (cases w, simp add: nty_coroutine_yield_def)
qed

lemma yield_exited:
  assumes "cos w a = Some c" "sched w = Some s" "has (co_status c) NTY_COROUTINE_STATUS_EXITED"
  shows "nty_coroutine_yield K w (Some a) = Yield (w\<lparr>cos := (cos w)(a := Some (c\<lparr>co_ops := 0, co_ctx := sp w\<rparr>))\<rparr>)
    resumed"
  using assms by (cases w) (simp add: nty_coroutine_yield_def)

subsection \<open>Running and leaving\<close>

text \<open>The memory a new coroutine starts with.\<close>

definition start_world :: "'k world \<Rightarrow> addr \<Rightarrow> nty_coroutine \<Rightarrow> nty_schedule \<Rightarrow> 'k world" where
  "start_world w a c s = w\<lparr>cos := (cos w)(a := Some (c\<lparr>co_ctx := sc_stack_size s, co_status := BIT NTY_COROUTINE_STATUS_READY\<rparr>)),
     sched := Some (s\<lparr>sc_curr_thread := Some a\<rparr>), sp := sc_stack_size s\<rparr>"

lemma start_world_ok:
  assumes "world_ok w S W R" "cos w a = Some c"
  shows "world_ok (start_world w a c s) S W R"
proof -
  let ?v = "w\<lparr>sched := Some (s\<lparr>sc_curr_thread := Some a\<rparr>), sp := sc_stack_size s\<rparr>"
  have "start_world w a c s = ?v\<lparr>cos := (cos ?v)(a := Some (c\<lparr>co_ctx := sc_stack_size s,
      co_status := BIT NTY_COROUTINE_STATUS_READY\<rparr>))\<rparr>"
    by (cases w) (simp add: start_world_def)
  moreover have "world_ok ?v S W R" using world_ok_sched [OF assms(1)] by simp
  ultimately show ?thesis using world_ok_upd [of ?v S W R a c] assms(2) by simp
qed

text \<open>The coroutine as \<open>_exec\<close> leaves it before its last yield.\<close>

definition exited :: "nty_coroutine \<Rightarrow> nty_coroutine" where
  "exited c = c\<lparr>co_status := co_status c OR (BIT NTY_COROUTINE_STATUS_EXITED OR BIT NTY_COROUTINE_STATUS_FDEOF
     OR BIT NTY_COROUTINE_STATUS_DETACH)\<rparr>"

lemma exited_simps [simp]:
  "has (co_status (exited c)) NTY_COROUTINE_STATUS_EXITED" "has (co_status (exited c)) NTY_COROUTINE_STATUS_DETACH"
  "co_sleep_usecs (exited c) = co_sleep_usecs c" "co_fd (exited c) = co_fd c"
  by (simp_all add: exited_def)

lemma start_world_co: "cos (start_world w a c s) a = Some (c\<lparr>co_ctx := sc_stack_size s, co_status := BIT NTY_COROUTINE_STATUS_READY\<rparr>)"
  by (simp add: start_world_def)

lemma exec_returns:
  "cos w2 a = Some c2 \<Longrightarrow> code (co_func c) (co_arg c) (start_world w a c s) = Ret () w2 \<Longrightarrow>
   exec K code (Some a) (start_world w a c s) =
     nty_coroutine_yield K (w2\<lparr>cos := (cos w2)(a := Some (exited c2))\<rparr>) (Some a)"
  by (simp add: exec_def start_world_co exited_def)

text \<open>A new coroutine whose body returns is gone after one resume: \<open>nty_coroutine_resume\<close> returns -1, its
  memory is freed and nothing else changes.\<close>

text \<open>The memory the scheduler has back after the last yield, before the coroutine is freed.\<close>

definition exit_world :: "'k world \<Rightarrow> addr \<Rightarrow> nty_coroutine \<Rightarrow> nty_schedule \<Rightarrow> 'k world" where
  "exit_world w a c s = w\<lparr>cos := (cos w)(a := Some ((exited c)\<lparr>co_ops := 0, co_ctx := sp w\<rparr>)),
     sched := Some (s\<lparr>sc_curr_thread := NULL\<rparr>)\<rparr>"

lemma resume_exit_free:
  assumes "sched w = Some s" "cos w a = Some c" "has (co_status c) NTY_COROUTINE_STATUS_NEW"
    and body: "code (co_func c) (co_arg c) (start_world w a c s) = Ret () w2"
    and w2: "cos w2 a = Some c2" "sched w2 = Some s2"
    and free: "nty_coroutine_free (exit_world w2 a c2 s2) (Some a) = Some w'"
  shows "nty_coroutine_resume K code (w, cx) (Some a) = Some (-1, w', cx(a := Some resumed))"
proof -
  let ?d = "exited c2"
  let ?u = "w2\<lparr>cos := (cos w2)(a := Some (?d\<lparr>co_ops := 0, co_ctx := sp w2\<rparr>))\<rparr>"
  have "nty_coroutine_yield K (w2\<lparr>cos := (cos w2)(a := Some ?d)\<rparr>) (Some a) = Yield ?u resumed"
    using w2(2) by (subst yield_exited [of "w2\<lparr>cos := (cos w2)(a := Some ?d)\<rparr>" a ?d s2 K]) simp_all
  then have ex: "exec K code (Some a) (start_world w a c s) = Yield ?u resumed"
    using exec_returns [of w2 a c2 code c w s K] w2(1) body by (simp only:)
  have init: "nty_coroutine_init K code (w, cx) (Some a) =
      Some (w\<lparr>cos := (cos w)(a := Some (c\<lparr>co_ctx := sc_stack_size s, co_status := BIT NTY_COROUTINE_STATUS_READY\<rparr>))\<rparr>,
        cx(a := Some (exec K code (Some a))))"
    using assms(1,2) by (simp add: nty_coroutine_init_def)
  have sw: "switch_to (w\<lparr>cos := (cos w)(a := Some (c\<lparr>co_ctx := sc_stack_size s, co_status := BIT NTY_COROUTINE_STATUS_READY\<rparr>)),
        sched := Some (s\<lparr>sc_curr_thread := Some a\<rparr>)\<rparr>, cx(a := Some (exec K code (Some a)))) (Some a) =
      Some (?u, cx(a := Some resumed))"
    using ex by (simp add: switch_to_def start_world_def)
  show ?thesis
    using assms(1-3) init sw w2(2) free by (simp add: nty_coroutine_resume_def exit_world_def)
qed

lemma resume_exit:
  assumes "sched w = Some s" "cos w a = Some c" "has (co_status c) NTY_COROUTINE_STATUS_NEW"
    and body: "code (co_func c) (co_arg c) (start_world w a c s) = Ret () w2"
    and w2: "world_ok w2 S W R" "cos w2 a = Some c2" "a \<notin> set S" "a \<notin> set W" "a \<notin> set R"
  shows "\<exists>w' cx'. nty_coroutine_resume K code (w, cx) (Some a) = Some (-1, w', cx') \<and>
    world_ok w' S W R \<and> cos w' = (cos w2)(a := None) \<and> kern w' = kern w2 \<and>
    busy w' = q_alloc (busy w2) (Next a) False \<and> (\<forall>s2. sched w2 = Some s2 \<longrightarrow>
      sched w' = Some (s2\<lparr>sc_curr_thread := NULL, sc_spawned_coroutines := sc_spawned_coroutines s2 - 1\<rparr>))"
proof -
  obtain s2 where s2: "sched w2 = Some s2" using w2(1) by (auto simp: world_ok_def)
  have "world_ok (exit_world w2 a c2 s2) S W R"
    using world_ok_sched [OF world_ok_upd [OF w2(1,2)]] by (simp add: exit_world_def)
  then obtain w' where w': "nty_coroutine_free (exit_world w2 a c2 s2) (Some a) = Some w'" "world_ok w' S W R"
      "cos w' = (cos w2)(a := None)" "kern w' = kern w2" "busy w' = q_alloc (busy w2) (Next a) False"
      "sched w' = Some (s2\<lparr>sc_curr_thread := NULL, sc_spawned_coroutines := sc_spawned_coroutines s2 - 1\<rparr>)"
    using coroutine_free_ok [of "exit_world w2 a c2 s2" S W R a] w2(3-5) by (auto simp: exit_world_def)
  then show ?thesis
    using resume_exit_free [of w s a c code w2 c2 s2 w' K cx] assms(1-3) body w2(2) s2 by auto
qed

subsection \<open>Creating a scheduler\<close>

text \<open>The field maps of a thread without a scheduler agree on what is allocated.\<close>

definition maps_ok :: "'k world \<Rightarrow> bool" where
  "maps_ok w = (allocated (sleeping w) = (\<lambda>a. cos w a \<noteq> None) \<and> allocated (waiting w) = (\<lambda>a. cos w a \<noteq> None) \<and>
     entry (ready w) = (\<lambda>a. cos w a \<noteq> None))"

text \<open>A kernel that has memory, descriptors and an \<open>epoll\<close> that works.\<close>

definition kernel_ok :: "'k kernel \<Rightarrow> bool" where
  "kernel_ok K = ((\<forall>k. fst (k_calloc_sched K k)) \<and> (\<forall>k n. fst (k_epoll_create K k n) \<noteq> -1) \<and>
     (\<forall>k. fst (k_eventfd K k) \<noteq> -1) \<and> (\<forall>k ep oper fd ev. fst (k_epoll_ctl K k ep oper fd ev) \<noteq> -1) \<and>
     (\<forall>k n. \<exists>b. fst (k_memalign K k n) = Some b \<and> length b = n))"

lemma register_trigger_ok:
  assumes "kernel_ok K" "sched w = Some s"
  shows "\<exists>k e fd. nty_epoller_ev_register_trigger K w = Some (w\<lparr>sched := Some (s\<lparr>sc_eventfd := fd\<rparr>), kern := k, errno := e\<rparr>)"
proof -
  obtain fd e1 k1 where ev: "k_eventfd K (kern w) = (fd, e1, k1)" "fd \<noteq> -1"
    using assms(1) unfolding kernel_ok_def by (metis fst_conv prod_cases3)
  have ctl: "\<exists>r e k. k_epoll_ctl K k0 ep EPOLL_CTL_ADD f EPOLLIN = (r, e, k) \<and> r \<noteq> -1" for k0 ep f
    using assms(1) unfolding kernel_ok_def by (metis fst_conv prod_cases3)
  show ?thesis
  proof (cases "sc_eventfd s = 0")
    case True
    obtain r e k where "k_epoll_ctl K k1 (sc_poller_fd s) EPOLL_CTL_ADD fd EPOLLIN = (r, e, k)" "r \<noteq> -1"
      using ctl by blast
    then show ?thesis using True ev assms(2)
      by (intro exI [of _ k] exI [of _ e] exI [of _ fd]) (cases w, simp add: nty_epoller_ev_register_trigger_def)
  next
    case False
    obtain r e k where "k_epoll_ctl K (kern w) (sc_poller_fd s) EPOLL_CTL_ADD (sc_eventfd s) EPOLLIN = (r, e, k)" "r \<noteq> -1"
      using ctl by blast
    then show ?thesis using False assms(2)
      by (intro exI [of _ k] exI [of _ e] exI [of _ "sc_eventfd s"]) (cases w, simp add: nty_epoller_ev_register_trigger_def)
  qed
qed

lemma empty_world_ok:
  assumes "maps_ok w" "sched w \<noteq> None" "tailq (ready w) ready_head []"
    "rbh_root (sleeping w) = NULL" "rbh_root (waiting w) = NULL"
  shows "world_ok w [] [] []"
proof -
  have "rb_holds h []" if "rbh_root h = NULL" for h
    using that by (auto simp: rb_holds_def rep_def is_rbt_def intro!: exI [of _ Leaf])
  then show ?thesis using assms by (simp add: world_ok_def sleep_ok_def wait_ok_def ready_ok_def maps_ok_def)
qed

lemma entry_head [simp]: "entry (q_alloc h (Head i) b) = entry h"
  by (auto simp: entry_def q_alloc_def fun_eq_iff)

lemma INIT_heads:
  "\<exists>q. TAILQ_INIT (q_alloc h (Head i) True) (Head i) = Some q \<and> tailq q (Head i) [] \<and> entry q = entry h"
  "\<exists>q. LIST_INIT (q_alloc h (Head i) True) (Head i) = Some q \<and> dlist q (Head i) []"
  by (auto simp: TAILQ_INIT_def LIST_INIT_def tailq_def dlist_defs q_alloc_def entry_def fun_eq_iff)

lemma schedule_create_ok:
  assumes "kernel_ok K" "maps_ok w"
  shows "\<exists>w' s. nty_schedule_create K w 0 = Some (None, w') \<and> world_ok w' [] [] [] \<and> sched w' = Some s \<and>
    sc_stack_size s = NTY_CO_MAX_STACKSIZE \<and> stack_ok s \<and> sc_default_timeout s = 3000000 \<and>
    sc_spawned_coroutines s = 0 \<and> sc_curr_thread s = NULL \<and> cos w' = cos w \<and> dlist (busy w') busy_head []"
proof -
  let ?n = "NTY_CO_MAX_STACKSIZE"
  obtain k1 where k1: "k_calloc_sched K (kern w) = (True, k1)"
    using assms(1) unfolding kernel_ok_def by (metis prod.collapse)
  obtain fd e2 k2 where k2: "k_epoll_create K k1 1024 = (fd, e2, k2)" "fd \<noteq> -1"
    using assms(1) unfolding kernel_ok_def by (metis fst_conv prod_cases3)
  define s1 where "s1 = zero_sched\<lparr>sc_poller_fd := fd\<rparr>"
  define w1 where "w1 = (calloc_sched (w\<lparr>kern := k1\<rparr>))\<lparr>kern := k2, errno := e2, sched := Some s1\<rparr>"
  obtain k3 e3 efd where k3: "nty_epoller_ev_register_trigger K w1 =
      Some (w1\<lparr>sched := Some (s1\<lparr>sc_eventfd := efd\<rparr>), kern := k3, errno := e3\<rparr>)"
    using register_trigger_ok [OF assms(1), of w1 s1] by (auto simp: w1_def)
  obtain b k4 where k4: "k_memalign K k3 ?n = (Some b, k4)" "length b = ?n"
    using assms(1) unfolding kernel_ok_def by (metis prod.collapse)
  obtain now k5 where k5: "\<And>v. kern v = k4 \<Longrightarrow> nty_coroutine_usec_now K v = (now, v\<lparr>kern := k5\<rparr>)"
    using usec_now_at [of k4 K] by blast
  obtain r d u where q: "TAILQ_INIT (q_alloc (ready w) ready_head True) ready_head = Some r" "tailq r ready_head []"
      "entry r = entry (ready w)" "TAILQ_INIT (q_alloc (defer_q w) defer_head True) defer_head = Some d"
      "LIST_INIT (q_alloc (busy w) busy_head True) busy_head = Some u" "dlist u busy_head []"
    using INIT_heads by metis
  let ?s = "s1\<lparr>sc_eventfd := efd, sc_stack_size := ?n, sc_page_size := k_pagesize K, sc_stack := Some b,
    sc_spawned_coroutines := 0, sc_default_timeout := 3000000, sc_birth := now\<rparr>"
  let ?w = "w\<lparr>sched := Some ?s, sleeping := RB_INIT (sleeping w), waiting := RB_INIT (waiting w), kern := k5, errno := e3,
    ready := r, defer_q := d, busy := u\<rparr>"
  have size: "nat (int ?n mod 2 ^ 64) = ?n" by (simp add: NTY_CO_MAX_STACKSIZE_def)
  have "nty_schedule_create K w 0 = Some (None, ?w)"
  proof -
    have ep: "nty_epoller_create K (calloc_sched (w\<lparr>kern := k1\<rparr>)) =
        (fd, (calloc_sched (w\<lparr>kern := k1\<rparr>))\<lparr>kern := k2, errno := e2\<rparr>)"
      using k2(1) by (simp add: nty_epoller_create_def calloc_sched_def)
    have up: "upd_sched ((calloc_sched (w\<lparr>kern := k1\<rparr>))\<lparr>kern := k2, errno := e2\<rparr>) (\<lambda>s. s\<lparr>sc_poller_fd := fd\<rparr>) = Some w1"
      by (simp add: w1_def s1_def calloc_sched_def)
    show ?thesis
      unfolding nty_schedule_create_def
      using k1 k2(2) ep up k3 k4 k5 q(1,4,5) size
      by (cases w) (simp add: Let_def w1_def calloc_sched_def RB_INIT_def)
  qed
  moreover have "world_ok ?w [] [] []"
    using assms(2) q(2,3) by (intro empty_world_ok) (simp_all add: maps_ok_def RB_INIT_def allocated_def)
  ultimately show ?thesis
    using k4(2) q(6)
    by (intro exI [of _ ?w] exI [of _ ?s]) (simp add: stack_ok_def s1_def zero_sched_def)
qed

subsection \<open>Properties of coroutines\<close>

lemma demo_world_ok: "world_ok demo_world [] [] []"
  using demo_sleep_ok demo_memory by (auto simp: world_ok_def ready_ok_def demo_world_def)

lemma demo_kernel_ok: "kernel_ok demo_kernel"
  by (simp add: kernel_ok_def demo_kernel_def)

text \<open>\<open>nty_coroutine_create\<close> on a thread without a scheduler creates one first; when there is no memory for
  it, it returns -1 and the thread has no scheduler still, and when there is no memory for the coroutine it
  returns -2.\<close>

lemma create_without_sched:
  assumes "sched w = None" "maps_ok w"
  shows "(k_calloc_sched K (kern w) = (False, k) \<longrightarrow>
      nty_coroutine_create K w func arg = Some ((-1, NULL), w\<lparr>kern := k\<rparr>)) \<and>
    (kernel_ok K \<longrightarrow> (\<exists>w1. nty_schedule_create K w 0 = Some (None, w1) \<and> world_ok w1 [] [] [] \<and> cos w1 = cos w \<and>
      (\<forall>k'. k_calloc_co K (kern w1) = (NULL, k') \<longrightarrow>
        nty_coroutine_create K w func arg = Some ((-2, NULL), w1\<lparr>kern := k'\<rparr>)) \<and>
      (\<forall>a k'. k_calloc_co K (kern w1) = (Some a, k') \<longrightarrow> cos w a = None \<longrightarrow>
        (\<exists>w2. nty_coroutine_create K w func arg = Some ((0, Some a), w2) \<and> world_ok w2 [] [] [a]))))"
proof (intro conjI impI)
  assume "k_calloc_sched K (kern w) = (False, k)"
  then show "nty_coroutine_create K w func arg = Some ((-1, NULL), w\<lparr>kern := k\<rparr>)"
    using assms(1) by (simp add: nty_coroutine_create_def nty_schedule_create_def)
next
  assume K: "kernel_ok K"
  obtain w1 s where w1: "nty_schedule_create K w 0 = Some (None, w1)" "world_ok w1 [] [] []" "sched w1 = Some s"
      "cos w1 = cos w"
    using schedule_create_ok [OF K assms(2)] by blast
  have same: "nty_coroutine_create K w func arg = nty_coroutine_create K w1 func arg"
    using assms(1) w1(1,3) by (simp add: nty_coroutine_create_def)
  have "nty_coroutine_create K w1 func arg = Some ((-2, NULL), w1\<lparr>kern := k'\<rparr>)"
    if "k_calloc_co K (kern w1) = (NULL, k')" for k'
    using that w1(3) by (simp add: nty_coroutine_create_def)
  moreover have "\<exists>w2. nty_coroutine_create K w1 func arg = Some ((0, Some a), w2) \<and> world_ok w2 [] [] [a]"
    if "k_calloc_co K (kern w1) = (Some a, k')" "cos w a = None" for a k'
    using create_ok [OF w1(2,3) that(1)] that(2) w1(4) by auto
  ultimately show "\<exists>w1. nty_schedule_create K w 0 = Some (None, w1) \<and> world_ok w1 [] [] [] \<and> cos w1 = cos w \<and>
      (\<forall>k'. k_calloc_co K (kern w1) = (NULL, k') \<longrightarrow>
        nty_coroutine_create K w func arg = Some ((-2, NULL), w1\<lparr>kern := k'\<rparr>)) \<and>
      (\<forall>a k'. k_calloc_co K (kern w1) = (Some a, k') \<longrightarrow> cos w a = None \<longrightarrow>
        (\<exists>w2. nty_coroutine_create K w func arg = Some ((0, Some a), w2) \<and> world_ok w2 [] [] [a]))"
    using w1 same by auto
qed

text \<open>C1.  The shared stack: a coroutine that yields and is resumed goes on with its stack.  Whatever the coroutines that ran in
  between left on the stack, \<open>nty_coroutine_resume\<close> continues what was suspended in a memory where the bytes from the
  stack pointer to the top are those of the yield, the stack pointer is that of the yield, the bytes below it are
  what the others left, and the coroutine is the current one; it returns 0 when the coroutine yields again.\<close>

theorem stack_survives_yield:
  assumes "cos w a = Some c" "saved_ok c" "sched w = Some s" "stack_ok s" "sc_stack s = Some stk"
    "sp w < sc_stack_size s" "sc_stack_size s - sp w \<le> NTY_CO_MAX_STACKSIZE"
    "\<And>k n. fst (k_realloc K k n)" "\<not> has (co_status c) NTY_COROUTINE_STATUS_EXITED" "\<not> has (co_status c) NTY_COROUTINE_STATUS_NEW"
  shows "\<exists>w1 k. nty_coroutine_yield K w (Some a) = Yield w1 k \<and>
    (\<forall>w2 s2 stk2. cos w2 a = cos w1 a \<longrightarrow> sched w2 = Some s2 \<longrightarrow> sc_stack s2 = Some stk2 \<longrightarrow> stack_ok s2 \<longrightarrow>
       sc_stack_size s2 = sc_stack_size s \<longrightarrow>
       (\<exists>v s3. sched v = Some s3 \<and> sc_stack s3 = Some (take (sp w) stk2 @ drop (sp w) stk) \<and> sp v = sp w \<and>
          sc_curr_thread s3 = Some a \<and> cos v = cos w2 \<and> kern v = kern w2 \<and>
          (\<forall>code cx m u k' s4 c4. cx a = Some m \<longrightarrow> m v = Yield u k' \<longrightarrow> sched u = Some s4 \<longrightarrow> cos u a = Some c4 \<longrightarrow>
             \<not> has (co_status c4) NTY_COROUTINE_STATUS_EXITED \<longrightarrow>
             nty_coroutine_resume K code (w2, cx) (Some a) =
               Some (0, u\<lparr>sched := Some (s4\<lparr>sc_curr_thread := NULL\<rparr>)\<rparr>, cx(a := Some k')))))"
proof -
  obtain k b where y: "nty_coroutine_yield K w (Some a) = Yield (w\<lparr>kern := k, cos := (cos w)(a := Some (c\<lparr>co_ops := 0,
      co_stack_size := sc_stack_size s - sp w, co_stack := Some b, co_ctx := sp w\<rparr>))\<rparr>) resumed"
      "take (sc_stack_size s - sp w) b = drop (sp w) stk" "sc_stack_size s - sp w \<le> length b"
    using yield_ok [OF assms(1-9)] by blast
  let ?c = "c\<lparr>co_ops := 0, co_stack_size := sc_stack_size s - sp w, co_stack := Some b, co_ctx := sp w\<rparr>"
  have "\<exists>v s3. sched v = Some s3 \<and> sc_stack s3 = Some (take (sp w) stk2 @ drop (sp w) stk) \<and> sp v = sp w \<and>
      sc_curr_thread s3 = Some a \<and> cos v = cos w2 \<and> kern v = kern w2 \<and>
      (\<forall>code cx m u k' s4 c4. cx a = Some m \<longrightarrow> m v = Yield u k' \<longrightarrow> sched u = Some s4 \<longrightarrow> cos u a = Some c4 \<longrightarrow>
         \<not> has (co_status c4) NTY_COROUTINE_STATUS_EXITED \<longrightarrow>
         nty_coroutine_resume K code (w2, cx) (Some a) =
           Some (0, u\<lparr>sched := Some (s4\<lparr>sc_curr_thread := NULL\<rparr>)\<rparr>, cx(a := Some k')))"
    if w2: "cos w2 a = Some ?c" "sched w2 = Some s2" "sc_stack s2 = Some stk2" "stack_ok s2"
      "sc_stack_size s2 = sc_stack_size s" for w2 s2 stk2
  proof -
    let ?s = "s2\<lparr>sc_stack := Some (take (sp w) stk2 @ drop (sp w) stk)\<rparr>"
    have load: "load_stack w2 (Some a) = Some (w2\<lparr>sched := Some ?s\<rparr>)"
      using load_stack_ok [OF w2(1,2,4,3), of b] w2(5) y(2,3) assms(6) by simp
    let ?v = "w2\<lparr>sched := Some (?s\<lparr>sc_curr_thread := Some a\<rparr>), sp := sp w\<rparr>"
    have "nty_coroutine_resume K code (w2, cx) (Some a) = Some (0, u\<lparr>sched := Some (s4\<lparr>sc_curr_thread := NULL\<rparr>)\<rparr>, cx(a := Some k'))"
      if "cx a = Some m" "m ?v = Yield u k'" "sched u = Some s4" "cos u a = Some c4" "\<not> has (co_status c4) NTY_COROUTINE_STATUS_EXITED"
      for code cx m u k' s4 c4
      using that w2(1) load assms(10) by (simp add: nty_coroutine_resume_def switch_to_def)
    then show ?thesis by (intro exI [of _ ?v] exI [of _ "?s\<lparr>sc_curr_thread := Some a\<rparr>"]) simp
  qed
  then show ?thesis using y(1) by fastforce
qed

text \<open>In the witness the others have overwritten the whole stack; the suspended computation yields what it sees.\<close>

theorem stack_survives_yield_witness:
  "\<exists>w1 k w3 cx s3. nty_coroutine_yield demo_kernel (demo_world\<lparr>cos := [1 \<mapsto> demo_co\<lparr>co_status := BIT NTY_COROUTINE_STATUS_READY\<rparr>]\<rparr>) (Some 1) = Yield w1 k \<and>
    nty_coroutine_resume demo_kernel (\<lambda>f x w. Ret () w)
      (w1\<lparr>sched := Some (demo_sched\<lparr>sc_stack := Some [9, 9, 9, 9]\<rparr>)\<rparr>, [1 \<mapsto> \<lambda>v. Yield v resumed]) (Some 1) = Some (0, w3, cx) \<and>
    sched w3 = Some s3 \<and> sc_stack s3 = Some [9, 9, 3, 4] \<and> sp w3 = 2"
proof -
  let ?c = "demo_co\<lparr>co_status := BIT NTY_COROUTINE_STATUS_READY\<rparr>" and ?w = "demo_world\<lparr>cos := [1 \<mapsto> demo_co\<lparr>co_status := BIT NTY_COROUTINE_STATUS_READY\<rparr>]\<rparr>"
  let ?s = "demo_sched\<lparr>sc_stack := Some [9, 9, 9, 9]\<rparr>"
  have w: "cos ?w 1 = Some ?c" "saved_ok ?c" "sched ?w = Some demo_sched" "stack_ok demo_sched" "sc_stack demo_sched = Some [1, 2, 3, 4]"
      "sp ?w = 2" "sc_stack_size demo_sched = 4" "4 \<le> NTY_CO_MAX_STACKSIZE" "fst (k_realloc demo_kernel k n)" "stack_ok ?s" for k n
    by (simp_all add: demo_world_def demo_co_def demo_sched_def saved_ok_def stack_ok_def zero_co_def NTY_CO_MAX_STACKSIZE_def demo_kernel_def)
  obtain w1 k where y: "nty_coroutine_yield demo_kernel ?w (Some 1) = Yield w1 k"
    and r: "\<And>w2 s2 stk2. cos w2 1 = cos w1 1 \<Longrightarrow> sched w2 = Some s2 \<Longrightarrow> sc_stack s2 = Some stk2 \<Longrightarrow> stack_ok s2 \<Longrightarrow> sc_stack_size s2 = 4 \<Longrightarrow>
       \<exists>v s3. sched v = Some s3 \<and> sc_stack s3 = Some (take 2 stk2 @ drop 2 [1, 2, 3, 4]) \<and> sp v = 2 \<and>
          sc_curr_thread s3 = Some 1 \<and> cos v = cos w2 \<and> kern v = kern w2 \<and>
          (\<forall>code cx m u k' s4 c4. cx 1 = Some m \<longrightarrow> m v = Yield u k' \<longrightarrow> sched u = Some s4 \<longrightarrow> cos u 1 = Some c4 \<longrightarrow>
             \<not> has (co_status c4) NTY_COROUTINE_STATUS_EXITED \<longrightarrow>
             nty_coroutine_resume demo_kernel code (w2, cx) (Some 1) =
               Some (0, u\<lparr>sched := Some (s4\<lparr>sc_curr_thread := NULL\<rparr>)\<rparr>, cx(1 := Some k')))"
    using stack_survives_yield [of ?w 1 ?c demo_sched "[1, 2, 3, 4]" demo_kernel, OF w(1-5)] w(6-9) by auto
  have "\<exists>d. cos w1 1 = Some d \<and> \<not> has (co_status d) NTY_COROUTINE_STATUS_EXITED"
    using yield_ok [of ?w 1 ?c demo_sched "[1, 2, 3, 4]" demo_kernel, OF w(1-5)] w(6-9) y by auto
  then obtain d where d: "cos w1 1 = Some d" "\<not> has (co_status d) NTY_COROUTINE_STATUS_EXITED" by blast
  let ?w2 = "w1\<lparr>sched := Some ?s\<rparr>" and ?cx = "[1 \<mapsto> \<lambda>v. Yield v resumed]"
  obtain v s3 where v: "sched v = Some s3" "sc_stack s3 = Some [9, 9, 3, 4]" "sp v = 2" "cos v = cos w1"
    and res: "\<And>code cx m u k' s4 c4. cx 1 = Some m \<Longrightarrow> m v = Yield u k' \<Longrightarrow> sched u = Some s4 \<Longrightarrow> cos u 1 = Some c4 \<Longrightarrow>
       \<not> has (co_status c4) NTY_COROUTINE_STATUS_EXITED \<Longrightarrow> nty_coroutine_resume demo_kernel code (?w2, cx) (Some 1) =
         Some (0, u\<lparr>sched := Some (s4\<lparr>sc_curr_thread := NULL\<rparr>)\<rparr>, cx(1 := Some k'))"
    using r [of ?w2 ?s "[9, 9, 9, 9]"] w(7,10) by auto
  have "nty_coroutine_resume demo_kernel (\<lambda>f x w. Ret () w) (?w2, ?cx) (Some 1) =
      Some (0, v\<lparr>sched := Some (s3\<lparr>sc_curr_thread := NULL\<rparr>)\<rparr>, ?cx(1 := Some resumed))"
    using v(1,4) d by (intro res [OF _ _ v(1) _ d(2)]) simp_all
  with y v show ?thesis
    by (intro exI [of _ w1] exI [of _ k] exI [of _ "v\<lparr>sched := Some (s3\<lparr>sc_curr_thread := NULL\<rparr>)\<rparr>"] exI [of _ "?cx(1 := Some resumed)"]
        exI [of _ "s3\<lparr>sc_curr_thread := NULL\<rparr>"] conjI) simp_all
qed

text \<open>\<open>nty_coroutine_renice\<close> gives up the processor at every fifth call since the last yield: before, it
  only counts; then the coroutine goes to the end of the ready queue, its count is reset and it yields.\<close>

lemma renice_fifth:
  assumes "world_ok w S W R" "cos w a = Some c" "a \<notin> set R" "saved_ok c" "sched w = Some s" "stack_ok s"
    "sp w < sc_stack_size s" "sc_stack_size s - sp w \<le> NTY_CO_MAX_STACKSIZE"
    "\<And>k n. fst (k_realloc K k n)" "\<not> has (co_status c) NTY_COROUTINE_STATUS_EXITED"
  shows "if co_ops c + 1 < 5
    then nty_coroutine_renice K w (Some a) = Ret () (w\<lparr>cos := (cos w)(a := Some (c\<lparr>co_ops := co_ops c + 1\<rparr>))\<rparr>)
    else \<exists>w' k d. nty_coroutine_renice K w (Some a) = Yield w' k \<and> world_ok w' S W (R @ [a]) \<and>
      cos w' a = Some d \<and> co_ops d = 0"
proof (cases "co_ops c + 1 < 5")
  case True
  then show ?thesis using assms(2) by (simp add: nty_coroutine_renice_def)
next
  case False
  define d where "d = c\<lparr>co_ops := co_ops c + 1\<rparr>"
  define v where "v = w\<lparr>cos := (cos w)(a := Some d)\<rparr>"
  have d: "saved_ok d" "\<not> has (co_status d) NTY_COROUTINE_STATUS_EXITED" "co_ops d = co_ops c + 1"
    using assms(4,10) by (auto simp: d_def saved_ok_def split: option.splits)
  have vok: "world_ok v S W R" using world_ok_upd [OF assms(1,2)] by (simp add: v_def d_def)
  obtain q where q: "ready_enqueue v (Some a) = Some (v\<lparr>ready := q\<rparr>)" "world_ok (v\<lparr>ready := q\<rparr>) S W (R @ [a])"
    using enqueue_world_ok [OF vok, of a d] assms(3) by (auto simp: v_def)
  define u where "u = v\<lparr>ready := q\<rparr>"
  have u: "cos u a = Some d" "sched u = Some s" "sp u = sp w" "world_ok u S W (R @ [a])"
    using q(2) assms(5) by (simp_all add: u_def v_def)
  obtain stk where stk: "sc_stack s = Some stk" using assms(6) by (auto simp: stack_ok_def split: option.splits)
  obtain k b where y: "nty_coroutine_yield K u (Some a) = Yield (u\<lparr>kern := k, cos := (cos u)(a := Some (d\<lparr>co_ops := 0,
      co_stack_size := sc_stack_size s - sp u, co_stack := Some b, co_ctx := sp u\<rparr>))\<rparr>) resumed"
    using yield_ok [of u a d s stk K] u d stk assms(6-9) by auto
  let ?e = "d\<lparr>co_ops := 0, co_stack_size := sc_stack_size s - sp u, co_stack := Some b, co_ctx := sp u\<rparr>"
  have "world_ok (u\<lparr>kern := k, cos := (cos u)(a := Some ?e)\<rparr>) S W (R @ [a])"
    using world_ok_upd [of "u\<lparr>kern := k\<rparr>" S W "R @ [a]" a d ?e] u by simp
  moreover have "nty_coroutine_renice K w (Some a) = nty_coroutine_yield K u (Some a)"
    using assms(2) False q(1) by (simp add: nty_coroutine_renice_def u_def v_def d_def)
  ultimately show ?thesis using False y by auto
qed

end
