(* ===== verification/Schedule.thy ===== *)
theory Schedule
  imports Coroutine
begin

text \<open>
  The scheduler loop of \<open>nty_schedule.c\<close>: the end test, the call of the poller, and \<open>nty_schedule_run\<close>
  with its three phases (expired sleepers, one round of the ready queue, events of descriptors).  The
  loops are \<open>partial_function (option)\<close>: \<open>None\<close> is a fault or a run that never ends.
\<close>

definition EINTR :: int where "EINTR = 4"
definition ECONNRESET :: int where "ECONNRESET = 104"
definition EPOLLHUP :: u32 where "EPOLLHUP = 16"

definition nty_schedule_isdone :: "'k world \<Rightarrow> bool option" where
  "nty_schedule_isdone w = do {
     _ \<leftarrow> sched w;
     if \<not> RB_EMPTY (waiting w) then Some False
     else do {
       b \<leftarrow> LIST_EMPTY (busy w) busy_head;
       if \<not> b then Some False
       else if \<not> RB_EMPTY (sleeping w) then Some False
       else TAILQ_EMPTY (ready w) ready_head
     }
   }"

text \<open>The loop \<open>while (1)\<close> around \<open>nty_epoller_wait\<close>, which repeats the call when a signal interrupted it.\<close>

partial_function (option) epoll_retry :: "'k kernel \<Rightarrow> 'k world \<Rightarrow> int \<Rightarrow> int \<Rightarrow> (int \<times> 'k world) option" where
  "epoll_retry K w tv_sec tv_nsec = do {
     (nready, w) \<leftarrow> nty_epoller_wait K w tv_sec tv_nsec;
     if nready = -1 then
       (if errno w = EINTR then epoll_retry K w tv_sec tv_nsec else None)
     else Some (nready, w)
   }"

text \<open>The \<open>timespec\<close> for a number of microseconds, as the code computes it.\<close>

definition usecs_timespec :: "u64 \<Rightarrow> int \<times> int" where
  "usecs_timespec usecs = (let tv_sec = usecs div 1000000 in
     (uint tv_sec, if tv_sec \<noteq> 0 then uint ((usecs mod 1000) * 1000) else uint (usecs * 1000)))"

definition nty_schedule_epoll :: "'k kernel \<Rightarrow> 'k world \<Rightarrow> 'k world option" where
  "nty_schedule_epoll K w = do {
     w \<leftarrow> upd_sched w (\<lambda>s. s\<lparr>sc_num_new_events := 0\<rparr>);
     (usecs, w) \<leftarrow> nty_schedule_min_timeout K w;
     e \<leftarrow> (if usecs \<noteq> 0 then TAILQ_EMPTY (ready w) ready_head else Some False);
     if e then do {
       let (tv_sec, tv_nsec) = usecs_timespec usecs;
       (nready, w) \<leftarrow> epoll_retry K w tv_sec tv_nsec;
       upd_sched w (\<lambda>s. s\<lparr>sc_nevents := 0, sc_num_new_events := nready\<rparr>)
     } else Some w
   }"

type_synonym 'k state = "'k world \<times> 'k contexts"

text \<open>Phase 1: \<open>while ((expired = nty_schedule_expired(sched)) != NULL) nty_coroutine_resume(expired)\<close>.\<close>

partial_function (option) run_expired :: "'k kernel \<Rightarrow> 'k code \<Rightarrow> 'k state \<Rightarrow> 'k state option" where
  "run_expired K code st = do {
     (expired, w) \<leftarrow> nty_schedule_expired K (fst st);
     if expired \<noteq> NULL then do {
       (_, st) \<leftarrow> nty_coroutine_resume K code (w, snd st) expired;
       run_expired K code st
     } else Some (w, snd st)
   }"

text \<open>Phase 2: the ready queue, up to the coroutine that was last in it when the phase began.\<close>

partial_function (option) run_ready :: "'k kernel \<Rightarrow> 'k code \<Rightarrow> ptr \<Rightarrow> 'k state \<Rightarrow> 'k state option" where
  "run_ready K code last_co_ready st = do {
     e \<leftarrow> TAILQ_EMPTY (ready (fst st)) ready_head;
     if \<not> e then do {
       co \<leftarrow> TAILQ_FIRST (ready (fst st)) ready_head;
       q \<leftarrow> TAILQ_REMOVE (ready (fst st)) ready_head co;
       let w = (fst st)\<lparr>ready := q\<rparr>;
       c \<leftarrow> get_co w co;
       if has (co_status c) NTY_COROUTINE_STATUS_FDEOF then do {
         w \<leftarrow> nty_coroutine_free w co;
         Some (w, snd st)
       } else do {
         (_, st) \<leftarrow> nty_coroutine_resume K code (w, snd st) co;
         if co = last_co_ready then Some st else run_ready K code last_co_ready st
       }
     } else Some st
   }"

text \<open>The event at an index of \<open>eventlist\<close>, whose entries start as zeroes.\<close>

definition event_at :: "nty_schedule \<Rightarrow> int \<Rightarrow> (int \<times> u32) option" where
  "event_at s idx = (if 0 \<le> idx \<and> idx < NTY_CO_MAX_EVENTS then
     Some (if nat idx < length (sc_eventlist s) then sc_eventlist s ! nat idx else (0, 0)) else None)"

text \<open>Phase 3: the events the poller reported, last to first.\<close>

partial_function (option) run_events :: "'k kernel \<Rightarrow> 'k code \<Rightarrow> 'k state \<Rightarrow> 'k state option" where
  "run_events K code st = do {
     s \<leftarrow> sched (fst st);
     if sc_num_new_events s \<noteq> 0 then do {
       let idx = sc_num_new_events s - 1;
       w \<leftarrow> upd_sched (fst st) (\<lambda>s. s\<lparr>sc_num_new_events := idx\<rparr>);
       (fd, events) \<leftarrow> event_at s idx;
       let is_eof = (events AND EPOLLHUP \<noteq> 0);
       let w = (if is_eof then w\<lparr>errno := ECONNRESET\<rparr> else w);
       (co, w) \<leftarrow> nty_schedule_search_wait w fd;
       st \<leftarrow> (if co \<noteq> NULL then do {
                 w \<leftarrow> (if is_eof then upd_co w co (\<lambda>c. c\<lparr>co_status := co_status c OR BIT NTY_COROUTINE_STATUS_FDEOF\<rparr>)
                        else Some w);
                 (_, st) \<leftarrow> nty_coroutine_resume K code (w, snd st) co;
                 Some st }
               else Some (w, snd st));
       run_events K code st
     } else Some st
   }"

definition run_round :: "'k kernel \<Rightarrow> 'k code \<Rightarrow> 'k state \<Rightarrow> 'k state option" where
  "run_round K code st = do {
     st \<leftarrow> run_expired K code st;
     last_co_ready \<leftarrow> TAILQ_LAST (ready (fst st)) ready_head;
     st \<leftarrow> run_ready K code last_co_ready st;
     w \<leftarrow> nty_schedule_epoll K (fst st);
     run_events K code (w, snd st)
   }"

partial_function (option) run_loop :: "'k kernel \<Rightarrow> 'k code \<Rightarrow> 'k state \<Rightarrow> 'k state option" where
  "run_loop K code st = do {
     d \<leftarrow> nty_schedule_isdone (fst st);
     if \<not> d then do {
       st \<leftarrow> run_round K code st;
       run_loop K code st
     } else Some st
   }"

definition nty_schedule_run :: "'k kernel \<Rightarrow> 'k code \<Rightarrow> 'k state \<Rightarrow> 'k state option" where
  "nty_schedule_run K code st = (if sched (fst st) = None then Some st
     else do {
       st \<leftarrow> run_loop K code st;
       w \<leftarrow> nty_schedule_free K (fst st);
       Some (w, snd st)
     })"

subsection \<open>The end test\<close>

text \<open>The busy list of a scheduler is never filled by the library.\<close>

definition busy_ok :: "'k world \<Rightarrow> addr list \<Rightarrow> bool" where
  "busy_ok w B = dlist (busy w) busy_head B"

lemma isdone_iff:
  assumes "world_ok w S W R" "busy_ok w B"
  shows "nty_schedule_isdone w = Some (W = [] \<and> B = [] \<and> S = [] \<and> R = [])"
proof -
  obtain s where s: "sched w = Some s" using assms(1) by (auto simp: world_ok_def)
  have "RB_EMPTY (waiting w) = (W = [])" "RB_EMPTY (sleeping w) = (S = [])"
    using assms(1) rb_holds_EMPTY by (auto simp: world_ok_def sleep_ok_def wait_ok_def)
  moreover have "LIST_EMPTY (busy w) busy_head = Some (B = [])"
    using assms(2) LIST_EMPTY_dlist by (simp add: busy_ok_def)
  moreover have "TAILQ_EMPTY (ready w) ready_head = Some (R = [])"
    using assms(1) EMPTY_tailq by (auto simp: world_ok_def ready_ok_def)
  ultimately show ?thesis using s by (simp add: nty_schedule_isdone_def)
qed

subsection \<open>The timeout given to the poller\<close>

lemma usecs_timespec_ms:
  "fst (usecs_timespec u) * 1000 + snd (usecs_timespec u) div 1000000 =
   (if uint u < 1000000 then uint u div 1000 else uint u div 1000000 * 1000)"
proof -
  have small: "uint ((u mod 1000) * 1000) div 1000000 = 0"
  proof -
    have "uint (u mod 1000) = uint u mod 1000" by (simp add: uint_mod)
    moreover have "uint ((u mod 1000) * 1000) = uint (u mod 1000) * 1000 mod 2 ^ 64"
      by (simp add: uint_word_arith_bintrs take_bit_eq_mod)
    moreover have "uint u mod 1000 * 1000 mod 2 ^ 64 = uint u mod 1000 * 1000"
    proof (rule mod_pos_pos_trivial)
      have "uint u mod 1000 < 1000" by simp
      then show "uint u mod 1000 * 1000 < 2 ^ 64" by simp
    qed simp
    ultimately have "uint ((u mod 1000) * 1000) = uint u mod 1000 * 1000" by simp
    moreover have "uint u mod 1000 < 1000" "0 \<le> uint u mod 1000" by simp_all
    ultimately show ?thesis by simp
  qed
  have sec: "uint (u div 1000000) = uint u div 1000000" by (simp add: uint_div)
  show ?thesis
  proof (cases "uint u < 1000000")
    case True
    have "u div 1000000 = 0" using sec True by (metis div_pos_pos_trivial uint_0_iff uint_ge_0)
    moreover have "uint (u * 1000) = uint u * 1000"
    proof -
      have "uint (u * 1000) = uint u * 1000 mod 2 ^ 64" by (simp add: uint_word_arith_bintrs take_bit_eq_mod)
      moreover have "uint u * 1000 mod 2 ^ 64 = uint u * 1000" using True by (intro mod_pos_pos_trivial) auto
      ultimately show ?thesis by simp
    qed
    ultimately show ?thesis using True by (simp add: usecs_timespec_def)
  next
    case False
    have "0 < uint u div 1000000" using False by (simp add: pos_imp_zdiv_pos_iff)
    then have "u div 1000000 \<noteq> 0" using sec by auto
    then show ?thesis using False small sec by (simp add: usecs_timespec_def Let_def)
  qed
qed

subsection \<open>One round of the ready queue\<close>

text \<open>The round as it should be: the coroutines of a list are taken out of the queue and resumed, one after
  the other.\<close>

fun resume_all :: "'k kernel \<Rightarrow> 'k code \<Rightarrow> 'k state \<Rightarrow> addr list \<Rightarrow> 'k state option" where
  "resume_all K code st [] = Some st"
| "resume_all K code st (a # as) = do {
     q \<leftarrow> TAILQ_REMOVE (ready (fst st)) ready_head (Some a);
     (_, st) \<leftarrow> nty_coroutine_resume K code ((fst st)\<lparr>ready := q\<rparr>, snd st) (Some a);
     resume_all K code st as
   }"

text \<open>What the bodies must do for it: \<open>Inv st xs ys\<close> is a condition under which the ready queue is
  \<open>xs @ ys\<close> and no coroutine of \<open>xs\<close> has seen the end of its descriptor; a body that is resumed returns
  to the scheduler and leaves the rest of the queue in place, with any number of new coroutines at its
  end.\<close>

definition cooperative ::
  "'k kernel \<Rightarrow> 'k code \<Rightarrow> ('k state \<Rightarrow> addr list \<Rightarrow> addr list \<Rightarrow> bool) \<Rightarrow> bool" where
  "cooperative K code Inv = (\<forall>st a xs ys. Inv st (a # xs) ys \<longrightarrow>
     tailq (ready (fst st)) ready_head (a # xs @ ys) \<and>
     (\<exists>c. cos (fst st) a = Some c \<and> \<not> has (co_status c) NTY_COROUTINE_STATUS_FDEOF) \<and>
     (\<forall>q. TAILQ_REMOVE (ready (fst st)) ready_head (Some a) = Some q \<longrightarrow>
       (\<exists>r st' new. nty_coroutine_resume K code ((fst st)\<lparr>ready := q\<rparr>, snd st) (Some a) = Some (r, st') \<and>
         Inv st' xs (ys @ new))))"

lemma run_ready_fair:
  assumes "cooperative K code Inv" "Inv st as ys" "as \<noteq> []"
  shows "\<exists>st' zs. run_ready K code (Some (last as)) st = Some st' \<and> resume_all K code st as = Some st' \<and>
    Inv st' [] (ys @ zs)"
  using assms(2,3)
proof (induction as arbitrary: st ys)
  case (Cons a as)
  from assms(1) Cons.prems(1) have tq: "tailq (ready (fst st)) ready_head (a # as @ ys)"
    and "\<exists>c. cos (fst st) a = Some c \<and> \<not> has (co_status c) NTY_COROUTINE_STATUS_FDEOF"
    and step: "\<And>q. TAILQ_REMOVE (ready (fst st)) ready_head (Some a) = Some q \<Longrightarrow>
       \<exists>r st' new. nty_coroutine_resume K code ((fst st)\<lparr>ready := q\<rparr>, snd st) (Some a) = Some (r, st') \<and>
         Inv st' as (ys @ new)"
    unfolding cooperative_def by blast+
  then obtain c where c: "cos (fst st) a = Some c" "\<not> has (co_status c) NTY_COROUTINE_STATUS_FDEOF" by blast
  obtain q where q: "TAILQ_REMOVE (ready (fst st)) ready_head (Some a) = Some q"
    using tq.pop_front [OF tq] by blast
  obtain r st1 new where r: "nty_coroutine_resume K code ((fst st)\<lparr>ready := q\<rparr>, snd st) (Some a) = Some (r, st1)"
      "Inv st1 as (ys @ new)"
    using step [OF q] by blast
  have un: "run_ready K code l st = (if Some a = l then Some st1 else run_ready K code l st1)" for l
    using EMPTY_tailq [OF tq] FIRST_tailq [OF tq] q c r(1) by (subst run_ready.simps) simp
  show ?case
  proof (cases "as = []")
    case True
    then show ?thesis using un [of "Some a"] q r by auto
  next
    case False
    have "last as \<in> set as" using False by simp
    moreover have "a \<notin> set as" using tq.queue_distinct [OF tq] by simp
    ultimately have "a \<noteq> last as" by auto
    obtain st' zs where "run_ready K code (Some (last as)) st1 = Some st'" "resume_all K code st1 as = Some st'"
        "Inv st' [] (ys @ new @ zs)"
      using Cons.IH [OF r(2) False] by auto
    then show ?thesis using un [of "Some (last as)"] q r(1) False \<open>a \<noteq> last as\<close> by auto
  qed
qed simp

subsection \<open>Bodies that return at once\<close>

text \<open>New coroutines whose bodies return without touching the memory.\<close>

definition idle_code :: "'k code \<Rightarrow> bool" where
  "idle_code code = (\<forall>f x w. code f x w = Ret () w)"

definition all_new :: "'k world \<Rightarrow> addr list \<Rightarrow> bool" where
  "all_new w R = (\<forall>a \<in> set R. \<exists>c. cos w a = Some c \<and> co_status c = BIT NTY_COROUTINE_STATUS_NEW)"

definition idle_inv :: "addr set \<Rightarrow> 'k state \<Rightarrow> addr list \<Rightarrow> addr list \<Rightarrow> bool" where
  "idle_inv D st xs ys = (ys = [] \<and> world_ok (fst st) [] [] xs \<and> all_new (fst st) xs \<and> busy_ok (fst st) [] \<and>
     (\<forall>a \<in> D - set xs. cos (fst st) a = None) \<and>
     (\<exists>s. sched (fst st) = Some s \<and> sc_default_timeout s = 3000000))"

lemma busy_free: "busy_ok w [] \<Longrightarrow> dlist (q_alloc (busy w) (Next a) False) busy_head []"
  by (simp add: busy_ok_def dlist_defs q_alloc_def)

lemma idle_cooperative:
  assumes "idle_code code"
  shows "cooperative K code (idle_inv D)"
  unfolding cooperative_def
proof (intro allI impI conjI)
  fix st :: "'a state" and a xs ys
  assume inv: "idle_inv D st (a # xs) ys"
  then have ok: "world_ok (fst st) [] [] (a # xs)" and new: "all_new (fst st) (a # xs)"
    and bu: "busy_ok (fst st) []" and ys: "ys = []" and gone: "\<forall>b \<in> D - set (a # xs). cos (fst st) b = None"
    by (auto simp: idle_inv_def)
  show tq: "tailq (ready (fst st)) ready_head (a # xs @ ys)" using ok ys by (simp add: world_ok_def ready_ok_def)
  obtain c where c: "cos (fst st) a = Some c" "co_status c = BIT NTY_COROUTINE_STATUS_NEW"
    using new by (auto simp: all_new_def)
  then show "\<exists>c. cos (fst st) a = Some c \<and> \<not> has (co_status c) NTY_COROUTINE_STATUS_FDEOF" by auto
  fix q assume q: "TAILQ_REMOVE (ready (fst st)) ready_head (Some a) = Some q"
  let ?w = "(fst st)\<lparr>ready := q\<rparr>"
  obtain s where s: "sched ?w = Some s" "sc_default_timeout s = 3000000" using inv by (auto simp: idle_inv_def)
  have "tailq q ready_head xs" using tq.pop_front [OF tq] q ys by auto
  moreover have "entry q = entry (ready (fst st))"
    using TAILQ_cells(2) [OF q] by (auto simp: cells_def entry_def fun_eq_iff)
  ultimately have okq: "world_ok ?w [] [] xs" using ok by (auto simp: world_ok_def ready_ok_def)
  have dist: "a \<notin> set xs" using tq.queue_distinct [OF tq] by simp
  let ?v = "start_world ?w a c s"
  have v: "world_ok ?v [] [] xs" using start_world_ok [OF okq] c(1) by simp
  obtain d where d: "cos ?v a = Some d" by (simp add: start_world_co)
  have body: "code (co_func c) (co_arg c) ?v = Ret () ?v" using assms by (simp add: idle_code_def)
  obtain w' cx' where w': "nty_coroutine_resume K code (?w, snd st) (Some a) = Some (-1, w', cx')"
      "world_ok w' [] [] xs" "cos w' = (cos ?v)(a := None)" "busy w' = q_alloc (busy ?v) (Next a) False"
      "\<forall>t. sched ?v = Some t \<longrightarrow>
        sched w' = Some (t\<lparr>sc_curr_thread := NULL, sc_spawned_coroutines := sc_spawned_coroutines t - 1\<rparr>)"
    using resume_exit [of ?w s a c code ?v "[]" "[]" xs d K "snd st"] s(1) c v d body dist by auto
  have "all_new w' xs"
    using new dist w'(3) by (auto simp: all_new_def start_world_def)
  moreover have "busy_ok w' []" using busy_free [OF bu] w'(4) by (simp add: busy_ok_def start_world_def)
  moreover have "\<forall>b \<in> D - set xs. cos w' b = None" using gone w'(3) by (auto simp: start_world_def)
  moreover have "\<exists>t. sched w' = Some t \<and> sc_default_timeout t = 3000000"
    using w'(5) s(2) by (auto simp: start_world_def)
  ultimately have "idle_inv D (w', cx') xs (ys @ [])" using w'(2) ys by (simp add: idle_inv_def)
  then show "\<exists>r st' new. nty_coroutine_resume K code (?w, snd st) (Some a) = Some (r, st') \<and> idle_inv D st' xs (ys @ new)"
    using w'(1) by blast
qed

text \<open>A poller that reports no event and is not interrupted.\<close>

definition quiet_poller :: "'k kernel \<Rightarrow> bool" where
  "quiet_poller K = (\<forall>k fd n ms. \<exists>evs e k'. k_epoll_wait K k fd n ms = (0, evs, e, k'))"

text \<open>A coroutine that exits while it is in the sleep tree is freed there: the next look at the tree
  reads freed memory.\<close>

lemma minmax_after_free:
  assumes "tree_at m par t" "nodes t = a # xs" "distinct (nodes t)" "rb_node h = m(a := None)"
  shows "RB_MINMAX_loop h (-1) (root_of t) q = None"
  using assms
proof (induction m par t arbitrary: xs q rule: tree_at.induct)
  case (2 m par l b c r)
  show ?case
  proof (cases "nodes l")
    case Nil
    then have "b = a" using "2.prems"(2) by simp
    then show ?thesis using "2.prems"(4) by (subst RB_MINMAX_loop.simps) (simp add: RB_LEFT_def)
  next
    case (Cons x ys)
    then have l: "nodes l = a # ys" "b \<noteq> a" using "2.prems"(2,3) by auto
    have "RB_LEFT h (Some b) = Some (root_of l)" using "2.prems"(1,4) l(2) by (simp add: RB_LEFT_def)
    moreover have "RB_MINMAX_loop h (-1) (root_of l) (Some b) = None"
      using "2.IH"(1) [OF _ l(1)] "2.prems"(1,3,4) by simp
    ultimately show ?thesis by (subst RB_MINMAX_loop.simps) simp
  qed
qed simp

lemma expired_after_free:
  assumes "sleep_ok w (a # S)" "sleeping v = rb_alloc (sleeping w) a None"
  shows "nty_schedule_expired K v = None"
proof -
  obtain T where T: "rep (sleeping w) T" "nodes T = a # S"
    using assms by (auto simp: sleep_ok_def rb_holds_def)
  have "rb_node (sleeping v) = (rb_node (sleeping w))(a := None)" "RB_ROOT (sleeping v) = root_of T"
    using assms(2) T(1) by (simp_all add: rb_alloc_def rep_def RB_ROOT_def)
  then have "RB_MIN (sleeping v) = None"
    using minmax_after_free [OF _ T(2), of "rb_node (sleeping w)" NULL "sleeping v"] T(1) by (simp add: RB_MIN_def RB_MINMAX_def rep_def)
  then show ?thesis
    by (cases "sched v") (simp_all add: nty_schedule_expired_def nty_coroutine_usec_now_def split: prod.splits)
qed

subsection \<open>Properties of the scheduler\<close>

lemma floor_div: "0 < d \<Longrightarrow> 0 \<le> n \<Longrightarrow> 0 \<le> n div d \<and> n div d * d \<le> n \<and> n < (n div d + 1) * d" for n d :: int
proof -
  assume "0 < d" "0 \<le> n"
  then have "0 \<le> n mod d" "n mod d < d" "n div d * d + n mod d = n" "0 \<le> n div d"
    by (auto simp: pos_imp_zdiv_nonneg_iff)
  then show "0 \<le> n div d \<and> n div d * d \<le> n \<and> n < (n div d + 1) * d"
    unfolding distrib_right by linarith
qed

text \<open>The timeout handed to \<open>epoll_wait\<close> for a number of microseconds is never longer than them, so that no
  sleeper is woken late by it; below one second it is exact to the millisecond.\<close>

lemma epoll_timeout_bound:
  assumes "uint u < 2147483648000" "usecs_timespec u = (tv_sec, tv_nsec)"
  shows "\<exists>ms. timespec_ms tv_sec tv_nsec = Some ms \<and> 0 \<le> ms \<and> ms * 1000 \<le> uint u \<and>
    (uint u < 1000000 \<longrightarrow> uint u < (ms + 1) * 1000)"
proof -
  have ms: "tv_sec * 1000 + tv_nsec div 1000000 =
      (if uint u < 1000000 then uint u div 1000 else uint u div 1000000 * 1000)"
    using usecs_timespec_ms [of u] assms(2) by simp
  have pos: "0 \<le> uint u" by simp
  let ?m = "if uint u < 1000000 then uint u div 1000 else uint u div 1000000 * 1000"
  have small: "0 \<le> uint u div 1000" "uint u div 1000 * 1000 \<le> uint u" "uint u < (uint u div 1000 + 1) * 1000"
    using floor_div [of 1000 "uint u"] pos by auto
  have large: "0 \<le> uint u div 1000000" "uint u div 1000000 * 1000000 \<le> uint u"
    using floor_div [of 1000000 "uint u"] pos by auto
  have b: "0 \<le> ?m \<and> ?m * 1000 \<le> uint u \<and> (uint u < 1000000 \<longrightarrow> uint u < (?m + 1) * 1000)"
  proof (cases "uint u < 1000000")
    case True
    then show ?thesis using small by simp
  next
    case False
    then show ?thesis using large by simp
  qed
  then have "?m < 2 ^ 31" using assms(1) by auto
  then have "timespec_ms tv_sec tv_nsec = Some ?m" using ms by (simp add: timespec_ms_def)
  then show ?thesis using b by blast
qed

text \<open>From one second on the fraction of a second is lost: the nanoseconds are computed with
  \<open>usecs % 1000\<close> where \<open>usecs % 1000000\<close> is meant, so that the poller is told whole seconds only.\<close>

lemma epoll_timeout_whole_seconds:
  assumes "1000000 \<le> uint u" "uint u < 2147483648000" "usecs_timespec u = (tv_sec, tv_nsec)"
  shows "timespec_ms tv_sec tv_nsec = Some (uint u div 1000000 * 1000)"
proof -
  have "uint u div 1000000 * 1000 < 2 ^ 31" using assms(2) by simp
  then show ?thesis using usecs_timespec_ms [of u] assms by (simp add: timespec_ms_def)
qed

text \<open>The concrete memory with its coroutine in the ready queue.\<close>

definition demo_ready :: "nat world" where
  "demo_ready = demo_world\<lparr>ready := \<lparr>slot = [Head 0 \<mapsto> Some 1, Next 1 \<mapsto> NULL],
     pslot = [Head 0 \<mapsto> Some (Next 1), Next 1 \<mapsto> Some (Head 0)]\<rparr>\<rparr>"

lemma demo_ready_inv: "idle_inv {1} (demo_ready, Map.empty) [1] []"
proof -
  have "ready_ok demo_ready [1]"
    by (auto simp: ready_ok_def demo_ready_def demo_world_def tailq_def entry_def fun_eq_iff)
  moreover have "sleep_ok demo_ready []" "wait_ok demo_ready []"
    using demo_world_ok by (simp_all add: world_ok_def demo_ready_def)
  moreover have "sched demo_ready = Some demo_sched" using demo_memory by (simp add: demo_ready_def)
  ultimately have "world_ok demo_ready [] [] [1]" by (simp add: world_ok_def)
  then show ?thesis
    using demo_memory(5)
    by (auto simp: idle_inv_def all_new_def busy_ok_def demo_ready_def demo_world_def demo_co_def demo_sched_def)
qed

text \<open>C2.  Fairness of the ready queue: one round resumes exactly the coroutines that were in the queue when it
  began, each once, in their order, whatever they put at the end of the queue meanwhile, and then it ends.
  The bodies have to return to the scheduler and leave the queue in place.\<close>

theorem ready_round_fair:
  assumes "cooperative K code Inv" "Inv st as []" "as \<noteq> []"
  shows "\<exists>st' zs. run_ready K code (Some (last as)) st = Some st' \<and> resume_all K code st as = Some st' \<and> Inv st' [] zs"
  using run_ready_fair [OF assms] by auto

theorem ready_round_fair_witness:
  "\<exists>st'. run_ready demo_kernel (\<lambda>f x w. Ret () w) (Some 1) (demo_ready, Map.empty) = Some st' \<and>
    resume_all demo_kernel (\<lambda>f x w. Ret () w) (demo_ready, Map.empty) [1] = Some st'"
proof -
  have "cooperative demo_kernel (\<lambda>f x w. Ret () w) (idle_inv {1})"
    by (rule idle_cooperative) (simp add: idle_code_def)
  then show ?thesis
    using ready_round_fair [of demo_kernel "\<lambda>f x w. Ret () w" "idle_inv {1}" "(demo_ready, Map.empty)" "[1]"] demo_ready_inv
    by auto
qed

text \<open>C34.  A coroutine that calls \<open>nty_coroutine_sleep\<close> with a positive time and returns is freed while the sleep
  tree still has it: \<open>nty_coroutine_sleep\<close> does not yield, and the resume frees the coroutine, whose address is still one of
  those that the tree links.  If nobody wakes before it, the next look at the tree, \<open>nty_schedule_expired\<close>, reads the
  freed memory.  (No sleeper has the stale wake-up time of the coroutine, which is new.)\<close>

theorem sleep_and_return_faults:
  assumes "world_ok w S W R" "sched w = Some s" "cos w a = Some c" "has (co_status c) NTY_COROUTINE_STATUS_NEW"
    "\<And>v. code (co_func c) (co_arg c) v = nty_coroutine_sleep K v msecs" "msecs \<noteq> 0"
    "a \<notin> set S" "length S < 2 ^ 64" "co_sleep_usecs c \<notin> wake_times w S" "nty_coroutine_usec_now K w = (now, w1)"
  shows "\<exists>w' cx' t S'. nty_coroutine_resume K code (w, cx) (Some a) = Some (-1, w', cx') \<and> cos w' a = None \<and>
    sleeping w' = rb_alloc t a None \<and> rb_holds t S' \<and> set S' = insert a (set S) \<and>
    ((\<forall>b \<in> set S. \<forall>d. cos w b = Some d \<longrightarrow> now - sc_birth s + msecs * 1000 < co_sleep_usecs d) \<longrightarrow>
      nty_schedule_expired K w' = None)"
proof -
  let ?v = "start_world w a c s" and ?at = "now - sc_birth s + msecs * 1000"
  let ?c = "c\<lparr>co_ctx := sc_stack_size s, co_status := BIT NTY_COROUTINE_STATUS_READY\<rparr>"
  have v: "sleep_ok ?v S" using start_world_ok [OF assms(1,3)] by (simp add: world_ok_def)
  have same: "wake_times ?v S = wake_times w S" using assms(7) by (force simp: wake_times_def start_world_def)
  obtain k where k: "w1 = w\<lparr>kern := k\<rparr>" using usec_now_frame [OF assms(10)] by blast
  have now: "nty_coroutine_usec_now K ?v = (now, ?v\<lparr>kern := k\<rparr>)"
    using assms(10) k by (auto simp: nty_coroutine_usec_now_def start_world_def split: prod.splits dest!: arg_cong [where f = kern])
  obtain n w2 where w2: "nty_schedule_sched_sleepdown K ?v (Some a) msecs = Some w2"
      "asleep ((?v\<lparr>kern := k\<rparr>)\<lparr>cos := (cos ?v)(a := Some (?c\<lparr>co_sleep_usecs := ?at\<rparr>))\<rparr>) S a (?at + of_nat n) w2"
      "\<forall>m<n. ?at + of_nat m \<in> wake_times w S"
  proof -
    have "sched ?v = Some (s\<lparr>sc_curr_thread := Some a\<rparr>)" "co_sleep_usecs ?c \<notin> wake_times ?v S" "remove1 a S = S"
      using same assms(7,9) by (simp_all add: start_world_def remove1_idem)
    then show ?thesis
      using sched_sleepdown_correct [OF v start_world_co, of "s\<lparr>sc_curr_thread := Some a\<rparr>" msecs K now "?v\<lparr>kern := k\<rparr>" ?at]
        now same assms(6,8) that by auto
  qed
  obtain c2 where c2: "cos w2 = (cos ?v)(a := Some c2)" "co_sleep_usecs c2 = ?at + of_nat n" "sched w2 = Some (s\<lparr>sc_curr_thread := Some a\<rparr>)"
      "sleep_ok w2 (insort_key (sleep_key w2) a S)"
    using w2(2) by (auto simp: asleep_def start_world_def)
  have body: "code (co_func c) (co_arg c) ?v = Ret () w2"
    using assms(5,6) w2(1) by (simp add: nty_coroutine_sleep_def start_world_def)
  let ?x = "exit_world w2 a c2 (s\<lparr>sc_curr_thread := Some a\<rparr>)"
  obtain w' where w': "nty_coroutine_free ?x (Some a) = Some w'" "sleeping w' = rb_alloc (sleeping w2) a None" "cos w' a = None"
    by (simp add: nty_coroutine_free_def exit_world_def free_co_def)
  have r: "nty_coroutine_resume K code (w, cx) (Some a) = Some (-1, w', cx(a := Some resumed))"
    using resume_exit_free [of w s a c code w2 c2 "s\<lparr>sc_curr_thread := Some a\<rparr>" w' K cx] assms(2-4) body c2(1,3) w'(1) by simp
  have "nty_schedule_expired K w' = None" if first: "\<forall>b \<in> set S. \<forall>d. cos w b = Some d \<longrightarrow> ?at < co_sleep_usecs d"
  proof -
    have "?at \<notin> wake_times w S" using first by (auto simp: wake_times_def)
    then have "n = 0" using w2(3) [rule_format, of 0] by (cases n) simp_all
    then have key: "sleep_key w2 a = uint ?at" using c2(1,2) by (simp add: sleep_key_def)
    have "uint ?at < sleep_key w2 b" if b: "b \<in> set S" for b
    proof -
      have "b \<noteq> a" using b assms(7) by auto
      then have "cos w2 b = cos w b" using c2(1) by (simp add: start_world_def)
      moreover obtain d where "cos w b = Some d"
        using sleep_ok_alive [OF _ b] assms(1) by (auto simp: world_ok_def)
      ultimately show ?thesis using first b by (simp add: sleep_key_def word_less_def)
    qed
    then have "insort_key (sleep_key w2) a S = a # S" using key by (cases S) (auto simp: less_imp_le)
    then show ?thesis using expired_after_free [OF _ w'(2)] c2(4) by simp
  qed
  then show ?thesis
    using r w'(2,3) c2(4) by (intro exI [of _ w'] exI [of _ "cx(a := Some resumed)"] exI [of _ "sleeping w2"]
        exI [of _ "insort_key (sleep_key w2) a S"] conjI) (auto simp: sleep_ok_def set_insort_key)
qed

theorem sleep_and_return_faults_witness:
  "\<exists>w' cx'. nty_coroutine_resume demo_kernel (\<lambda>f x v. nty_coroutine_sleep demo_kernel v 5) (demo_world, Map.empty) (Some 1) =
     Some (-1, w', cx') \<and> cos w' 1 = None \<and> nty_schedule_expired demo_kernel w' = None"
proof -
  have n: "nty_coroutine_usec_now demo_kernel demo_world = (0, demo_world\<lparr>kern := 1\<rparr>)"
    by (simp add: nty_coroutine_usec_now_def demo_kernel_def demo_world_def)
  show ?thesis
    using sleep_and_return_faults [OF demo_world_ok, of demo_sched 1 demo_co "\<lambda>f x v. nty_coroutine_sleep demo_kernel v 5" demo_kernel 5 0
        "demo_world\<lparr>kern := 1\<rparr>" Map.empty] demo_memory n
    by (auto simp: demo_co_def wake_times_def)
qed

end
