(* ===== verification/Socket.thy ===== *)
theory Socket
  imports Schedule
begin

text \<open>
  The socket layer of \<open>nty_socket.c\<close>: the conversion of event masks, the wait \<open>nty_poll_inner\<close> (arm,
  yield, disarm), the \<open>nty_*\<close> wrappers and the functions that replace those of the C library
  (\<open>COROUTINE_HOOK\<close>).  The wrappers call the functions of the same file, not the system's.

  Every operation is a computation that may yield.  The retry loops take a bound on the number of
  their iterations (\<open>fuel\<close>); running out of it is a result of its own.  The system's functions are
  those of the kernel parameter; calling them before \<open>init_hook\<close> has found them is a fault.
\<close>

definition POLLERR :: u16 where "POLLERR = 8"
definition POLLHUP :: u16 where "POLLHUP = 16"
definition POLLRDNORM :: u16 where "POLLRDNORM = 64"
definition POLLWRNORM :: u16 where "POLLWRNORM = 256"
definition EPOLLOUT :: u32 where "EPOLLOUT = 4"
definition EPOLLERR :: u32 where "EPOLLERR = 8"
definition EPOLLRDNORM :: u32 where "EPOLLRDNORM = 64"
definition EPOLLWRNORM :: u32 where "EPOLLWRNORM = 256"

definition EAGAIN :: int where "EAGAIN = 11"
definition EWOULDBLOCK :: int where "EWOULDBLOCK = 11"
definition EINPROGRESS :: int where "EINPROGRESS = 115"
definition INT_MAX :: int where "INT_MAX = 2 ^ 31 - 1"

text \<open>The conversion of a \<open>ssize_t\<close> to an \<open>int\<close>.\<close>

definition to_int :: "int \<Rightarrow> int" where
  "to_int x = (x + 2 ^ 31) mod 2 ^ 32 - 2 ^ 31"

text \<open>\<open>if (b) e |= m\<close>.\<close>

definition or_if :: "bool \<Rightarrow> 'a::len word \<Rightarrow> 'a word \<Rightarrow> 'a word" where
  "or_if b e m = (if b then e OR m else e)"

definition nty_pollevent_2epoll :: "u16 \<Rightarrow> u32" where
  "nty_pollevent_2epoll events = (let e = 0;
     e = or_if (events AND POLLIN \<noteq> 0) e EPOLLIN;
     e = or_if (events AND POLLOUT \<noteq> 0) e EPOLLOUT;
     e = or_if (events AND POLLHUP \<noteq> 0) e EPOLLHUP;
     e = or_if (events AND POLLERR \<noteq> 0) e EPOLLERR;
     e = or_if (events AND POLLRDNORM \<noteq> 0) e EPOLLRDNORM;
     e = or_if (events AND POLLWRNORM \<noteq> 0) e EPOLLWRNORM
   in e)"

definition nty_epollevent_2poll :: "u32 \<Rightarrow> u16" where
  "nty_epollevent_2poll events = (let e = 0;
     e = or_if (events AND EPOLLIN \<noteq> 0) e POLLIN;
     e = or_if (events AND EPOLLOUT \<noteq> 0) e POLLOUT;
     e = or_if (events AND EPOLLHUP \<noteq> 0) e POLLHUP;
     e = or_if (events AND EPOLLERR \<noteq> 0) e POLLERR;
     e = or_if (events AND EPOLLRDNORM \<noteq> 0) e POLLRDNORM;
     e = or_if (events AND EPOLLWRNORM \<noteq> 0) e POLLWRNORM
   in e)"

subsection \<open>Waiting\<close>

text \<open>The two loops of \<open>nty_poll_inner\<close> over the descriptors.\<close>

fun poll_arm :: "'k kernel \<Rightarrow> 'k world \<Rightarrow> ptr \<Rightarrow> (int \<times> u16) list \<Rightarrow> int \<Rightarrow> 'k world option" where
  "poll_arm K w co [] timeout = Some w"
| "poll_arm K w co ((fd, events) # fds) timeout = do {
     s \<leftarrow> sched w;
     let (_, e, k) = k_epoll_ctl K (kern w) (sc_poller_fd s) EPOLL_CTL_ADD fd (nty_pollevent_2epoll events);
     w \<leftarrow> upd_co (w\<lparr>kern := k, errno := e\<rparr>) co (\<lambda>c. c\<lparr>co_events := events\<rparr>);
     w \<leftarrow> nty_schedule_sched_wait K w co fd events (of_int timeout);
     poll_arm K w co fds timeout
   }"

fun poll_disarm :: "'k kernel \<Rightarrow> 'k world \<Rightarrow> (int \<times> u16) list \<Rightarrow> 'k world option" where
  "poll_disarm K w [] = Some w"
| "poll_disarm K w ((fd, events) # fds) = do {
     s \<leftarrow> sched w;
     let (_, e, k) = k_epoll_ctl K (kern w) (sc_poller_fd s) EPOLL_CTL_DEL fd (nty_pollevent_2epoll events);
     (_, w) \<leftarrow> nty_schedule_desched_wait (w\<lparr>kern := k, errno := e\<rparr>) fd;
     poll_disarm K w fds
   }"

definition nty_poll_inner :: "'k kernel \<Rightarrow> 'k world \<Rightarrow> (int \<times> u16) list \<Rightarrow> int \<Rightarrow> ('k world, int) comp" where
  "nty_poll_inner K w fds timeout =
     (if timeout = 0 then
        (case k_poll K (kern w) fds timeout of (ret, e, k) \<Rightarrow> Ret ret (w\<lparr>kern := k, errno := e\<rparr>))
      else let timeout = (if timeout < 0 then INT_MAX else timeout) in
        (case sched w of None \<Rightarrow> Ret (-1) w
         | Some s \<Rightarrow> let co = sc_curr_thread s in
             comp_bind (lift_opt (poll_arm K w co fds timeout)) (\<lambda>_ w.
             comp_bind (nty_coroutine_yield K w co) (\<lambda>_ w.
             comp_bind (lift_opt (poll_disarm K w fds)) (\<lambda>_ w.
             Ret (int (length fds)) w)))))"

text \<open>The masks every caller passes.\<close>

definition in_events :: u16 where "in_events = POLLIN OR POLLERR OR POLLHUP"
definition out_events :: u16 where "out_events = POLLOUT OR POLLERR OR POLLHUP"

subsection \<open>The functions that replace those of the C library\<close>

definition init_hook :: "'k world \<Rightarrow> 'k world" where
  "init_hook w = w\<lparr>hooks := True\<rparr>"

text \<open>\<open>if (!f) init_hook()\<close> at the head of every function, and a call through such a pointer.\<close>

definition ensure_hook :: "'k world \<Rightarrow> 'k world" where
  "ensure_hook w = (if hooks w then w else init_hook w)"

definition sys :: "'k world \<Rightarrow> int \<times> int \<times> 'k \<Rightarrow> ('k world, int) comp" where
  "sys w r = (if hooks w then (case r of (ret, e, k) \<Rightarrow> Ret ret (w\<lparr>kern := k, errno := e\<rparr>)) else Fault)"

definition sys_data :: "'k world \<Rightarrow> int \<times> u8 list \<times> int \<times> 'k \<Rightarrow> ('k world, int \<times> u8 list) comp" where
  "sys_data w r = (if hooks w then (case r of (ret, bs, e, k) \<Rightarrow> Ret (ret, bs) (w\<lparr>kern := k, errno := e\<rparr>)) else Fault)"

definition close :: "'k kernel \<Rightarrow> 'k world \<Rightarrow> int \<Rightarrow> ('k world, int) comp" where
  "close K w fd = (let w = ensure_hook w in sys w (k_close K (kern w) fd))"

text \<open>\<open>fcntl(fd, F_SETFL, O_NONBLOCK)\<close> and \<open>setsockopt(fd, SOL_SOCKET, SO_REUSEADDR, ...)\<close>, which are not
  replaced.\<close>

definition fcntl_nonblock :: "'k kernel \<Rightarrow> 'k world \<Rightarrow> int \<Rightarrow> int \<times> 'k world" where
  "fcntl_nonblock K w fd = (case k_setnonblock K (kern w) fd of (ret, e, k) \<Rightarrow> (ret, w\<lparr>kern := k, errno := e\<rparr>))"

definition setsockopt_reuse :: "'k kernel \<Rightarrow> 'k world \<Rightarrow> int \<Rightarrow> 'k world" where
  "setsockopt_reuse K w fd = (case k_setreuse K (kern w) fd of (_, e, k) \<Rightarrow> w\<lparr>kern := k, errno := e\<rparr>)"

text \<open>What follows the creation of a descriptor: make it non-blocking, set the option on \<open>optfd\<close>; when that
  fails close \<open>badfd\<close> and return -1.\<close>

definition configure :: "'k kernel \<Rightarrow> 'k world \<Rightarrow> int \<Rightarrow> int \<Rightarrow> (int \<Rightarrow> int) \<Rightarrow> ('k world, int) comp" where
  "configure K w fd optfd badfd = (case fcntl_nonblock K w fd of (ret, w) \<Rightarrow>
     if ret = -1 then comp_bind (close K w (badfd ret)) (\<lambda>_ w. Ret (-1) w)
     else Ret fd (setsockopt_reuse K w optfd))"

definition socket :: "'k kernel \<Rightarrow> 'k world \<Rightarrow> int \<Rightarrow> int \<Rightarrow> int \<Rightarrow> ('k world, int) comp" where
  "socket K w domain type protocol = (let w = ensure_hook w in
     if sched w = None then sys w (k_socket K (kern w) domain type protocol)
     else comp_bind (sys w (k_socket K (kern w) domain type protocol)) (\<lambda>fd w.
       if fd = -1 then Ret (-1) w
       else configure K w fd fd (\<lambda>ret. ret)))"

text \<open>\<open>read\<close>, \<open>recv\<close> and \<open>recvfrom\<close> return the number and the bytes stored in the buffer.\<close>

definition read :: "'k kernel \<Rightarrow> 'k world \<Rightarrow> int \<Rightarrow> nat \<Rightarrow> ('k world, int \<times> u8 list) comp" where
  "read K w fd count = (let w = ensure_hook w in
     if sched w = None then sys_data w (k_read K (kern w) fd count)
     else comp_bind (nty_poll_inner K w [(fd, in_events)] 1) (\<lambda>_ w.
       comp_bind (sys_data w (k_read K (kern w) fd count)) (\<lambda>(r, bs) w.
       let ret = to_int r in
       if ret < 0 \<and> errno w = ECONNRESET then Ret (-1, bs) w else Ret (ret, bs) w)))"

definition recv :: "'k kernel \<Rightarrow> 'k world \<Rightarrow> int \<Rightarrow> nat \<Rightarrow> int \<Rightarrow> ('k world, int \<times> u8 list) comp" where
  "recv K w fd len flags = (let w = ensure_hook w in
     if sched w = None then sys_data w (k_recv K (kern w) fd len flags)
     else comp_bind (nty_poll_inner K w [(fd, in_events)] 1) (\<lambda>_ w.
       comp_bind (sys_data w (k_recv K (kern w) fd len flags)) (\<lambda>(r, bs) w.
       let ret = to_int r in
       if ret < 0 \<and> errno w = ECONNRESET then Ret (-1, bs) w else Ret (ret, bs) w)))"

text \<open>The end of \<open>recvfrom\<close>, \<open>nty_recvfrom\<close> and \<open>sendto\<close>: a reset connection is 0, any other error but
  \<open>EAGAIN\<close> fails the assertion.\<close>

definition check_from :: "int \<Rightarrow> int \<Rightarrow> int option" where
  "check_from ret err = (if ret < 0 then
     (if err = EAGAIN then Some ret else if err = ECONNRESET then Some 0 else None) else Some ret)"

definition recvfrom :: "'k kernel \<Rightarrow> 'k world \<Rightarrow> int \<Rightarrow> nat \<Rightarrow> int \<Rightarrow> ('k world, int \<times> u8 list) comp" where
  "recvfrom K w fd len flags = (let w = ensure_hook w in
     if sched w = None then sys_data w (k_recvfrom K (kern w) fd len flags)
     else comp_bind (nty_poll_inner K w [(fd, in_events)] 1) (\<lambda>_ w.
       comp_bind (sys_data w (k_recvfrom K (kern w) fd len flags)) (\<lambda>(r, bs) w.
       case check_from (to_int r) (errno w) of None \<Rightarrow> Fault | Some ret \<Rightarrow> Ret (ret, bs) w)))"

text \<open>The loop \<open>while (sent < len)\<close> of \<open>write\<close>, \<open>send\<close> and \<open>nty_send\<close>: wait until the descriptor is writable,
  send the rest, stop at an error.  The result is \<open>sent\<close> and the last \<open>ret\<close>; the sum overflows an \<open>int\<close>
  only by a fault.\<close>

fun send_loop :: "nat \<Rightarrow> 'k kernel \<Rightarrow> (u8 list \<Rightarrow> 'k world \<Rightarrow> ('k world, int) comp) \<Rightarrow> 'k world \<Rightarrow> int \<Rightarrow>
    u8 list \<Rightarrow> int \<Rightarrow> int \<Rightarrow> ('k world, int \<times> int) comp" where
  "send_loop n K call w fd buf sent ret =
     (if \<not> sent < int (length buf) then Ret (sent, ret) w
      else case n of 0 \<Rightarrow> Out_of_fuel
      | Suc m \<Rightarrow> comp_bind (nty_poll_inner K w [(fd, out_events)] 1) (\<lambda>_ w.
          comp_bind (call (drop (nat sent) buf) w) (\<lambda>r w.
          let ret = to_int r in
          if ret \<le> 0 then Ret (sent, ret) w
          else if sent + ret > INT_MAX then Fault
          else send_loop m K call w fd buf (sent + ret) ret)))"

declare send_loop.simps [simp del]

text \<open>The whole body: a first attempt without waiting, then the loop.\<close>

definition send_all :: "nat \<Rightarrow> 'k kernel \<Rightarrow> (u8 list \<Rightarrow> 'k world \<Rightarrow> ('k world, int) comp) \<Rightarrow> 'k world \<Rightarrow> int \<Rightarrow>
    u8 list \<Rightarrow> ('k world, int) comp" where
  "send_all fuel K call w fd buf = comp_bind (call buf w) (\<lambda>r w.
     let ret = to_int r in
     if ret = 0 then Ret 0 w
     else comp_bind (send_loop fuel K call w fd buf (if ret > 0 then ret else 0) ret) (\<lambda>(sent, ret) w.
       if ret \<le> 0 \<and> sent = 0 then Ret ret w else Ret sent w))"

definition hook_write :: "nat \<Rightarrow> 'k kernel \<Rightarrow> 'k world \<Rightarrow> int \<Rightarrow> u8 list \<Rightarrow> ('k world, int) comp" where
  "hook_write fuel K w fd buf = (let w = ensure_hook w; call = (\<lambda>bs w. sys w (k_write K (kern w) fd bs)) in
     if sched w = None then call buf w else send_all fuel K call w fd buf)"

definition send :: "nat \<Rightarrow> 'k kernel \<Rightarrow> 'k world \<Rightarrow> int \<Rightarrow> u8 list \<Rightarrow> int \<Rightarrow> ('k world, int) comp" where
  "send fuel K w fd buf flags = (let w = ensure_hook w; call = (\<lambda>bs w. sys w (k_send K (kern w) fd bs flags)) in
     if sched w = None then call buf w else send_all fuel K call w fd buf)"

definition sendto :: "'k kernel \<Rightarrow> 'k world \<Rightarrow> int \<Rightarrow> u8 list \<Rightarrow> int \<Rightarrow> int \<Rightarrow> ('k world, int) comp" where
  "sendto K w sockfd buf flags dest = (let w = ensure_hook w in
     if sched w = None then sys w (k_sendto K (kern w) sockfd buf flags dest)
     else comp_bind (nty_poll_inner K w [(sockfd, out_events)] 1) (\<lambda>_ w.
       comp_bind (sys w (k_sendto K (kern w) sockfd buf flags dest)) (\<lambda>r w.
       case check_from (to_int r) (errno w) of None \<Rightarrow> Fault | Some ret \<Rightarrow> Ret ret w)))"

text \<open>The loop of \<open>accept\<close> and \<open>nty_accept\<close>: wait, accept, again on \<open>EAGAIN\<close>.\<close>

fun accept_loop :: "nat \<Rightarrow> 'k kernel \<Rightarrow> ('k world \<Rightarrow> ('k world, int) comp) \<Rightarrow> 'k world \<Rightarrow> int \<Rightarrow> ('k world, int) comp" where
  "accept_loop 0 K call w fd = Out_of_fuel"
| "accept_loop (Suc n) K call w fd = comp_bind (nty_poll_inner K w [(fd, in_events)] 1) (\<lambda>_ w.
     comp_bind (call w) (\<lambda>sockfd w.
     if sockfd < 0 then (if errno w = EAGAIN then accept_loop n K call w fd else Ret (-1) w)
     else configure K w sockfd fd (\<lambda>_. sockfd)))"

definition accept :: "nat \<Rightarrow> 'k kernel \<Rightarrow> 'k world \<Rightarrow> int \<Rightarrow> ('k world, int) comp" where
  "accept fuel K w fd = (let w = ensure_hook w; call = (\<lambda>w. sys w (k_accept K (kern w) fd)) in
     if sched w = None then call w else accept_loop fuel K call w fd)"

fun connect_loop :: "nat \<Rightarrow> 'k kernel \<Rightarrow> ('k world \<Rightarrow> ('k world, int) comp) \<Rightarrow> 'k world \<Rightarrow> int \<Rightarrow> ('k world, int) comp" where
  "connect_loop 0 K call w fd = Out_of_fuel"
| "connect_loop (Suc n) K call w fd = comp_bind (nty_poll_inner K w [(fd, out_events)] 1) (\<lambda>_ w.
     comp_bind (call w) (\<lambda>ret w.
     if ret = 0 then Ret ret w
     else if ret = -1 \<and> (errno w = EAGAIN \<or> errno w = EWOULDBLOCK \<or> errno w = EINPROGRESS)
     then connect_loop n K call w fd
     else Ret ret w))"

definition connect :: "nat \<Rightarrow> 'k kernel \<Rightarrow> 'k world \<Rightarrow> int \<Rightarrow> int \<Rightarrow> ('k world, int) comp" where
  "connect fuel K w fd addr = (let w = ensure_hook w; call = (\<lambda>w. sys w (k_connect K (kern w) fd addr)) in
     if sched w = None then call w else connect_loop fuel K call w fd)"

subsection \<open>The \<open>nty_*\<close> wrappers\<close>

definition nty_socket :: "'k kernel \<Rightarrow> 'k world \<Rightarrow> int \<Rightarrow> int \<Rightarrow> int \<Rightarrow> ('k world, int) comp" where
  "nty_socket K w domain type protocol = comp_bind (socket K w domain type protocol) (\<lambda>fd w.
     if fd = -1 then Ret (-1) w
     else configure K w fd fd (\<lambda>ret. ret))"

definition nty_accept :: "nat \<Rightarrow> 'k kernel \<Rightarrow> 'k world \<Rightarrow> int \<Rightarrow> ('k world, int) comp" where
  "nty_accept fuel K w fd = (if sched w = None then Fault
     else accept_loop fuel K (\<lambda>w. accept fuel K w fd) w fd)"

definition nty_connect :: "nat \<Rightarrow> 'k kernel \<Rightarrow> 'k world \<Rightarrow> int \<Rightarrow> int \<Rightarrow> ('k world, int) comp" where
  "nty_connect fuel K w fd name = connect_loop fuel K (\<lambda>w. connect fuel K w fd name) w fd"

definition nty_recv :: "'k kernel \<Rightarrow> 'k world \<Rightarrow> int \<Rightarrow> nat \<Rightarrow> int \<Rightarrow> ('k world, int \<times> u8 list) comp" where
  "nty_recv K w fd len flags = comp_bind (nty_poll_inner K w [(fd, in_events)] 1) (\<lambda>_ w.
     comp_bind (recv K w fd len flags) (\<lambda>(r, bs) w.
     let ret = to_int r in
     if ret < 0 \<and> errno w = ECONNRESET then Ret (-1, bs) w else Ret (ret, bs) w))"

definition nty_send :: "nat \<Rightarrow> 'k kernel \<Rightarrow> 'k world \<Rightarrow> int \<Rightarrow> u8 list \<Rightarrow> int \<Rightarrow> ('k world, int) comp" where
  "nty_send fuel K w fd buf flags = send_all fuel K (\<lambda>bs w. send fuel K w fd bs flags) w fd buf"

fun nty_sendto_loop :: "nat \<Rightarrow> 'k kernel \<Rightarrow> 'k world \<Rightarrow> int \<Rightarrow> u8 list \<Rightarrow> int \<Rightarrow> int \<Rightarrow> int \<Rightarrow> ('k world, int) comp" where
  "nty_sendto_loop n K w fd buf flags dest sent =
     (if \<not> sent < int (length buf) then Ret sent w
      else case n of 0 \<Rightarrow> Out_of_fuel
      | Suc m \<Rightarrow> comp_bind (nty_poll_inner K w [(fd, out_events)] 1) (\<lambda>_ w.
          comp_bind (sendto K w fd (drop (nat sent) buf) flags dest) (\<lambda>r w.
          let ret = to_int r in
          if ret \<le> 0 then
            (if errno w = EAGAIN then nty_sendto_loop m K w fd buf flags dest sent
             else if errno w = ECONNRESET then Ret ret w
             else Fault)
          else if sent + ret > INT_MAX then Fault
          else nty_sendto_loop m K w fd buf flags dest (sent + ret))))"

declare nty_sendto_loop.simps [simp del]

definition nty_sendto :: "nat \<Rightarrow> 'k kernel \<Rightarrow> 'k world \<Rightarrow> int \<Rightarrow> u8 list \<Rightarrow> int \<Rightarrow> int \<Rightarrow> ('k world, int) comp" where
  "nty_sendto fuel K w fd buf flags dest = nty_sendto_loop fuel K w fd buf flags dest 0"

definition nty_recvfrom :: "'k kernel \<Rightarrow> 'k world \<Rightarrow> int \<Rightarrow> nat \<Rightarrow> int \<Rightarrow> ('k world, int \<times> u8 list) comp" where
  "nty_recvfrom K w fd len flags = comp_bind (nty_poll_inner K w [(fd, in_events)] 1) (\<lambda>_ w.
     comp_bind (recvfrom K w fd len flags) (\<lambda>(r, bs) w.
     case check_from (to_int r) (errno w) of None \<Rightarrow> Fault | Some ret \<Rightarrow> Ret (ret, bs) w))"

definition nty_close :: "'k kernel \<Rightarrow> 'k world \<Rightarrow> int \<Rightarrow> ('k world, int) comp" where
  "nty_close K w fd = close K w fd"

subsection \<open>Event masks\<close>

lemma and_bit: "(x AND push_bit n 1 \<noteq> 0) = bit x n" for x :: "'a::len word"
proof
  assume "x AND push_bit n 1 \<noteq> 0"
  then obtain m where "bit (x AND push_bit n 1) m" by (auto simp: bit_eq_iff)
  then show "bit x n" by (auto simp: bit_and_iff bit_simps)
next
  assume b: "bit x n"
  then have "bit (x AND push_bit n 1) n"
    using bit_imp_le_length [OF b] by (auto simp: bit_and_iff bit_simps)
  then show "x AND push_bit n 1 \<noteq> 0" by (metis bit_0_eq bot_apply bot_bool_def)
qed

definition event_bits :: "nat set" where
  "event_bits = {0, 2, 3, 4, 6, 8}"

lemma poll_push:
  "POLLIN = push_bit 0 1" "POLLOUT = push_bit 2 1" "POLLERR = push_bit 3 1" "POLLHUP = push_bit 4 1"
  "POLLRDNORM = push_bit 6 1" "POLLWRNORM = push_bit 8 1"
  by (simp_all add: POLLIN_def POLLOUT_def POLLHUP_def POLLERR_def POLLRDNORM_def POLLWRNORM_def push_bit_eq_mult)

lemma epoll_push:
  "EPOLLIN = push_bit 0 1" "EPOLLOUT = push_bit 2 1" "EPOLLERR = push_bit 3 1" "EPOLLHUP = push_bit 4 1"
  "EPOLLRDNORM = push_bit 6 1" "EPOLLWRNORM = push_bit 8 1"
  by (simp_all add: EPOLLIN_def EPOLLOUT_def EPOLLHUP_def EPOLLERR_def EPOLLRDNORM_def EPOLLWRNORM_def push_bit_eq_mult)

lemma bit_or_if: "bit (or_if b e (push_bit k 1)) n = (bit e n \<or> b \<and> n = k \<and> n < LENGTH('a))"
  for e :: "'a::len word"
  by (auto simp: or_if_def bit_or_iff bit_simps)

lemma event_bits_length: "n \<in> event_bits \<Longrightarrow> n < LENGTH(32)" "n \<in> event_bits \<Longrightarrow> n < LENGTH(16)"
  by (auto simp: event_bits_def)

lemma event_bits_iff: "n \<in> event_bits \<longleftrightarrow> n = 0 \<or> n = 2 \<or> n = 3 \<or> n = 4 \<or> n = 6 \<or> n = 8"
  by (auto simp: event_bits_def)

lemma bit_pollevent: "bit (nty_pollevent_2epoll e) n = (n \<in> event_bits \<and> bit e n)"
  using event_bits_length(1) [of n]
  unfolding nty_pollevent_2epoll_def Let_def poll_push epoll_push bit_or_if and_bit event_bits_iff
  by (simp only: bit_0_eq bot_apply bot_bool_def simp_thms) blast

lemma bit_epollevent: "bit (nty_epollevent_2poll e) n = (n \<in> event_bits \<and> bit e n)"
  using event_bits_length(2) [of n]
  unfolding nty_epollevent_2poll_def Let_def poll_push epoll_push bit_or_if and_bit event_bits_iff
  by (simp only: bit_0_eq bot_apply bot_bool_def simp_thms) blast

definition poll_mask :: u16 where
  "poll_mask = POLLIN OR POLLOUT OR POLLHUP OR POLLERR OR POLLRDNORM OR POLLWRNORM"

lemma bit_poll_mask: "bit poll_mask n = (n \<in> event_bits)"
proof -
  have "bit (push_bit k (1 :: u16)) n = (n = k \<and> n < LENGTH(16))" for k by (auto simp: bit_simps)
  then show ?thesis
    using event_bits_length(2) [of n]
    unfolding poll_mask_def poll_push event_bits_iff by (simp only: bit_or_iff) blast
qed

lemma events_round: "nty_epollevent_2poll (nty_pollevent_2epoll e) = e AND poll_mask"
  by (rule bit_eqI) (auto simp: bit_pollevent bit_epollevent bit_poll_mask bit_and_iff)

subsection \<open>Computations under a rely condition\<close>

text \<open>\<open>always E Q m\<close>: whenever the memory between a yield and the resume after it changes as \<open>E\<close> allows (the
  memory at the yield is its first argument), the computation never faults, does not run out of fuel, and
  returns with \<open>Q\<close>; and at each yield \<open>E\<close> allows some change.\<close>

primrec always :: "('w \<Rightarrow> 'w \<Rightarrow> bool) \<Rightarrow> ('a \<Rightarrow> 'w \<Rightarrow> bool) \<Rightarrow> ('w, 'a) comp \<Rightarrow> bool" where
  "always E Q Fault = False"
| "always E Q Out_of_fuel = False"
| "always E Q (Ret x w) = Q x w"
| "always E Q (Yield w k) = ((\<exists>w'. E w w') \<and> (\<forall>w'. E w w' \<longrightarrow> always E Q (k w')))"

lemma always_bind: "always E (\<lambda>x w. always E Q (f x w)) m \<Longrightarrow> always E Q (comp_bind m f)"
  by (induction m) auto

lemma always_mono: "always E Q m \<Longrightarrow> (\<And>x w. Q x w \<Longrightarrow> Q' x w) \<Longrightarrow> always E Q' m"
  by (induction m) auto

text \<open>The memory of a running coroutine \<open>a\<close> that may wait for the descriptor \<open>fd\<close>.\<close>

definition running :: "addr \<Rightarrow> int \<Rightarrow> 'k world \<Rightarrow> bool" where
  "running a fd w = (\<exists>S W R s c. world_ok w S W R \<and> sched w = Some s \<and> sc_curr_thread s = Some a \<and>
     stack_ok s \<and> sp w < sc_stack_size s \<and> sc_stack_size s - sp w \<le> NTY_CO_MAX_STACKSIZE \<and>
     cos w a = Some c \<and> saved_ok c \<and> no_wait_bits (co_status c) \<and>
     \<not> has (co_status c) NTY_COROUTINE_STATUS_EXITED \<and> a \<notin> set S \<and> a \<notin> set W \<and> a \<notin> set R \<and>
     (\<forall>b \<in> set W. \<forall>d. cos w b = Some d \<longrightarrow> co_fd d \<noteq> fd) \<and> hooks w)"

text \<open>The memory it is resumed with: it is still in the wait tree, under \<open>fd\<close>.\<close>

definition woken :: "addr \<Rightarrow> int \<Rightarrow> 'k world \<Rightarrow> bool" where
  "woken a fd w = (\<exists>S W R s c. world_ok w S W R \<and> sched w = Some s \<and> sc_curr_thread s = Some a \<and>
     stack_ok s \<and> sp w < sc_stack_size s \<and> sc_stack_size s - sp w \<le> NTY_CO_MAX_STACKSIZE \<and>
     cos w a = Some c \<and> saved_ok c \<and> co_fd c = fd \<and> a \<in> set W \<and> a \<notin> set S \<and> a \<notin> set R \<and> hooks w)"

text \<open>The memory while it waits, from its yield on: it is in the wait tree only, and its stack and stack pointer are
  saved.\<close>

definition awaiting :: "addr \<Rightarrow> int \<Rightarrow> 'k world \<Rightarrow> bool" where
  "awaiting a fd w = (\<exists>S W R s c b. world_ok w S W R \<and> sched w = Some s \<and> stack_ok s \<and> cos w a = Some c \<and> co_fd c = fd \<and>
     a \<in> set W \<and> a \<notin> set S \<and> a \<notin> set R \<and> hooks w \<and> co_stack c = Some b \<and> co_stack_size c \<le> length b \<and>
     co_ctx c < sc_stack_size s \<and> sc_stack_size s - co_ctx c \<le> NTY_CO_MAX_STACKSIZE \<and>
     co_stack_size c = sc_stack_size s - co_ctx c \<and> \<not> has (co_status c) NTY_COROUTINE_STATUS_EXITED)"

text \<open>What the others may do meanwhile: anything that keeps \<open>out\<close>, an observation of the kernel (below: the
  bytes that went out on the descriptor).\<close>

definition wakes :: "('k \<Rightarrow> 'o) \<Rightarrow> addr \<Rightarrow> int \<Rightarrow> 'k world \<Rightarrow> 'k world \<Rightarrow> bool" where
  "wakes out a fd w w' = (awaiting a fd w \<and> woken a fd w' \<and> out (kern w') = out (kern w))"

text \<open>A kernel whose allocator succeeds, and whose poller and allocator keep \<open>out\<close>.\<close>

definition calm :: "'k kernel \<Rightarrow> ('k \<Rightarrow> 'o) \<Rightarrow> bool" where
  "calm K out = ((\<forall>k n. fst (k_realloc K k n) \<and> out (snd (k_realloc K k n)) = out k) \<and>
     (\<forall>k ep oper fd ev. out (snd (snd (k_epoll_ctl K k ep oper fd ev))) = out k))"

lemma calm_ctl: "calm K out \<Longrightarrow> k_epoll_ctl K k ep oper fd ev = (r, e, k') \<Longrightarrow> out k' = out k"
  unfolding calm_def by (metis snd_conv)

lemma poll_disarm_ok:
  assumes "woken a fd w" "calm K out"
  shows "\<exists>w'. poll_disarm K w [(fd, ev)] = Some w' \<and> running a fd w' \<and> out (kern w') = out (kern w)"
proof -
  obtain S W R s c where w: "world_ok w S W R" "sched w = Some s" "sc_curr_thread s = Some a" "stack_ok s"
      "sp w < sc_stack_size s" "sc_stack_size s - sp w \<le> NTY_CO_MAX_STACKSIZE" "cos w a = Some c" "saved_ok c"
      "co_fd c = fd" "a \<in> set W" "hooks w" "a \<notin> set S" "a \<notin> set R"
    using assms(1) by (auto simp: woken_def)
  obtain r e k where ep: "k_epoll_ctl K (kern w) (sc_poller_fd s) EPOLL_CTL_DEL fd (nty_pollevent_2epoll ev) = (r, e, k)"
    by (metis prod_cases3)
  have k: "out k = out (kern w)" using calm_ctl [OF assms(2) ep] .
  let ?v = "w\<lparr>kern := k, errno := e\<rparr>" and ?c = "c\<lparr>co_status := 0\<rparr>"
  have ok: "world_ok ?v S W R" using w(1) by simp
  then have wok: "wait_ok ?v W" by (simp add: world_ok_def)
  obtain t where t: "nty_schedule_desched_wait ?v fd = Some (Some a, ?v\<lparr>waiting := t, cos := (cos ?v)(a := Some ?c)\<rparr>)"
      "wait_ok (?v\<lparr>waiting := t, cos := (cos ?v)(a := Some ?c)\<rparr>) (remove1 a W)"
    using desched_wait_found [of ?v W a c s] wok w by auto
  let ?u = "?v\<lparr>waiting := t, cos := (cos ?v)(a := Some ?c)\<rparr>"
  have "sleep_ok ?u S" "ready_ok ?u R"
    using sleep_ok_upd [of "?v\<lparr>waiting := t\<rparr>" S a c ?c] ready_ok_upd [of "?v\<lparr>waiting := t\<rparr>" R a c ?c] ok w(7)
    by (simp_all add: world_ok_def)
  then have uok: "world_ok ?u S (remove1 a W) R" using t(2) w(2) by (simp add: world_ok_def)
  have dW: "distinct W" using wok rb.holds_distinct by (auto simp: wait_ok_def)
  have only: "co_fd d \<noteq> fd" if "b \<in> set W" "b \<noteq> a" "cos w b = Some d" for b d
  proof
    assume "co_fd d = fd"
    have "find (\<lambda>x. wait_key ?v x = co_fd d) W = Some b" using wait_find_some [OF wok that(1)] that(3) by simp
    moreover have "find (\<lambda>x. wait_key ?v x = co_fd c) W = Some a" using wait_find_some [OF wok w(10)] w(7) by simp
    ultimately show False using that(2) w(9) \<open>co_fd d = fd\<close> by simp
  qed
  have "poll_disarm K w [(fd, ev)] = Some ?u" using w(2) ep t(1) by simp
  moreover have "running a fd ?u"
    unfolding running_def
    using uok w only dW
    by (intro exI [of _ S] exI [of _ "remove1 a W"] exI [of _ R] exI [of _ s] exI [of _ ?c])
      (auto simp: saved_ok_def no_wait_bits_def split: option.splits)
  moreover have "out (kern ?u) = out (kern w)" using k by simp
  ultimately show ?thesis by blast
qed

lemma poll_arm_ok:
  assumes "running a fd w" "ev AND POLLIN \<noteq> 0 \<or> ev AND POLLOUT \<noteq> 0" "calm K out"
  shows "\<exists>w' w'' s. poll_arm K w (Some a) [(fd, ev)] 1 = Some w' \<and> sched w = Some s \<and>
    nty_coroutine_yield K w' (Some a) = Yield w'' resumed \<and> out (kern w'') = out (kern w) \<and>
    awaiting a fd w'' \<and> woken a fd w''"
proof -
  obtain S W R s c where w: "world_ok w S W R" "sched w = Some s" "sc_curr_thread s = Some a" "stack_ok s"
      "sp w < sc_stack_size s" "sc_stack_size s - sp w \<le> NTY_CO_MAX_STACKSIZE" "cos w a = Some c" "saved_ok c"
      "no_wait_bits (co_status c)" "\<not> has (co_status c) NTY_COROUTINE_STATUS_EXITED" "a \<notin> set W"
      "\<forall>b \<in> set W. \<forall>d. cos w b = Some d \<longrightarrow> co_fd d \<noteq> fd" "a \<notin> set S" "a \<notin> set R" "hooks w"
    using assms(1) by (auto simp: running_def)
  obtain r e k where ep: "k_epoll_ctl K (kern w) (sc_poller_fd s) EPOLL_CTL_ADD fd (nty_pollevent_2epoll ev) = (r, e, k)"
    by (metis prod_cases3)
  have k: "out k = out (kern w)" using calm_ctl [OF assms(3) ep] .
  let ?c = "c\<lparr>co_events := ev\<rparr>"
  let ?v = "w\<lparr>kern := k, errno := e, cos := (cos w)(a := Some ?c)\<rparr>"
  have vok: "world_ok ?v S W R"
    using world_ok_upd [of "w\<lparr>kern := k, errno := e\<rparr>" S W R a c ?c] w(1,7) by simp
  have wok: "wait_ok ?v W" using vok by (simp add: world_ok_def)
  have bits: "no_wait_bits (co_status ?c)" using w(9) by simp
  have fds: "\<forall>b \<in> set W. \<forall>d. cos ?v b = Some d \<longrightarrow> co_fd d \<noteq> fd" using w(11,12) by auto
  obtain t where t: "nty_schedule_sched_wait K ?v (Some a) fd ev 1 =
        Some (?v\<lparr>cos := (cos ?v)(a := Some (armed ?c fd ev)), waiting := t\<rparr>)"
      "wait_ok (?v\<lparr>cos := (cos ?v)(a := Some (armed ?c fd ev)), waiting := t\<rparr>)
        (insort_key (wait_key (?v\<lparr>cos := (cos ?v)(a := Some (armed ?c fd ev)), waiting := t\<rparr>)) a W)"
    using sched_wait_step [OF wok _ _ bits assms(2) w(11) fds, of s K 1] w(2) by auto
  define d where "d = armed ?c fd ev"
  define u where "u = ?v\<lparr>cos := (cos ?v)(a := Some d), waiting := t\<rparr>"
  have u: "cos u a = Some d" "sched u = Some s" "sp u = sp w" "wait_ok u (insort_key (wait_key u) a W)"
    using t(2) w(2) by (simp_all add: u_def d_def)
  have "sleep_ok u S" "ready_ok u R"
    using sleep_ok_upd [of ?v S a ?c d] ready_ok_upd [of ?v R a ?c d] vok
    by (simp_all add: world_ok_def u_def d_def armed_def)
  then have uok: "world_ok u S (insort_key (wait_key u) a W) R" using u by (simp add: world_ok_def)
  have arm: "poll_arm K w (Some a) [(fd, ev)] 1 = Some u" using w(2,7) ep t(1) by (simp add: u_def d_def)
  obtain stk where stk: "sc_stack s = Some stk" using w(4) by (auto simp: stack_ok_def split: option.splits)
  have d: "saved_ok d" "\<not> has (co_status d) NTY_COROUTINE_STATUS_EXITED" "co_fd d = fd"
    using w(8,10) by (auto simp: d_def armed_def saved_ok_def split: option.splits)
  obtain k2 b where y: "nty_coroutine_yield K u (Some a) = Yield (u\<lparr>kern := k2, cos := (cos u)(a := Some (d\<lparr>co_ops := 0,
      co_stack_size := sc_stack_size s - sp u, co_stack := Some b, co_ctx := sp u\<rparr>))\<rparr>) resumed"
      "k2 = kern u \<or> (\<exists>n. k2 = snd (k_realloc K (kern u) n))" "sc_stack_size s - sp u \<le> length b"
    using yield_ok [of u a d s stk K] u w(4-6) stk d assms(3) unfolding calm_def by auto
  have k2: "out k2 = out (kern w)" using y(2) k assms(3) by (auto simp: calm_def u_def)
  let ?e = "d\<lparr>co_ops := 0, co_stack_size := sc_stack_size s - sp u, co_stack := Some b, co_ctx := sp u\<rparr>"
  let ?u = "u\<lparr>kern := k2, cos := (cos u)(a := Some ?e)\<rparr>"
  have wd: "world_ok ?u S (insort_key (wait_key u) a W) R"
    using world_ok_upd [of "u\<lparr>kern := k2\<rparr>" S "insort_key (wait_key u) a W" R a d ?e] uok u(1) by simp
  have st: "a \<in> set (insort_key (wait_key u) a W)" "cos ?u a = Some ?e" "co_fd ?e = fd" "saved_ok ?e" "hooks ?u" "sched ?u = Some s"
    using d(3) y(3) w(15) u(2) by (simp_all add: set_insort_key saved_ok_def u_def)
  have "awaiting a fd ?u"
    unfolding awaiting_def using wd st w u(3) y(3) d(2) by (intro exI conjI) (assumption | simp)+
  moreover have "woken a fd ?u"
    unfolding woken_def using wd st w u(3) by (intro exI conjI) (assumption | simp)+
  moreover have "out (kern ?u) = out (kern w)" using k2 by simp
  ultimately show ?thesis using arm y(1) w(2) by blast
qed

text \<open>Waiting for one descriptor always comes back, disarmed.\<close>

lemma poll_inner_always:
  assumes "running a fd w" "ev AND POLLIN \<noteq> 0 \<or> ev AND POLLOUT \<noteq> 0" "calm K out"
  shows "always (wakes out a fd) (\<lambda>r w'. r = 1 \<and> running a fd w' \<and> out (kern w') = out (kern w))
    (nty_poll_inner K w [(fd, ev)] 1)"
proof -
  obtain w' w'' s where a: "poll_arm K w (Some a) [(fd, ev)] 1 = Some w'" "sched w = Some s"
      "nty_coroutine_yield K w' (Some a) = Yield w'' resumed" "out (kern w'') = out (kern w)" "awaiting a fd w''" "woken a fd w''"
    using poll_arm_ok [OF assms] by blast
  have some: "wakes out a fd w'' w''" using a(5,6) by (simp add: wakes_def)
  have curr: "sc_curr_thread s = Some a" using assms(1) a(2) by (auto simp: running_def)
  have dis: "always (wakes out a fd) (\<lambda>r w'. r = 1 \<and> running a fd w' \<and> out (kern w') = out (kern w))
      (comp_bind (resumed v) (\<lambda>_ w. comp_bind (lift_opt (poll_disarm K w [(fd, ev)])) (\<lambda>_ w. Ret (int (length [(fd, ev)])) w)))"
    if v: "wakes out a fd w'' v" for v
  proof -
    obtain u where "poll_disarm K v [(fd, ev)] = Some u" "running a fd u" "out (kern u) = out (kern v)"
      using poll_disarm_ok v assms(3) unfolding wakes_def by blast
    then show ?thesis using a(4) v by (simp add: resumed_def wakes_def del: poll_disarm.simps)
  qed
  show ?thesis
    using a curr dis some by (auto simp: nty_poll_inner_def del: poll_arm.simps poll_disarm.simps)
qed

subsection \<open>Sending everything\<close>

text \<open>A kernel that takes at least one byte of \<open>fd\<close> and no more than it is given; what it takes changes the
  observation \<open>out\<close> by \<open>put\<close>.\<close>

definition accepting :: "('o \<Rightarrow> u8 list \<Rightarrow> 'o) \<Rightarrow> 'k kernel \<Rightarrow> int \<Rightarrow> ('k \<Rightarrow> 'o) \<Rightarrow> bool" where
  "accepting put K fd out = (\<forall>k bs flags. bs \<noteq> [] \<longrightarrow> (\<exists>r e k'. k_send K k fd bs flags = (r, e, k') \<and>
     1 \<le> r \<and> r \<le> int (length bs) \<and> out k' = put (out k) (take (nat r) bs)))"

lemma to_int_small: "- (2 ^ 31) \<le> x \<Longrightarrow> x < 2 ^ 31 \<Longrightarrow> to_int x = x"
  by (simp add: to_int_def)

lemma running_kern: "running a fd w \<Longrightarrow> running a fd (w\<lparr>kern := k, errno := e\<rparr>)"
  unfolding running_def by auto

lemma out_events_POLLOUT: "out_events AND POLLOUT \<noteq> 0"
  by (simp add: out_events_def POLLOUT_def POLLERR_def POLLHUP_def)

lemma in_events_POLLIN: "in_events AND POLLIN \<noteq> 0"
  by (simp add: in_events_def POLLIN_def POLLERR_def POLLHUP_def)

text \<open>What the loop leaves behind: the rest of the buffer is out.\<close>

definition all_sent :: "('o \<Rightarrow> u8 list \<Rightarrow> 'o) \<Rightarrow> ('k \<Rightarrow> 'o) \<Rightarrow> addr \<Rightarrow> int \<Rightarrow> u8 list \<Rightarrow> 'k world \<Rightarrow> nat \<Rightarrow> int \<times> int \<Rightarrow> 'k world \<Rightarrow> bool" where
  "all_sent put out a fd buf w n = (\<lambda>(s, r) w'. s = int (length buf) \<and> running a fd w' \<and>
     out (kern w') = put (out (kern w)) (drop n buf))"

text \<open>
  The observation is a sink of bytes: putting nothing changes nothing, and putting twice is putting the
  concatenation.  The sink may be the bytes sent, or these together with other things that sending leaves alone.
\<close>

locale byte_sink =
  fixes put :: "'o \<Rightarrow> u8 list \<Rightarrow> 'o"
  assumes put_nil: "put x [] = x"
    and put_append: "put (put x bs) cs = put x (bs @ cs)"
begin

lemma send_call:
  assumes "accepting put K fd out" "running a fd w" "bs \<noteq> []" "int (length bs) \<le> INT_MAX"
  shows "\<exists>r w'. sys w (k_send K (kern w) fd bs flags) = Ret r w' \<and> running a fd w' \<and> 1 \<le> r \<and>
    r \<le> int (length bs) \<and> to_int r = r \<and> out (kern w') = put (out (kern w)) (take (nat r) bs)"
proof -
  obtain r e k where "k_send K (kern w) fd bs flags = (r, e, k)" "1 \<le> r" "r \<le> int (length bs)"
      "out k = put (out (kern w)) (take (nat r) bs)"
    using assms(1,3) unfolding accepting_def by blast
  moreover have "hooks w" using assms(2) by (auto simp: running_def)
  ultimately show ?thesis
    using running_kern [OF assms(2)] assms(4) by (auto simp: sys_def to_int_small INT_MAX_def)
qed

lemma drop_step: "put x (drop n buf) = put (put x (take m (drop n buf))) (drop (n + m) buf)"
  by (metis put_append append_take_drop_id drop_drop add.commute)

lemma send_loop_all:
  assumes "accepting put K fd out" "calm K out" "int (length buf) \<le> INT_MAX"
    and "running a fd w" "0 < sent" "sent \<le> int (length buf)" "int (length buf) - sent \<le> int n" "0 < ret"
  shows "always (wakes out a fd) (all_sent put out a fd buf w (nat sent))
    (send_loop n K (\<lambda>bs w. sys w (k_send K (kern w) fd bs flags)) w fd buf sent ret)"
  using assms(4-8)
proof (induction n arbitrary: w sent ret)
  case 0
  then show ?case by (subst send_loop.simps) (simp add: all_sent_def put_nil)
next
  case (Suc n)
  show ?case
  proof (cases "sent < int (length buf)")
    case False
    then show ?thesis using Suc.prems by (subst send_loop.simps) (simp add: all_sent_def put_nil)
  next
    case True
    define body where "body v = comp_bind (sys v (k_send K (kern v) fd (drop (nat sent) buf) flags)) (\<lambda>r w.
          let ret = to_int r in
          if ret \<le> 0 then Ret (sent, ret) w
          else if sent + ret > INT_MAX then Fault
          else send_loop n K (\<lambda>bs w. sys w (k_send K (kern w) fd bs flags)) w fd buf (sent + ret) ret)" for v
    have body: "always (wakes out a fd) (all_sent put out a fd buf w (nat sent)) (body v)"
      if v: "running a fd v" "out (kern v) = out (kern w)" for v
    proof -
      have "drop (nat sent) buf \<noteq> []" "int (length (drop (nat sent) buf)) \<le> INT_MAX"
        using True Suc.prems(2) assms(3) by auto
      then obtain r v' where r: "sys v (k_send K (kern v) fd (drop (nat sent) buf) flags) = Ret r v'"
          "running a fd v'" "1 \<le> r" "r \<le> int (length (drop (nat sent) buf))" "to_int r = r"
          "out (kern v') = put (out (kern v)) (take (nat r) (drop (nat sent) buf))"
        using send_call [OF assms(1) v(1)] by blast
      have bound: "sent + r \<le> int (length buf)" "int (length buf) - (sent + r) \<le> int n" "nat (sent + r) = nat sent + nat r"
        using r(3,4) True Suc.prems by auto
      have nofault: "\<not> INT_MAX < sent + r" using bound(1) assms(3) by linarith
      have "always (wakes out a fd) (all_sent put out a fd buf v' (nat (sent + r)))
          (send_loop n K (\<lambda>bs w. sys w (k_send K (kern w) fd bs flags)) v' fd buf (sent + r) r)"
        using Suc.IH [OF r(2), of "sent + r" r] bound r(3) Suc.prems(2) by simp
      moreover have "all_sent put out a fd buf v' (nat (sent + r)) = all_sent put out a fd buf w (nat sent)"
        using drop_step [of "out (kern w)" "nat sent" buf "nat r"] r(6) v(2) bound(3) True by (simp add: all_sent_def)
      ultimately show ?thesis using nofault r(1,3,5) by (simp add: body_def)
    qed
    have "always (wakes out a fd) (\<lambda>r w'. r = 1 \<and> running a fd w' \<and> out (kern w') = out (kern w))
        (nty_poll_inner K w [(fd, out_events)] 1)"
      using poll_inner_always [OF Suc.prems(1)] out_events_POLLOUT assms(2) by blast
    then have "always (wakes out a fd) (\<lambda>_ v. always (wakes out a fd) (all_sent put out a fd buf w (nat sent)) (body v))
        (nty_poll_inner K w [(fd, out_events)] 1)"
      by (rule always_mono) (use body in blast)
    from always_bind [OF this] show ?thesis using True by (subst send_loop.simps) (simp add: body_def)
  qed
qed

lemma send_everything:
  assumes "accepting put K fd out" "calm K out" "int (length buf) \<le> INT_MAX" "running a fd w" "buf \<noteq> []"
    and "length buf \<le> fuel"
  shows "always (wakes out a fd) (\<lambda>r w'. r = int (length buf) \<and> running a fd w' \<and> out (kern w') = put (out (kern w)) buf)
    (send fuel K w fd buf flags)"
proof -
  let ?call = "\<lambda>bs w. sys w (k_send K (kern w) fd bs flags)"
  let ?Q = "\<lambda>r w'. r = int (length buf) \<and> running a fd w' \<and> out (kern w') = put (out (kern w)) buf"
  have w: "ensure_hook w = w" "sched w \<noteq> None" using assms(4) by (auto simp: ensure_hook_def running_def)
  obtain r w' where r: "?call buf w = Ret r w'" "running a fd w'" "1 \<le> r" "r \<le> int (length buf)" "to_int r = r"
      "out (kern w') = put (out (kern w)) (take (nat r) buf)"
    using send_call [OF assms(1,4,5,3)] by blast
  have loop: "always (wakes out a fd) (all_sent put out a fd buf w' (nat r)) (send_loop fuel K ?call w' fd buf r r)"
    using send_loop_all [OF assms(1-3) r(2), of r fuel r] r assms(6) by simp
  have "always (wakes out a fd) (\<lambda>x v. always (wakes out a fd) ?Q
      ((\<lambda>(sent, ret) w. if ret \<le> 0 \<and> sent = 0 then Ret ret w else Ret sent w) x v))
      (send_loop fuel K ?call w' fd buf r r)"
    by (rule always_mono [OF loop]) (use assms(5) r(6) in \<open>auto simp: all_sent_def put_append split: prod.splits\<close>)
  from always_bind [OF this] show ?thesis
    using w r(1,3,5) by (auto simp: send_def send_all_def)
qed

text \<open>\<open>nty_send\<close> calls \<open>send\<close>, which sends everything at the first attempt.\<close>

lemma nty_send_everything:
  assumes "accepting put K fd out" "calm K out" "int (length buf) \<le> INT_MAX" "running a fd w" "buf \<noteq> []"
    and "length buf \<le> fuel"
  shows "always (wakes out a fd) (\<lambda>r w'. r = int (length buf) \<and> running a fd w' \<and> out (kern w') = put (out (kern w)) buf)
    (nty_send fuel K w fd buf flags)"
proof -
  let ?Q = "\<lambda>r w'. r = int (length buf) \<and> running a fd w' \<and> out (kern w') = put (out (kern w)) buf"
  have "always (wakes out a fd) (\<lambda>r v. always (wakes out a fd) ?Q (let ret = to_int r in
     if ret = 0 then Ret 0 v
     else comp_bind (send_loop fuel K (\<lambda>bs w. send fuel K w fd bs flags) v fd buf (if ret > 0 then ret else 0) ret) (\<lambda>(sent, ret) w.
       if ret \<le> 0 \<and> sent = 0 then Ret ret w else Ret sent w))) (send fuel K w fd buf flags)"
    by (rule always_mono [OF send_everything [OF assms]])
      (use assms(3,5) in \<open>auto simp: to_int_small INT_MAX_def send_loop.simps\<close>)
  from always_bind [OF this] show ?thesis by (simp add: nty_send_def send_all_def)
qed

end

text \<open>The bytes themselves.\<close>

interpretation bytes: byte_sink "(@)"
  by unfold_locales simp_all

subsection \<open>Receiving\<close>

text \<open>What \<open>recv\<close> returns and leaves in the memory \<open>w'\<close> when the kernel answers in the memory \<open>v\<close>.\<close>

definition recv_result :: "'k kernel \<Rightarrow> int \<Rightarrow> nat \<Rightarrow> int \<Rightarrow> 'k world \<Rightarrow> int \<times> u8 list \<Rightarrow> 'k world \<Rightarrow> bool" where
  "recv_result K fd len flags v x w' = (case k_recv K (kern v) fd len flags of (r, bs, e, k) \<Rightarrow>
     x = (if to_int r < 0 \<and> e = ECONNRESET then -1 else to_int r, bs) \<and> kern w' = k \<and> errno w' = e)"

text \<open>The answer comes in a memory in which the coroutine runs and the observation is the old one.\<close>

definition received :: "'k kernel \<Rightarrow> ('k \<Rightarrow> 'o) \<Rightarrow> addr \<Rightarrow> int \<Rightarrow> nat \<Rightarrow> int \<Rightarrow> 'k world \<Rightarrow> int \<times> u8 list \<Rightarrow> 'k world \<Rightarrow> bool" where
  "received K out a fd len flags w x w' = (running a fd w' \<and>
     (\<exists>v. running a fd v \<and> out (kern v) = out (kern w) \<and> recv_result K fd len flags v x w'))"

text \<open>Waiting for input and going on with \<open>f\<close>.\<close>

lemma wait_in_bind:
  assumes "running a fd w" "calm K out"
    and "\<And>v. running a fd v \<Longrightarrow> out (kern v) = out (kern w) \<Longrightarrow> always (wakes out a fd) Q (f v)"
  shows "always (wakes out a fd) Q (comp_bind (nty_poll_inner K w [(fd, in_events)] 1) (\<lambda>_. f))"
proof (rule always_bind)
  have "always (wakes out a fd) (\<lambda>r w'. r = 1 \<and> running a fd w' \<and> out (kern w') = out (kern w))
      (nty_poll_inner K w [(fd, in_events)] 1)"
    using poll_inner_always [OF assms(1) _ assms(2), of in_events] in_events_POLLIN by blast
  then show "always (wakes out a fd) (\<lambda>_ v. always (wakes out a fd) Q (f v)) (nty_poll_inner K w [(fd, in_events)] 1)"
    by (rule always_mono) (use assms(3) in blast)
qed

lemma recv_waits:
  assumes "running a fd w" "calm K out"
  shows "always (wakes out a fd) (received K out a fd len flags w) (recv K w fd len flags)"
proof -
  have w: "ensure_hook w = w" "sched w \<noteq> None" using assms(1) by (auto simp: ensure_hook_def running_def)
  have body: "always (wakes out a fd) (received K out a fd len flags w)
      (comp_bind (sys_data v (k_recv K (kern v) fd len flags)) (\<lambda>(r, bs) w.
       let ret = to_int r in
       if ret < 0 \<and> errno w = ECONNRESET then Ret (-1, bs) w else Ret (ret, bs) w))"
    if v: "running a fd v" "out (kern v) = out (kern w)" for v
  proof -
    obtain r bs e k where k: "k_recv K (kern v) fd len flags = (r, bs, e, k)" by (metis prod_cases4)
    have h: "hooks v" using v(1) by (auto simp: running_def)
    have "received K out a fd len flags w (if to_int r < 0 \<and> e = ECONNRESET then -1 else to_int r, bs) (v\<lparr>kern := k, errno := e\<rparr>)"
      unfolding received_def using running_kern [OF v(1)] v k by (intro conjI exI [of _ v]) (auto simp: recv_result_def)
    then show ?thesis using h k by (cases "to_int r < 0 \<and> e = ECONNRESET") (auto simp: sys_data_def Let_def)
  qed
  show ?thesis using wait_in_bind [OF assms body] w by (auto simp: recv_def)
qed

lemma to_int_idem [simp]: "to_int (to_int x) = to_int x"
  by (simp add: to_int_def mod_simps)

lemma recv_result_again:
  "recv_result K fd len flags v (r, bs) w' \<Longrightarrow>
   recv_result K fd len flags v (if to_int r < 0 \<and> errno w' = ECONNRESET then -1 else to_int r, bs) w'"
  by (auto simp: recv_result_def to_int_small split: prod.splits if_splits)

text \<open>\<open>nty_recv\<close> waits twice.\<close>

lemma nty_recv_waits:
  assumes "running a fd w" "calm K out"
  shows "always (wakes out a fd) (received K out a fd len flags w) (nty_recv K w fd len flags)"
proof -
  let ?f = "\<lambda>(r, bs) w. let ret = to_int r in
     if ret < 0 \<and> errno w = ECONNRESET then Ret (-1, bs) w else Ret (ret, bs) w"
  have again: "always (wakes out a fd) (received K out a fd len flags w) (?f x w')"
    if "received K out a fd len flags w x w'" for x w'
    using that recv_result_again by (cases x) (fastforce simp: received_def Let_def)
  have "always (wakes out a fd) (received K out a fd len flags w) (comp_bind (recv K v fd len flags) ?f)"
    if v: "running a fd v" "out (kern v) = out (kern w)" for v
  proof (rule always_bind, rule always_mono [OF recv_waits [OF v(1) assms(2), of len flags]])
    fix x w'
    assume "received K out a fd len flags v x w'"
    then have "received K out a fd len flags w x w'" using v(2) by (simp add: received_def)
    then show "always (wakes out a fd) (received K out a fd len flags w) (?f x w')" by (rule again)
  qed
  from wait_in_bind [OF assms this] show ?thesis by (simp add: nty_recv_def)
qed

subsection \<open>Properties\<close>

text \<open>A kernel whose calls succeed and keep its state, and a thread that runs the coroutine 1, for the witnesses.\<close>

definition plain_kernel :: "'k kernel" where
  "plain_kernel = \<lparr>k_gettimeofday = (\<lambda>k. ((0, 0), k)), k_calloc_co = (\<lambda>k. (None, k)),
     k_calloc_sched = (\<lambda>k. (True, k)), k_realloc = (\<lambda>k n. (True, k)),
     k_memalign = (\<lambda>k n. (Some (replicate n 0), k)), k_pagesize = 4096,
     k_epoll_create = (\<lambda>k n. (3, 0, k)), k_eventfd = (\<lambda>k. (4, 0, k)),
     k_epoll_ctl = (\<lambda>k ep oper fd ev. (0, 0, k)), k_epoll_wait = (\<lambda>k ep n ms. (0, [], 0, k)),
     k_poll = (\<lambda>k fds t. (0, 0, k)), k_socket = (\<lambda>k d t p. (5, 0, k)), k_setnonblock = (\<lambda>k fd. (0, 0, k)),
     k_setreuse = (\<lambda>k fd. (0, 0, k)), k_accept = (\<lambda>k fd. (6, 0, k)), k_connect = (\<lambda>k fd a. (0, 0, k)),
     k_read = (\<lambda>k fd n. (0, [], 0, k)), k_recv = (\<lambda>k fd n f. (0, [], 0, k)),
     k_recvfrom = (\<lambda>k fd n f. (0, [], 0, k)), k_write = (\<lambda>k fd bs. (int (length bs), 0, k)),
     k_send = (\<lambda>k fd bs f. (int (length bs), 0, k)), k_sendto = (\<lambda>k fd bs f a. (int (length bs), 0, k)),
     k_close = (\<lambda>k fd. (0, 0, k))\<rparr>"

definition thread_on :: "'k \<Rightarrow> 'k world" where
  "thread_on k = \<lparr>cos = [1 \<mapsto> demo_co], sched = Some demo_sched, sleeping = demo_nodes, waiting = demo_nodes,
     ready = demo_links, defer_q = demo_links, busy = demo_links, sp = 2, errno = 0, hooks = True, kern = k\<rparr>"

lemma kern_thread [simp]: "kern (thread_on k) = k"
  by (simp add: thread_on_def)

lemma thread_running: "running 1 fd (thread_on k)"
proof -
  have "world_ok (thread_on k) [] [] []"
    using demo_memory by (auto simp: world_ok_def sleep_ok_def wait_ok_def ready_ok_def thread_on_def)
  then show ?thesis
    unfolding running_def
    by (intro exI [of _ "[]"] exI [of _ demo_sched] exI [of _ demo_co])
      (simp add: thread_on_def demo_sched_def demo_co_def stack_ok_def saved_ok_def no_wait_bits_def zero_sched_def
        zero_co_def NTY_CO_MAX_STACKSIZE_def)
qed

text \<open>A kernel that takes one byte at a time and remembers it.\<close>

definition stream_kernel :: "u8 list kernel" where
  "stream_kernel = plain_kernel\<lparr>k_setnonblock := (\<lambda>k fd. (-1, 9, k)), k_recv := (\<lambda>k fd n f. (-1, [], ECONNRESET, k)),
     k_send := (\<lambda>k fd bs f. (1, 0, k @ take 1 bs)), k_close := (\<lambda>k fd. (-1, 9, k))\<rparr>"

lemma stream_calm: "calm stream_kernel (\<lambda>k. k)" "accepting (@) stream_kernel fd (\<lambda>k. k)"
  by (auto simp: calm_def accepting_def stream_kernel_def plain_kernel_def Suc_le_eq)

text \<open>The two conversions of event masks are inverse on the events the library knows, and drop every other
  bit.\<close>

lemma events_round_trip:
  "nty_epollevent_2poll (nty_pollevent_2epoll e) = e AND (POLLIN OR POLLOUT OR POLLHUP OR POLLERR OR POLLRDNORM OR POLLWRNORM)"
  using events_round by (simp add: poll_mask_def)

text \<open>C21.  Waiting for one descriptor in a coroutine: \<open>nty_poll_inner\<close> arms the wait tree and yields where an event of the
  descriptor can find it and its stack is saved, and whatever the others do to the memory until the coroutine is resumed, as long as they leave it in the wait tree under its
  descriptor, it returns 1 with the coroutine disarmed and able to wait again.\<close>

theorem poll_wait_returns:
  assumes "running a fd w" "ev AND POLLIN \<noteq> 0 \<or> ev AND POLLOUT \<noteq> 0" "calm K out"
  shows "always (wakes out a fd) (\<lambda>r w'. r = 1 \<and> running a fd w') (nty_poll_inner K w [(fd, ev)] 1)"
  by (rule always_mono [OF poll_inner_always [OF assms]]) simp

theorem poll_wait_returns_witness:
  "always (wakes (\<lambda>k. k) 1 7) (\<lambda>r w'. r = 1 \<and> running 1 7 w') (nty_poll_inner stream_kernel (thread_on []) [(7, POLLIN)] 1)"
  by (rule poll_wait_returns [OF thread_running _ stream_calm(1)]) (simp add: POLLIN_def)

text \<open>C5.  \<open>send\<close> in a coroutine sends everything: with a kernel that takes at least one byte of what it is given,
  and other coroutines that do not write to the same descriptor, it returns the length of the buffer and the
  bytes on the stream are those of the buffer, in order, whatever the sizes of the pieces.\<close>

theorem send_delivers:
  assumes "accepting (@) K fd out" "calm K out" "int (length buf) \<le> INT_MAX" "running a fd w" "buf \<noteq> []"
  shows "always (wakes out a fd) (\<lambda>r w'. r = int (length buf) \<and> out (kern w') = out (kern w) @ buf)
    (send (length buf) K w fd buf flags)"
  by (rule always_mono [OF bytes.send_everything [OF assms order_refl]]) simp

theorem send_delivers_witness:
  "always (wakes (\<lambda>k. k) 1 7) (\<lambda>r w'. r = 3 \<and> kern w' = [4, 5, 6]) (send 3 stream_kernel (thread_on []) 7 [4, 5, 6] 0)"
  using send_delivers [OF stream_calm(2,1) _ thread_running, of "[4, 5, 6]" 7 "[]" 0]
  by (simp add: INT_MAX_def numeral_3_eq_3)

text \<open>\<open>recv\<close> in a coroutine waits first and then returns what the kernel answers in the memory it was resumed
  with; a reset connection is -1.\<close>

lemma recv_after_wait:
  assumes "running a fd w" "calm K out"
  shows "always (wakes out a fd) (\<lambda>x w'. \<exists>v. running a fd v \<and> out (kern v) = out (kern w) \<and>
      x = (case k_recv K (kern v) fd len flags of (r, bs, e, k) \<Rightarrow>
        (if to_int r < 0 \<and> e = ECONNRESET then -1 else to_int r, bs))) (recv K w fd len flags)"
proof (rule always_mono [OF recv_waits [OF assms, of len flags]])
  fix x w'
  assume "received K out a fd len flags w x w'"
  then obtain v where "running a fd v" "out (kern v) = out (kern w)" "recv_result K fd len flags v x w'"
    by (auto simp: received_def)
  then show "\<exists>v. running a fd v \<and> out (kern v) = out (kern w) \<and> x = (case k_recv K (kern v) fd len flags of
      (r, bs, e, k) \<Rightarrow> (if to_int r < 0 \<and> e = ECONNRESET then -1 else to_int r, bs))"
    by (intro exI [of _ v]) (simp add: recv_result_def split: prod.splits)
qed

text \<open>When a new socket cannot be made non-blocking, \<open>socket\<close> returns -1 but leaks the descriptor: it closes the
  return value of \<open>fcntl\<close>, -1, instead of the descriptor.\<close>

lemma socket_failure_leaks:
  assumes "sched w = Some s" "k_socket K (kern w) domain type protocol = (fd, e1, k1)" "fd \<noteq> -1"
    "k_setnonblock K k1 fd = (-1, e2, k2)" "k_close K k2 (-1) = (r, e3, k3)"
  shows "socket K w domain type protocol = Ret (-1) (w\<lparr>hooks := True, kern := k3, errno := e3\<rparr>)"
  using assms by (cases w) (simp add: socket_def ensure_hook_def init_hook_def sys_def configure_def fcntl_nonblock_def close_def Let_def)

text \<open>On a thread with a scheduler the replaced functions may only be called from a coroutine: while no
  coroutine runs (\<open>curr_thread\<close> is \<open>NULL\<close>) \<open>read\<close>, \<open>recv\<close>, \<open>accept\<close> and \<open>connect\<close> dereference a null pointer.\<close>

lemma hook_outside_coroutine_faults:
  assumes "sched w = Some s" "sc_curr_thread s = NULL"
  shows "read K w fd len = Fault \<and> recv K w fd len flags = Fault \<and> recvfrom K w fd len flags = Fault \<and>
    accept (Suc n) K w fd = Fault \<and> connect (Suc n) K w fd addr = Fault \<and> sendto K w fd buf flags addr = Fault"
proof -
  have "nty_poll_inner K v [(fd, ev)] 1 = Fault" if "sched v = Some s" for v ev
    using that assms(2) by (simp add: nty_poll_inner_def upd_co_def get_co_def Let_def split: prod.splits)
  then show ?thesis
    using assms(1) by (simp add: read_def recv_def recvfrom_def accept_def connect_def sendto_def ensure_hook_def init_hook_def Let_def)
qed

end
