(* ===== verification/C_Memory.thy ===== *)
theory C_Memory
  imports Prelude
begin

text \<open>
  Arrays of bytes and the string functions of the C library, for the samples.  An array is the list of its
  elements; an access outside it is a fault, \<open>None\<close>.  A C string is what an array holds before its first zero.
\<close>

text \<open>Division of \<open>int\<close> goes towards 0; the remainder has the sign of the dividend.\<close>

definition c_div :: "int \<Rightarrow> int \<Rightarrow> int" where
  "c_div x y = (if (x < 0) = (y < 0) then \<bar>x\<bar> div \<bar>y\<bar> else - (\<bar>x\<bar> div \<bar>y\<bar>))"

definition c_rem :: "int \<Rightarrow> int \<Rightarrow> int" where
  "c_rem x y = x - c_div x y * y"

subsection \<open>Elements and blocks\<close>

definition elem :: "'a list \<Rightarrow> int \<Rightarrow> 'a option" where
  "elem xs i = (if 0 \<le> i \<and> i < int (length xs) then Some (xs ! nat i) else None)"

definition set_elem :: "'a list \<Rightarrow> int \<Rightarrow> 'a \<Rightarrow> 'a list option" where
  "set_elem xs i v = (if 0 \<le> i \<and> i < int (length xs) then Some (xs[nat i := v]) else None)"

text \<open>\<open>n\<close> elements from \<open>i\<close> on, and \<open>memcpy\<close> of \<open>bs\<close> to \<open>i\<close>.\<close>

definition block :: "'a list \<Rightarrow> int \<Rightarrow> int \<Rightarrow> 'a list option" where
  "block xs i n = (if 0 \<le> i \<and> 0 \<le> n \<and> i + n \<le> int (length xs) then Some (take (nat n) (drop (nat i) xs)) else None)"

definition memcpy :: "'a list \<Rightarrow> int \<Rightarrow> 'a list \<Rightarrow> 'a list option" where
  "memcpy xs i bs = (if 0 \<le> i \<and> i + int (length bs) \<le> int (length xs)
     then Some (take (nat i) xs @ bs @ drop (nat i + length bs) xs) else None)"

lemma elem_nat [simp]: "elem xs (int i) = (if i < length xs then Some (xs ! i) else None)"
  by (simp add: elem_def)

lemma set_elem_nat [simp]: "set_elem xs (int i) v = (if i < length xs then Some (xs[i := v]) else None)"
  by (simp add: set_elem_def)

lemma memcpy_0 [simp]: "length bs \<le> length xs \<Longrightarrow> memcpy xs 0 bs = Some (bs @ drop (length bs) xs)"
  by (simp add: memcpy_def)

lemma memcpy_at: "i = int (length us) \<Longrightarrow> length bs = length vs \<Longrightarrow> memcpy (us @ vs @ ws) i bs = Some (us @ bs @ ws)"
  by (simp add: memcpy_def)

lemma block_at: "i = int (length us) \<Longrightarrow> n = int (length bs) \<Longrightarrow> block (us @ bs @ ws) i n = Some bs"
  by (simp add: block_def)

subsection \<open>Strings\<close>

text \<open>\<open>strlen\<close> of an array reads past its end when it holds no zero.\<close>

definition strlen :: "u8 list \<Rightarrow> nat option" where
  "strlen buf = (if 0 \<in> set buf then Some (length (takeWhile (\<lambda>c. c \<noteq> 0) buf)) else None)"

text \<open>The string an array holds.\<close>

definition c_string :: "u8 list \<Rightarrow> u8 list option" where
  "c_string buf = map_option (\<lambda>n. take n buf) (strlen buf)"

text \<open>\<open>char buf[n] = {0}\<close> after a call stored \<open>bs\<close> into it.\<close>

definition stored :: "nat \<Rightarrow> u8 list \<Rightarrow> u8 list" where
  "stored n bs = bs @ replicate (n - length bs) 0"

text \<open>A literal as bytes.\<close>

definition bytes_of :: "string \<Rightarrow> u8 list" where
  "bytes_of s = map (\<lambda>c. of_nat (of_char c)) s"

abbreviation CR :: u8 where "CR \<equiv> 13"
abbreviation LF :: u8 where "LF \<equiv> 10"

text \<open>\<open>strstr(hay, needle) != NULL\<close> on strings.\<close>

fun occurs :: "u8 list \<Rightarrow> u8 list \<Rightarrow> bool" where
  "occurs needle [] = (needle = [])"
| "occurs needle (c # hay) = (take (length needle) (c # hay) = needle \<or> occurs needle hay)"

lemma bytes_of_append [simp]: "bytes_of (s @ t) = bytes_of s @ bytes_of t"
  by (simp add: bytes_of_def)

lemma takeWhile_zero: "0 \<notin> set bs \<Longrightarrow> takeWhile (\<lambda>c. c \<noteq> 0) (bs @ 0 # cs) = (bs :: u8 list)"
  by (induction bs) auto

lemma strlen_zero [simp]: "0 \<notin> set bs \<Longrightarrow> strlen (bs @ 0 # cs) = Some (length bs)"
  by (simp add: strlen_def takeWhile_zero)

lemma c_string_zero [simp]: "0 \<notin> set bs \<Longrightarrow> c_string (bs @ 0 # cs) = Some bs"
  by (simp add: c_string_def)

lemma stored_zero: "length bs < n \<Longrightarrow> stored n bs = bs @ 0 # replicate (n - length bs - 1) 0"
  by (cases "n - length bs") (simp_all add: stored_def)

lemma strlen_stored: "0 \<notin> set bs \<Longrightarrow> length bs < n \<Longrightarrow> strlen (stored n bs) = Some (length bs) \<and> take (length bs) (stored n bs) = bs"
  by (simp add: stored_zero)

lemma length_stored [simp]: "length bs \<le> n \<Longrightarrow> length (stored n bs) = n"
  by (simp add: stored_def)

lemma occurs_append: "occurs needle hay \<longleftrightarrow> (\<exists>us vs. hay = us @ needle @ vs)"
proof
  show "occurs needle hay \<Longrightarrow> \<exists>us vs. hay = us @ needle @ vs"
  proof (induction hay)
    case (Cons c hay)
    show ?case
    proof (cases "take (length needle) (c # hay) = needle")
      case True
      then have "c # hay = [] @ needle @ drop (length needle) (c # hay)" by (metis append_Nil append_take_drop_id)
      then show ?thesis by blast
    next
      case False
      then obtain us vs where "hay = us @ needle @ vs" using Cons by auto
      then have "c # hay = (c # us) @ needle @ vs" by simp
      then show ?thesis by blast
    qed
  qed simp
  show "\<exists>us vs. hay = us @ needle @ vs \<Longrightarrow> occurs needle hay"
  proof (elim exE)
    fix us vs
    assume "hay = us @ needle @ vs"
    then show "occurs needle hay"
    proof (induction us arbitrary: hay)
      case Nil
      then have "take (length needle) hay = needle" by simp
      then show ?case by (cases hay) auto
    qed simp
  qed
qed

subsection \<open>Copying and appending strings\<close>

text \<open>\<open>strcpy\<close> (and \<open>sprintf\<close> of one string) and \<open>strcat\<close> store the zero as well; writing past the array is a fault.\<close>

definition strcpy :: "u8 list \<Rightarrow> u8 list \<Rightarrow> u8 list option" where
  "strcpy buf s = memcpy buf 0 (s @ [0])"

definition strcat :: "u8 list \<Rightarrow> u8 list \<Rightarrow> u8 list option" where
  "strcat buf s = do { n \<leftarrow> strlen buf; memcpy buf (int n) (s @ [0]) }"

fun strcat_all :: "u8 list \<Rightarrow> u8 list list \<Rightarrow> u8 list option" where
  "strcat_all buf [] = Some buf"
| "strcat_all buf (t # ts) = do { buf \<leftarrow> strcat buf t; strcat_all buf ts }"

lemma c_string_iff: "c_string a = Some s \<longleftrightarrow> 0 \<notin> set s \<and> (\<exists>r. a = s @ 0 # r)"
proof
  assume "c_string a = Some s"
  then have s: "s = takeWhile (\<lambda>c. c \<noteq> 0) a" "0 \<in> set a"
    by (auto simp: c_string_def strlen_def takeWhile_eq_take [symmetric] split: if_splits)
  then have "dropWhile (\<lambda>c. c \<noteq> 0) a \<noteq> []" by auto
  then obtain r where "dropWhile (\<lambda>c. c \<noteq> 0) a = 0 # r"
    using hd_dropWhile [of "\<lambda>c. c \<noteq> 0" a] by (cases "dropWhile (\<lambda>c. c \<noteq> 0) a") auto
  then have "a = s @ 0 # r" using s(1) by (metis takeWhile_dropWhile_id)
  then show "0 \<notin> set s \<and> (\<exists>r. a = s @ 0 # r)" using s(1) by (auto dest: set_takeWhileD)
qed auto

lemma strcpy_holds:
  assumes "0 \<notin> set t" "length t < length a"
  shows "\<exists>a'. strcpy a t = Some a' \<and> c_string a' = Some t \<and> length a' = length a"
  using assms by (auto simp: strcpy_def)

lemma strcat_holds:
  assumes "c_string a = Some s" "0 \<notin> set t" "length s + length t < length a"
  shows "\<exists>a'. strcat a t = Some a' \<and> c_string a' = Some (s @ t) \<and> length a' = length a"
proof -
  obtain r where a: "a = s @ 0 # r" "0 \<notin> set s" using assms(1) by (auto simp: c_string_iff)
  then have "strcat a t = Some ((s @ t) @ 0 # drop (length t) r)" using assms(2,3)
    by (simp add: strcat_def memcpy_def)
  moreover have "c_string ((s @ t) @ 0 # drop (length t) r) = Some (s @ t)"
    using a(2) assms(2) by (intro c_string_zero) simp
  ultimately show ?thesis using a(1) assms(3) by simp
qed

lemma strcat_all_holds:
  assumes "c_string a = Some s" "0 \<notin> set (concat ts)" "length s + length (concat ts) < length a"
  shows "\<exists>a'. strcat_all a ts = Some a' \<and> c_string a' = Some (s @ concat ts) \<and> length a' = length a"
  using assms
proof (induction ts arbitrary: a s)
  case (Cons t ts)
  obtain a' where a': "strcat a t = Some a'" "c_string a' = Some (s @ t)" "length a' = length a"
    using strcat_holds [OF Cons.prems(1), of t] Cons.prems(2,3) by auto
  show ?case using Cons.IH [OF a'(2)] Cons.prems(2,3) a' by auto
qed simp

end
