(* ===== verification/Echo_Servers.thy ===== *)
theory Echo_Servers
  imports Socket C_Memory
begin

text \<open>
  The echo servers and the client of the samples: \<open>sample/nty_server.c\<close>, which calls the \<open>nty_*\<close> functions,
  \<open>sample/hook_tcpserver.c\<close>, which calls the replaced functions of the C library, and \<open>sample/nty_client.c\<close>.  Their
  bodies are computations over the socket layer; their endless loops take a bound on the number of iterations.

  The argument of a coroutine is the number stored in the cell it points to, where that cell is allocated for it (allocating
  it succeeds), and the address of the cell where it is a variable on the stack.
  What only prints is left out.  The properties follow a connection through the scheduler's waits to the bytes
  the kernel takes.
\<close>

subsection \<open>The argument of a coroutine\<close>

text \<open>An \<open>int\<close> as the contents of the cell passed to a coroutine.\<close>

definition int_arg :: "int \<Rightarrow> nat" where "int_arg x = nat (x mod 2 ^ 32)"

definition arg_int :: "nat \<Rightarrow> int" where "arg_int a = to_int (int a)"

lemma arg_int_int_arg: "- (2 ^ 31) \<le> x \<Longrightarrow> x < 2 ^ 31 \<Longrightarrow> arg_int (int_arg x) = x"
  by (simp add: arg_int_def int_arg_def to_int_def mod_simps)

text \<open>An \<open>int\<close> on the stack that the coroutines share, at an offset: \<open>hook_tcpserver.c\<close> passes the address of a variable of
  \<open>server\<close> to the coroutine it creates.\<close>

definition int_bytes :: "int \<Rightarrow> u8 list" where
  "int_bytes x = [word_of_int x, word_of_int (x div 2 ^ 8), word_of_int (x div 2 ^ 16), word_of_int (x div 2 ^ 24)]"

definition bytes_int :: "u8 list \<Rightarrow> int" where
  "bytes_int bs = to_int (foldr (\<lambda>b n. uint b + 2 ^ 8 * n) bs 0)"

definition stack_int :: "'k world \<Rightarrow> nat \<Rightarrow> int option" where
  "stack_int w addr = do { s \<leftarrow> sched w; stk \<leftarrow> sc_stack s; map_option bytes_int (block stk (int addr) 4) }"

definition set_stack_int :: "'k world \<Rightarrow> nat \<Rightarrow> int \<Rightarrow> 'k world option" where
  "set_stack_int w addr x = do {
     s \<leftarrow> sched w; stk \<leftarrow> sc_stack s; stk \<leftarrow> memcpy stk (int addr) (int_bytes x);
     Some (w\<lparr>sched := Some (s\<lparr>sc_stack := Some stk\<rparr>)\<rparr>) }"

text \<open>The bytes of an \<open>int\<close> on the stack are that \<open>int\<close>.\<close>

lemma bytes_int_bytes:
  assumes "- (2 ^ 31) \<le> x" "x < 2 ^ 31"
  shows "bytes_int (int_bytes x) = x"
proof -
  have split: "y mod (256 * m) = y mod 256 + 256 * (y div 256 mod m)" if "0 \<le> m" for y m :: int
    using zmod_zmult2_eq [OF that, of y 256] by simp
  have d: "x div 256 div 256 = x div 65536" "x div 65536 div 256 = x div 16777216"
    using zdiv_zmult2_eq [of 256 x 256] zdiv_zmult2_eq [of 256 x 65536] by (simp_all only: numeral_times_numeral semiring_norm)
  have "x mod 4294967296 = x mod 256 + 256 * (x div 256 mod 16777216)"
    "x div 256 mod 16777216 = x div 256 mod 256 + 256 * (x div 65536 mod 65536)"
    "x div 65536 mod 65536 = x div 65536 mod 256 + 256 * (x div 16777216 mod 256)"
    using split [of 16777216 x] split [of 65536 "x div 256"] split [of 256 "x div 65536"]
    by (simp_all only: d numeral_times_numeral semiring_norm zero_le_numeral)
  then have sum: "x mod 256 + 256 * (x div 256 mod 256 + 256 * (x div 65536 mod 256 + 256 * (x div 16777216 mod 256))) = x mod 4294967296"
    by (simp only:)
  have u: "uint (word_of_int y :: u8) = y mod 256" for y by (simp add: uint_word_of_int)
  have e: "(2 :: int) ^ 8 = 256" "(2 :: int) ^ 16 = 65536" "(2 :: int) ^ 24 = 16777216" by simp_all
  have "bytes_int (int_bytes x) = to_int (x mod 4294967296)"
    by (simp only: bytes_int_def int_bytes_def foldr.simps o_apply id_apply e u mult_zero_right add_0_right sum)
  also have "\<dots> = to_int x" by (simp add: to_int_def mod_simps)
  finally show ?thesis using assms by (simp add: to_int_small)
qed

lemma stack_int_set:
  assumes "set_stack_int w addr x = Some w'" "- (2 ^ 31) \<le> x" "x < 2 ^ 31"
  shows "stack_int w' addr = Some x"
proof -
  obtain s stk stk' where s: "sched w = Some s" "sc_stack s = Some stk" "memcpy stk (int addr) (int_bytes x) = Some stk'"
      "w' = w\<lparr>sched := Some (s\<lparr>sc_stack := Some stk'\<rparr>)\<rparr>"
    using assms(1) by (auto simp: set_stack_int_def bind_eq_Some_conv)
  have four: "length (int_bytes x) = 4" by (simp add: int_bytes_def)
  with s(3) have len: "addr + 4 \<le> length stk" "stk' = take addr stk @ int_bytes x @ drop (addr + 4) stk"
    by (auto simp: memcpy_def split: if_splits)
  then have "block stk' (int addr) 4 = Some (int_bytes x)" using four by (simp add: block_at)
  then show ?thesis using s(4) bytes_int_bytes [OF assms(2,3)] by (simp add: stack_int_def)
qed

subsection \<open>The readers\<close>

text \<open>The loop of \<open>server_reader\<close>, with the three calls it makes as arguments.\<close>

fun echo_loop :: "nat \<Rightarrow> ('k world \<Rightarrow> ('k world, int \<times> u8 list) comp) \<Rightarrow> (u8 list \<Rightarrow> 'k world \<Rightarrow> ('k world, int) comp) \<Rightarrow>
    ('k world \<Rightarrow> ('k world, int) comp) \<Rightarrow> 'k world \<Rightarrow> ('k world, unit) comp" where
  "echo_loop 0 rcv snd_buf cls w = Out_of_fuel"
| "echo_loop (Suc n) rcv snd_buf cls w = comp_bind (rcv w) (\<lambda>(r, bs) w.
     let ret = to_int r; buf = stored 1024 bs in
     if ret > 0 then (case strlen buf of None \<Rightarrow> Fault | Some len \<Rightarrow>
       comp_bind (snd_buf (take len buf) w) (\<lambda>r w.
       let ret = to_int r in
       if ret = -1 then comp_bind (cls w) (\<lambda>_ w. Ret () w)
       else echo_loop n rcv snd_buf cls w))
     else if ret = 0 then comp_bind (cls w) (\<lambda>_ w. Ret () w)
     else echo_loop n rcv snd_buf cls w)"

definition server_reader :: "nat \<Rightarrow> nat \<Rightarrow> 'k kernel \<Rightarrow> 'k world \<Rightarrow> nat \<Rightarrow> ('k world, unit) comp" where
  "server_reader n fuel K w arg = (let fd = arg_int arg in
     echo_loop n (\<lambda>w. nty_recv K w fd 1024 0) (\<lambda>bs w. nty_send fuel K w fd bs 0) (\<lambda>w. nty_close K w fd) w)"

definition hook_server_reader :: "nat \<Rightarrow> nat \<Rightarrow> 'k kernel \<Rightarrow> 'k world \<Rightarrow> nat \<Rightarrow> ('k world, unit) comp" where
  "hook_server_reader n fuel K w arg = (case stack_int w arg of None \<Rightarrow> Fault | Some fd \<Rightarrow>
     echo_loop n (\<lambda>w. recv K w fd 1024 0) (\<lambda>bs w. send fuel K w fd bs 0) (\<lambda>w. close K w fd) w)"

subsection \<open>The servers\<close>

text \<open>\<open>bind\<close> and \<open>listen\<close> of the system, which are not replaced; the servers do not look at their results.\<close>

record 'k net =
  n_bind :: "'k \<Rightarrow> int \<Rightarrow> nat \<Rightarrow> int \<times> int \<times> 'k"
  n_listen :: "'k \<Rightarrow> int \<Rightarrow> int \<Rightarrow> int \<times> int \<times> 'k"

definition bind_listen :: "'k net \<Rightarrow> 'k world \<Rightarrow> int \<Rightarrow> nat \<Rightarrow> int \<Rightarrow> 'k world" where
  "bind_listen N w fd port backlog = (case n_bind N (kern w) fd port of (_, _, k) \<Rightarrow>
     case n_listen N k fd backlog of (_, e, k) \<Rightarrow> w\<lparr>kern := k, errno := e\<rparr>)"

definition gettimeofday :: "'k kernel \<Rightarrow> 'k world \<Rightarrow> 'k world" where
  "gettimeofday K w = w\<lparr>kern := snd (k_gettimeofday K (kern w))\<rparr>"

definition AF_INET :: int where "AF_INET = 2"
definition SOCK_STREAM :: int where "SOCK_STREAM = 1"

text \<open>\<open>reader\<close> is the address of \<open>server_reader\<close>.\<close>

fun server_loop :: "nat \<Rightarrow> nat \<Rightarrow> 'k kernel \<Rightarrow> nat \<Rightarrow> 'k world \<Rightarrow> int \<Rightarrow> ('k world, unit) comp" where
  "server_loop 0 fuel K reader w fd = Out_of_fuel"
| "server_loop (Suc n) fuel K reader w fd = comp_bind (nty_accept fuel K w fd) (\<lambda>cli_fd w.
     let w = (if 0 \<le> cli_fd \<and> cli_fd mod 1000 = 999 then gettimeofday K w else w) in
     comp_bind (lift_res (nty_coroutine_create K w reader (int_arg cli_fd))) (\<lambda>_ w.
     server_loop n fuel K reader w fd))"

definition server :: "nat \<Rightarrow> nat \<Rightarrow> 'k kernel \<Rightarrow> 'k net \<Rightarrow> nat \<Rightarrow> 'k world \<Rightarrow> nat \<Rightarrow> ('k world, unit) comp" where
  "server n fuel K N reader w port = comp_bind (nty_socket K w AF_INET SOCK_STREAM 0) (\<lambda>fd w.
     if fd < 0 then Ret () w
     else server_loop n fuel K reader (gettimeofday K (bind_listen N w fd port 20)) fd)"

text \<open>\<open>addr\<close> is where the compiler puts \<open>cli_fd\<close>, whose address the coroutine gets.\<close>

fun hook_server_loop :: "nat \<Rightarrow> nat \<Rightarrow> 'k kernel \<Rightarrow> nat \<Rightarrow> nat \<Rightarrow> 'k world \<Rightarrow> int \<Rightarrow> ('k world, unit) comp" where
  "hook_server_loop 0 fuel K reader addr w fd = Out_of_fuel"
| "hook_server_loop (Suc n) fuel K reader addr w fd = comp_bind (accept fuel K w fd) (\<lambda>cli_fd w.
     comp_bind (lift_opt (set_stack_int w addr cli_fd)) (\<lambda>_ w.
     comp_bind (lift_res (nty_coroutine_create K w reader addr)) (\<lambda>_ w.
     hook_server_loop n fuel K reader addr w fd)))"

definition hook_server :: "nat \<Rightarrow> nat \<Rightarrow> 'k kernel \<Rightarrow> 'k net \<Rightarrow> nat \<Rightarrow> nat \<Rightarrow> 'k world \<Rightarrow> nat \<Rightarrow> ('k world, unit) comp" where
  "hook_server n fuel K N reader addr w port = comp_bind (socket K w AF_INET SOCK_STREAM 0) (\<lambda>fd w.
     if fd < 0 then Ret () w
     else hook_server_loop n fuel K reader addr (bind_listen N w fd port 20) fd)"

text \<open>\<open>main\<close> of \<open>hook_tcpserver.c\<close>, with the number that \<open>atoi\<close> finds; \<open>server\<close> reads its lower half.  The address of \<open>server\<close>
  is 0 and that of \<open>server_reader\<close> is 1.\<close>

definition hook_code :: "nat \<Rightarrow> nat \<Rightarrow> 'k kernel \<Rightarrow> 'k net \<Rightarrow> nat \<Rightarrow> 'k code" where
  "hook_code n fuel K N addr func arg w =
     (if func = 0 then hook_server n fuel K N 1 addr w arg else hook_server_reader n fuel K w arg)"

definition hook_main :: "nat \<Rightarrow> nat \<Rightarrow> 'k kernel \<Rightarrow> 'k net \<Rightarrow> nat \<Rightarrow> int \<Rightarrow> 'k state \<Rightarrow> 'k state option" where
  "hook_main n fuel K N addr port st = do {
     (_, w) \<leftarrow> nty_coroutine_create K (fst st) 0 (nat (port mod 2 ^ 16));
     nty_schedule_run K (hook_code n fuel K N addr) (w, snd st) }"

text \<open>\<open>main\<close> of \<open>nty_server.c\<close>: the loop that creates a coroutine per port, and the run.  The address of \<open>server\<close> is 0
  and that of \<open>server_reader\<close> is 1.\<close>

fun start_servers :: "'k kernel \<Rightarrow> nat \<Rightarrow> nat \<Rightarrow> 'k world \<Rightarrow> 'k world option" where
  "start_servers K 0 port w = Some w"
| "start_servers K (Suc n) port w = do {
     (_, w) \<leftarrow> nty_coroutine_create K w 0 (port mod 2 ^ 16);
     start_servers K n (port + 1) w }"

definition server_code :: "nat \<Rightarrow> nat \<Rightarrow> 'k kernel \<Rightarrow> 'k net \<Rightarrow> 'k code" where
  "server_code n fuel K N func arg w =
     (if func = 0 then server n fuel K N 1 w arg else server_reader n fuel K w arg)"

definition server_main :: "nat \<Rightarrow> nat \<Rightarrow> 'k kernel \<Rightarrow> 'k net \<Rightarrow> 'k state \<Rightarrow> 'k state option" where
  "server_main n fuel K N st = do {
     w \<leftarrow> start_servers K 100 9096 (fst st);
     nty_schedule_run K (server_code n fuel K N) (w, snd st) }"

subsection \<open>The client\<close>

text \<open>\<open>serveraddr\<close> is the address of the server; \<open>sleep\<close> of the C library blocks the thread and changes nothing.\<close>

definition init_client :: "nat \<Rightarrow> 'k kernel \<Rightarrow> 'k world \<Rightarrow> int \<Rightarrow> ('k world, int) comp" where
  "init_client fuel K w serveraddr = comp_bind (nty_socket K w AF_INET SOCK_STREAM 0) (\<lambda>clientfd w.
     if clientfd \<le> 0 then Ret (-1) w
     else comp_bind (nty_connect fuel K w clientfd serveraddr) (\<lambda>result w.
       if result \<noteq> 0 then Ret (-2) w else Ret clientfd w))"

definition greeting :: "u8 list" where
  "greeting = bytes_of ''ntyco_client'' @ [CR, LF]"

fun client_loop :: "nat \<Rightarrow> nat \<Rightarrow> 'k kernel \<Rightarrow> 'k world \<Rightarrow> int \<Rightarrow> ('k world, unit) comp" where
  "client_loop 0 fuel K w clientfd = Out_of_fuel"
| "client_loop (Suc n) fuel K w clientfd = comp_bind (nty_send fuel K w clientfd greeting 0) (\<lambda>_ w.
     client_loop n fuel K w clientfd)"

definition client :: "nat \<Rightarrow> nat \<Rightarrow> 'k kernel \<Rightarrow> int \<Rightarrow> 'k world \<Rightarrow> ('k world, unit) comp" where
  "client n fuel K serveraddr w = comp_bind (init_client fuel K w serveraddr) (\<lambda>clientfd w. client_loop n fuel K w clientfd)"

definition client_main :: "nat \<Rightarrow> nat \<Rightarrow> 'k kernel \<Rightarrow> int \<Rightarrow> 'k state \<Rightarrow> 'k state option" where
  "client_main n fuel K serveraddr st = do {
     (_, w) \<leftarrow> nty_coroutine_create K (fst st) 0 0;
     nty_schedule_run K (\<lambda>_ _. client n fuel K serveraddr) (w, snd st) }"

subsection \<open>Echoing\<close>

text \<open>What is observed of a connection: the bytes sent and the bytes received.  Sending leaves the latter alone.\<close>

definition put_sent :: "u8 list \<times> u8 list \<Rightarrow> u8 list \<Rightarrow> u8 list \<times> u8 list" where
  "put_sent x bs = (fst x @ bs, snd x)"

interpretation duplex: byte_sink put_sent
  by unfold_locales (simp_all add: put_sent_def)

text \<open>A peer that sends \<open>input\<close>, in pieces of any size below that of the buffer, and then closes.\<close>

definition feeding :: "'k kernel \<Rightarrow> int \<Rightarrow> ('k \<Rightarrow> u8 list \<times> u8 list) \<Rightarrow> u8 list \<Rightarrow> bool" where
  "feeding K fd obs input = (\<forall>k len flags rest. snd (obs k) @ rest = input \<longrightarrow> 1 < len \<longrightarrow>
     (\<exists>bs e k'. k_recv K k fd len flags = (int (length bs), bs, e, k') \<and> length bs < len \<and>
        bs = take (length bs) rest \<and> (rest \<noteq> [] \<longrightarrow> bs \<noteq> []) \<and> obs k' = (fst (obs k), snd (obs k) @ bs)))"

text \<open>What the reader leaves: everything was sent before the connection was closed, and the coroutine waits for nothing.\<close>

definition echoed :: "'k kernel \<Rightarrow> addr \<Rightarrow> int \<Rightarrow> ('k \<Rightarrow> u8 list \<times> u8 list) \<Rightarrow> 'k world \<Rightarrow> u8 list \<Rightarrow> unit \<Rightarrow> 'k world \<Rightarrow> bool" where
  "echoed K a fd obs w rest = (\<lambda>_ w'. \<exists>k. obs k = (fst (obs (kern w)) @ rest, snd (obs (kern w)) @ rest) \<and>
     kern w' = snd (snd (k_close K k fd)) \<and> running a fd w')"

lemma close_running:
  assumes "running a fd w"
  shows "\<exists>r w'. close K w fd = Ret r w' \<and> kern w' = snd (snd (k_close K (kern w) fd)) \<and> running a fd w'"
proof -
  obtain r e k where "k_close K (kern w) fd = (r, e, k)" by (metis prod_cases3)
  moreover have "hooks w" using assms by (auto simp: running_def)
  ultimately show ?thesis using running_kern [OF assms] by (simp add: close_def ensure_hook_def sys_def)
qed

lemma close_ret: "\<exists>r w'. close K w fd = Ret r w' \<and> kern w' = snd (snd (k_close K (kern w) fd))"
  by (cases "k_close K (kern w) fd") (auto simp: close_def ensure_hook_def init_hook_def sys_def)

lemma echoed_close:
  assumes "obs (kern v) = (fst (obs (kern w)) @ rest, snd (obs (kern w)) @ rest)" "running a fd v"
  shows "always E (echoed K a fd obs w rest) (comp_bind (close K v fd) (\<lambda>_ w. Ret () w))"
proof -
  obtain r v' where "close K v fd = Ret r v'" "kern v' = snd (snd (k_close K (kern v) fd))" "running a fd v'"
    using close_running [OF assms(2)] by blast
  then show ?thesis using assms by (auto simp: echoed_def)
qed

text \<open>What the reader gets from such a peer: nothing when all was received, else the next bytes.\<close>

lemma received_feeding:
  assumes "received K obs a fd 1024 0 w x w'" "feeding K fd obs input" "snd (obs (kern w)) @ rest = input"
  obtains bs where "x = (int (length bs), bs)" "length bs < 1024" "running a fd w'" "bs @ drop (length bs) rest = rest"
    "rest \<noteq> [] \<longrightarrow> bs \<noteq> []" "obs (kern w') = (fst (obs (kern w)), snd (obs (kern w)) @ bs)"
proof -
  obtain v where v: "obs (kern v) = obs (kern w)" "recv_result K fd 1024 0 v x w'" "running a fd w'"
    using assms(1) by (auto simp: received_def)
  obtain bs e k' where k: "k_recv K (kern v) fd 1024 0 = (int (length bs), bs, e, k')" "length bs < 1024"
      "bs = take (length bs) rest" "rest \<noteq> [] \<longrightarrow> bs \<noteq> []" "obs k' = (fst (obs (kern v)), snd (obs (kern v)) @ bs)"
    using assms(2,3) v(1) unfolding feeding_def by (metis one_less_numeral_iff semiring_norm(76))
  show ?thesis
  proof (rule that [of bs])
    show "x = (int (length bs), bs)" using v(2) k(1,2) by (simp add: recv_result_def to_int_small)
    show "obs (kern w') = (fst (obs (kern w)), snd (obs (kern w)) @ bs)" using v(1,2) k(1,5) by (simp add: recv_result_def)
    show "bs @ drop (length bs) rest = rest" using k(3) by (metis append_take_drop_id)
  qed (use k v in auto)
qed

text \<open>Every iteration sends what it received, and goes on with the rest of the input.\<close>

lemma echo_loop_all:
  assumes rcv: "\<And>w. running a fd w \<Longrightarrow> always (wakes obs a fd) (received K obs a fd 1024 0 w) (rcv w)"
    and send: "\<And>w bs. running a fd w \<Longrightarrow> bs \<noteq> [] \<Longrightarrow> length bs \<le> 1024 \<Longrightarrow> always (wakes obs a fd)
      (\<lambda>r w'. r = int (length bs) \<and> running a fd w' \<and> obs (kern w') = put_sent (obs (kern w)) bs) (snd_buf bs w)"
    and cls: "\<And>w. cls w = close K w fd"
    and feed: "feeding K fd obs input" "0 \<notin> set input"
    and run: "running a fd w" "snd (obs (kern w)) @ rest = input" "length rest < n"
  shows "always (wakes obs a fd) (echoed K a fd obs w rest) (echo_loop n rcv snd_buf cls w)"
  using run
proof (induction n arbitrary: w rest)
  case (Suc n w rest)
  let ?Q = "echoed K a fd obs w rest"
  let ?k = "\<lambda>r w. let ret = to_int r in if ret = -1 then comp_bind (cls w) (\<lambda>_ w. Ret () w) else echo_loop n rcv snd_buf cls w"
  let ?g = "\<lambda>(r, bs) v. let ret = to_int r; buf = stored 1024 bs in
     if ret > 0 then (case strlen buf of None \<Rightarrow> Fault | Some len \<Rightarrow> comp_bind (snd_buf (take len buf) v) ?k)
     else if ret = 0 then comp_bind (cls v) (\<lambda>_ w. Ret () w) else echo_loop n rcv snd_buf cls v"
  have step: "always (wakes obs a fd) ?Q (?g x v)"
    if rv: "received K obs a fd 1024 0 w x v" for x v
  proof -
    obtain bs where bs: "x = (int (length bs), bs)" "length bs < 1024" "running a fd v" "bs @ drop (length bs) rest = rest"
        "rest \<noteq> [] \<longrightarrow> bs \<noteq> []" "obs (kern v) = (fst (obs (kern w)), snd (obs (kern w)) @ bs)"
      using received_feeding [OF rv feed(1) Suc.prems(2)] by blast
    have ret: "to_int (int (length bs)) = int (length bs)" using bs(2) by (simp add: to_int_small)
    show ?thesis
    proof (cases "bs = []")
      case True
      then have "always (wakes obs a fd) ?Q (comp_bind (close K v fd) (\<lambda>_ w. Ret () w))"
        using bs(3,5,6) by (intro echoed_close) auto
      then show ?thesis using bs(1) ret True by (simp add: cls)
    next
      case False
      have "0 \<notin> set bs" using feed(2) Suc.prems(2) bs(4) by (metis Un_iff set_append)
      then have len: "strlen (stored 1024 bs) = Some (length bs)" "take (length bs) (stored 1024 bs) = bs"
        using strlen_stored bs(2) by blast+
      have "always (wakes obs a fd) ?Q (?k r u)"
        if u: "r = int (length bs) \<and> running a fd u \<and> obs (kern u) = put_sent (obs (kern v)) bs" for r u
      proof -
        have "echoed K a fd obs u (drop (length bs) rest) = ?Q"
          using u bs(4,6) by (simp add: echoed_def put_sent_def)
        moreover have "length rest \<le> n" "0 < length bs" "length bs \<le> length rest"
          using Suc.prems(3) False bs(4) by (auto, metis le_add1 length_append)
        moreover from this have "length (drop (length bs) rest) < n" unfolding length_drop by linarith
        ultimately have "always (wakes obs a fd) ?Q (echo_loop n rcv snd_buf cls u)"
          using Suc.IH [of u "drop (length bs) rest"] u bs(4,6) Suc.prems(2) by (simp add: put_sent_def)
        then show ?thesis using u ret by simp
      qed
      with send [OF bs(3) False] bs(2) have "always (wakes obs a fd) (\<lambda>r u. always (wakes obs a fd) ?Q (?k r u)) (snd_buf bs v)"
        by (auto elim!: always_mono)
      from always_bind [OF this] show ?thesis using bs(1) ret len False by simp
    qed
  qed
  have "always (wakes obs a fd) (\<lambda>x v. always (wakes obs a fd) ?Q (?g x v)) (rcv w)"
    by (rule always_mono [OF rcv [OF Suc.prems(1)]]) (rule step)
  from always_bind [OF this] show ?case by (simp only: echo_loop.simps)
qed simp

text \<open>The two readers satisfy what the loop asks of its calls.\<close>

lemma readers_echo:
  assumes "calm K obs" "accepting put_sent K fd obs" "feeding K fd obs input" "0 \<notin> set input"
    and "running a fd w" "snd (obs (kern w)) = []" "length input < n" "1024 \<le> fuel"
  shows "arg_int arg = fd \<Longrightarrow> always (wakes obs a fd) (echoed K a fd obs w input) (server_reader n fuel K w arg)"
    and "stack_int w arg = Some fd \<Longrightarrow> always (wakes obs a fd) (echoed K a fd obs w input) (hook_server_reader n fuel K w arg)"
proof -
  note call = assms(2,1)
  have small: "int (length bs) \<le> INT_MAX" if "length bs \<le> 1024" for bs :: "u8 list"
    using that by (simp add: INT_MAX_def)
  show "always (wakes obs a fd) (echoed K a fd obs w input) (server_reader n fuel K w arg)" if "arg_int arg = fd"
    unfolding server_reader_def Let_def that
    using assms(5-8) small
    by (intro echo_loop_all [OF _ _ _ assms(3,4)] nty_recv_waits assms(1) duplex.nty_send_everything [OF call])
      (auto simp: nty_close_def)
  show "always (wakes obs a fd) (echoed K a fd obs w input) (hook_server_reader n fuel K w arg)" if "stack_int w arg = Some fd"
    unfolding hook_server_reader_def that option.case
    using assms(5-8) small
    by (intro echo_loop_all [OF _ _ _ assms(3,4)] recv_waits assms(1) duplex.send_everything [OF call]) auto
qed

text \<open>A message that fills the buffer and holds no zero makes \<open>strlen\<close> read past the buffer.\<close>

lemma echo_full_buffer_faults:
  assumes "rcv w = Ret (1024, bs) w'" "length bs = 1024" "0 \<notin> set bs"
  shows "echo_loop (Suc n) rcv snd_buf cls w = Fault"
  using assms by (simp add: to_int_small strlen_def stored_def)

text \<open>A connection that was reset is not closed: the loop goes on.\<close>

lemma echo_reset_goes_on:
  assumes "rcv w = Ret (-1, bs) w'"
  shows "echo_loop (Suc n) rcv snd_buf cls w = echo_loop n rcv snd_buf cls w'"
  using assms by (simp add: to_int_small)

subsection \<open>Properties\<close>

text \<open>A peer that sends two bytes, one at a time, and closes, for the witness.\<close>

definition peer_kernel :: "(u8 list \<times> u8 list) kernel" where
  "peer_kernel = plain_kernel\<lparr>
     k_recv := (\<lambda>k fd n f. let bs = take (min 1 (n - 1)) (drop (length (snd k)) [104, 105]) in
       (int (length bs), bs, 0, (fst k, snd k @ bs))),
     k_send := (\<lambda>k fd bs f. (1, 0, (fst k @ take 1 bs, snd k)))\<rparr>"

lemma peer_ok:
  "calm peer_kernel (\<lambda>k. k)" "accepting put_sent peer_kernel fd (\<lambda>k. k)" "feeding peer_kernel fd (\<lambda>k. k) [104, 105]"
proof -
  show "calm peer_kernel (\<lambda>k. k)" by (simp add: calm_def peer_kernel_def plain_kernel_def)
  show "accepting put_sent peer_kernel fd (\<lambda>k. k)"
    by (auto simp: accepting_def peer_kernel_def plain_kernel_def put_sent_def Suc_le_eq)
  show "feeding peer_kernel fd (\<lambda>k. k) [104, 105]"
    unfolding feeding_def
  proof (intro allI impI)
    fix k :: "u8 list \<times> u8 list" and len :: nat and flags :: int and rest :: "u8 list"
    assume rest: "snd k @ rest = [104, 105]" and len: "1 < len"
    let ?bs = "take (min 1 (len - 1)) rest"
    have pre: "?bs = take (length ?bs) rest" by (simp add: min_def)
    have "drop (length (snd k)) [104, 105] = rest" by (simp add: rest [symmetric])
    then have "k_recv peer_kernel k fd len flags = (int (length ?bs), ?bs, 0, (fst k, snd k @ ?bs))"
      by (simp only: peer_kernel_def plain_kernel_def Let_def kernel.simps)
    moreover have "length ?bs < len" "rest \<noteq> [] \<longrightarrow> ?bs \<noteq> []" using len by auto
    ultimately show "\<exists>bs e k'. k_recv peer_kernel k fd len flags = (int (length bs), bs, e, k') \<and> length bs < len \<and>
        bs = take (length bs) rest \<and> (rest \<noteq> [] \<longrightarrow> bs \<noteq> []) \<and> k' = (fst k, snd k @ bs)"
      using pre by blast
  qed
qed

text \<open>C6.  The echo servers echo: for a peer that sends \<open>input\<close>, free of zero bytes, in pieces shorter than the
  buffer and then closes, the reader of \<open>nty_server.c\<close> and, where the stack holds the descriptor at the address it is
  given, that of \<open>hook_tcpserver.c\<close> end, and when they close the connection the kernel has taken exactly the bytes of \<open>input\<close>, in order, however the kernel cuts them
  and whatever the other coroutines do while the reader waits.  One iteration per byte is enough.\<close>

theorem readers_echo_input:
  assumes "calm K obs" "accepting put_sent K fd obs" "feeding K fd obs input" "0 \<notin> set input"
    and "running a fd w" "obs (kern w) = ([], [])" "- (2 ^ 31) \<le> fd" "fd < 2 ^ 31" "length input < n" "1024 \<le> fuel"
  shows "always (wakes obs a fd) (\<lambda>_ w'. \<exists>k. obs k = (input, input) \<and> kern w' = snd (snd (k_close K k fd)))
      (server_reader n fuel K w (int_arg fd)) \<and>
    (stack_int w addr = Some fd \<longrightarrow>
      always (wakes obs a fd) (\<lambda>_ w'. \<exists>k. obs k = (input, input) \<and> kern w' = snd (snd (k_close K k fd)))
        (hook_server_reader n fuel K w addr))"
  using assms(6) arg_int_int_arg [OF assms(7,8)]
  by (intro conjI impI always_mono [OF readers_echo(1) [OF assms(1-5) _ assms(9,10)]]
      always_mono [OF readers_echo(2) [OF assms(1-5) _ assms(9,10)]]) (auto simp: echoed_def)

text \<open>The stack of the running coroutine of the witness holds the descriptor at offset 0.\<close>

lemma thread_stack_int: "stack_int (thread_on k) 0 = Some 0x04030201"
  by (simp add: stack_int_def thread_on_def demo_sched_def block_def bytes_int_def to_int_def)

theorem readers_echo_input_witness:
  "always (wakes (\<lambda>k. k) 1 0x04030201) (\<lambda>_ w'. \<exists>k. k = ([104, 105], [104, 105]) \<and> kern w' = snd (snd (k_close peer_kernel k 0x04030201)))
     (server_reader 3 1024 peer_kernel (thread_on ([], [])) (int_arg 0x04030201)) \<and>
   always (wakes (\<lambda>k. k) 1 0x04030201) (\<lambda>_ w'. \<exists>k. k = ([104, 105], [104, 105]) \<and> kern w' = snd (snd (k_close peer_kernel k 0x04030201)))
     (hook_server_reader 3 1024 peer_kernel (thread_on ([], [])) 0)"
  using readers_echo_input [OF peer_ok _ thread_running, where addr = 0 and n = 3 and fuel = 1024 and fd = "0x04030201"] by (simp add: thread_stack_int)

end
