(* ===== verification/Cooperation.thy ===== *)
theory Cooperation
  imports Schedule
begin

text \<open>
  Programs of coroutines that give up the processor.  The client code is a family of bodies that do a
  list of actions and call \<open>nty_coroutine_sleep(0)\<close> after each of them, which puts the coroutine at the end of
  the ready queue and yields.  The theory follows such a program through the whole of
  \<open>nty_schedule_run\<close>: the first resume of every coroutine, the stack saved and loaded again, the rounds of the
  ready queue, the poller between the rounds, the exit of the coroutines and the release of the scheduler.
  The specification it meets is a schedule: the actions in round-robin order.
\<close>

subsection \<open>The client\<close>

text \<open>A body: an action \<open>e\<close> changes the state of the system by \<open>act e\<close> and uses the stack down to the offset
  \<open>d\<close>; then the coroutine gives way.\<close>

primrec turns :: "'k kernel \<Rightarrow> ('e \<Rightarrow> 'k \<Rightarrow> 'k) \<Rightarrow> nat \<Rightarrow> 'e list \<Rightarrow> 'k world \<Rightarrow> ('k world, unit) comp" where
  "turns K act d [] w = Ret () w"
| "turns K act d (e # es) w =
     comp_bind (nty_coroutine_sleep K (w\<lparr>kern := act e (kern w), sp := d\<rparr>) 0) (\<lambda>_. turns K act d es)"

text \<open>Every coroutine does the actions its argument stands for.\<close>

definition cooperating :: "'k kernel \<Rightarrow> ('e \<Rightarrow> 'k \<Rightarrow> 'k) \<Rightarrow> (nat \<Rightarrow> nat) \<Rightarrow> (nat \<Rightarrow> 'e list) \<Rightarrow> 'k code" where
  "cooperating K act depth prog = (\<lambda>f x. turns K act (depth x) (prog x))"

text \<open>The state of the system has a record of the actions; \<open>realloc\<close>, the clock, the poller and \<open>close\<close> add
  nothing to it, and there is always memory for a saved stack.\<close>

definition recorded :: "'k kernel \<Rightarrow> ('e \<Rightarrow> 'k \<Rightarrow> 'k) \<Rightarrow> ('k \<Rightarrow> 'e list) \<Rightarrow> bool" where
  "recorded K act obs = ((\<forall>e k. obs (act e k) = obs k @ [e]) \<and>
     (\<forall>k n. fst (k_realloc K k n) \<and> obs (snd (k_realloc K k n)) = obs k) \<and>
     (\<forall>k. obs (snd (k_gettimeofday K k)) = obs k) \<and>
     (\<forall>k fd n ms. obs (snd (snd (snd (k_epoll_wait K k fd n ms)))) = obs k) \<and>
     (\<forall>k fd. obs (snd (snd (k_close K k fd))) = obs k))"

lemma recorded_act: "recorded K act obs \<Longrightarrow> obs (act e k) = obs k @ [e]"
  by (simp add: recorded_def)

lemma recorded_realloc: "recorded K act obs \<Longrightarrow> fst (k_realloc K k n)" "recorded K act obs \<Longrightarrow> obs (snd (k_realloc K k n)) = obs k"
  by (simp_all add: recorded_def)

lemma clock_keeps:
  assumes "\<And>k. obs (snd (k_gettimeofday K k)) = obs k"
  shows "\<exists>now k. nty_coroutine_usec_now K w = (now, w\<lparr>kern := k\<rparr>) \<and> obs k = obs (kern w)"
  using assms [of "kern w"] by (cases "k_gettimeofday K (kern w)") (auto simp: nty_coroutine_usec_now_def)

lemma recorded_clock:
  assumes "recorded K act obs"
  shows "\<exists>now k. nty_coroutine_usec_now K w = (now, w\<lparr>kern := k\<rparr>) \<and> obs k = obs (kern w)"
  by (rule clock_keeps) (use assms in \<open>simp add: recorded_def\<close>)

lemma recorded_wait: "recorded K act obs \<Longrightarrow> k_epoll_wait K k fd n ms = (r, evs, e, k') \<Longrightarrow> obs k' = obs k"
  unfolding recorded_def by (metis snd_conv)

text \<open>What is left to do of a coroutine with the actions \<open>es\<close> ahead: they, and the end of \<open>_exec\<close>.\<close>

definition rest :: "'k kernel \<Rightarrow> ('e \<Rightarrow> 'k \<Rightarrow> 'k) \<Rightarrow> nat \<Rightarrow> addr \<Rightarrow> 'e list \<Rightarrow> 'k world \<Rightarrow> ('k world, unit) comp" where
  "rest K act d a es = (\<lambda>w. comp_bind (turns K act d es w) (\<lambda>_ w. comp_bind (lift_opt (upd_co w (Some a) exited))
     (\<lambda>_ w. nty_coroutine_yield K w (Some a))))"

lemma exec_client:
  "cos w a = Some c \<Longrightarrow> exec K (cooperating K act depth prog) (Some a) w = rest K act (depth (co_arg c)) a (prog (co_arg c)) w"
proof -
  have e: "(\<lambda>c. c\<lparr>co_status := co_status c OR (BIT NTY_COROUTINE_STATUS_EXITED OR BIT NTY_COROUTINE_STATUS_FDEOF
     OR BIT NTY_COROUTINE_STATUS_DETACH)\<rparr>) = exited" by (simp add: exited_def fun_eq_iff)
  show "cos w a = Some c \<Longrightarrow> ?thesis" by (simp add: exec_def cooperating_def rest_def e)
qed

lemma rest_nil:
  assumes "cos w a = Some c" "sched w = Some s"
  shows "rest K act d a [] w = Yield (w\<lparr>cos := (cos w)(a := Some ((exited c)\<lparr>co_ops := 0, co_ctx := sp w\<rparr>))\<rparr>) resumed"
proof -
  let ?v = "w\<lparr>cos := (cos w)(a := Some (exited c))\<rparr>"
  have "nty_coroutine_yield K ?v (Some a) = Yield (?v\<lparr>cos := (cos ?v)(a := Some ((exited c)\<lparr>co_ops := 0, co_ctx := sp ?v\<rparr>))\<rparr>) resumed"
    using assms(2) by (intro yield_exited) simp_all
  then show ?thesis using assms(1) by (simp add: rest_def)
qed

text \<open>The scheduler the program runs on: its stack is one block of \<open>N\<close> bytes, and it has the timeout it was
  created with.\<close>

definition sched_fit :: "nat \<Rightarrow> 'k world \<Rightarrow> bool" where
  "sched_fit N w = (\<exists>s. sched w = Some s \<and> stack_ok s \<and> sc_stack_size s = N \<and> sc_default_timeout s = 3000000)"

definition depths_ok :: "(nat \<Rightarrow> nat) \<Rightarrow> nat \<Rightarrow> bool" where
  "depths_ok depth N = (N \<le> NTY_CO_MAX_STACKSIZE \<and> (\<forall>x. depth x < N))"

lemma rest_cons:
  assumes "recorded K act obs" "world_ok w S W R" "cos w a = Some c" "a \<notin> set R" "saved_ok c"
    "\<not> has (co_status c) NTY_COROUTINE_STATUS_EXITED" "sched w = Some s" "sc_curr_thread s = Some a"
    "stack_ok s" "d < sc_stack_size s" "sc_stack_size s \<le> NTY_CO_MAX_STACKSIZE"
  shows "\<exists>u c'. rest K act d a (e # es) w = Yield u (rest K act d a es) \<and> world_ok u S W (R @ [a]) \<and>
    cos u = (cos w)(a := Some c') \<and> co_status c' = co_status c \<and> co_arg c' = co_arg c \<and>
    (\<exists>b. co_stack c' = Some b \<and> co_stack_size c' \<le> length b) \<and> co_stack_size c' \<le> sc_stack_size s \<and>
    sched u = sched w \<and> busy u = busy w \<and> obs (kern u) = obs (kern w) @ [e]"
proof -
  define v where "v = w\<lparr>kern := act e (kern w), sp := d\<rparr>"
  have v: "world_ok v S W R" "cos v = cos w" "sched v = Some s" "sp v = d" using assms by (simp_all add: v_def)
  obtain q where q: "ready_enqueue v (Some a) = Some (v\<lparr>ready := q\<rparr>)" "world_ok (v\<lparr>ready := q\<rparr>) S W (R @ [a])"
    using enqueue_world_ok [OF v(1), of a c] assms(3,4) v(2) by auto
  obtain stk where stk: "sc_stack s = Some stk" using assms(9) by (auto simp: stack_ok_def split: option.splits)
  have lim: "sc_stack_size s - d \<le> NTY_CO_MAX_STACKSIZE" using assms(11) by simp
  obtain k b where y: "nty_coroutine_yield K (v\<lparr>ready := q\<rparr>) (Some a) = Yield (v\<lparr>ready := q, kern := k, cos := (cos v)(a := Some
      (c\<lparr>co_ops := 0, co_stack_size := sc_stack_size s - d, co_stack := Some b, co_ctx := d\<rparr>))\<rparr>) resumed"
      "sc_stack_size s - d \<le> length b" "k = kern v \<or> (\<exists>n. k = snd (k_realloc K (kern v) n))"
    using yield_ok [of "v\<lparr>ready := q\<rparr>" a c s stk K] v assms recorded_realloc(1) [OF assms(1)] stk lim by auto
  let ?c = "c\<lparr>co_ops := 0, co_stack_size := sc_stack_size s - d, co_stack := Some b, co_ctx := d\<rparr>"
  let ?u = "v\<lparr>ready := q, kern := k, cos := (cos v)(a := Some ?c)\<rparr>"
  have "nty_coroutine_sleep K v 0 = Yield ?u resumed"
    using q(1) y(1) v(3) assms(8) by (simp add: nty_coroutine_sleep_def)
  then have "rest K act d a (e # es) w = Yield ?u (rest K act d a es)"
    by (simp add: rest_def resumed_def v_def)
  moreover have "world_ok ?u S W (R @ [a])"
    using world_ok_upd [of "v\<lparr>ready := q, kern := k\<rparr>" S W "R @ [a]" a c ?c] q(2) assms(3) v(2) by simp
  moreover have "obs k = obs (kern w) @ [e]"
    using y(3) recorded_realloc(2) [OF assms(1)] recorded_act [OF assms(1)] by (auto simp: v_def)
  ultimately show ?thesis using y(2) v assms(7) by (intro exI [of _ ?u] exI [of _ ?c]) (simp add: v_def)
qed

subsection \<open>One resume\<close>

text \<open>A coroutine between two resumes, with the actions \<open>es\<close> ahead: either it is new, or its stack is saved and
  its context is what is left to do.\<close>

definition parked ::
  "'k kernel \<Rightarrow> ('e \<Rightarrow> 'k \<Rightarrow> 'k) \<Rightarrow> (nat \<Rightarrow> nat) \<Rightarrow> (nat \<Rightarrow> 'e list) \<Rightarrow> nat \<Rightarrow> 'k state \<Rightarrow> addr \<Rightarrow> 'e list \<Rightarrow> bool" where
  "parked K act depth prog N st a es = (\<exists>c. cos (fst st) a = Some c \<and> saved_ok c \<and>
     (co_status c = BIT NTY_COROUTINE_STATUS_NEW \<and> prog (co_arg c) = es \<or>
      co_status c = BIT NTY_COROUTINE_STATUS_READY \<and> co_stack c \<noteq> None \<and> co_stack_size c \<le> N \<and>
        snd st a = Some (rest K act (depth (co_arg c)) a es)))"

lemma parked_frame:
  "parked K act depth prog N st a es \<Longrightarrow> cos (fst st') a = cos (fst st) a \<Longrightarrow> snd st' a = snd st a \<Longrightarrow>
   parked K act depth prog N st' a es"
  by (simp add: parked_def)

lemma parked_alive:
  "parked K act depth prog N st a es \<Longrightarrow> \<exists>c. cos (fst st) a = Some c \<and> \<not> has (co_status c) NTY_COROUTINE_STATUS_FDEOF"
  by (auto simp: parked_def)

text \<open>What \<open>nty_coroutine_resume\<close> does when the switch has come back.\<close>

definition after_switch :: "'k world \<Rightarrow> 'k contexts \<Rightarrow> ptr \<Rightarrow> (int \<times> 'k world \<times> 'k contexts) option" where
  "after_switch w cx co = do {
     w \<leftarrow> upd_sched w (\<lambda>s. s\<lparr>sc_curr_thread := NULL\<rparr>);
     c \<leftarrow> get_co w co;
     if has (co_status c) NTY_COROUTINE_STATUS_EXITED then do {
       w \<leftarrow> (if has (co_status c) NTY_COROUTINE_STATUS_DETACH then nty_coroutine_free w co else Some w);
       Some (-1, w, cx)
     } else Some (0, w, cx)
   }"

text \<open>A parked coroutine is entered with its status READY, as the current one, and goes on with its actions.\<close>

lemma resume_parked:
  assumes "parked K act depth prog N (w, cx) a es" "world_ok w S W R" "sched_fit N w"
  shows "\<exists>v c s. world_ok v S W R \<and> cos v = (cos w)(a := Some c) \<and> co_status c = BIT NTY_COROUTINE_STATUS_READY \<and>
    saved_ok c \<and> sched v = Some s \<and> sched_fit N v \<and> sc_curr_thread s = Some a \<and> busy v = busy w \<and> kern v = kern w \<and>
    (\<forall>u k. rest K act (depth (co_arg c)) a es v = Yield u k \<longrightarrow>
      nty_coroutine_resume K (cooperating K act depth prog) (w, cx) (Some a) = after_switch u (cx(a := Some k)) (Some a))"
proof -
  obtain s stk where s: "sched w = Some s" "stack_ok s" "sc_stack_size s = N" "sc_default_timeout s = 3000000" "sc_stack s = Some stk"
    using assms(3) by (auto simp: sched_fit_def stack_ok_def split: option.splits)
  from assms(1) consider
    (new) c where "cos w a = Some c" "saved_ok c" "co_status c = BIT NTY_COROUTINE_STATUS_NEW" "prog (co_arg c) = es"
  | (old) c b where "cos w a = Some c" "saved_ok c" "co_status c = BIT NTY_COROUTINE_STATUS_READY" "co_stack c = Some b"
      "co_stack_size c \<le> N" "cx a = Some (rest K act (depth (co_arg c)) a es)"
    by (auto simp: parked_def)
  then show ?thesis
  proof cases
    case new
    let ?c = "c\<lparr>co_ctx := sc_stack_size s, co_status := BIT NTY_COROUTINE_STATUS_READY\<rparr>"
    let ?v = "start_world w a c s"
    have "exec K (cooperating K act depth prog) (Some a) ?v = rest K act (depth (co_arg c)) a es ?v"
      using exec_client [OF start_world_co [of w a c s], of K act depth prog] new(4) by simp
    then have "nty_coroutine_resume K (cooperating K act depth prog) (w, cx) (Some a) = after_switch u (cx(a := Some k)) (Some a)"
      if "rest K act (depth (co_arg c)) a es ?v = Yield u k" for u k
      using that new s(1)
      by (simp add: nty_coroutine_resume_def nty_coroutine_init_def switch_to_def start_world_def after_switch_def)
    moreover have "world_ok ?v S W R" using start_world_ok [OF assms(2) new(1)] .
    moreover have "saved_ok ?c" using new(2) by (cases "co_stack c") (simp_all add: saved_ok_def)
    ultimately show ?thesis using s
      by (intro exI [of _ ?v] exI [of _ ?c] exI [of _ "s\<lparr>sc_curr_thread := Some a\<rparr>"])
        (simp add: start_world_def sched_fit_def stack_ok_def)
  next
    case old
    have len: "co_stack_size c \<le> length b" using old by (simp add: saved_ok_def)
    let ?s = "s\<lparr>sc_stack := Some (take (sc_stack_size s - co_stack_size c) stk @ take (co_stack_size c) b), sc_curr_thread := Some a\<rparr>"
    let ?v = "w\<lparr>sched := Some ?s, sp := co_ctx c\<rparr>"
    have "nty_coroutine_resume K (cooperating K act depth prog) (w, cx) (Some a) = after_switch u (cx(a := Some k)) (Some a)"
      if "rest K act (depth (co_arg c)) a es ?v = Yield u k" for u k
      using that old s(1,3) load_stack_ok [OF old(1) s(1,2,5) old(4)] len
      by (simp add: nty_coroutine_resume_def switch_to_def after_switch_def)
    moreover have "world_ok ?v S W R" using world_ok_sched [OF assms(2)] by simp
    moreover have "sched_fit N ?v" using s old(5) len by (simp add: sched_fit_def stack_ok_def)
    ultimately show ?thesis using old s
      by (intro exI [of _ ?v] exI [of _ c] exI [of _ ?s]) (simp add: fun_upd_idem)
  qed
qed

text \<open>The end of a coroutine: the scheduler frees it.\<close>

lemma after_exit:
  assumes "world_ok v S W R" "cos v a = Some c" "sched v = Some s" "a \<notin> set S" "a \<notin> set W" "a \<notin> set R"
  shows "\<exists>x. after_switch (v\<lparr>cos := (cos v)(a := Some ((exited c)\<lparr>co_ops := 0, co_ctx := sp v\<rparr>))\<rparr>) cx (Some a) = Some (-1, x, cx) \<and>
    world_ok x S W R \<and> cos x = (cos v)(a := None) \<and> kern x = kern v \<and> busy x = q_alloc (busy v) (Next a) False \<and>
    sched x = Some (s\<lparr>sc_curr_thread := NULL, sc_spawned_coroutines := sc_spawned_coroutines s - 1\<rparr>)"
proof -
  let ?u = "v\<lparr>cos := (cos v)(a := Some ((exited c)\<lparr>co_ops := 0, co_ctx := sp v\<rparr>))\<rparr>"
  let ?x = "?u\<lparr>sched := Some (s\<lparr>sc_curr_thread := NULL\<rparr>)\<rparr>"
  have "world_ok ?x S W R" using world_ok_sched [OF world_ok_upd [OF assms(1,2)]] by simp
  then obtain x where x: "nty_coroutine_free ?x (Some a) = Some x" "world_ok x S W R" "cos x = (cos v)(a := None)"
      "kern x = kern v" "busy x = q_alloc (busy v) (Next a) False"
      "sched x = Some (s\<lparr>sc_curr_thread := NULL, sc_spawned_coroutines := sc_spawned_coroutines s - 1\<rparr>)"
    using coroutine_free_ok [of ?x S W R a] assms(4-6) by auto
  then show ?thesis using assms(3) by (simp add: after_switch_def)
qed

text \<open>One resume of a parked coroutine: it does its next action and is parked again, at the end of the ready
  queue, or, with no action left, it is freed.  The others are as before.\<close>

lemma resume_turn:
  assumes rec: "recorded K act obs" and dep: "depths_ok depth N"
    and st: "parked K act depth prog N (w, cx) a es" "world_ok w [] [] R" "sched_fit N w" "busy_ok w []" "a \<notin> set R"
  shows "\<exists>r w' cx'. nty_coroutine_resume K (cooperating K act depth prog) (w, cx) (Some a) = Some (r, w', cx') \<and>
    (\<forall>b. b \<noteq> a \<longrightarrow> cos w' b = cos w b \<and> cx' b = cx b) \<and> sched_fit N w' \<and> busy_ok w' [] \<and>
    obs (kern w') = obs (kern w) @ take 1 es \<and>
    (if es = [] then world_ok w' [] [] R \<and> cos w' a = None
     else world_ok w' [] [] (R @ [a]) \<and> parked K act depth prog N (w', cx') a (tl es))"
proof -
  obtain v c s where v: "world_ok v [] [] R" "cos v = (cos w)(a := Some c)" "co_status c = BIT NTY_COROUTINE_STATUS_READY"
      "saved_ok c" "sched v = Some s" "sched_fit N v" "sc_curr_thread s = Some a" "busy v = busy w" "kern v = kern w"
    and run: "\<And>u k. rest K act (depth (co_arg c)) a es v = Yield u k \<Longrightarrow>
      nty_coroutine_resume K (cooperating K act depth prog) (w, cx) (Some a) = after_switch u (cx(a := Some k)) (Some a)"
    using resume_parked [OF st(1,2,3)] by blast
  have c: "cos v a = Some c" using v(2) by simp
  have fit: "stack_ok s" "sc_stack_size s = N" "sc_default_timeout s = 3000000" using v(5,6) by (auto simp: sched_fit_def)
  show ?thesis
  proof (cases es)
    case Nil
    obtain x where x: "after_switch (v\<lparr>cos := (cos v)(a := Some ((exited c)\<lparr>co_ops := 0, co_ctx := sp v\<rparr>))\<rparr>)
        (cx(a := Some resumed)) (Some a) = Some (-1, x, cx(a := Some resumed))"
        "world_ok x [] [] R" "cos x = (cos v)(a := None)" "kern x = kern v" "busy x = q_alloc (busy v) (Next a) False"
        "sched x = Some (s\<lparr>sc_curr_thread := NULL, sc_spawned_coroutines := sc_spawned_coroutines s - 1\<rparr>)"
      using after_exit [OF v(1) c v(5), of "cx(a := Some resumed)"] st(5) by auto
    have "busy_ok x []" using busy_free [OF st(4)] x(5) v(8) by (simp add: busy_ok_def)
    moreover have "sched_fit N x" using x(6) fit by (auto simp: sched_fit_def stack_ok_def split: option.splits)
    ultimately show ?thesis
      using run [unfolded Nil, OF rest_nil [OF c v(5)]] x v Nil by auto
  next
    case (Cons e fs)
    have "depth (co_arg c) < sc_stack_size s" "sc_stack_size s \<le> NTY_CO_MAX_STACKSIZE" using dep fit by (auto simp: depths_ok_def)
    then obtain u c' where u: "rest K act (depth (co_arg c)) a (e # fs) v = Yield u (rest K act (depth (co_arg c)) a fs)"
        "world_ok u [] [] (R @ [a])" "cos u = (cos v)(a := Some c')" "co_status c' = co_status c" "co_arg c' = co_arg c"
        "\<exists>b. co_stack c' = Some b \<and> co_stack_size c' \<le> length b" "co_stack_size c' \<le> sc_stack_size s"
        "sched u = sched v" "busy u = busy v" "obs (kern u) = obs (kern v) @ [e]"
      using rest_cons [OF rec v(1) c st(5) v(4) _ v(5,7), of "depth (co_arg c)" e fs] v(3) fit by auto
    let ?x = "u\<lparr>sched := Some (s\<lparr>sc_curr_thread := NULL\<rparr>)\<rparr>"
    have "after_switch u (cx(a := Some (rest K act (depth (co_arg c)) a fs))) (Some a) =
        Some (0, ?x, cx(a := Some (rest K act (depth (co_arg c)) a fs)))"
      using u v(3,5) by (simp add: after_switch_def)
    moreover have "parked K act depth prog N (?x, cx(a := Some (rest K act (depth (co_arg c)) a fs))) a fs"
      using u v(3) fit by (auto simp: parked_def saved_ok_def)
    moreover have "world_ok ?x [] [] (R @ [a])" using world_ok_sched [OF u(2)] .
    moreover have "sched_fit N ?x" using fit by (auto simp: sched_fit_def stack_ok_def split: option.splits)
    ultimately show ?thesis
      using run [unfolded Cons, OF u(1)] u v st(4) Cons by (auto simp: busy_ok_def)
  qed
qed

subsection \<open>One round\<close>

text \<open>The state in the middle of a round over the coroutines \<open>R\<close>, whose actions at its start were \<open>todo\<close>: the
  coroutines \<open>xs\<close> are still to be resumed, those before them in \<open>R\<close> that had an action have done it and are
  the \<open>ys\<close> behind them in the queue, and the rest of the coroutines \<open>D\<close> is freed.\<close>

definition round_inv ::
  "'k kernel \<Rightarrow> ('e \<Rightarrow> 'k \<Rightarrow> 'k) \<Rightarrow> ('k \<Rightarrow> 'e list) \<Rightarrow> (nat \<Rightarrow> nat) \<Rightarrow> (nat \<Rightarrow> 'e list) \<Rightarrow> nat \<Rightarrow> addr set \<Rightarrow>
   addr list \<Rightarrow> (addr \<Rightarrow> 'e list) \<Rightarrow> 'e list \<Rightarrow> 'k state \<Rightarrow> addr list \<Rightarrow> addr list \<Rightarrow> bool" where
  "round_inv K act obs depth prog N D R todo log st xs ys = (
     world_ok (fst st) [] [] (xs @ ys) \<and> busy_ok (fst st) [] \<and> sched_fit N (fst st) \<and>
     (\<forall>a \<in> set xs. parked K act depth prog N st a (todo a)) \<and>
     (\<forall>a \<in> set ys. parked K act depth prog N st a (tl (todo a))) \<and>
     (\<forall>a \<in> D - set (xs @ ys). cos (fst st) a = None) \<and>
     (\<exists>pre. R = pre @ xs \<and> ys = filter (\<lambda>a. todo a \<noteq> []) pre \<and>
       obs (kern (fst st)) = log @ concat (map (\<lambda>a. take 1 (todo a)) pre)))"

lemma round_turn:
  assumes "recorded K act obs" "depths_ok depth N" "round_inv K act obs depth prog N D R todo log st (a # xs) ys"
    "TAILQ_REMOVE (ready (fst st)) ready_head (Some a) = Some q"
  shows "\<exists>r st' new. nty_coroutine_resume K (cooperating K act depth prog) ((fst st)\<lparr>ready := q\<rparr>, snd st) (Some a) = Some (r, st') \<and>
    round_inv K act obs depth prog N D R todo log st' xs (ys @ new)"
proof -
  let ?w = "(fst st)\<lparr>ready := q\<rparr>"
  from assms(3) obtain pre where inv: "world_ok (fst st) [] [] (a # xs @ ys)" "busy_ok (fst st) []" "sched_fit N (fst st)"
      "\<And>b. b = a \<or> b \<in> set xs \<Longrightarrow> parked K act depth prog N st b (todo b)"
      "\<And>b. b \<in> set ys \<Longrightarrow> parked K act depth prog N st b (tl (todo b))"
      "\<And>b. b \<in> D \<Longrightarrow> b \<noteq> a \<Longrightarrow> b \<notin> set xs \<Longrightarrow> b \<notin> set ys \<Longrightarrow> cos (fst st) b = None"
      "R = pre @ a # xs" "ys = filter (\<lambda>a. todo a \<noteq> []) pre"
      "obs (kern (fst st)) = log @ concat (map (\<lambda>a. take 1 (todo a)) pre)"
    unfolding round_inv_def by auto
  have tq: "tailq (ready (fst st)) ready_head (a # xs @ ys)" using inv(1) by (simp add: world_ok_def ready_ok_def)
  have dist: "a \<notin> set (xs @ ys)" using tq.queue_distinct [OF tq] by simp
  have "tailq q ready_head (xs @ ys)" using tq.pop_front [OF tq] assms(4) by auto
  moreover have "entry q = entry (ready (fst st))"
    using TAILQ_cells(2) [OF assms(4)] by (auto simp: cells_def entry_def fun_eq_iff)
  ultimately have okq: "world_ok ?w [] [] (xs @ ys)" using inv(1) by (auto simp: world_ok_def ready_ok_def)
  have park: "parked K act depth prog N (?w, snd st) a (todo a)" using parked_frame [OF inv(4) [of a]] by simp
  obtain r w' cx' where r: "nty_coroutine_resume K (cooperating K act depth prog) (?w, snd st) (Some a) = Some (r, w', cx')"
      "\<And>b. b \<noteq> a \<Longrightarrow> cos w' b = cos (fst st) b \<and> cx' b = snd st b" "sched_fit N w'" "busy_ok w' []"
      "obs (kern w') = obs (kern (fst st)) @ take 1 (todo a)"
      "if todo a = [] then world_ok w' [] [] (xs @ ys) \<and> cos w' a = None
       else world_ok w' [] [] ((xs @ ys) @ [a]) \<and> parked K act depth prog N (w', cx') a (tl (todo a))"
    using resume_turn [OF assms(1,2) park okq _ _ dist] inv(2,3) by (auto simp: sched_fit_def busy_ok_def)
  let ?new = "filter (\<lambda>a. todo a \<noteq> []) [a]"
  have keep: "parked K act depth prog N (w', cx') b es" if "parked K act depth prog N st b es" "b \<noteq> a" for b es
    using parked_frame [OF that(1), of "(w', cx')"] r(2) [OF that(2)] by simp
  have "round_inv K act obs depth prog N D R todo log (w', cx') xs (ys @ ?new)"
    unfolding round_inv_def fst_conv
  proof (intro conjI)
    show "world_ok w' [] [] (xs @ ys @ ?new)" using r(6) by (auto split: if_splits)
    show "\<forall>b \<in> set xs. parked K act depth prog N (w', cx') b (todo b)" using keep inv(4) dist by auto
    show "\<forall>b \<in> set (ys @ ?new). parked K act depth prog N (w', cx') b (tl (todo b))" using keep inv(5) dist r(6) by auto
    show "\<forall>b \<in> D - set (xs @ ys @ ?new). cos w' b = None"
    proof
      fix b assume "b \<in> D - set (xs @ ys @ ?new)"
      then show "cos w' b = None" using inv(6) r(2,6) by (cases "b = a") (auto split: if_splits)
    qed
    show "\<exists>p. R = p @ xs \<and> ys @ ?new = filter (\<lambda>a. todo a \<noteq> []) p \<and>
        obs (kern w') = log @ concat (map (\<lambda>a. take 1 (todo a)) p)"
      using inv(7-9) r(5) by (intro exI [of _ "pre @ [a]"]) simp
  qed (use r in simp_all)
  then show ?thesis using r(1) by blast
qed

lemma round_cooperative:
  assumes "recorded K act obs" "depths_ok depth N"
  shows "cooperative K (cooperating K act depth prog) (round_inv K act obs depth prog N D R todo log)"
  unfolding cooperative_def
proof (intro allI impI conjI)
  fix st a xs ys
  assume inv: "round_inv K act obs depth prog N D R todo log st (a # xs) ys"
  show "tailq (ready (fst st)) ready_head (a # xs @ ys)" using inv by (simp add: round_inv_def world_ok_def ready_ok_def)
  have "parked K act depth prog N st a (todo a)" using inv by (simp add: round_inv_def)
  then show "\<exists>c. cos (fst st) a = Some c \<and> \<not> has (co_status c) NTY_COROUTINE_STATUS_FDEOF" by (rule parked_alive)
  fix q assume "TAILQ_REMOVE (ready (fst st)) ready_head (Some a) = Some q"
  then show "\<exists>r st' new. nty_coroutine_resume K (cooperating K act depth prog) ((fst st)\<lparr>ready := q\<rparr>, snd st) (Some a) = Some (r, st') \<and>
    round_inv K act obs depth prog N D R todo log st' xs (ys @ new)"
    by (rule round_turn [OF assms inv])
qed

subsection \<open>From round to round\<close>

lemma sched_fit_sched:
  "sched_fit N w \<Longrightarrow> sched w = Some s \<Longrightarrow> sc_stack t = sc_stack s \<Longrightarrow> sc_stack_size t = sc_stack_size s \<Longrightarrow>
   sc_default_timeout t = sc_default_timeout s \<Longrightarrow> sched w' = Some t \<Longrightarrow> sched_fit N w'"
  by (auto simp: sched_fit_def stack_ok_def split: option.splits)

text \<open>The poller, called between two rounds with nobody asleep: with coroutines in the ready queue it is not
  asked at all, otherwise it reports nothing.\<close>

lemma epoll_between:
  assumes "recorded K act obs" "quiet_poller K" "world_ok w [] [] R" "sched_fit N w"
  shows "\<exists>w' s. nty_schedule_epoll K w = Some w' \<and> world_ok w' [] [] R \<and> sched_fit N w' \<and> busy w' = busy w \<and>
    cos w' = cos w \<and> obs (kern w') = obs (kern w) \<and> sched w' = Some s \<and> sc_num_new_events s = 0"
proof -
  obtain s where s: "sched w = Some s" "sc_default_timeout s = 3000000" using assms(4) by (auto simp: sched_fit_def)
  let ?s = "s\<lparr>sc_num_new_events := 0\<rparr>" and ?v = "w\<lparr>sched := Some (s\<lparr>sc_num_new_events := 0\<rparr>)\<rparr>"
  have ok: "world_ok ?v [] [] R" using assms(3) by (rule world_ok_sched)
  obtain now k where clock: "nty_coroutine_usec_now K ?v = (now, ?v\<lparr>kern := k\<rparr>)" "obs k = obs (kern w)"
    using recorded_clock [OF assms(1), of ?v] by auto
  have mt: "nty_schedule_min_timeout K ?v = Some (3000000, ?v\<lparr>kern := k\<rparr>)"
    using min_timeout_correct [of ?v "[]" ?s K now "?v\<lparr>kern := k\<rparr>"] ok clock s(2) by (simp add: world_ok_def)
  have em: "TAILQ_EMPTY (ready w) ready_head = Some (R = [])"
    using assms(3) EMPTY_tailq by (auto simp: world_ok_def ready_ok_def)
  show ?thesis
  proof (cases "R = []")
    case False
    then have "nty_schedule_epoll K w = Some (?v\<lparr>kern := k\<rparr>)" using s mt em by (simp add: nty_schedule_epoll_def)
    moreover have "sched_fit N (?v\<lparr>kern := k\<rparr>)" by (rule sched_fit_sched [OF assms(4) s(1)]) simp_all
    ultimately show ?thesis using ok clock(2) by simp
  next
    case True
    have ts: "usecs_timespec 3000000 = (3, 0)" by (simp add: usecs_timespec_def)
    obtain evs e k' where ep: "k_epoll_wait K k (sc_poller_fd s) NTY_CO_MAX_EVENTS 3000 = (0, evs, e, k')"
      using assms(2) unfolding quiet_poller_def by blast
    let ?e = "?s\<lparr>sc_eventlist := evs @ drop (length evs) (sc_eventlist s)\<rparr>"
    let ?u = "w\<lparr>kern := k', errno := e, sched := Some ?e\<rparr>"
    let ?x = "?u\<lparr>sched := Some (?e\<lparr>sc_nevents := 0, sc_num_new_events := 0\<rparr>)\<rparr>"
    have "nty_epoller_wait K (?v\<lparr>kern := k\<rparr>) 3 0 = Some (0, ?u)"
      using ep by (cases w) (simp add: nty_epoller_wait_def timespec_ms_def)
    then have "epoll_retry K (?v\<lparr>kern := k\<rparr>) 3 0 = Some (0, ?u)" by (subst epoll_retry.simps) simp
    then have "nty_schedule_epoll K w = Some ?x" using s True mt em ts by (simp add: nty_schedule_epoll_def)
    moreover have "world_ok ?x [] [] R" using assms(3) by (simp add: world_ok_def)
    moreover have "sched_fit N ?x" by (rule sched_fit_sched [OF assms(4) s(1)]) simp_all
    moreover have "obs k' = obs (kern w)" using recorded_wait [OF assms(1) ep] clock(2) by simp
    ultimately show ?thesis by auto
  qed
qed

text \<open>A state between two rounds: the queue \<open>R\<close> of parked coroutines and their actions.\<close>

definition between ::
  "'k kernel \<Rightarrow> ('e \<Rightarrow> 'k \<Rightarrow> 'k) \<Rightarrow> ('k \<Rightarrow> 'e list) \<Rightarrow> (nat \<Rightarrow> nat) \<Rightarrow> (nat \<Rightarrow> 'e list) \<Rightarrow> nat \<Rightarrow> addr set \<Rightarrow>
   addr list \<Rightarrow> (addr \<Rightarrow> 'e list) \<Rightarrow> 'e list \<Rightarrow> 'k state \<Rightarrow> bool" where
  "between K act obs depth prog N D R todo log st = (
     world_ok (fst st) [] [] R \<and> busy_ok (fst st) [] \<and> sched_fit N (fst st) \<and>
     (\<forall>a \<in> set R. parked K act depth prog N st a (todo a)) \<and>
     (\<forall>a \<in> D - set R. cos (fst st) a = None) \<and> obs (kern (fst st)) = log)"

text \<open>One round of the loop: every coroutine of the queue does one action, in the order of the queue, and those
  that had none left are gone.\<close>

lemma run_round_turns:
  assumes "recorded K act obs" "depths_ok depth N" "quiet_poller K" "between K act obs depth prog N D R todo log st" "R \<noteq> []"
  shows "\<exists>st'. run_round K (cooperating K act depth prog) st = Some st' \<and>
    between K act obs depth prog N D (filter (\<lambda>a. todo a \<noteq> []) R) (\<lambda>a. tl (todo a))
      (log @ concat (map (\<lambda>a. take 1 (todo a)) R)) st'"
proof -
  obtain w cx where st: "st = (w, cx)" by (cases st)
  let ?C = "cooperating K act depth prog"
  have b: "world_ok w [] [] R" "busy_ok w []" "sched_fit N w" using assms(4) st by (auto simp: between_def)
  obtain s where s: "sched w = Some s" using b(3) by (auto simp: sched_fit_def)
  obtain now k where clock: "nty_coroutine_usec_now K w = (now, w\<lparr>kern := k\<rparr>)" "obs k = obs (kern w)"
    using recorded_clock [OF assms(1)] by blast
  have 1: "run_expired K ?C (w, cx) = Some (w\<lparr>kern := k\<rparr>, cx)"
    using expired_correct [of w "[]" s K now "w\<lparr>kern := k\<rparr>"] b(1) s clock
    by (subst run_expired.simps) (simp add: world_ok_def)
  have inv: "round_inv K act obs depth prog N D R todo log (w\<lparr>kern := k\<rparr>, cx) R []"
    using assms(4) clock(2) st parked_frame
    by (fastforce simp: round_inv_def between_def busy_ok_def sched_fit_def)
  have 2: "TAILQ_LAST (ready w) ready_head = Some (Some (last R))"
    using LAST_tailq [of "ready w" ready_head R] b(1) assms(5)
    by (cases R rule: rev_cases) (auto simp: world_ok_def ready_ok_def)
  obtain st1 zs where 3: "run_ready K ?C (Some (last R)) (w\<lparr>kern := k\<rparr>, cx) = Some st1"
      "round_inv K act obs depth prog N D R todo log st1 [] zs"
    using run_ready_fair [OF round_cooperative [OF assms(1,2)] inv assms(5)] by auto
  let ?R = "filter (\<lambda>a. todo a \<noteq> []) R"
  have zs: "zs = ?R" "obs (kern (fst st1)) = log @ concat (map (\<lambda>a. take 1 (todo a)) R)"
    "world_ok (fst st1) [] [] ?R" "busy_ok (fst st1) []" "sched_fit N (fst st1)"
    using 3(2) by (auto simp: round_inv_def)
  obtain w2 s2 where 4: "nty_schedule_epoll K (fst st1) = Some w2" "world_ok w2 [] [] ?R" "sched_fit N w2" "busy w2 = busy (fst st1)"
      "cos w2 = cos (fst st1)" "obs (kern w2) = obs (kern (fst st1))" "sched w2 = Some s2" "sc_num_new_events s2 = 0"
    using epoll_between [OF assms(1,3) zs(3,5)] by blast
  have 5: "run_events K ?C (w2, snd st1) = Some (w2, snd st1)" using 4(7,8) by (subst run_events.simps) simp
  have "run_round K ?C st = Some (w2, snd st1)" using 1 2 3(1) 4(1) 5 st by (simp add: run_round_def)
  moreover have "parked K act depth prog N (w2, snd st1) a (tl (todo a))" if "a \<in> set ?R" for a
    using that 3(2) zs(1) 4(5) parked_frame [of K act depth prog N st1 a "tl (todo a)" "(w2, snd st1)"] by (simp add: round_inv_def)
  moreover have "\<forall>a \<in> D - set ?R. cos w2 a = None" using 3(2) zs(1) 4(5) by (auto simp: round_inv_def)
  ultimately show ?thesis using zs 4 by (auto simp: between_def busy_ok_def)
qed

subsection \<open>The whole run\<close>

text \<open>The schedule the program should have: the first actions of all coroutines, then their second actions, and
  so on, in the order of the queue; a coroutine that has no action left drops out.\<close>

definition round_robin :: "'e list list \<Rightarrow> 'e list" where
  "round_robin ess = concat (transpose ess)"

lemma transpose_step: "concat (transpose ess) =
  concat (map (take 1) ess) @ concat (transpose (map tl (filter (\<lambda>es. es \<noteq> []) ess)))"
proof (induction ess rule: transpose.induct)
  case (3 x xs xss)
  have "concat (map (\<lambda>es. case es of [] \<Rightarrow> [] | h # t \<Rightarrow> [h]) xss) = concat (map (take 1) xss)"
    by (intro arg_cong [where f = concat] map_cong) (auto split: list.split)
  moreover have "concat (map (\<lambda>es. case es of [] \<Rightarrow> [] | h # t \<Rightarrow> [t]) xss) = map tl (filter (\<lambda>es. es \<noteq> []) xss)"
    by (induction xss) (auto split: list.split)
  ultimately show ?case by simp
qed simp_all

lemma round_robin_step: "round_robin (map todo R) = concat (map (\<lambda>a. take 1 (todo a)) R) @
  round_robin (map (\<lambda>a. tl (todo a)) (filter (\<lambda>a. todo a \<noteq> []) R))"
  by (subst round_robin_def, subst transpose_step) (simp add: round_robin_def filter_map o_def)

lemma run_loop_turns:
  assumes "recorded K act obs" "depths_ok depth N" "quiet_poller K"
  shows "between K act obs depth prog N D R todo log st \<Longrightarrow> (\<And>a. a \<in> set R \<Longrightarrow> length (todo a) < n) \<Longrightarrow>
    \<exists>st' todo'. run_loop K (cooperating K act depth prog) st = Some st' \<and>
      between K act obs depth prog N D [] todo' (log @ round_robin (map todo R)) st'"
proof (induction n arbitrary: st R todo log)
  case 0
  then have "R = []" by (cases R) auto
  moreover have "nty_schedule_isdone (fst st) = Some True"
    using isdone_iff [of "fst st" "[]" "[]" R "[]"] 0 \<open>R = []\<close> by (simp add: between_def)
  ultimately show ?case using 0 by (subst run_loop.simps) (auto simp: round_robin_def)
next
  case (Suc n)
  show ?case
  proof (cases "R = []")
    case True
    then have "nty_schedule_isdone (fst st) = Some True"
      using isdone_iff [of "fst st" "[]" "[]" R "[]"] Suc.prems by (simp add: between_def)
    then show ?thesis using Suc.prems True by (subst run_loop.simps) (auto simp: round_robin_def)
  next
    case False
    let ?R = "filter (\<lambda>a. todo a \<noteq> []) R"
    obtain st1 where st1: "run_round K (cooperating K act depth prog) st = Some st1"
        "between K act obs depth prog N D ?R (\<lambda>a. tl (todo a)) (log @ concat (map (\<lambda>a. take 1 (todo a)) R)) st1"
      using run_round_turns [OF assms Suc.prems(1) False] by blast
    have short: "length (tl (todo a)) < n" if "a \<in> set ?R" for a
      using that Suc.prems(2) [of a] by (cases "todo a") auto
    have "nty_schedule_isdone (fst st) = Some False"
      using isdone_iff [of "fst st" "[]" "[]" R "[]"] Suc.prems(1) False by (simp add: between_def)
    then have "run_loop K (cooperating K act depth prog) st = run_loop K (cooperating K act depth prog) st1"
      using st1(1) by (subst run_loop.simps) simp
    moreover have "log @ round_robin (map todo R) =
        (log @ concat (map (\<lambda>a. take 1 (todo a)) R)) @ round_robin (map (\<lambda>a. tl (todo a)) ?R)"
      by (subst round_robin_step) simp
    ultimately show ?thesis using Suc.IH [OF st1(2) short] by (simp only:)
  qed
qed

lemma schedule_free_keeps:
  assumes "\<And>k fd. obs (snd (snd (k_close K k fd))) = obs k" "sched w \<noteq> None"
  shows "\<exists>w'. nty_schedule_free K w = Some w' \<and> sched w' = None \<and> cos w' = cos w \<and> obs (kern w') = obs (kern w)"
proof -
  have f: "sched (snd (sys_close K v fd)) = sched v" "cos (snd (sys_close K v fd)) = cos v"
      "obs (kern (snd (sys_close K v fd))) = obs (kern v)" for v fd
    using assms(1) [of "kern v" fd] by (simp_all add: sys_close_def case_prod_beta)
  show ?thesis using assms(2) by (auto simp: nty_schedule_free_def Let_def f)
qed

text \<open>C4.  A whole program of cooperating coroutines: any number of new coroutines in the ready queue, each of
  which does a list of actions of its own and calls \<open>nty_coroutine_sleep(0)\<close> after each, run to the end without a
  fault: \<open>nty_schedule_run\<close> returns, every coroutine and the scheduler are freed, and the actions were done in
  round-robin order, the first of every coroutine in the order of the queue, then the second of every one that has
  it, and so on.  It is enough that the poller reports nothing, that there is memory for the saved stacks and that
  the bodies stay on the stack.\<close>

theorem run_round_robin:
  assumes "recorded K act obs" "quiet_poller K" "world_ok w [] [] R" "busy_ok w []"
    and "sched w = Some s" "stack_ok s" "sc_stack_size s \<le> NTY_CO_MAX_STACKSIZE" "sc_default_timeout s = 3000000"
    and "\<And>x. depth x < sc_stack_size s"
    and "\<And>a. a \<in> set R \<Longrightarrow> \<exists>c. cos w a = Some c \<and> saved_ok c \<and> co_status c = BIT NTY_COROUTINE_STATUS_NEW \<and> co_arg c = arg a"
  shows "\<exists>w' cx'. nty_schedule_run K (cooperating K act depth prog) (w, cx) = Some (w', cx') \<and> sched w' = None \<and>
    (\<forall>a \<in> set R. cos w' a = None) \<and> obs (kern w') = obs (kern w) @ round_robin (map (\<lambda>a. prog (arg a)) R)"
proof -
  let ?N = "sc_stack_size s"
  have dep: "depths_ok depth ?N" using assms(7,9) by (simp add: depths_ok_def)
  have "parked K act depth prog ?N (w, cx) a (prog (arg a))" if "a \<in> set R" for a
    using assms(10) [OF that] by (auto simp: parked_def)
  then have "between K act obs depth prog ?N (set R) R (\<lambda>a. prog (arg a)) (obs (kern w)) (w, cx)"
    using assms by (simp add: between_def sched_fit_def)
  moreover have "length (prog (arg a)) < Suc (sum_list (map (\<lambda>a. length (prog (arg a))) R))" if "a \<in> set R" for a
    using that member_le_sum_list [of "length (prog (arg a))" "map (\<lambda>a. length (prog (arg a))) R"] by simp
  ultimately obtain v cv todo where v: "run_loop K (cooperating K act depth prog) (w, cx) = Some (v, cv)"
      "between K act obs depth prog ?N (set R) [] todo (obs (kern w) @ round_robin (map (\<lambda>a. prog (arg a)) R)) (v, cv)"
    using run_loop_turns [OF assms(1) dep assms(2)] by (metis surj_pair)
  obtain t where "sched v = Some t" using v(2) by (auto simp: between_def sched_fit_def)
  then obtain w' where "nty_schedule_free K v = Some w'" "sched w' = None" "cos w' = cos v" "obs (kern w') = obs (kern v)"
    using schedule_free_keeps [of obs K v] assms(1) by (auto simp: recorded_def)
  then show ?thesis using v assms(5) by (simp add: nty_schedule_run_def between_def)
qed

text \<open>Two new coroutines in the ready queue, on a system whose state is the list of the actions so far.\<close>

definition log_kernel :: "nat list kernel" where
  "log_kernel = \<lparr>k_gettimeofday = (\<lambda>k. ((0, 0), k)), k_calloc_co = (\<lambda>k. (None, k)),
     k_calloc_sched = (\<lambda>k. (True, k)), k_realloc = (\<lambda>k n. (True, k)),
     k_memalign = (\<lambda>k n. (Some (replicate n 0), k)), k_pagesize = 4096,
     k_epoll_create = (\<lambda>k n. (3, 0, k)), k_eventfd = (\<lambda>k. (4, 0, k)),
     k_epoll_ctl = (\<lambda>k ep oper fd ev. (0, 0, k)), k_epoll_wait = (\<lambda>k ep n ms. (0, [], 0, k)),
     k_poll = (\<lambda>k fds t. (0, 0, k)), k_socket = (\<lambda>k d t p. (5, 0, k)), k_setnonblock = (\<lambda>k fd. (0, 0, k)),
     k_setreuse = (\<lambda>k fd. (0, 0, k)), k_accept = (\<lambda>k fd. (6, 0, k)), k_connect = (\<lambda>k fd a. (0, 0, k)),
     k_read = (\<lambda>k fd n. (0, [], 0, k)), k_recv = (\<lambda>k fd n f. (0, [], 0, k)),
     k_recvfrom = (\<lambda>k fd n f. (0, [], 0, k)), k_write = (\<lambda>k fd bs. (int (length bs), 0, k)),
     k_send = (\<lambda>k fd bs f. (int (length bs), 0, k)), k_sendto = (\<lambda>k fd bs f a. (int (length bs), 0, k)),
     k_close = (\<lambda>k fd. (0, 0, k))\<rparr>"

definition demo_two :: "nat list world" where
  "demo_two = \<lparr>cos = [1 \<mapsto> demo_co\<lparr>co_arg := 1\<rparr>, 2 \<mapsto> demo_co\<lparr>co_arg := 2\<rparr>], sched = Some demo_sched,
     sleeping = \<lparr>rbh_root = NULL, rb_node = [1 \<mapsto> zero_rb, 2 \<mapsto> zero_rb]\<rparr>,
     waiting = \<lparr>rbh_root = NULL, rb_node = [1 \<mapsto> zero_rb, 2 \<mapsto> zero_rb]\<rparr>,
     ready = \<lparr>slot = [Head 0 \<mapsto> Some 1, Next 1 \<mapsto> Some 2, Next 2 \<mapsto> NULL],
       pslot = [Head 0 \<mapsto> Some (Next 2), Next 1 \<mapsto> Some (Head 0), Next 2 \<mapsto> Some (Next 1)]\<rparr>,
     defer_q = demo_links, busy = demo_links, sp = 0, errno = 0, hooks = True, kern = []\<rparr>"

lemma demo_two_ok: "world_ok demo_two [] [] [1, 2]"
proof -
  have "rb_holds \<lparr>rbh_root = NULL, rb_node = [1 \<mapsto> zero_rb, 2 \<mapsto> zero_rb]\<rparr> []"
    by (auto simp: rb_holds_def rep_def is_rbt_def intro!: exI [of _ Leaf])
  moreover have "tailq (ready demo_two) ready_head [1, 2]" "entry (ready demo_two) = (\<lambda>a. cos demo_two a \<noteq> None)"
    by (auto simp: tailq_def entry_def demo_two_def fun_eq_iff)
  ultimately show ?thesis
    by (auto simp: world_ok_def sleep_ok_def wait_ok_def ready_ok_def ordered_def allocated_def demo_two_def fun_eq_iff)
qed

theorem run_round_robin_witness:
  "\<exists>w' cx'. nty_schedule_run log_kernel (cooperating log_kernel (\<lambda>e k. k @ [e]) (\<lambda>_. 1) (\<lambda>x. if x = 1 then [10, 11] else [20]))
      (demo_two, Map.empty) = Some (w', cx') \<and> sched w' = None \<and> cos w' 1 = None \<and> cos w' 2 = None \<and> kern w' = [10, 20, 11]"
proof -
  have "recorded log_kernel (\<lambda>e k. k @ [e]) (\<lambda>k. k)" "quiet_poller log_kernel"
    by (simp_all add: recorded_def quiet_poller_def log_kernel_def)
  moreover have "busy_ok demo_two []" using demo_memory(5) by (simp add: busy_ok_def demo_two_def)
  moreover have "sched demo_two = Some demo_sched" "stack_ok demo_sched" "sc_stack_size demo_sched = 4"
      "sc_default_timeout demo_sched = 3000000"
    by (simp_all add: demo_two_def demo_sched_def stack_ok_def)
  moreover have "\<exists>c. cos demo_two a = Some c \<and> saved_ok c \<and> co_status c = BIT NTY_COROUTINE_STATUS_NEW \<and> co_arg c = a"
      if "a \<in> set [1, 2]" for a
    using that by (auto simp: demo_two_def demo_co_def zero_co_def saved_ok_def)
  moreover have "kern demo_two = []" by (simp add: demo_two_def)
  moreover have "round_robin [[10, 11], [20 :: nat]] = [10, 20, 11]" by (simp add: round_robin_def)
  ultimately show ?thesis
    using run_round_robin [of log_kernel "\<lambda>e k. k @ [e]" "\<lambda>k. k" demo_two "[1, 2]" demo_sched "\<lambda>_. 1" "\<lambda>a. a"
        "\<lambda>x. if x = 1 then [10, 11] else [20]" Map.empty] demo_two_ok
    by (auto simp: NTY_CO_MAX_STACKSIZE_def)
qed

end
