(* ===== verification/Serving.thy ===== *)
theory Serving
  imports Echo_Servers Cooperation
begin

text \<open>
  The socket layer on top of the scheduler.  The theories of the servers prove a body correct under the rely
  condition \<open>wakes\<close>: between a yield and the resume after it the coroutine stays in the wait tree and is resumed
  with its stack in place.  This theory shows that \<open>nty_schedule_run\<close> keeps that promise: a coroutine that
  waits for a descriptor is found in the wait tree when the poller reports it, and is resumed in a memory that the
  rely condition allows.  A body that is correct under \<open>wakes\<close> is run to its end, and the echo server is an
  instance.
\<close>

subsection \<open>What a body leaves alone\<close>

text \<open>A body that only waits, reads, writes and closes leaves the scheduler, the set of coroutines and the busy list
  as they are; what happens while it is away is not its doing.\<close>

definition same_frame :: "'k world \<Rightarrow> 'k world \<Rightarrow> bool" where
  "same_frame w w' = (sched w' = sched w \<and> dom (cos w') = dom (cos w) \<and> busy w' = busy w)"

primrec frames :: "'k world \<Rightarrow> ('k world, 'a) comp \<Rightarrow> bool" where
  "frames v Fault = True"
| "frames v Out_of_fuel = True"
| "frames v (Ret x w) = same_frame v w"
| "frames v (Yield w k) = (same_frame v w \<and> (\<forall>w'. frames w' (k w')))"

lemma same_frame_refl [simp]: "same_frame w w"
  by (simp add: same_frame_def)

lemma same_frame_trans: "same_frame u v \<Longrightarrow> same_frame v w \<Longrightarrow> same_frame u w"
  by (simp add: same_frame_def)

lemma frames_weaken: "same_frame u v \<Longrightarrow> frames v m \<Longrightarrow> frames u m"
  by (cases m) (auto dest: same_frame_trans)

lemma frames_bind: "frames v m \<Longrightarrow> (\<And>x w. frames w (f x w)) \<Longrightarrow> frames v (comp_bind m f)"
  by (induction m arbitrary: v) (auto dest: same_frame_trans frames_weaken)

lemma frames_lift: "(\<And>w. r = Some w \<Longrightarrow> same_frame v w) \<Longrightarrow> frames v (lift_opt r)"
  by (cases r) (simp_all add: lift_opt_def)

lemma same_frame_upd [simp]:
  "same_frame v (w\<lparr>kern := k\<rparr>) = same_frame v w" "same_frame v (w\<lparr>errno := e\<rparr>) = same_frame v w"
  "same_frame v (w\<lparr>waiting := t\<rparr>) = same_frame v w" "same_frame v (w\<lparr>sleeping := t\<rparr>) = same_frame v w"
  "same_frame v (w\<lparr>hooks := b\<rparr>) = same_frame v w" "same_frame v (w\<lparr>sp := n\<rparr>) = same_frame v w"
  by (simp_all add: same_frame_def)

lemma same_frame_at:
  assumes "cos w a = Some c" "cos w' = cos w"
  shows "same_frame v (w'\<lparr>cos := (cos w)(a := Some d)\<rparr>) = same_frame v w'"
proof -
  have "dom ((cos w)(a := Some d)) = dom (cos w')" using assms by auto
  then show ?thesis by (simp add: same_frame_def)
qed

lemma same_frame_cos:
  assumes "upd_co w p f = Some w'"
  shows "same_frame v w' = same_frame v w"
proof -
  obtain a c where "p = Some a" "cos w a = Some c" "w' = w\<lparr>cos := (cos w)(a := Some (f c))\<rparr>"
    using assms by (auto simp: upd_co_def store_def bind_eq_Some_conv split: option.splits)
  then show ?thesis using same_frame_at [of w a c w] by simp
qed

lemma same_frame_wait:
  assumes "nty_schedule_sched_wait K w co fd events 1 = Some w'"
  shows "same_frame v w' = same_frame v w"
  using assms by (auto simp: nty_schedule_sched_wait_def bind_eq_Some_conv c_assert_def same_frame_cos split: if_splits)

lemma same_frame_desched:
  assumes "nty_schedule_desched_wait w fd = Some (p, w')"
  shows "same_frame v w' = same_frame v w"
  using assms
  by (auto simp: nty_schedule_desched_wait_def nty_schedule_desched_sleepdown_def bind_eq_Some_conv same_frame_cos same_frame_at split: if_splits)

lemma same_frame_save:
  assumes "save_stack K w co = Some w'"
  shows "same_frame v w' = same_frame v w"
  using assms
  by (auto simp: save_stack_def bind_eq_Some_conv Let_def c_assert_def same_frame_cos split: if_splits prod.splits)

lemma frames_yield: "frames w (nty_coroutine_yield K w co)"
  by (auto simp: nty_coroutine_yield_def bind_eq_Some_conv resumed_def same_frame_cos same_frame_save split: option.split if_splits)

lemma frames_poll: "frames w (nty_poll_inner K w [(fd, ev)] 1)"
proof -
  have arm: "same_frame w w'" if "poll_arm K w co [(fd, ev)] 1 = Some w'" for co w'
    using that by (auto simp: bind_eq_Some_conv same_frame_cos same_frame_wait case_prod_beta Let_def)
  have dis: "same_frame v w'" if "poll_disarm K v [(fd, ev)] = Some w'" for v w'
    using that by (auto simp: bind_eq_Some_conv same_frame_desched case_prod_beta Let_def)
  show ?thesis
    by (auto simp: nty_poll_inner_def Let_def simp del: poll_arm.simps poll_disarm.simps split: option.split
        intro!: frames_bind frames_lift frames_yield dest: arm dis)
qed

lemma frames_sys: "frames w (sys w r)" "frames w (sys_data w r2)"
  by (auto simp: sys_def sys_data_def split: prod.split)

lemma frames_hook: "frames (ensure_hook w) m = frames w m"
  by (cases m) (auto simp: ensure_hook_def init_hook_def same_frame_def)

lemma frames_recv: "frames w (recv K w fd len flags)"
proof -
  have "frames (ensure_hook w) (recv K w fd len flags)"
    by (auto simp: recv_def Let_def split: prod.split intro!: frames_bind frames_poll frames_sys)
  then show ?thesis by (simp add: frames_hook)
qed

lemma frames_nty_recv: "frames w (nty_recv K w fd len flags)"
  by (auto simp: nty_recv_def Let_def split: prod.split intro!: frames_bind frames_poll frames_recv)

lemma frames_send_loop:
  assumes "\<And>bs w. frames w (call bs w)"
  shows "frames w (send_loop n K call w fd buf sent ret)"
proof (induction n arbitrary: w sent ret)
  case 0
  then show ?case by (simp add: send_loop.simps)
next
  case (Suc n)
  then show ?case by (subst send_loop.simps) (auto simp: Let_def intro!: frames_bind frames_poll assms)
qed

lemma frames_send_all:
  assumes "\<And>bs w. frames w (call bs w)"
  shows "frames w (send_all fuel K call w fd buf)"
  by (auto simp: send_all_def Let_def split: prod.split intro!: frames_bind frames_send_loop assms)

lemma frames_send: "frames w (send fuel K w fd buf flags)"
proof -
  have "frames (ensure_hook w) (send fuel K w fd buf flags)"
    by (auto simp: send_def Let_def intro!: frames_send_all frames_sys)
  then show ?thesis by (simp add: frames_hook)
qed

lemma frames_close: "frames w (close K w fd)"
proof -
  have "frames (ensure_hook w) (close K w fd)" by (auto simp: close_def Let_def intro!: frames_sys)
  then show ?thesis by (simp add: frames_hook)
qed

lemma frames_echo_loop:
  assumes "\<And>w. frames w (rcv w)" "\<And>bs w. frames w (snd_buf bs w)" "\<And>w. frames w (cls w)"
  shows "frames w (echo_loop n rcv snd_buf cls w)"
proof (induction n arbitrary: w)
  case (Suc n)
  then show ?case by (auto simp: Let_def split: prod.split option.split intro!: frames_bind assms)
qed simp

lemma frames_readers:
  "frames w (server_reader n fuel K w arg)" "frames w (hook_server_reader n fuel K w arg)"
  by (auto simp: server_reader_def hook_server_reader_def Let_def nty_send_def nty_close_def split: option.split
      intro!: frames_echo_loop frames_nty_recv frames_recv frames_send_all frames_send frames_close)

subsection \<open>The scheduler keeps the promise\<close>

text \<open>The end of \<open>_exec\<close> after the body.\<close>

definition finish :: "'k kernel \<Rightarrow> addr \<Rightarrow> 'k world \<Rightarrow> ('k world, unit) comp" where
  "finish K a w = comp_bind (lift_opt (upd_co w (Some a) exited)) (\<lambda>_ w. nty_coroutine_yield K w (Some a))"

text \<open>A waiting coroutine that is resumed goes on in a memory that the rely condition allows.\<close>

lemma resume_awaiting:
  assumes "awaiting a fd w" "cx a = Some k" "\<And>c. cos w a = Some c \<Longrightarrow> \<not> has (co_status c) NTY_COROUTINE_STATUS_NEW"
  shows "\<exists>v. woken a fd v \<and> kern v = kern w \<and> dom (cos v) = dom (cos w) \<and> busy v = busy w \<and>
    (\<exists>s b. sched w = Some s \<and> sched v = Some (s\<lparr>sc_stack := b, sc_curr_thread := Some a\<rparr>)) \<and>
    (\<forall>u k'. k v = Yield u k' \<longrightarrow> nty_coroutine_resume K code (w, cx) (Some a) = after_switch u (cx(a := Some k')) (Some a))"
proof -
  obtain S W R s c b where w: "world_ok w S W R" "sched w = Some s" "stack_ok s" "cos w a = Some c" "co_fd c = fd" "a \<in> set W"
      "a \<notin> set S" "a \<notin> set R" "hooks w" "co_stack c = Some b" "co_stack_size c \<le> length b"
      "co_ctx c < sc_stack_size s" "sc_stack_size s - co_ctx c \<le> NTY_CO_MAX_STACKSIZE"
      "co_stack_size c = sc_stack_size s - co_ctx c"
    using assms(1) unfolding awaiting_def by blast
  obtain stk where stk: "sc_stack s = Some stk" using w(3) by (auto simp: stack_ok_def split: option.splits)
  let ?s = "s\<lparr>sc_stack := Some (take (sc_stack_size s - co_stack_size c) stk @ take (co_stack_size c) b), sc_curr_thread := Some a\<rparr>"
  let ?v = "w\<lparr>sched := Some ?s, sp := co_ctx c\<rparr>"
  have load: "load_stack w (Some a) = Some (w\<lparr>sched := Some (s\<lparr>sc_stack :=
      Some (take (sc_stack_size s - co_stack_size c) stk @ take (co_stack_size c) b)\<rparr>)\<rparr>)"
    using load_stack_ok [OF w(4,2,3) stk w(10)] w(11,14) by simp
  have "nty_coroutine_resume K code (w, cx) (Some a) = after_switch u (cx(a := Some k')) (Some a)" if "k ?v = Yield u k'" for u k'
    using that w(4) assms(2) assms(3) [OF w(4)] load by (simp add: nty_coroutine_resume_def switch_to_def after_switch_def)
  moreover have "woken a fd ?v"
    unfolding woken_def
  proof (intro exI conjI)
    show "world_ok ?v S W R" using world_ok_sched [OF w(1)] by simp
    show "stack_ok ?s" using w(3,11,14) stk by (simp add: stack_ok_def)
  qed (use w in \<open>auto simp: saved_ok_def\<close>)
  ultimately show ?thesis using w(2) by (intro exI [of _ ?v]) auto
qed

subsection \<open>One turn of the only coroutine\<close>

text \<open>The coroutine \<open>a\<close> is the only one of the thread.\<close>

definition alone :: "addr \<Rightarrow> 'k world \<Rightarrow> bool" where
  "alone a w = (dom (cos w) = {a} \<and> busy_ok w [] \<and> (\<exists>s. sched w = Some s \<and> sc_default_timeout s = 3000000))"

lemma alone_lists:
  assumes "world_ok w S W R" "alone a w"
  shows "set S \<subseteq> {a}" "set W \<subseteq> {a}" "set R \<subseteq> {a}" "distinct W"
proof -
  have d: "b = a" if "cos w b = Some c" for b c using that assms(2) by (auto simp: alone_def)
  have "rb_holds (waiting w) W" using assms(1) by (simp add: world_ok_def wait_ok_def)
  then show "distinct W" by (rule rb.holds_distinct)
  show "set S \<subseteq> {a}" "set W \<subseteq> {a}" "set R \<subseteq> {a}"
    using assms(1) d sleep_ok_alive [of w S] wait_ok_alive [of w W] ready_ok_alive [of w R] by (fastforce simp: world_ok_def)+
qed

lemma running_alone:
  assumes "running a fd w" "alone a w"
  shows "world_ok w [] [] []"
proof -
  obtain S W R where "world_ok w S W R" "a \<notin> set S" "a \<notin> set W" "a \<notin> set R" using assms(1) by (auto simp: running_def)
  moreover from this have "S = []" "W = []" "R = []" using alone_lists [OF _ assms(2), of S W R] by (auto simp: subset_singleton_iff)
  ultimately show ?thesis by simp
qed

lemma awaiting_alone:
  assumes "awaiting a fd w" "alone a w"
  shows "world_ok w [] [a] []"
proof -
  obtain S W R where w: "world_ok w S W R" "a \<notin> set S" "a \<in> set W" "a \<notin> set R" using assms(1) unfolding awaiting_def by blast
  then have "S = []" "R = []" using alone_lists [OF w(1) assms(2)] by (auto simp: subset_singleton_iff)
  moreover have "W = [a]" using alone_lists(2,4) [OF w(1) assms(2)] w(3)
    by (cases W; cases "tl W") (auto simp: subset_singleton_iff)
  ultimately show ?thesis using w(1) by simp
qed

lemma alone_frame: "alone a v \<Longrightarrow> same_frame v w \<Longrightarrow> alone a w"
  by (simp add: alone_def same_frame_def busy_ok_def)

text \<open>Fields of the scheduler and of the coroutine that do not matter to a wait.\<close>

lemma awaiting_upd:
  assumes "awaiting a fd w" "cos w a = Some c" "sched w = Some s"
    "sc_stack t = sc_stack s" "sc_stack_size t = sc_stack_size s" "\<not> has st NTY_COROUTINE_STATUS_EXITED"
  shows "awaiting a fd (w\<lparr>sched := Some t, kern := k, errno := e, cos := (cos w)(a := Some (c\<lparr>co_status := st\<rparr>))\<rparr>)"
proof -
  obtain S W R b where w: "world_ok w S W R" "stack_ok s" "co_fd c = fd" "a \<in> set W"
      "a \<notin> set S" "a \<notin> set R" "hooks w" "co_stack c = Some b" "co_stack_size c \<le> length b"
      "co_ctx c < sc_stack_size s" "sc_stack_size s - co_ctx c \<le> NTY_CO_MAX_STACKSIZE" "co_stack_size c = sc_stack_size s - co_ctx c"
    using assms(1-3) unfolding awaiting_def by auto
  let ?v = "w\<lparr>sched := Some t, kern := k, errno := e\<rparr>"
  have "world_ok ?v S W R" using world_ok_sched [OF w(1)] by simp
  then have "world_ok (?v\<lparr>cos := (cos ?v)(a := Some (c\<lparr>co_status := st\<rparr>))\<rparr>) S W R"
    using world_ok_upd [of ?v S W R a c "c\<lparr>co_status := st\<rparr>"] assms(2) by simp
  moreover have "stack_ok t" using w(2) assms(4,5) by (simp add: stack_ok_def split: option.splits)
  ultimately show ?thesis
    unfolding awaiting_def
    by (intro exI [of _ S] exI [of _ W] exI [of _ R] exI [of _ t] exI [of _ "c\<lparr>co_status := st\<rparr>"] exI [of _ b])
      (use w assms in simp)
qed

text \<open>What is true between two turns: the computation has yielded (\<open>m\<close> is a \<open>Yield\<close>), the coroutine waits, and its
  context is the rest of the computation; or the body has returned.\<close>

definition serving :: "'k kernel \<Rightarrow> ('k \<Rightarrow> 'o) \<Rightarrow> (unit \<Rightarrow> 'k world \<Rightarrow> bool) \<Rightarrow> addr \<Rightarrow> int \<Rightarrow> 'k state \<Rightarrow> ('k world, unit) comp \<Rightarrow> bool" where
  "serving K out Q a fd st m = (\<exists>u k. m = Yield u k \<and> always (wakes out a fd) Q m \<and> (\<forall>w'. frames w' (k w')) \<and>
     awaiting a fd (fst st) \<and> out (kern (fst st)) = out (kern u) \<and> alone a (fst st) \<and>
     snd st a = Some (\<lambda>v. comp_bind (k v) (\<lambda>_. finish K a)))"

definition ended :: "('k \<Rightarrow> 'o) \<Rightarrow> (unit \<Rightarrow> 'k world \<Rightarrow> bool) \<Rightarrow> addr \<Rightarrow> 'k state \<Rightarrow> bool" where
  "ended out Q a st = (\<exists>x w2. Q x w2 \<and> out (kern (fst st)) = out (kern w2) \<and> world_ok (fst st) [] [] [] \<and>
     busy_ok (fst st) [] \<and> cos (fst st) a = None)"

lemma turn_serves:
  assumes "always (wakes out a fd) Q m" "frames v m" "alone a v" "sched v = Some s" "\<And>x w. Q x w \<Longrightarrow> running a fd w"
  shows "\<exists>u k r st t. comp_bind m (\<lambda>_. finish K a) = Yield u k \<and> after_switch u (cx(a := Some k)) (Some a) = Some (r, st) \<and>
    sched (fst st) = Some t \<and> sc_num_new_events t = sc_num_new_events s \<and>
    (serving K out Q a fd st m \<or> ended out Q a st \<and> (\<exists>x w2. m = Ret x w2))"
proof (cases m)
  case (Ret x w2)
  have Q: "Q x w2" and fr: "same_frame v w2" using assms(1,2) Ret by simp_all
  then have al: "alone a w2" "sched w2 = Some s" using alone_frame [OF assms(3)] assms(4) by (auto simp: same_frame_def)
  then obtain c2 where c2: "cos w2 a = Some c2" by (auto simp: alone_def)
  let ?u = "w2\<lparr>cos := (cos w2)(a := Some ((exited c2)\<lparr>co_ops := 0, co_ctx := sp w2\<rparr>))\<rparr>"
  have "finish K a w2 = Yield ?u resumed"
    using rest_nil [OF c2 al(2), of K] c2 by (simp add: rest_def finish_def)
  moreover obtain z where z: "after_switch ?u (cx(a := Some resumed)) (Some a) = Some (-1, z, cx(a := Some resumed))" "world_ok z [] [] []"
      "cos z = (cos w2)(a := None)" "kern z = kern w2" "busy z = q_alloc (busy w2) (Next a) False"
      "sched z = Some (s\<lparr>sc_curr_thread := NULL, sc_spawned_coroutines := sc_spawned_coroutines s - 1\<rparr>)"
    using after_exit [OF running_alone [OF assms(5) [OF Q] al(1)] c2 al(2), of "cx(a := Some resumed)"] by auto
  moreover have "busy_ok z []" using busy_free [of w2 a] al(1) z(5) by (simp add: alone_def busy_ok_def)
  ultimately show ?thesis using Q Ret by (auto simp: ended_def)
next
  case (Yield u k)
  have w: "awaiting a fd u" "same_frame v u" "\<forall>w'. frames w' (k w')" using assms(1,2) Yield by (auto simp: wakes_def)
  have al: "alone a u" "sched u = Some s" using alone_frame [OF assms(3) w(2)] w(2) assms(4) by (auto simp: same_frame_def)
  obtain c where c: "cos u a = Some c" "\<not> has (co_status c) NTY_COROUTINE_STATUS_EXITED" using w(1) by (auto simp: awaiting_def)
  let ?t = "s\<lparr>sc_curr_thread := NULL\<rparr>" and ?k = "\<lambda>v. comp_bind (k v) (\<lambda>_. finish K a)"
  let ?z = "u\<lparr>sched := Some ?t\<rparr>"
  have "after_switch u (cx(a := Some ?k)) (Some a) = Some (0, ?z, cx(a := Some ?k))" using al(2) c by (simp add: after_switch_def)
  moreover have "awaiting a fd ?z"
    using awaiting_upd [OF w(1) c(1) al(2), where t = ?t and st = "co_status c" and k = "kern u" and e = "errno u"] c by (simp add: fun_upd_idem)
  moreover have "alone a ?z" using al by (simp add: alone_def busy_ok_def)
  ultimately show ?thesis using Yield w(3) assms(1) by (auto simp: serving_def)
qed (use assms(1) in simp_all)

text \<open>An event of the descriptor, whatever it says: the coroutine is found in the wait tree and takes its next turn.\<close>

lemma event_turn:
  assumes "serving K out Q a fd (w, cx) m" "sched w = Some s" "sc_num_new_events s = 1" "event_at s 0 = Some (fd, ev)"
    "\<And>x w. Q x w \<Longrightarrow> running a fd w"
  shows "\<exists>st. run_events K code (w, cx) = Some st \<and>
    (\<exists>u k v. m = Yield u k \<and> serving K out Q a fd st (k v) \<or> ended out Q a st)"
proof -
  obtain u k where m: "m = Yield u k" "always (wakes out a fd) Q m" "\<forall>w'. frames w' (k w')" "awaiting a fd w"
      "out (kern w) = out (kern u)" "alone a w" "cx a = Some (\<lambda>v. comp_bind (k v) (\<lambda>_. finish K a))"
    using assms(1) by (auto simp: serving_def)
  obtain S W R c where c: "world_ok w S W R" "a \<in> set W" "cos w a = Some c" "co_fd c = fd"
    using m(4) by (auto simp: awaiting_def)
  define t where "t = s\<lparr>sc_num_new_events := 0\<rparr>"
  define e where "e = (if ev AND EPOLLHUP \<noteq> 0 then ECONNRESET else errno w)"
  define stat where "stat = (if ev AND EPOLLHUP \<noteq> 0 then BIT NTY_COROUTINE_STATUS_FDEOF else 0)"
  define w1 where "w1 = w\<lparr>sched := Some t, errno := e\<rparr>"
  have "wait_ok w1 W" using c(1) by (simp add: w1_def world_ok_def)
  then have sw: "nty_schedule_search_wait w1 fd = Some (Some a, w1\<lparr>cos := (cos w)(a := Some (c\<lparr>co_status := 0\<rparr>))\<rparr>)"
    using search_wait_found [of w1 W a c t] c by (simp add: w1_def)
  define w2 where "w2 = w\<lparr>sched := Some t, kern := kern w, errno := e, cos := (cos w)(a := Some (c\<lparr>co_status := stat\<rparr>))\<rparr>"
  have aw: "awaiting a fd w2"
    unfolding w2_def by (rule awaiting_upd [OF m(4) c(3) assms(2)]) (simp_all add: t_def stat_def)
  have al: "dom (cos w2) = {a}" "busy_ok w2 []" "sched w2 = Some t" "sc_default_timeout t = 3000000" "kern w2 = kern w"
    using m(6) assms(2) c(3) by (auto simp: w2_def alone_def busy_ok_def t_def)
  have new: "\<not> has (co_status d) NTY_COROUTINE_STATUS_NEW" if "cos w2 a = Some d" for d
    using that by (auto simp: w2_def stat_def split: if_splits)
  obtain v b where v: "woken a fd v" "kern v = kern w2" "dom (cos v) = dom (cos w2)" "busy v = busy w2"
      "sched v = Some (t\<lparr>sc_stack := b, sc_curr_thread := Some a\<rparr>)"
      "\<And>u k'. comp_bind (k v) (\<lambda>_. finish K a) = Yield u k' \<Longrightarrow>
        nty_coroutine_resume K code (w2, cx) (Some a) = after_switch u (cx(a := Some k')) (Some a)"
    using resume_awaiting [where K = K and code = code and w = w2 and a = a and cx = cx, OF aw m(7) new] al(3) by auto
  have "wakes out a fd u v" using v(1,2) m(1,2,5) al(5) by (auto simp: wakes_def)
  then have alw: "always (wakes out a fd) Q (k v)" using m(1,2) by simp
  have alv: "alone a v" using v(3-5) al by (simp add: alone_def busy_ok_def)
  obtain u' k' r st t' where tn: "comp_bind (k v) (\<lambda>_. finish K a) = Yield u' k'"
      "after_switch u' (cx(a := Some k')) (Some a) = Some (r, st)" "sched (fst st) = Some t'" "sc_num_new_events t' = 0"
      "serving K out Q a fd st (k v) \<or> ended out Q a st"
    using turn_serves [where K = K and cx = cx, OF alw m(3) [rule_format] alv v(5) assms(5)] by (fastforce simp: t_def)
  have res: "nty_coroutine_resume K code (w2, cx) (Some a) = Some (r, st)" using v(6) [OF tn(1)] tn(2) by simp
  have stop: "run_events K code st = Some st" using tn(3,4) by (subst run_events.simps) simp
  have w12: "w1\<lparr>cos := (cos w)(a := Some (c\<lparr>co_status := stat\<rparr>))\<rparr> = w2" by (simp add: w1_def w2_def)
  have "run_events K code (w, cx) = run_events K code st"
    using assms(2-4) sw res w12
    by (subst run_events.simps) (auto simp: Let_def t_def [symmetric] w1_def e_def stat_def split: if_splits)
  then show ?thesis using stop tn(5) m(1) by metis
qed

subsection \<open>The loop of the scheduler\<close>

text \<open>A system that reports the descriptor whenever it is asked; the poller, the clock and \<open>close\<close> keep the
  observation.\<close>

definition polled :: "'k kernel \<Rightarrow> int \<Rightarrow> ('k \<Rightarrow> 'o) \<Rightarrow> bool" where
  "polled K fd out = ((\<forall>k. out (snd (k_gettimeofday K k)) = out k) \<and> (\<forall>k f. out (snd (snd (k_close K k f))) = out k) \<and>
     (\<forall>k ep n ms. \<exists>ev e k'. k_epoll_wait K k ep n ms = (1, [(fd, ev)], e, k') \<and> out k' = out k))"

lemma polled_clock: "polled K fd out \<Longrightarrow> \<exists>now k. nty_coroutine_usec_now K w = (now, w\<lparr>kern := k\<rparr>) \<and> out k = out (kern w)"
  by (rule clock_keeps) (simp add: polled_def)

lemma serving_upd:
  assumes "serving K out Q a fd (w, cx) m" "sched w = Some s" "out k = out (kern w)"
    "sc_stack t = sc_stack s" "sc_stack_size t = sc_stack_size s" "sc_default_timeout t = sc_default_timeout s"
  shows "serving K out Q a fd (w\<lparr>sched := Some t, kern := k, errno := e\<rparr>, cx) m"
proof -
  have aw: "awaiting a fd w" "alone a w" using assms(1) by (auto simp: serving_def)
  obtain c where c: "cos w a = Some c" "\<not> has (co_status c) NTY_COROUTINE_STATUS_EXITED" using aw(1) by (auto simp: awaiting_def)
  have "awaiting a fd (w\<lparr>sched := Some t, kern := k, errno := e\<rparr>)"
    using awaiting_upd [OF aw(1) c(1) assms(2), where t = t and st = "co_status c" and k = k and e = e] assms c
    by (simp add: fun_upd_idem)
  moreover have "alone a (w\<lparr>sched := Some t, kern := k, errno := e\<rparr>)" using aw(2) assms by (simp add: alone_def busy_ok_def)
  ultimately show ?thesis using assms(1,3) by (auto simp: serving_def)
qed

lemma epoll_reports:
  assumes "polled K fd out" "serving K out Q a fd (w, cx) m"
  shows "\<exists>w' s ev. nty_schedule_epoll K w = Some w' \<and> serving K out Q a fd (w', cx) m \<and> sched w' = Some s \<and>
    sc_num_new_events s = 1 \<and> event_at s 0 = Some (fd, ev)"
proof -
  have aw: "awaiting a fd w" "alone a w" using assms(2) by (auto simp: serving_def)
  obtain s where s: "sched w = Some s" "sc_default_timeout s = 3000000" using aw(2) by (auto simp: alone_def)
  have wok: "world_ok w [] [a] []" using awaiting_alone [OF aw] .
  let ?s = "s\<lparr>sc_num_new_events := 0\<rparr>" and ?v = "w\<lparr>sched := Some (s\<lparr>sc_num_new_events := 0\<rparr>)\<rparr>"
  have ok: "world_ok ?v [] [a] []" using wok by (rule world_ok_sched)
  obtain now k where clock: "nty_coroutine_usec_now K ?v = (now, ?v\<lparr>kern := k\<rparr>)" "out k = out (kern w)"
    using polled_clock [OF assms(1), of ?v] by auto
  have mt: "nty_schedule_min_timeout K ?v = Some (3000000, ?v\<lparr>kern := k\<rparr>)"
    using min_timeout_correct [of ?v "[]" ?s K now "?v\<lparr>kern := k\<rparr>"] ok clock s(2) by (simp add: world_ok_def)
  have em: "TAILQ_EMPTY (ready w) ready_head = Some True"
    using wok EMPTY_tailq by (auto simp: world_ok_def ready_ok_def)
  obtain ev e k' where ep: "k_epoll_wait K k (sc_poller_fd s) NTY_CO_MAX_EVENTS 3000 = (1, [(fd, ev)], e, k')" "out k' = out k"
    using assms(1) unfolding polled_def by blast
  let ?e = "?s\<lparr>sc_eventlist := (fd, ev) # drop 1 (sc_eventlist s)\<rparr>"
  let ?u = "w\<lparr>kern := k', errno := e, sched := Some ?e\<rparr>"
  let ?t = "?e\<lparr>sc_nevents := 0, sc_num_new_events := 1\<rparr>"
  have "nty_epoller_wait K (?v\<lparr>kern := k\<rparr>) 3 0 = Some (1, ?u)"
    using ep(1) by (cases w) (simp add: nty_epoller_wait_def timespec_ms_def)
  then have "epoll_retry K (?v\<lparr>kern := k\<rparr>) 3 0 = Some (1, ?u)" by (subst epoll_retry.simps) simp
  then have "nty_schedule_epoll K w = Some (?u\<lparr>sched := Some ?t\<rparr>)"
    using s mt em by (simp add: nty_schedule_epoll_def usecs_timespec_def)
  moreover have "?u\<lparr>sched := Some ?t\<rparr> = w\<lparr>sched := Some ?t, kern := k', errno := e\<rparr>" by (cases w) simp
  moreover have "serving K out Q a fd (w\<lparr>sched := Some ?t, kern := k', errno := e\<rparr>, cx) m"
    using serving_upd [OF assms(2) s(1)] ep(2) clock(2) by simp
  moreover have "event_at ?t 0 = Some (fd, ev)" by (simp add: event_at_def NTY_CO_MAX_EVENTS_def)
  ultimately show ?thesis by (intro exI [of _ "w\<lparr>sched := Some ?t, kern := k', errno := e\<rparr>"] exI [of _ ?t] exI [of _ ev]) simp
qed

lemma poll_turn:
  assumes "polled K fd out" "serving K out Q a fd (w, cx) m" "\<And>x w. Q x w \<Longrightarrow> running a fd w"
  shows "\<exists>w' st. nty_schedule_epoll K w = Some w' \<and> run_events K code (w', cx) = Some st \<and>
    (\<exists>u k v. m = Yield u k \<and> serving K out Q a fd st (k v) \<or> ended out Q a st)"
proof -
  obtain w' s ev where w': "nty_schedule_epoll K w = Some w'" "serving K out Q a fd (w', cx) m" "sched w' = Some s"
      "sc_num_new_events s = 1" "event_at s 0 = Some (fd, ev)"
    using epoll_reports [OF assms(1,2)] by blast
  show ?thesis using w'(1) event_turn [where code = code, OF w'(2-5) assms(3)] by simp
qed

lemma round_serves:
  assumes "polled K fd out" "serving K out Q a fd (w, cx) m" "\<And>x w. Q x w \<Longrightarrow> running a fd w"
  shows "\<exists>st. run_round K code (w, cx) = Some st \<and> (\<exists>u k v. m = Yield u k \<and> serving K out Q a fd st (k v) \<or> ended out Q a st)"
proof -
  have aw: "awaiting a fd w" "alone a w" using assms(2) by (auto simp: serving_def)
  have ok: "world_ok w [] [a] []" using awaiting_alone [OF aw] .
  obtain s where s: "sched w = Some s" using aw(2) by (auto simp: alone_def)
  obtain now k where clock: "nty_coroutine_usec_now K w = (now, w\<lparr>kern := k\<rparr>)" "out k = out (kern w)"
    using polled_clock [OF assms(1)] by blast
  have 1: "run_expired K code (w, cx) = Some (w\<lparr>kern := k\<rparr>, cx)"
    using expired_correct [of w "[]" s K now "w\<lparr>kern := k\<rparr>"] ok s clock by (subst run_expired.simps) (simp add: world_ok_def)
  have tq: "tailq (ready w) ready_head []" using ok by (simp add: world_ok_def ready_ok_def)
  have 2: "TAILQ_LAST (ready w) ready_head = Some NULL" using LAST_tailq [OF tq] by simp
  have 3: "run_ready K code NULL (w\<lparr>kern := k\<rparr>, cx) = Some (w\<lparr>kern := k\<rparr>, cx)"
    using EMPTY_tailq [OF tq] by (subst run_ready.simps) simp
  have eq: "w\<lparr>sched := Some s, kern := k, errno := errno w\<rparr> = w\<lparr>kern := k\<rparr>" using s by (cases w) simp
  have "serving K out Q a fd (w\<lparr>kern := k\<rparr>, cx) m"
    using serving_upd [OF assms(2) s clock(2), where t = s and e = "errno w"] eq by simp
  from poll_turn [where code = code, OF assms(1) this assms(3)] show ?thesis using 1 2 3 by (auto simp: run_round_def)
qed

lemma loop_ended:
  assumes "ended out Q a st"
  shows "run_loop K code st = Some st"
proof -
  have "nty_schedule_isdone (fst st) = Some True"
    using isdone_iff [of "fst st" "[]" "[]" "[]" "[]"] assms by (auto simp: ended_def)
  then show ?thesis by (subst run_loop.simps) simp
qed

lemma loop_serves:
  assumes "polled K fd out" "\<And>x w. Q x w \<Longrightarrow> running a fd w"
  shows "serving K out Q a fd st m \<Longrightarrow> \<exists>st'. run_loop K code st = Some st' \<and> ended out Q a st'"
proof (induction m arbitrary: st)
  case (Yield u k)
  obtain w cx where st: "st = (w, cx)" by (cases st)
  have aw: "awaiting a fd w" "alone a w" using Yield.prems st by (auto simp: serving_def)
  have "nty_schedule_isdone w = Some False"
    using isdone_iff [OF awaiting_alone [OF aw], of "[]"] aw(2) by (simp add: alone_def)
  moreover obtain st1 v where st1: "run_round K code (w, cx) = Some st1" "serving K out Q a fd st1 (k v) \<or> ended out Q a st1"
    using round_serves [where code = code, OF assms(1) Yield.prems [unfolded st] assms(2)] by auto
  ultimately have "run_loop K code st = run_loop K code st1" using st by (subst run_loop.simps) simp
  then show ?case using st1(2) Yield.IH [of "k v" st1] loop_ended by fastforce
qed (simp_all add: serving_def)

text \<open>The first turn: the new coroutine is taken from the ready queue and its body runs to its first wait.\<close>

lemma exec_finish: "cos w a = Some c \<Longrightarrow> exec K code (Some a) w = comp_bind (code (co_func c) (co_arg c) w) (\<lambda>_. finish K a)"
proof -
  have e: "(\<lambda>c. c\<lparr>co_status := co_status c OR (BIT NTY_COROUTINE_STATUS_EXITED OR BIT NTY_COROUTINE_STATUS_FDEOF
     OR BIT NTY_COROUTINE_STATUS_DETACH)\<rparr>) = exited" by (simp add: exited_def fun_eq_iff)
  show "cos w a = Some c \<Longrightarrow> ?thesis" by (simp add: exec_def finish_def [abs_def] e)
qed

lemma start_running:
  assumes "world_ok w [] [] []" "cos w a = Some c" "saved_ok c" "hooks w" "stack_ok s" "d < sc_stack_size s"
    "sc_stack_size s \<le> NTY_CO_MAX_STACKSIZE"
  shows "running a fd ((start_world w a c s)\<lparr>sp := d\<rparr>)"
  unfolding running_def
proof (intro exI conjI)
  show "world_ok ((start_world w a c s)\<lparr>sp := d\<rparr>) [] [] []" using start_world_ok [OF assms(1,2)] by simp
  show "stack_ok (s\<lparr>sc_curr_thread := Some a\<rparr>)" using assms(5) by (simp add: stack_ok_def split: option.splits)
  show "saved_ok (c\<lparr>co_ctx := sc_stack_size s, co_status := BIT NTY_COROUTINE_STATUS_READY\<rparr>)"
    using assms(3) by (simp add: saved_ok_def split: option.splits)
qed (use assms in \<open>simp_all add: start_world_def no_wait_bits_def\<close>)

lemma first_turn:
  assumes "world_ok w [] [] [a]" "alone a w" "hooks w" "cos w a = Some c" "co_status c = BIT NTY_COROUTINE_STATUS_NEW" "saved_ok c"
    and "sched w = Some s" "stack_ok s" "sc_stack_size s \<le> NTY_CO_MAX_STACKSIZE" "d < sc_stack_size s"
    and "\<And>v. code (co_func c) (co_arg c) v = body (v\<lparr>sp := d\<rparr>)" "\<And>v. frames v (body v)"
    and "\<And>v. running a fd v \<Longrightarrow> out (kern v) = out (kern w) \<Longrightarrow> map_option sc_stack (sched v) = Some (sc_stack s) \<Longrightarrow>
      always (wakes out a fd) Q (body v) \<and> (\<exists>u k. body v = Yield u k)"
    and "\<And>x w. Q x w \<Longrightarrow> running a fd w"
  shows "\<exists>st m. run_ready K code (Some a) (w, cx) = Some st \<and> serving K out Q a fd st m"
proof -
  have tq: "tailq (ready w) ready_head [a]" using assms(1) by (simp add: world_ok_def ready_ok_def)
  obtain q where q: "TAILQ_REMOVE (ready w) ready_head (Some a) = Some q" "tailq q ready_head []" using tq.pop_front [OF tq] by blast
  let ?w = "w\<lparr>ready := q\<rparr>"
  have "entry q = entry (ready w)" using TAILQ_cells(2) [OF q(1)] by (auto simp: cells_def entry_def fun_eq_iff)
  then have okq: "world_ok ?w [] [] []" using assms(1) q(2) by (auto simp: world_ok_def ready_ok_def)
  let ?v = "start_world ?w a c s" and ?m = "body ((start_world ?w a c s)\<lparr>sp := d\<rparr>)"
  have run: "running a fd (?v\<lparr>sp := d\<rparr>)" using start_running [OF okq] assms by simp
  have al: "always (wakes out a fd) Q ?m" "\<exists>u k. ?m = Yield u k" using assms(13) [OF run] by (auto simp: start_world_def)
  have fr: "frames ?v ?m" using frames_weaken [OF _ assms(12)] by simp
  have alone: "alone a ?v" using assms(2,4,7) by (auto simp: alone_def start_world_def busy_ok_def)
  have sv: "sched ?v = Some (s\<lparr>sc_curr_thread := Some a\<rparr>)" by (simp add: start_world_def)
  obtain u k r st where t: "comp_bind ?m (\<lambda>_. finish K a) = Yield u k" "after_switch u (cx(a := Some k)) (Some a) = Some (r, st)"
      "serving K out Q a fd st ?m"
    using turn_serves [where K = K and cx = cx, OF al(1) fr alone sv assms(14)] al(2) by fastforce
  have "exec K code (Some a) ?v = Yield u k" using exec_finish [OF start_world_co [of ?w a c s], of K code] assms(11) [of ?v] t(1) by simp
  then have "nty_coroutine_resume K code (?w, cx) (Some a) = Some (r, st)"
    using assms(4,5,7) t(2)
    by (simp add: nty_coroutine_resume_def nty_coroutine_init_def switch_to_def start_world_def after_switch_def)
  then have "run_ready K code (Some a) (w, cx) = Some st"
    using EMPTY_tailq [OF tq] FIRST_tailq [OF tq] q(1) assms(4,5) by (subst run_ready.simps) simp
  then show ?thesis using t(3) by blast
qed

text \<open>From a new coroutine in the ready queue to the release of the scheduler.\<close>

lemma run_serves:
  assumes poll: "polled K fd out"
    and "world_ok w [] [] [a]" "alone a w" "hooks w" "cos w a = Some c" "co_status c = BIT NTY_COROUTINE_STATUS_NEW" "saved_ok c"
    and "sched w = Some s" "stack_ok s" "sc_stack_size s \<le> NTY_CO_MAX_STACKSIZE" "d < sc_stack_size s"
    and "\<And>v. code (co_func c) (co_arg c) v = body (v\<lparr>sp := d\<rparr>)" "\<And>v. frames v (body v)"
    and "\<And>v. running a fd v \<Longrightarrow> out (kern v) = out (kern w) \<Longrightarrow> map_option sc_stack (sched v) = Some (sc_stack s) \<Longrightarrow>
      always (wakes out a fd) Q (body v) \<and> (\<exists>u k. body v = Yield u k)"
    and Q: "\<And>x w. Q x w \<Longrightarrow> running a fd w"
  shows "\<exists>w' cx' x w2. nty_schedule_run K code (w, cx) = Some (w', cx') \<and> sched w' = None \<and> cos w' a = None \<and>
    Q x w2 \<and> out (kern w') = out (kern w2)"
proof -
  obtain now k where clock: "nty_coroutine_usec_now K w = (now, w\<lparr>kern := k\<rparr>)" "out k = out (kern w)"
    using polled_clock [OF poll] by blast
  have 1: "run_expired K code (w, cx) = Some (w\<lparr>kern := k\<rparr>, cx)"
    using expired_correct [of w "[]" s K now "w\<lparr>kern := k\<rparr>"] assms(2,8) clock by (subst run_expired.simps) (simp add: world_ok_def)
  have 2: "TAILQ_LAST (ready w) ready_head = Some (Some a)"
    using LAST_tailq [of "ready w" ready_head "[a]"] assms(2) by (simp add: world_ok_def ready_ok_def)
  obtain st m where 3: "run_ready K code (Some a) (w\<lparr>kern := k\<rparr>, cx) = Some st" "serving K out Q a fd st m"
    using first_turn [of "w\<lparr>kern := k\<rparr>" a c s d code body fd out Q K cx] assms clock(2) by (auto simp: alone_def busy_ok_def)
  obtain v cv where st: "st = (v, cv)" by (cases st)
  obtain v1 st1 where 4: "nty_schedule_epoll K v = Some v1" "run_events K code (v1, cv) = Some st1"
      "(\<exists>m. serving K out Q a fd st1 m) \<or> ended out Q a st1"
    using poll_turn [where code = code, OF poll 3(2) [unfolded st] Q] by auto
  have round: "run_round K code (w, cx) = Some st1" using 1 2 3(1) 4 st by (simp add: run_round_def)
  obtain st2 where st2: "run_loop K code st1 = Some st2" "ended out Q a st2"
  proof -
    have "\<exists>st2. run_loop K code st1 = Some st2 \<and> ended out Q a st2" if "serving K out Q a fd st1 m'" for m'
      by (rule loop_serves [OF poll _ that]) (rule Q)
    then show ?thesis using that 4(3) loop_ended [of out Q a st1 K code] by blast
  qed
  have "busy_ok w []" using assms(3) by (simp add: alone_def)
  then have "nty_schedule_isdone w = Some False" using isdone_iff [OF assms(2)] by simp
  then have loop: "run_loop K code (w, cx) = Some st2" using round st2(1) by (subst run_loop.simps) simp
  obtain x w2 where e: "Q x w2" "out (kern (fst st2)) = out (kern w2)" "cos (fst st2) a = None" "sched (fst st2) \<noteq> None"
    using st2(2) by (auto simp: ended_def world_ok_def)
  obtain w' where "nty_schedule_free K (fst st2) = Some w'" "sched w' = None" "cos w' = cos (fst st2)" "out (kern w') = out (kern (fst st2))"
    using schedule_free_keeps [of out K "fst st2"] poll e(4) by (auto simp: polled_def)
  then show ?thesis using loop e assms(8) by (auto simp: nty_schedule_run_def)
qed

subsection \<open>The echo server on the scheduler\<close>

lemma poll_yields:
  assumes "running a fd w" "calm K out"
  shows "\<exists>u k. nty_poll_inner K w [(fd, in_events)] 1 = Yield u k"
proof -
  obtain w' w'' s where p: "poll_arm K w (Some a) [(fd, in_events)] 1 = Some w'" "sched w = Some s"
      "nty_coroutine_yield K w' (Some a) = Yield w'' resumed"
    using poll_arm_ok [OF assms(1) disjI1 [OF in_events_POLLIN] assms(2)] by blast
  have "sc_curr_thread s = Some a" using assms(1) p(2) by (auto simp: running_def)
  then show ?thesis using p by (simp add: nty_poll_inner_def del: poll_arm.simps poll_disarm.simps)
qed

lemma readers_wait:
  assumes "running a fd w" "calm K out" "0 < n"
  shows "arg_int arg = fd \<Longrightarrow> \<exists>u k. server_reader n fuel K w arg = Yield u k"
    and "stack_int w arg = Some fd \<Longrightarrow> \<exists>u k. hook_server_reader n fuel K w arg = Yield u k"
proof -
  obtain u k where y: "nty_poll_inner K w [(fd, in_events)] 1 = Yield u k" using poll_yields [OF assms(1,2)] by blast
  obtain s where h: "ensure_hook w = w" "sched w = Some s" using assms(1) by (auto simp: ensure_hook_def running_def)
  obtain m where n: "n = Suc m" using assms(3) by (cases n) auto
  show "\<exists>u k. server_reader n fuel K w arg = Yield u k" if "arg_int arg = fd"
    using y that by (simp add: server_reader_def n nty_recv_def)
  show "\<exists>u k. hook_server_reader n fuel K w arg = Yield u k" if "stack_int w arg = Some fd"
    using y h that by (simp add: hook_server_reader_def n recv_def Let_def)
qed

text \<open>A reader that finds the descriptor: in the cell that was allocated for it, or on the stack at the address it is given.\<close>

definition finds :: "(nat \<Rightarrow> nat \<Rightarrow> 'k kernel \<Rightarrow> 'k world \<Rightarrow> nat \<Rightarrow> ('k world, unit) comp) \<Rightarrow> nat \<Rightarrow> int \<Rightarrow> 'k world \<Rightarrow> bool" where
  "finds reader arg fd w = (reader = server_reader \<and> arg_int arg = fd \<or> reader = hook_server_reader \<and> stack_int w arg = Some fd)"

lemma finds_stack: "finds reader arg fd w \<Longrightarrow> map_option sc_stack (sched v) = map_option sc_stack (sched w) \<Longrightarrow> finds reader arg fd v"
  by (cases "sched w"; cases "sched v") (auto simp: finds_def stack_int_def)

text \<open>C3.  The echo servers on their scheduler, from the new coroutine to the end of the program: the coroutine of a connection is
  the only one of the scheduler, is in the ready queue and finds its descriptor, the poller reports the descriptor whenever it is asked, and
  the peer sends \<open>input\<close>, which has no zero byte, in pieces that are each shorter than the buffer of 1024 bytes, and closes.
  (The readers measure what they received with \<open>strlen\<close>: a zero byte would cut a piece short, and a piece that fills the
  buffer is a fault, see \<open>echo_full_buffer_faults\<close>.)  Then \<open>nty_schedule_run\<close> starts the reader of \<open>nty_server.c\<close> or \<open>hook_tcpserver.c\<close>, lets it wait in the wait
  tree, finds it there again at every event and resumes it on its saved stack, until it closes the connection; it
  returns without a fault, the coroutine and the scheduler are freed, and the peer got back exactly the bytes it sent.\<close>

theorem echo_server_run:
  assumes "calm K obs" "accepting put_sent K fd obs" "feeding K fd obs input" "0 \<notin> set input" "polled K fd obs"
    and "world_ok w [] [] [a]" "dom (cos w) = {a}" "busy_ok w []" "hooks w" "obs (kern w) = ([], [])"
    and "cos w a = Some c" "co_status c = BIT NTY_COROUTINE_STATUS_NEW" "saved_ok c" "finds reader (co_arg c) fd w"
    and "sched w = Some s" "stack_ok s" "sc_default_timeout s = 3000000" "d < sc_stack_size s" "sc_stack_size s \<le> NTY_CO_MAX_STACKSIZE"
    and "length input < n" "1024 \<le> fuel"
  shows "\<exists>w' cx'. nty_schedule_run K (\<lambda>f x v. reader n fuel K (v\<lparr>sp := d\<rparr>) x) (w, cx) = Some (w', cx') \<and>
    sched w' = None \<and> cos w' a = None \<and> obs (kern w') = (input, input)"
proof -
  let ?Q = "\<lambda>(_ :: unit) w'. \<exists>k. obs k = (input, input) \<and> kern w' = snd (snd (k_close K k fd)) \<and> running a fd w'"
  let ?body = "\<lambda>v. reader n fuel K v (co_arg c)"
  have alone: "alone a w" using assms(7,8,15,17) by (simp add: alone_def)
  have fr: "frames v (?body v)" for v using assms(14) frames_readers by (auto simp: finds_def)
  have bd: "always (wakes obs a fd) ?Q (?body v) \<and> (\<exists>u k. ?body v = Yield u k)"
    if v: "running a fd v" "obs (kern v) = obs (kern w)" "map_option sc_stack (sched v) = Some (sc_stack s)" for v
  proof -
    have "finds reader (co_arg c) fd v" using finds_stack [OF assms(14)] v(3) assms(15) by simp
    then show ?thesis
      using readers_echo [OF assms(1-4) v(1) _ assms(20,21)] readers_wait [OF v(1) assms(1)] v(2) assms(10,20)
      by (auto simp: echoed_def finds_def)
  qed
  have "\<exists>w' cx' x w2. nty_schedule_run K (\<lambda>f x v. reader n fuel K (v\<lparr>sp := d\<rparr>) x) (w, cx) = Some (w', cx') \<and> sched w' = None \<and>
      cos w' a = None \<and> ?Q x w2 \<and> obs (kern w') = obs (kern w2)"
  proof (rule run_serves [where Q = ?Q and body = ?body and out = obs and fd = fd and d = d and c = c and s = s])
    show "\<And>v. running a fd v \<Longrightarrow> obs (kern v) = obs (kern w) \<Longrightarrow> map_option sc_stack (sched v) = Some (sc_stack s) \<Longrightarrow>
        always (wakes obs a fd) ?Q (?body v) \<and> (\<exists>u k. ?body v = Yield u k)" by (rule bd)
    show "\<And>x w. ?Q x w \<Longrightarrow> running a fd w" by blast
  qed (use assms alone fr in simp_all)
  then show ?thesis using assms(5) by (auto simp: polled_def)
qed

text \<open>The peer of \<open>peer_kernel\<close>, with a poller that reports its descriptor, and its coroutine in the ready queue.\<close>

definition polled_peer :: "(u8 list \<times> u8 list) kernel" where
  "polled_peer = peer_kernel\<lparr>k_epoll_wait := (\<lambda>k ep n ms. (1, [(7, EPOLLIN)], 0, k))\<rparr>"

definition new_thread :: "(u8 list \<times> u8 list) world" where
  "new_thread = (thread_on ([], []))\<lparr>cos := [1 \<mapsto> demo_co\<lparr>co_arg := int_arg 7\<rparr>], ready := ready demo_ready\<rparr>"

lemma polled_peer_ok:
  "calm polled_peer (\<lambda>k. k)" "accepting put_sent polled_peer fd (\<lambda>k. k)" "feeding polled_peer fd (\<lambda>k. k) [104, 105]"
  "polled polled_peer 7 (\<lambda>k. k)"
  using peer_ok(1) peer_ok(2,3) [of fd] by (simp_all add: polled_peer_def calm_def accepting_def feeding_def polled_def peer_kernel_def plain_kernel_def)

lemma new_thread_ok: "world_ok new_thread [] [] [1]" "busy_ok new_thread []"
proof -
  have "ready_ok new_thread [1]"
    by (auto simp: ready_ok_def new_thread_def thread_on_def demo_ready_def tailq_def entry_def fun_eq_iff)
  moreover have "sleep_ok new_thread []" "wait_ok new_thread []"
    using demo_memory by (auto simp: sleep_ok_def wait_ok_def new_thread_def thread_on_def)
  ultimately show "world_ok new_thread [] [] [1]" by (simp add: world_ok_def new_thread_def thread_on_def)
  show "busy_ok new_thread []" using demo_memory(5) by (simp add: busy_ok_def new_thread_def thread_on_def)
qed

theorem echo_server_run_witness:
  "\<exists>w' cx'. nty_schedule_run polled_peer (\<lambda>f x v. server_reader 3 1024 polled_peer (v\<lparr>sp := 1\<rparr>) x) (new_thread, Map.empty) = Some (w', cx') \<and>
    sched w' = None \<and> cos w' 1 = None \<and> kern w' = ([104, 105], [104, 105])"
proof -
  let ?c = "demo_co\<lparr>co_arg := int_arg 7\<rparr>"
  have "cos new_thread 1 = Some ?c" "dom (cos new_thread) = {1}" "hooks new_thread" "kern new_thread = ([], [])"
      "sched new_thread = Some demo_sched"
    by (simp_all add: new_thread_def thread_on_def)
  moreover have "co_status ?c = BIT NTY_COROUTINE_STATUS_NEW" "saved_ok ?c" "finds server_reader (co_arg ?c) 7 new_thread"
    by (simp_all add: demo_co_def zero_co_def saved_ok_def finds_def arg_int_int_arg)
  moreover have "stack_ok demo_sched" "sc_default_timeout demo_sched = 3000000" "sc_stack_size demo_sched = 4"
    by (simp_all add: demo_sched_def stack_ok_def)
  moreover have "4 \<le> NTY_CO_MAX_STACKSIZE" by (simp add: NTY_CO_MAX_STACKSIZE_def)
  ultimately show ?thesis
    using echo_server_run [OF polled_peer_ok(1-3) _ polled_peer_ok(4) new_thread_ok(1) _ new_thread_ok(2), where c = ?c and s = demo_sched and d = 1 and
        n = 3 and fuel = 1024 and reader = server_reader and cx = Map.empty]
    by simp
qed

end
