(* ===== verification/Shared_Memory.thy ===== *)
theory Shared_Memory
  imports Socket C_Memory
begin

text \<open>
  The shared memory of the multi-process servers: \<open>sample/ntyco_httpd.c\<close> (the counters of connections per
  processor, the accept lock, the loop of a server process) and \<open>sample/nty_server_mulcore.c\<close> (the counter
  of all connections).  The memory is one record that every process writes; the instructions with a
  \<open>lock\<close> prefix are atomic, and everything between two of them may be interleaved with the other processes.

  An \<open>int\<close> is an integer between \<open>- 2 ^ 31\<close> and \<open>2 ^ 31 - 1\<close>; \<open>None\<close> is an access outside an array, a division
  by zero, a signed overflow or the use of an uninitialised value.
\<close>

subsection \<open>Atomic instructions\<close>

text \<open>
  \<open>addr\<close> points into eight bytes, given as one little-endian word.  \<open>lock; cmpxchgb\<close> and \<open>lock; cmpxchgw\<close> compare
  and replace its low 8 and 16 bits; \<open>lock; cmpxchg\<close> has no suffix, and \<open>_new\<close> is an \<open>unsigned long\<close> in a register
  of 64 bits, so case 4 compares and replaces all of it.
\<close>

definition cas_low :: "nat \<Rightarrow> u64 \<Rightarrow> u64 \<Rightarrow> u64 \<Rightarrow> u64 \<times> u64" where
  "cas_low n cell old new =
     (if take_bit n cell = take_bit n old
      then (old, (cell AND NOT (mask n)) OR take_bit n new)
      else ((old AND NOT (mask n)) OR take_bit n cell, cell))"

text \<open>The value returned and the new contents; another \<open>size\<close> (\<open>sz\<close>) leaves \<open>prev\<close> uninitialised.\<close>

definition cmpxchg :: "u64 \<Rightarrow> u64 \<Rightarrow> u64 \<Rightarrow> int \<Rightarrow> (u64 \<times> u64) option" where
  "cmpxchg cell old new sz =
     (if sz = 1 then Some (cas_low 8 cell old new)
      else if sz = 2 then Some (cas_low 16 cell old new)
      else if sz = 4 then Some (cas_low 64 cell old new)
      else None)"

text \<open>The eight bytes that begin with the \<open>int\<close> \<open>lo\<close> and go on with the four bytes \<open>hi\<close>.\<close>

definition bytes8 :: "u32 \<Rightarrow> u32 \<Rightarrow> u64" where
  "bytes8 lo hi = ucast lo OR push_bit 32 (ucast hi)"

definition lo32 :: "u64 \<Rightarrow> u32" where "lo32 w = ucast w"

definition hi32 :: "u64 \<Rightarrow> u32" where "hi32 w = ucast (drop_bit 32 w)"

lemma bytes8_split [simp]: "lo32 (bytes8 lo hi) = lo" "hi32 (bytes8 lo hi) = hi"
  by (auto simp: lo32_def hi32_def bytes8_def bit_eq_iff bit_simps dest: bit_imp_le_length)

lemma bytes8_join [simp]: "bytes8 (lo32 w) (hi32 w) = w"
  by (auto simp: lo32_def hi32_def bytes8_def bit_eq_iff bit_simps)

lemma bytes8_eq: "bytes8 a b = w \<longleftrightarrow> a = lo32 w \<and> b = hi32 w"
  by (metis bytes8_join bytes8_split)

lemma cmpxchg_4: "cmpxchg cell old new 4 = Some (if cell = old then (old, new) else (cell, cell))"
proof -
  have "NOT (mask 64) = (0 :: u64)" by (auto simp: bit_eq_iff bit_simps)
  then show ?thesis by (simp add: cmpxchg_def cas_low_def take_bit_word_eq_self)
qed

text \<open>\<open>lock; addl\<close> and \<open>lock; subl\<close> on \<open>value\<close>; the functions return their second argument.\<close>

definition atomic_add :: "int list \<Rightarrow> int \<Rightarrow> int \<Rightarrow> (int \<times> int list) option" where
  "atomic_add xs i add = do { v \<leftarrow> elem xs i; ys \<leftarrow> set_elem xs i (to_int (v + add)); Some (add, ys) }"

definition atomic_sub :: "int list \<Rightarrow> int \<Rightarrow> int \<Rightarrow> (int \<times> int list) option" where
  "atomic_sub xs i sub = do { v \<leftarrow> elem xs i; ys \<leftarrow> set_elem xs i (to_int (v - sub)); Some (sub, ys) }"

subsection \<open>The counters of \<open>ntyco_httpd.c\<close>\<close>

definition TOTALFDS :: nat where "TOTALFDS = 16"

record shm_area =
  totalfds :: "int list"
  cpu_lb :: "int list"
  accept_mtx :: u32
  after_mtx :: u32

text \<open>\<open>after_mtx\<close> is the four bytes of the segment behind the structure; a new segment is filled with zeros.\<close>

definition init_shmvalue :: shm_area where
  "init_shmvalue = \<lparr>totalfds = replicate TOTALFDS 0, cpu_lb = replicate TOTALFDS 0, accept_mtx = 0, after_mtx = 0\<rparr>"

text \<open>\<open>self_id % cpu_size\<close>.\<close>

definition cpu_slot :: "int \<Rightarrow> int \<Rightarrow> int option" where
  "cpu_slot self_id cpu_size = (if cpu_size = 0 then None
     else Some (if self_id < 0 then - ((- self_id) mod \<bar>cpu_size\<bar>) else self_id mod \<bar>cpu_size\<bar>))"

definition INC_COUNTFD :: "int \<Rightarrow> int \<Rightarrow> shm_area \<Rightarrow> shm_area option" where
  "INC_COUNTFD self_id cpu_size m = do {
     i \<leftarrow> cpu_slot self_id cpu_size; (_, xs) \<leftarrow> atomic_add (totalfds m) i 1; Some (m\<lparr>totalfds := xs\<rparr>) }"

definition DEC_COUNTFD :: "int \<Rightarrow> int \<Rightarrow> shm_area \<Rightarrow> shm_area option" where
  "DEC_COUNTFD self_id cpu_size m = do {
     i \<leftarrow> cpu_slot self_id cpu_size; (_, xs) \<leftarrow> atomic_sub (totalfds m) i 1; Some (m\<lparr>totalfds := xs\<rparr>) }"

definition get_countfd :: "int \<Rightarrow> int \<Rightarrow> shm_area \<Rightarrow> int option" where
  "get_countfd self_id cpu_size m = do { i \<leftarrow> cpu_slot self_id cpu_size; elem (totalfds m) i }"

text \<open>The loops over \<open>i < cpu_size\<close>; \<open>0xffffffff\<close> stored in an \<open>int\<close> is -1.\<close>

fun max_loop :: "nat \<Rightarrow> int \<Rightarrow> int \<Rightarrow> int \<Rightarrow> shm_area \<Rightarrow> int option" where
  "max_loop 0 i cpu_size count m = Some count"
| "max_loop (Suc n) i cpu_size count m = do {
     v \<leftarrow> elem (totalfds m) i;
     max_loop n (i + 1) cpu_size (if count < v then v else count) m }"

fun min_loop :: "nat \<Rightarrow> int \<Rightarrow> int \<Rightarrow> int \<Rightarrow> shm_area \<Rightarrow> int option" where
  "min_loop 0 i cpu_size count m = Some count"
| "min_loop (Suc n) i cpu_size count m = do {
     v \<leftarrow> elem (totalfds m) i;
     min_loop n (i + 1) cpu_size (if count > v then v else count) m }"

definition max_countfd :: "int \<Rightarrow> shm_area \<Rightarrow> int option" where
  "max_countfd cpu_size m = max_loop (nat cpu_size) 0 cpu_size (-1) m"

definition min_countfd :: "int \<Rightarrow> shm_area \<Rightarrow> int option" where
  "min_countfd cpu_size m = min_loop (nat cpu_size) 0 cpu_size (to_int 0xffffffff) m"

text \<open>Multiplication of \<open>int\<close> with the overflow written out.\<close>

definition c_mult :: "int \<Rightarrow> int \<Rightarrow> int option" where
  "c_mult x y = (if - (2 ^ 31) \<le> x * y \<and> x * y < 2 ^ 31 then Some (x * y) else None)"

definition compare_out_countfd :: "int \<Rightarrow> int \<Rightarrow> shm_area \<Rightarrow> int option" where
  "compare_out_countfd self_id cpu_size m = do {
     current \<leftarrow> get_countfd self_id cpu_size m;
     least \<leftarrow> min_countfd cpu_size m;
     x \<leftarrow> c_mult current 7;
     Some (if c_div x 8 > least then 1 else 0) }"

definition compare_in_countfd :: "int \<Rightarrow> int \<Rightarrow> shm_area \<Rightarrow> int option" where
  "compare_in_countfd self_id cpu_size m = do {
     current \<leftarrow> get_countfd self_id cpu_size m;
     greatest \<leftarrow> max_countfd cpu_size m;
     x \<leftarrow> c_mult current 8;
     Some (if c_div x 7 < greatest then 1 else 0) }"

text \<open>The second loop of \<open>lock_accept\<close>: hand the turn to every processor with \<open>count\<close> connections.\<close>

fun hand_turn :: "nat \<Rightarrow> int \<Rightarrow> int \<Rightarrow> shm_area \<Rightarrow> shm_area option" where
  "hand_turn 0 i count m = Some m"
| "hand_turn (Suc n) i count m = do {
     v \<leftarrow> elem (totalfds m) i;
     m \<leftarrow> (if count = v then do { xs \<leftarrow> set_elem (cpu_lb m) i 3; Some (m\<lparr>cpu_lb := xs\<rparr>) } else Some m);
     hand_turn n (i + 1) count m }"

definition lock_accept :: "int \<Rightarrow> int \<Rightarrow> shm_area \<Rightarrow> shm_area option" where
  "lock_accept self_id cpu_size m = do {
     i \<leftarrow> cpu_slot self_id cpu_size;
     xs \<leftarrow> set_elem (cpu_lb m) i 1;
     let m = m\<lparr>cpu_lb := xs\<rparr>;
     count \<leftarrow> min_loop (nat cpu_size) 0 cpu_size (to_int 0xffffffff) m;
     hand_turn (nat cpu_size) 0 count m }"

definition read_accept :: "int \<Rightarrow> int \<Rightarrow> shm_area \<Rightarrow> int option" where
  "read_accept self_id cpu_size m = do { i \<leftarrow> cpu_slot self_id cpu_size; elem (cpu_lb m) i }"

definition write_accept :: "int \<Rightarrow> int \<Rightarrow> shm_area \<Rightarrow> int \<Rightarrow> shm_area option" where
  "write_accept self_id cpu_size m state = do {
     i \<leftarrow> cpu_slot self_id cpu_size; xs \<leftarrow> set_elem (cpu_lb m) i state; Some (m\<lparr>cpu_lb := xs\<rparr>) }"

text \<open>The accept lock: \<open>lock\<close> returns zero when it was free.\<close>

definition lock :: "shm_area \<Rightarrow> (int \<times> shm_area) option" where
  "lock m = do {
     (r, c) \<leftarrow> cmpxchg (bytes8 (accept_mtx m) (after_mtx m)) 0 1 4;
     Some (to_int (uint r), m\<lparr>accept_mtx := lo32 c, after_mtx := hi32 c\<rparr>) }"

definition unlock :: "shm_area \<Rightarrow> shm_area" where
  "unlock m = m\<lparr>accept_mtx := 0\<rparr>"

subsection \<open>The server processes of \<open>ntyco_httpd.c\<close>\<close>

text \<open>Where a process is in the loop of \<open>server\<close>: before \<open>lock()\<close>, in \<open>nty_accept\<close>, before \<open>unlock()\<close> with the
  descriptor it got, before \<open>INC_COUNTFD\<close>, or returned.  \<open>conns\<close> is the number of its \<open>accept_request\<close>
  coroutines that have not closed their connection.\<close>

datatype server_pc = At_lock | At_accept | At_unlock int | At_count | Stopped

record server_proc =
  pc :: server_pc
  conns :: nat

record httpd =
  shm :: shm_area
  procs :: "nat \<Rightarrow> server_proc"

definition set_proc :: "httpd \<Rightarrow> nat \<Rightarrow> server_proc \<Rightarrow> httpd" where
  "set_proc s p x = s\<lparr>procs := (procs s)(p := x)\<rparr>"

text \<open>One step of the process \<open>p\<close> (its \<open>self_id\<close>) of the processes \<open>P\<close>.  A coroutine that closes its connection
  may run whenever another coroutine of the process yields; here it may run at any time.\<close>

inductive httpd_step :: "int \<Rightarrow> nat set \<Rightarrow> httpd \<Rightarrow> httpd \<Rightarrow> bool" for cpu_size P where
  locked: "p \<in> P \<Longrightarrow> pc (procs s p) = At_lock \<Longrightarrow> lock (shm s) = Some (0, m) \<Longrightarrow>
    httpd_step cpu_size P s ((set_proc s p ((procs s p)\<lparr>pc := At_accept\<rparr>))\<lparr>shm := m\<rparr>)"
| busy: "p \<in> P \<Longrightarrow> pc (procs s p) = At_lock \<Longrightarrow> lock (shm s) = Some (r, m) \<Longrightarrow> r \<noteq> 0 \<Longrightarrow>
    httpd_step cpu_size P s (s\<lparr>shm := m\<rparr>)"
| accepted: "p \<in> P \<Longrightarrow> pc (procs s p) = At_accept \<Longrightarrow>
    httpd_step cpu_size P s (set_proc s p ((procs s p)\<lparr>pc := At_unlock fd\<rparr>))"
| unlocked: "p \<in> P \<Longrightarrow> pc (procs s p) = At_unlock fd \<Longrightarrow>
    httpd_step cpu_size P s ((set_proc s p ((procs s p)\<lparr>pc := if fd < 0 then Stopped else At_count\<rparr>))\<lparr>shm := unlock (shm s)\<rparr>)"
| counted: "p \<in> P \<Longrightarrow> pc (procs s p) = At_count \<Longrightarrow> INC_COUNTFD (int p) cpu_size (shm s) = Some m \<Longrightarrow>
    httpd_step cpu_size P s ((set_proc s p ((procs s p)\<lparr>pc := At_lock, conns := conns (procs s p) + 1\<rparr>))\<lparr>shm := m\<rparr>)"
| closed: "p \<in> P \<Longrightarrow> 0 < conns (procs s p) \<Longrightarrow> DEC_COUNTFD (int p) cpu_size (shm s) = Some m \<Longrightarrow>
    httpd_step cpu_size P s ((set_proc s p ((procs s p)\<lparr>conns := conns (procs s p) - 1\<rparr>))\<lparr>shm := m\<rparr>)"

inductive_cases httpd_stepE: "httpd_step cpu_size P s t"

definition httpd_start :: httpd where
  "httpd_start = \<lparr>shm = init_shmvalue, procs = (\<lambda>_. \<lparr>pc = At_lock, conns = 0\<rparr>)\<rparr>"

inductive reachable :: "int \<Rightarrow> nat set \<Rightarrow> httpd \<Rightarrow> bool" for cpu_size P where
  start: "reachable cpu_size P httpd_start"
| step: "reachable cpu_size P s \<Longrightarrow> httpd_step cpu_size P s t \<Longrightarrow> reachable cpu_size P t"

subsection \<open>Mutual exclusion\<close>

definition holder :: "httpd \<Rightarrow> nat \<Rightarrow> bool" where
  "holder s p = (pc (procs s p) = At_accept \<or> (\<exists>fd. pc (procs s p) = At_unlock fd))"

text \<open>The lock is 1 while a process holds it and 0 otherwise, and at most one holds it.\<close>

definition exclusive :: "u32 \<Rightarrow> (nat \<Rightarrow> bool) \<Rightarrow> bool" where
  "exclusive word inside = (word = 0 \<and> inside = (\<lambda>_. False) \<or> word = 1 \<and> (\<exists>q. inside = (\<lambda>p. p = q)))"

text \<open>What a lock asks of the processes around it: a step leaves the word and who is inside alone, or takes a free
  lock, or gives back a lock that is held.  Two servers share it.\<close>

locale lock_protocol =
  fixes step :: "'s \<Rightarrow> 's \<Rightarrow> bool" and word :: "'s \<Rightarrow> u32" and inside :: "'s \<Rightarrow> nat \<Rightarrow> bool" and good :: "'s \<Rightarrow> bool"
  assumes keeps: "step s t \<Longrightarrow> good s \<Longrightarrow> good t"
    and moves: "step s t \<Longrightarrow> good s \<Longrightarrow> word t = word s \<and> inside t = inside s \<or>
      (\<exists>p. word s = 0 \<and> word t = 1 \<and> inside t = (inside s)(p := True)) \<or>
      (\<exists>p. inside s p \<and> word t = 0 \<and> inside t = (inside s)(p := False))"
begin

lemma exclusive_step:
  assumes "step s t" "good s" "exclusive (word s) (inside s)"
  shows "good t \<and> exclusive (word t) (inside t)"
proof
  show "good t" using keeps [OF assms(1,2)] .
  from moves [OF assms(1,2)] consider (same) "word t = word s" "inside t = inside s"
    | (enter) p where "word s = 0" "word t = 1" "inside t = (inside s)(p := True)"
    | (leave) p where "inside s p" "word t = 0" "inside t = (inside s)(p := False)" by blast
  then show "exclusive (word t) (inside t)"
  proof cases
    case enter
    then have "inside t = (\<lambda>x. x = p)" using assms(3) by (simp add: exclusive_def fun_eq_iff)
    then show ?thesis using enter(2) by (auto simp: exclusive_def)
  next
    case leave
    then have "inside t = (\<lambda>_. False)" using assms(3) by (auto simp: exclusive_def fun_eq_iff split: if_splits)
    then show ?thesis using leave(2) by (simp add: exclusive_def)
  qed (use assms(3) in simp)
qed

lemma exclusive_run:
  assumes "step\<^sup>*\<^sup>* s t" "good s" "exclusive (word s) (inside s)"
  shows "good t \<and> exclusive (word t) (inside t)"
  using assms by (induction rule: rtranclp_induct) (auto dest: exclusive_step)

lemma at_most_one:
  assumes "step\<^sup>*\<^sup>* s t" "good s" "exclusive (word s) (inside s)" "inside t p" "inside t q"
  shows "p = q \<and> word t = 1"
  using exclusive_run [OF assms(1-3)] assms(4,5) by (auto simp: exclusive_def)

end

lemma lock_simps:
  "accept_mtx m = 0 \<Longrightarrow> after_mtx m = 0 \<Longrightarrow> lock m = Some (0, m\<lparr>accept_mtx := 1\<rparr>)"
  "accept_mtx m = 1 \<Longrightarrow> after_mtx m = 0 \<Longrightarrow> lock m = Some (1, m)"
  by (cases m; simp add: lock_def cmpxchg_4 bytes8_eq lo32_def hi32_def to_int_def bytes8_def)+

text \<open>The lock word is 0 or 1, and the four bytes behind it are zero.\<close>

definition mtx_ok :: "shm_area \<Rightarrow> bool" where
  "mtx_ok m = (after_mtx m = 0 \<and> accept_mtx m \<in> {0, 1})"

lemma lock_cases:
  assumes "lock m = Some (r, m')" "mtx_ok m"
  shows "mtx_ok m' \<and> (if r = 0 then accept_mtx m = 0 \<and> accept_mtx m' = 1 else m' = m)"
  using assms lock_simps(1) [of m] lock_simps(2) [of m] by (auto simp: mtx_ok_def)

lemma INC_mtx: "INC_COUNTFD i n m = Some m' \<Longrightarrow> accept_mtx m' = accept_mtx m \<and> after_mtx m' = after_mtx m"
  by (auto simp: INC_COUNTFD_def bind_eq_Some_conv)

lemma DEC_mtx: "DEC_COUNTFD i n m = Some m' \<Longrightarrow> accept_mtx m' = accept_mtx m \<and> after_mtx m' = after_mtx m"
  by (auto simp: DEC_COUNTFD_def bind_eq_Some_conv)

lemma unlock_mtx [simp]: "accept_mtx (unlock m) = 0" "mtx_ok m \<Longrightarrow> mtx_ok (unlock m)"
  by (simp_all add: unlock_def mtx_ok_def)

lemma set_proc_procs [simp]: "procs (set_proc s p x) = (procs s)(p := x)" "shm (set_proc s p x) = shm s"
  by (simp_all add: set_proc_def)

lemma holder_upd: "holder (s\<lparr>shm := m\<rparr>) = holder s"
  "holder (set_proc s p x) = (holder s)(p := (pc x = At_accept \<or> (\<exists>fd. pc x = At_unlock fd)))"
  by (auto simp: holder_def fun_eq_iff)

lemma httpd_moves:
  assumes "httpd_step n P s t" "mtx_ok (shm s)"
  shows "mtx_ok (shm t) \<and> (accept_mtx (shm t) = accept_mtx (shm s) \<and> holder t = holder s \<or>
      (\<exists>p. accept_mtx (shm s) = 0 \<and> accept_mtx (shm t) = 1 \<and> holder t = (holder s)(p := True)) \<or>
      (\<exists>p. holder s p \<and> accept_mtx (shm t) = 0 \<and> holder t = (holder s)(p := False)))"
  using assms
proof (induction rule: httpd_step.induct)
  case (locked p s m)
  then show ?case using lock_cases [OF locked(3)] by (auto simp: holder_upd)
next
  case (busy p s r m)
  then show ?case using lock_cases [OF busy(3)] by (simp add: holder_upd)
next
  case (accepted p s fd)
  then have "holder s p" by (simp add: holder_def)
  then show ?case using accepted by (auto simp: holder_upd)
next
  case (unlocked p s fd)
  then have "holder s p" by (simp add: holder_def)
  then show ?case using unlocked by (auto simp: holder_upd)
next
  case (counted p s m)
  then have "\<not> holder s p" by (simp add: holder_def)
  then show ?case using counted INC_mtx [OF counted(3)] by (simp add: holder_upd mtx_ok_def fun_upd_idem)
next
  case (closed p s m)
  then have "holder s p = (pc (procs s p) = At_accept \<or> (\<exists>fd. pc (procs s p) = At_unlock fd))" by (simp add: holder_def)
  then show ?case using closed DEC_mtx [OF closed(3)] by (simp add: holder_upd mtx_ok_def fun_upd_idem)
qed

interpretation httpd_lock: lock_protocol "httpd_step n P" "\<lambda>s. accept_mtx (shm s)" holder "\<lambda>s. mtx_ok (shm s)" for n P
  by unfold_locales (auto dest: httpd_moves)

lemma reachable_run: "reachable n P s \<Longrightarrow> (httpd_step n P)\<^sup>*\<^sup>* httpd_start s"
  by (induction rule: reachable.induct) auto

lemma start_unlocked: "mtx_ok (shm httpd_start)" "exclusive (accept_mtx (shm httpd_start)) (holder httpd_start)"
  by (simp_all add: exclusive_def mtx_ok_def httpd_start_def init_shmvalue_def holder_def fun_eq_iff)

lemma mutex_reachable: "reachable n P s \<Longrightarrow> mtx_ok (shm s) \<and> exclusive (accept_mtx (shm s)) (holder s)"
  by (rule httpd_lock.exclusive_run [OF reachable_run start_unlocked])

subsection \<open>The counters count\<close>

definition live :: "int \<Rightarrow> nat set \<Rightarrow> httpd \<Rightarrow> nat \<Rightarrow> int" where
  "live n P s i = (\<Sum>p \<in> {p \<in> P. int p mod n = int i}. int (conns (procs s p)))"

definition count_inv :: "int \<Rightarrow> nat set \<Rightarrow> httpd \<Rightarrow> bool" where
  "count_inv n P s = (length (totalfds (shm s)) = TOTALFDS \<and>
     (\<forall>i < TOTALFDS. totalfds (shm s) ! i = to_int (live n P s i)))"

lemma to_int_add: "to_int (to_int x + d) = to_int (x + d)" "to_int (to_int x - d) = to_int (x - d)"
  by (simp_all add: to_int_def mod_simps algebra_simps)

lemma live_upd:
  assumes "finite P" "p \<in> P" "procs t = (procs s)(p := x)"
  shows "live n P t i = (if int p mod n = int i then live n P s i - int (conns (procs s p)) + int (conns x) else live n P s i)"
proof (cases "int p mod n = int i")
  case True
  let ?Q = "{p \<in> P. int p mod n = int i}"
  have "finite ?Q" "p \<in> ?Q" using assms True by auto
  then show ?thesis using True assms(3) by (simp add: live_def sum.remove [of ?Q p])
next
  case False
  then show ?thesis using assms(3) by (auto simp: live_def intro!: sum.cong)
qed

lemma live_same:
  assumes "\<And>p. conns (procs t p) = conns (procs s p)"
  shows "live n P t i = live n P s i"
  by (simp add: live_def assms)

text \<open>What the two macros do when there are as many counters as processors.\<close>

lemma slot_ok: "0 < n \<Longrightarrow> n \<le> int TOTALFDS \<Longrightarrow> cpu_slot (int p) n = Some (int p mod n) \<and> 0 \<le> int p mod n \<and> int p mod n < int TOTALFDS"
  using order_less_le_trans [OF pos_mod_bound [of n "int p"]] by (simp add: cpu_slot_def)

lemma INC_ok:
  assumes "0 < n" "n \<le> int TOTALFDS" "length (totalfds m) = TOTALFDS"
  shows "INC_COUNTFD (int p) n m = Some (m\<lparr>totalfds := (totalfds m)[nat (int p mod n) := to_int (totalfds m ! nat (int p mod n) + 1)]\<rparr>)"
  using slot_ok [OF assms(1,2)] assms(3) by (simp add: INC_COUNTFD_def atomic_add_def elem_def set_elem_def)

lemma DEC_ok:
  assumes "0 < n" "n \<le> int TOTALFDS" "length (totalfds m) = TOTALFDS"
  shows "DEC_COUNTFD (int p) n m = Some (m\<lparr>totalfds := (totalfds m)[nat (int p mod n) := to_int (totalfds m ! nat (int p mod n) - 1)]\<rparr>)"
  using slot_ok [OF assms(1,2)] assms(3) by (simp add: DEC_COUNTFD_def atomic_sub_def elem_def set_elem_def)

lemma lock_totalfds: "lock m = Some (r, m') \<Longrightarrow> totalfds m' = totalfds m"
  by (auto simp: lock_def bind_eq_Some_conv)

lemma count_step:
  assumes "httpd_step n P s t" "count_inv n P s" "finite P" "0 < n" "n \<le> int TOTALFDS"
  shows "count_inv n P t"
  using assms(1)
proof (cases rule: httpd_step.cases)
  case (locked p m)
  have "live n P t i = live n P s i" for i using locked by (intro live_same) (simp add: set_proc_def)
  then show ?thesis using locked assms(2) lock_totalfds by (simp add: count_inv_def)
next
  case (busy p r m)
  have "live n P t i = live n P s i" for i using busy by (intro live_same) simp
  then show ?thesis using busy assms(2) lock_totalfds by (simp add: count_inv_def)
next
  case (accepted p fd)
  have "live n P t i = live n P s i" for i using accepted by (intro live_same) (simp add: set_proc_def)
  then show ?thesis using accepted assms(2) by (simp add: count_inv_def set_proc_def)
next
  case (unlocked p fd)
  have "live n P t i = live n P s i" for i using unlocked by (intro live_same) (simp add: set_proc_def)
  then show ?thesis using unlocked assms(2) by (simp add: count_inv_def set_proc_def unlock_def)
next
  case (counted p m)
  have len: "length (totalfds (shm s)) = TOTALFDS" using assms(2) by (simp add: count_inv_def)
  have "live n P t i = (if int p mod n = int i then live n P s i + 1 else live n P s i)" for i
    using live_upd [of P p t s "(procs s p)\<lparr>pc := At_lock, conns := conns (procs s p) + 1\<rparr>" n i] counted assms(3)
    by (simp add: set_proc_def)
  then show ?thesis
    using counted INC_ok [OF assms(4,5) len, of p] slot_ok [OF assms(4,5), of p] assms(2)
    by (auto simp: count_inv_def nth_list_update to_int_add nat_eq_iff2)
next
  case (closed p m)
  have len: "length (totalfds (shm s)) = TOTALFDS" using assms(2) by (simp add: count_inv_def)
  have "live n P t i = (if int p mod n = int i then live n P s i - 1 else live n P s i)" for i
    using live_upd [of P p t s "(procs s p)\<lparr>conns := conns (procs s p) - 1\<rparr>" n i] closed assms(3)
    by (simp add: set_proc_def of_nat_diff)
  then show ?thesis
    using closed DEC_ok [OF assms(4,5) len, of p] slot_ok [OF assms(4,5), of p] assms(2)
    by (auto simp: count_inv_def nth_list_update to_int_add nat_eq_iff2)
qed

lemma count_reachable:
  assumes "reachable n P s" "finite P" "0 < n" "n \<le> int TOTALFDS"
  shows "count_inv n P s"
  using assms(1)
proof (induction rule: reachable.induct)
  case start
  then show ?case
    by (simp add: count_inv_def httpd_start_def init_shmvalue_def live_def to_int_def)
next
  case (step s t)
  then show ?case using count_step assms(2-4) by blast
qed

subsection \<open>Balancing\<close>

lemma min_loop_start:
  "\<forall>v \<in> set (totalfds m). count \<le> v \<Longrightarrow> 0 \<le> i \<Longrightarrow> i + int k \<le> int (length (totalfds m)) \<Longrightarrow> min_loop k i n count m = Some count"
proof (induction k arbitrary: i)
  case (Suc k)
  then have "elem (totalfds m) i = Some (totalfds m ! nat i)" "totalfds m ! nat i \<in> set (totalfds m)"
    by (auto simp: elem_def)
  moreover from this have "\<not> totalfds m ! nat i < count" using Suc.prems(1) by (simp add: not_less)
  ultimately show ?case using Suc.IH [of "i + 1"] Suc.prems by simp
qed simp

lemma hand_turn_none:
  "\<forall>v \<in> set (totalfds m). count < v \<Longrightarrow> 0 \<le> i \<Longrightarrow> i + int k \<le> int (length (totalfds m)) \<Longrightarrow> hand_turn k i count m = Some m"
proof (induction k arbitrary: i)
  case (Suc k)
  then have "elem (totalfds m) i = Some (totalfds m ! nat i)" "totalfds m ! nat i \<in> set (totalfds m)"
    by (auto simp: elem_def)
  then show ?case using Suc.IH [of "i + 1"] Suc.prems by fastforce
qed simp

lemma max_loop_correct:
  "0 \<le> i \<Longrightarrow> i + int k \<le> int (length (totalfds m)) \<Longrightarrow>
   max_loop k i n count m = Some (fold max (take k (drop (nat i) (totalfds m))) count)"
proof (induction k arbitrary: i count)
  case (Suc k)
  have "nat i < length (totalfds m)" using Suc.prems by linarith
  then have nth: "take (Suc k) (drop (nat i) (totalfds m)) = totalfds m ! nat i # take k (drop (Suc (nat i)) (totalfds m))"
    by (simp add: Cons_nth_drop_Suc [symmetric])
  show ?case
    using Suc.prems Suc.IH [of "i + 1" "max (totalfds m ! nat i) count"] nth
    by (simp add: elem_def nat_add_distrib max_def split: if_splits)
qed simp

text \<open>\<open>max_countfd\<close> is the greatest counter of the processors.\<close>

lemma max_countfd_correct:
  assumes "0 < cpu_size" "cpu_size \<le> int (length (totalfds m))" "\<forall>v \<in> set (totalfds m). 0 \<le> v"
  shows "max_countfd cpu_size m = Some (Max (set (take (nat cpu_size) (totalfds m))))"
proof -
  have fold: "fold max xs c = (Max (set (c # xs)) :: int)" for xs c
    by (rule Max.set_eq_fold [symmetric])
  let ?xs = "take (nat cpu_size) (totalfds m)"
  have ne: "?xs \<noteq> []" using assms(1,2) by auto
  then have "Max (set ?xs) \<in> set (totalfds m)" using Max_in [of "set ?xs"] in_set_takeD by fastforce
  then have "0 \<le> Max (set ?xs)" using assms(3) by blast
  then show ?thesis using ne max_loop_correct [of 0 "nat cpu_size" m cpu_size "-1"] assms(1,2)
    by (simp add: max_countfd_def fold)
qed

subsection \<open>The counter of \<open>nty_server_mulcore.c\<close> and \<open>nty_http_server_mulcore.c\<close>\<close>

text \<open>\<open>struct timeval\<close> has two words of 64 bits; \<open>total\<close>, \<open>accept_lock\<close> (\<open>lock\<close> in the first file) and \<open>tv_sec\<close>
  follow one another without a gap.\<close>

record shm_total =
  total :: u32
  accept_lock :: u32
  tv_sec :: u64
  tv_usec :: u64

text \<open>\<open>init_shmvalue\<close> on a new segment, with what \<open>gettimeofday\<close> gives.\<close>

definition init_shmtotal :: "u64 \<Rightarrow> u64 \<Rightarrow> shm_total" where
  "init_shmtotal sec usec = \<lparr>total = 0, accept_lock = 0, tv_sec = sec, tv_usec = usec\<rparr>"

text \<open>\<open>(unsigned long)value\<close> for an \<open>int\<close>, and addition of \<open>int\<close> with the overflow written out.\<close>

definition ulong :: "int \<Rightarrow> u64" where "ulong v = word_of_int v"

definition c_add :: "int \<Rightarrow> int \<Rightarrow> int option" where
  "c_add x y = (if - (2 ^ 31) \<le> x + y \<and> x + y < 2 ^ 31 then Some (x + y) else None)"

text \<open>The body of the two loops after \<open>value\<close> was loaded: \<open>ret\<close> and the memory.\<close>

definition cas_total :: "shm_total \<Rightarrow> int \<Rightarrow> int \<Rightarrow> (int \<times> shm_total) option" where
  "cas_total m val next = do {
     (r, c) \<leftarrow> cmpxchg (bytes8 (total m) (accept_lock m)) (ulong val) (ulong next) 4;
     Some (to_int (uint r), m\<lparr>total := lo32 c, accept_lock := hi32 c\<rparr>) }"

definition add_shmvalue :: "shm_total \<Rightarrow> int \<Rightarrow> (int \<times> shm_total) option" where
  "add_shmvalue m val = do { next \<leftarrow> c_add val 1; cas_total m val next }"

definition sub_shmvalue :: "shm_total \<Rightarrow> int \<Rightarrow> (int \<times> shm_total) option" where
  "sub_shmvalue m val = do { next \<leftarrow> c_add val (-1); cas_total m val next }"

definition get_shm_timevalue :: "shm_total option \<Rightarrow> (u64 \<times> u64) option" where
  "get_shm_timevalue global_shmaddr = map_option (\<lambda>m. (tv_sec m, tv_usec m)) global_shmaddr"

definition set_shm_timevalue :: "shm_total option \<Rightarrow> (u64 \<times> u64) option \<Rightarrow> shm_total option" where
  "set_shm_timevalue global_shmaddr tv = (case (global_shmaddr, tv) of
     (Some m, Some (s, us)) \<Rightarrow> Some (m\<lparr>tv_sec := s, tv_usec := us\<rparr>) | _ \<Rightarrow> global_shmaddr)"

text \<open>The accept lock of \<open>nty_http_server_mulcore.c\<close>: the eight bytes at \<open>accept_lock\<close> end with half of \<open>tv_sec\<close>.\<close>

definition cas_lock :: "shm_total \<Rightarrow> u64 \<Rightarrow> u64 \<Rightarrow> (int \<times> shm_total) option" where
  "cas_lock m old new = do {
     (r, c) \<leftarrow> cmpxchg (bytes8 (accept_lock m) (lo32 (tv_sec m))) old new 4;
     Some (to_int (uint r), m\<lparr>accept_lock := lo32 c, tv_sec := bytes8 (hi32 c) (hi32 (tv_sec m))\<rparr>) }"

definition lock_accept_mutex :: "shm_total \<Rightarrow> (int \<times> shm_total) option" where
  "lock_accept_mutex m = cas_lock m 0 1"

definition unlock_accept_mutex :: "shm_total \<Rightarrow> (int \<times> shm_total) option" where
  "unlock_accept_mutex m = cas_lock m 1 0"

text \<open>
  The processes of \<open>nty_server_mulcore.c\<close>.  Where a process is: in its scheduler (\<open>Serving\<close>), in \<open>server\<close> after
  \<open>nty_accept\<close> and in the loop of \<open>add_shmvalue\<close>, or in \<open>server_reader\<close> after \<open>nty_close\<close> and in the loop of
  \<open>sub_shmvalue\<close>.  Neither loop yields to another coroutine of the process.  \<open>opened\<close> is the number of connections
  that the process has added and not yet subtracted.
\<close>

datatype mul_pc = Serving | Add_load | Add_cas int | Add_done | Sub_load | Sub_cas int | Sub_done

record mul_proc =
  mpc :: mul_pc
  opened :: nat

record mulcore =
  mem :: shm_total
  mprocs :: "nat \<Rightarrow> mul_proc"

definition goto :: "mulcore \<Rightarrow> nat \<Rightarrow> mul_pc \<Rightarrow> nat \<Rightarrow> shm_total \<Rightarrow> mulcore" where
  "goto s p c n m = \<lparr>mem = m, mprocs = (mprocs s)(p := \<lparr>mpc = c, opened = n\<rparr>)\<rparr>"

inductive mul_step :: "nat set \<Rightarrow> mulcore \<Rightarrow> mulcore \<Rightarrow> bool" for P where
  accepted: "p \<in> P \<Longrightarrow> mprocs s p = \<lparr>mpc = Serving, opened = n\<rparr> \<Longrightarrow> mul_step P s (goto s p Add_load n (mem s))"
| add_load: "p \<in> P \<Longrightarrow> mprocs s p = \<lparr>mpc = Add_load, opened = n\<rparr> \<Longrightarrow>
    mul_step P s (goto s p (Add_cas (sint (total (mem s)))) n (mem s))"
| add_cas: "p \<in> P \<Longrightarrow> mprocs s p = \<lparr>mpc = Add_cas v, opened = n\<rparr> \<Longrightarrow> add_shmvalue (mem s) v = Some (ret, m) \<Longrightarrow>
    mul_step P s (if ret \<noteq> v then goto s p Add_load n m else goto s p Add_done (n + 1) m)"
| add_done: "p \<in> P \<Longrightarrow> mprocs s p = \<lparr>mpc = Add_done, opened = n\<rparr> \<Longrightarrow> val = sint (total (mem s)) \<Longrightarrow>
    m = (if val mod 1000 = 999 then (mem s)\<lparr>tv_sec := sec, tv_usec := usec\<rparr> else mem s) \<Longrightarrow>
    mul_step P s (goto s p Serving n m)"
| closed: "p \<in> P \<Longrightarrow> mprocs s p = \<lparr>mpc = Serving, opened = n\<rparr> \<Longrightarrow> 0 < n \<Longrightarrow> mul_step P s (goto s p Sub_load n (mem s))"
| sub_load: "p \<in> P \<Longrightarrow> mprocs s p = \<lparr>mpc = Sub_load, opened = n\<rparr> \<Longrightarrow>
    mul_step P s (goto s p (Sub_cas (sint (total (mem s)))) n (mem s))"
| sub_cas: "p \<in> P \<Longrightarrow> mprocs s p = \<lparr>mpc = Sub_cas v, opened = n\<rparr> \<Longrightarrow> sub_shmvalue (mem s) v = Some (ret, m) \<Longrightarrow>
    mul_step P s (if ret \<noteq> v then goto s p Sub_load n m else goto s p Sub_done (n - 1) m)"
| sub_done: "p \<in> P \<Longrightarrow> mprocs s p = \<lparr>mpc = Sub_done, opened = n\<rparr> \<Longrightarrow> mul_step P s (goto s p Serving n (mem s))"

definition mul_start :: "u64 \<Rightarrow> u64 \<Rightarrow> mulcore" where
  "mul_start sec usec = \<lparr>mem = init_shmtotal sec usec, mprocs = (\<lambda>_. \<lparr>mpc = Serving, opened = 0\<rparr>)\<rparr>"

inductive mul_reachable :: "nat set \<Rightarrow> mulcore \<Rightarrow> bool" for P where
  mul_init: "mul_reachable P (mul_start sec usec)"
| mul_next: "mul_reachable P s \<Longrightarrow> mul_step P s t \<Longrightarrow> mul_reachable P t"

subsection \<open>The counter counts\<close>

definition pc_ok :: "mul_proc \<Rightarrow> bool" where
  "pc_ok x = (case mpc x of Add_cas v \<Rightarrow> 0 \<le> v | Sub_load \<Rightarrow> 0 < opened x
     | Sub_cas v \<Rightarrow> 0 < opened x \<and> 0 < v \<and> v < 2 ^ 31 | _ \<Rightarrow> True)"

definition mul_inv :: "nat set \<Rightarrow> mulcore \<Rightarrow> bool" where
  "mul_inv P s = (accept_lock (mem s) = 0 \<and> sint (total (mem s)) = (\<Sum>p \<in> P. int (opened (mprocs s p))) \<and>
     (\<forall>p \<in> P. pc_ok (mprocs s p)))"

text \<open>With a zero behind a nonnegative counter the exchange is one of 32 bits.\<close>

lemma uint_ucast64: "uint (ucast (w :: u32) :: u64) = uint w"
proof -
  have "uint w < 2 ^ 32" using uint_lt2p [of w] by simp
  then show ?thesis by (simp add: unsigned_ucast_eq take_bit_int_eq_self)
qed

lemma sint_mod: "sint (w :: u32) = (uint w + 2147483648) mod 4294967296 - 2147483648"
  by (simp add: sint_uint signed_take_bit_eq_take_bit_shift take_bit_eq_mod)

lemma to_int_lo32: "to_int (uint (w :: u64)) = sint (lo32 w)"
proof -
  have "uint (lo32 w) = uint w mod 4294967296" by (simp add: lo32_def unsigned_ucast_eq take_bit_eq_mod)
  then show ?thesis by (simp add: to_int_def sint_mod mod_simps)
qed

lemma to_int_ucast: "to_int (uint (ucast w :: u64)) = sint (w :: u32)"
  by (simp add: to_int_def uint_ucast64 sint_mod)

lemma sint_uint_nonneg:
  assumes "0 \<le> sint (w :: u32)"
  shows "sint w = uint w"
proof (cases "uint w < 2147483648")
  case True
  then show ?thesis by (simp add: sint_mod mod_pos_pos_trivial)
next
  case False
  have u: "uint w < 4294967296" using uint_lt2p [of w] by simp
  have "(uint w + 2147483648) mod 4294967296 = uint w - 2147483648"
    using False u mod_add_self2 [of "uint w - 2147483648" "4294967296 :: int"]
    by (simp add: mod_pos_pos_trivial add.commute)
  then show ?thesis using u assms by (simp add: sint_mod)
qed

lemma mod_64:
  assumes "- 2147483648 \<le> v" "v < 2147483648" "0 \<le> u" "u < 2147483648"
  shows "v mod 18446744073709551616 = u \<longleftrightarrow> u = (v :: int)"
proof (cases "0 \<le> v")
  case True
  then show ?thesis using assms(2) by (auto simp: mod_pos_pos_trivial)
next
  case False
  have "(v + 18446744073709551616) mod 18446744073709551616 = v + 18446744073709551616"
    using False assms(1) by (intro mod_pos_pos_trivial) simp_all
  then show ?thesis using False assms by simp
qed

lemma ulong_eq:
  assumes "- (2 ^ 31) \<le> v" "v < 2 ^ 31" "0 \<le> sint (w :: u32)"
  shows "ulong v = ucast w \<longleftrightarrow> sint w = v"
proof -
  have "uint (ulong v) = v mod 18446744073709551616" by (simp add: ulong_def uint_word_of_int)
  moreover have "uint w < 2147483648" using sint_lt [of w] sint_uint_nonneg [OF assms(3)] by simp
  ultimately show ?thesis
    using mod_64 [of v "uint w"] assms sint_uint_nonneg [OF assms(3)]
    by (simp add: word_uint_eq_iff uint_ucast64)
qed

lemma ulong_split:
  assumes "0 \<le> v" "v < 2 ^ 31"
  shows "lo32 (ulong v) = word_of_int v" "hi32 (ulong v) = 0"
proof -
  show "lo32 (ulong v) = word_of_int v"
    unfolding lo32_def ulong_def by transfer (simp add: take_bit_take_bit)
  show "hi32 (ulong v) = 0"
    unfolding hi32_def ulong_def using assms by transfer (simp add: take_bit_int_eq_self drop_bit_eq_div)
qed

lemma cas_total_ok:
  assumes "accept_lock m = 0" "0 \<le> sint (total m)" "- (2 ^ 31) \<le> v" "v < 2 ^ 31" "0 \<le> next" "next < 2 ^ 31"
  shows "cas_total m v next = Some (sint (total m), if sint (total m) = v then m\<lparr>total := word_of_int next\<rparr> else m)"
proof -
  have b: "bytes8 w 0 = ucast w" for w by (simp add: bytes8_def)
  have h: "lo32 (ucast (w :: u32)) = w" "hi32 (ucast (w :: u32)) = 0" for w
    using bytes8_split [of w 0] by (simp_all add: b)
  show ?thesis
  proof (cases "sint (total m) = v")
    case True
    then have "ulong v = ucast (total m)" using ulong_eq [OF assms(3,4,2)] by simp
    then show ?thesis
      using True assms(1) ulong_split [OF assms(5,6)] by (cases m) (simp add: cas_total_def cmpxchg_4 b to_int_ucast)
  next
    case False
    then have "ucast (total m) \<noteq> ulong v" using ulong_eq [OF assms(3,4,2)] by metis
    then show ?thesis using False assms(1) by (cases m) (simp add: cas_total_def cmpxchg_4 b h to_int_ucast)
  qed
qed

text \<open>What an attempt of either loop does when the counter is what the invariant says.\<close>

lemma sint_range: "- (2 ^ 31) \<le> sint (w :: u32)" "sint w < 2 ^ 31"
  using sint_ge [of w] sint_lt [of w] by simp_all

lemma sint_of_int: "0 \<le> x \<Longrightarrow> x < 2 ^ 31 \<Longrightarrow> sint (word_of_int x :: u32) = x"
  by (simp add: sint_mod uint_word_of_int mod_pos_pos_trivial)

lemma add_ok:
  assumes "add_shmvalue m v = Some (ret, m')" "accept_lock m = 0" "0 \<le> sint (total m)" "0 \<le> v"
  shows "ret = sint (total m)" "accept_lock m' = 0"
    "sint (total m') = (if ret = v then sint (total m) + 1 else sint (total m))"
proof -
  have v: "v + 1 < 2 ^ 31" and c: "cas_total m v (v + 1) = Some (ret, m')"
    using assms(1) by (auto simp: add_shmvalue_def c_add_def split: if_splits)
  then show "ret = sint (total m)" "accept_lock m' = 0"
    "sint (total m') = (if ret = v then sint (total m) + 1 else sint (total m))"
    using cas_total_ok [OF assms(2,3), of v "v + 1"] sint_of_int [of "v + 1"] assms(2-4) v by auto
qed

lemma sub_ok:
  assumes "sub_shmvalue m v = Some (ret, m')" "accept_lock m = 0" "0 \<le> sint (total m)" "0 < v" "v < 2 ^ 31"
  shows "ret = sint (total m)" "accept_lock m' = 0"
    "sint (total m') = (if ret = v then sint (total m) - 1 else sint (total m))"
proof -
  have c: "cas_total m v (v - 1) = Some (ret, m')"
    using assms(1) by (auto simp: sub_shmvalue_def c_add_def split: if_splits)
  then show "ret = sint (total m)" "accept_lock m' = 0"
    "sint (total m') = (if ret = v then sint (total m) - 1 else sint (total m))"
    using cas_total_ok [OF assms(2,3), of v "v - 1"] sint_of_int [of "v - 1"] assms(2-5) by auto
qed

lemma mul_inv_goto:
  assumes "finite P" "p \<in> P" "mul_inv P s" "opened (mprocs s p) = n" "accept_lock m = 0"
    "sint (total m) = sint (total (mem s)) + int n' - int n" "pc_ok \<lparr>mpc = c, opened = n'\<rparr>"
  shows "mul_inv P (goto s p c n' m)"
proof -
  have "(\<Sum>q \<in> P. int (opened (mprocs (goto s p c n' m) q))) = (\<Sum>q \<in> P. int (opened (mprocs s q))) + int n' - int n"
    using assms(1,2,4) by (simp add: goto_def sum.remove [of P p])
  then show ?thesis using assms(3,5-7) by (simp add: mul_inv_def goto_def)
qed

lemma mul_inv_pos:
  assumes "finite P" "p \<in> P" "mul_inv P s"
  shows "int (opened (mprocs s p)) \<le> sint (total (mem s))" "accept_lock (mem s) = 0" "0 \<le> sint (total (mem s))"
    "pc_ok (mprocs s p)"
  using assms member_le_sum [of p P "\<lambda>q. int (opened (mprocs s q))"] by (auto simp: mul_inv_def sum_nonneg)

lemma mul_step_inv:
  assumes "mul_step P s t" "finite P" "mul_inv P s"
  shows "mul_inv P t"
  using assms(1)
proof (cases rule: mul_step.cases)
  case (add_cas p v n ret m)
  note pos = mul_inv_pos [OF assms(2) add_cas(2) assms(3)]
  have "0 \<le> v" using pos(4) add_cas(3) by (simp add: pc_ok_def)
  from add_ok [OF add_cas(4) pos(2,3) this] show ?thesis
    unfolding add_cas(1) using add_cas(2,3) assms(2,3) by (auto simp: pc_ok_def intro!: mul_inv_goto)
next
  case (sub_cas p v n ret m)
  note pos = mul_inv_pos [OF assms(2) sub_cas(2) assms(3)]
  have v: "0 < v" "v < 2 ^ 31" "0 < n" using pos(4) sub_cas(3) by (simp_all add: pc_ok_def)
  from sub_ok [OF sub_cas(4) pos(2,3) v(1,2)] v(3) show ?thesis
    unfolding sub_cas(1) using sub_cas(2,3) assms(2,3) by (auto simp: pc_ok_def of_nat_diff intro!: mul_inv_goto)
next
  case (sub_load p n)
  note pos = mul_inv_pos [OF assms(2) sub_load(2) assms(3)]
  then show ?thesis
    unfolding sub_load(1) using sub_load(2,3) assms(2,3) sint_range [of "total (mem s)"]
    by (auto simp: pc_ok_def intro!: mul_inv_goto)
next
  case (add_load p n)
  note pos = mul_inv_pos [OF assms(2) add_load(2) assms(3)]
  then show ?thesis
    unfolding add_load(1) using add_load(2,3) assms(2,3) by (auto simp: pc_ok_def intro!: mul_inv_goto)
qed (use assms(2,3) mul_inv_pos in \<open>auto simp: pc_ok_def intro!: mul_inv_goto\<close>)

lemma mul_reachable_inv: "mul_reachable P s \<Longrightarrow> finite P \<Longrightarrow> mul_inv P s"
proof (induction rule: mul_reachable.induct)
  case (mul_init sec usec)
  then show ?case by (simp add: mul_inv_def mul_start_def init_shmtotal_def pc_ok_def)
next
  case (mul_next s t)
  then show ?case using mul_step_inv by blast
qed

subsection \<open>Properties\<close>

text \<open>A state with a process in \<open>nty_accept\<close>, for the witnesses.\<close>

lemma first_holds: "reachable 4 {0, 1} ((set_proc httpd_start 0 \<lparr>pc = At_accept, conns = 0\<rparr>)\<lparr>shm := init_shmvalue\<lparr>accept_mtx := 1\<rparr>\<rparr>)"
proof -
  have "lock (shm httpd_start) = Some (0, init_shmvalue\<lparr>accept_mtx := 1\<rparr>)"
    using lock_simps(1) [of init_shmvalue] by (simp add: httpd_start_def init_shmvalue_def)
  from httpd_step.locked [OF _ _ this, of 0 "{0, 1}" 4]
  have "httpd_step 4 {0, 1} httpd_start ((set_proc httpd_start 0 \<lparr>pc = At_accept, conns = 0\<rparr>)\<lparr>shm := init_shmvalue\<lparr>accept_mtx := 1\<rparr>\<rparr>)"
    by (simp add: httpd_start_def)
  then show ?thesis by (rule reachable.step [OF reachable.start])
qed

text \<open>Its connection accepted, the lock given back, and the connection counted.\<close>

definition one_conn :: httpd where
  "one_conn = \<lparr>shm = init_shmvalue\<lparr>totalfds := 1 # replicate 15 0\<rparr>,
     procs = (\<lambda>_. \<lparr>pc = At_lock, conns = 0\<rparr>)(0 := \<lparr>pc = At_lock, conns = 1\<rparr>)\<rparr>"

lemma one_conn_reachable: "reachable 4 {0, 1} one_conn"
proof -
  let ?p = "\<lambda>c. (\<lambda>_. \<lparr>pc = At_lock, conns = 0\<rparr>)(0 := \<lparr>pc = c, conns = 0\<rparr>)"
  let ?s = "\<lparr>shm = init_shmvalue\<lparr>accept_mtx := 1\<rparr>, procs = ?p At_accept\<rparr>"
  let ?t = "\<lparr>shm = init_shmvalue\<lparr>accept_mtx := 1\<rparr>, procs = ?p (At_unlock 7)\<rparr>"
  let ?u = "\<lparr>shm = init_shmvalue, procs = ?p At_count\<rparr>"
  have inc: "INC_COUNTFD 0 4 init_shmvalue = Some (init_shmvalue\<lparr>totalfds := 1 # replicate 15 0\<rparr>)"
    by (simp add: INC_COUNTFD_def cpu_slot_def atomic_add_def elem_def set_elem_def init_shmvalue_def TOTALFDS_def
        numeral_nat to_int_def)
  have "reachable 4 {0, 1} ?s" using first_holds by (simp add: set_proc_def httpd_start_def)
  moreover have "httpd_step 4 {0, 1} ?s ?t"
    using httpd_step.accepted [of 0 "{0, 1}" ?s 4 7] by (simp add: set_proc_def)
  moreover have "httpd_step 4 {0, 1} ?t ?u"
    using httpd_step.unlocked [of 0 "{0, 1}" ?t 7 4] by (simp add: set_proc_def unlock_def init_shmvalue_def)
  moreover have "httpd_step 4 {0, 1} ?u one_conn"
    using httpd_step.counted [of 0 "{0, 1}" ?u 4 "init_shmvalue\<lparr>totalfds := 1 # replicate 15 0\<rparr>"] inc
    by (simp add: set_proc_def one_conn_def)
  ultimately show ?thesis by (blast intro: reachable.step)
qed

text \<open>C9. Mutual exclusion of the accept lock of \<open>ntyco_httpd.c\<close>: however the steps of the processes interleave, from
  the memory that \<open>init_shmvalue\<close> leaves, at most one process is between a successful \<open>lock()\<close> and its
  \<open>unlock()\<close>, and the lock word is 1 while one is.
\<close>

theorem accept_lock_exclusive:
  assumes "reachable cpu_size P s" "holder s p" "holder s q"
  shows "p = q \<and> accept_mtx (shm s) = 1"
  by (rule httpd_lock.at_most_one [OF reachable_run [OF assms(1)] start_unlocked assms(2,3)])

theorem accept_lock_exclusive_witness:
  "\<exists>s. reachable 4 {0, 1} s \<and> holder s 0 \<and> 0 = (0 :: nat) \<and> accept_mtx (shm s) = 1"
proof -
  let ?s = "(set_proc httpd_start 0 \<lparr>pc = At_accept, conns = 0\<rparr>)\<lparr>shm := init_shmvalue\<lparr>accept_mtx := 1\<rparr>\<rparr>"
  have "holder ?s 0" by (simp add: holder_def set_proc_def)
  with accept_lock_exclusive [OF first_holds this this] first_holds show ?thesis by blast
qed

text \<open>C23. The counters of \<open>ntyco_httpd.c\<close> are exact: with at most \<open>TOTALFDS\<close> processors, in every reachable state the
  counter of a processor is the number of counted and not yet closed connections of the processes whose thread id
  falls on it, as long as that number fits an \<open>int\<close>.
\<close>

theorem countfd_exact:
  assumes "reachable cpu_size P s" "finite P" "0 < cpu_size" "cpu_size \<le> int TOTALFDS" "i < TOTALFDS"
    and "live cpu_size P s i < 2 ^ 31"
  shows "totalfds (shm s) ! i = live cpu_size P s i"
proof -
  have "0 \<le> live cpu_size P s i" by (simp add: live_def sum_nonneg)
  then have "to_int (live cpu_size P s i) = live cpu_size P s i"
    using assms(6) by (simp add: to_int_def mod_pos_pos_trivial)
  then show ?thesis using count_reachable [OF assms(1-4)] assms(5) by (simp add: count_inv_def)
qed

theorem countfd_exact_witness:
  "live 4 {0, 1} one_conn 0 = 1 \<and> totalfds (shm one_conn) ! 0 = live 4 {0, 1} one_conn 0"
proof -
  have "{p \<in> {0, 1}. int p mod 4 = int 0} = {0}" by auto
  then have "live 4 {0, 1} one_conn 0 = 1" by (simp add: live_def one_conn_def)
  then show ?thesis using countfd_exact [OF one_conn_reachable, of 0] by (simp add: TOTALFDS_def)
qed

text \<open>The balancing functions of \<open>ntyco_httpd.c\<close> do not balance: \<open>count\<close> starts from \<open>0xffffffff\<close>, which is -1 in an
  \<open>int\<close>, so while no counter is negative \<open>min_countfd\<close> returns -1, \<open>compare_out_countfd\<close> returns 1 for every
  processor, and \<open>lock_accept\<close> takes the turn of its own processor and hands it to none.
\<close>

lemma balancing_never_hands_over:
  assumes "0 < cpu_size" "cpu_size \<le> int TOTALFDS" "length (totalfds m) = TOTALFDS" "length (cpu_lb m) = TOTALFDS"
    and "\<forall>v \<in> set (totalfds m). 0 \<le> v \<and> v * 7 < 2 ^ 31"
  shows "min_countfd cpu_size m = Some (-1) \<and> compare_out_countfd (int self_id) cpu_size m = Some 1 \<and>
    lock_accept (int self_id) cpu_size m = Some (m\<lparr>cpu_lb := (cpu_lb m)[self_id mod nat cpu_size := 1]\<rparr>)"
proof -
  have slot: "cpu_slot (int self_id) cpu_size = Some (int (self_id mod nat cpu_size))" "self_id mod nat cpu_size < TOTALFDS"
    using slot_ok [OF assms(1,2), of self_id] assms(1) zmod_int [of self_id "nat cpu_size"] by simp_all
  have init: "to_int 4294967295 = -1" by (simp add: to_int_def)
  have mini: "min_loop (nat cpu_size) 0 cpu_size (-1) m = Some (-1)"
    using assms by (intro min_loop_start) auto
  have min2: "min_loop (nat cpu_size) 0 cpu_size (-1) (m\<lparr>cpu_lb := xs\<rparr>) = Some (-1)" for xs
    using assms by (intro min_loop_start) auto
  have turn: "hand_turn (nat cpu_size) 0 (-1) (m\<lparr>cpu_lb := xs\<rparr>) = Some (m\<lparr>cpu_lb := xs\<rparr>)" for xs
    using assms by (intro hand_turn_none) auto
  have cur: "0 \<le> totalfds m ! (self_id mod nat cpu_size)" "totalfds m ! (self_id mod nat cpu_size) * 7 < 2 ^ 31"
    using assms(3,5) slot(2) by simp_all
  then have "c_mult (totalfds m ! (self_id mod nat cpu_size)) 7 = Some (totalfds m ! (self_id mod nat cpu_size) * 7)"
    by (simp add: c_mult_def)
  then show ?thesis using slot cur assms(3,4)
    by (simp add: min_countfd_def init mini compare_out_countfd_def get_countfd_def elem_def c_div_def
        lock_accept_def set_elem_def min2 turn)
qed

text \<open>A process that has added its first connection while another has loaded the old value.\<close>

definition one_added :: mulcore where
  "one_added = \<lparr>mem = \<lparr>total = 1, accept_lock = 0, tv_sec = 5, tv_usec = 6\<rparr>,
     mprocs = (\<lambda>_. \<lparr>mpc = Serving, opened = 0\<rparr>)(0 := \<lparr>mpc = Add_done, opened = 1\<rparr>, 1 := \<lparr>mpc = Add_cas 0, opened = 0\<rparr>)\<rparr>"

lemma one_added_reachable: "mul_reachable {0, 1} one_added"
proof -
  let ?m = "\<lparr>total = 0, accept_lock = 0, tv_sec = 5, tv_usec = 6\<rparr> :: shm_total"
  let ?s = "\<lambda>a b. \<lparr>mem = ?m, mprocs = (\<lambda>_. \<lparr>mpc = Serving, opened = 0\<rparr>)(0 := \<lparr>mpc = a, opened = 0\<rparr>, 1 := \<lparr>mpc = b, opened = 0\<rparr>)\<rparr>"
  have "?s Serving Serving = mul_start 5 6" by (auto simp: mul_start_def init_shmtotal_def fun_eq_iff)
  then have "mul_reachable {0, 1} (?s Serving Serving)" by (simp add: mul_reachable.mul_init)
  moreover have g: "goto (?s a b) 0 c 0 ?m = ?s c b" "goto (?s a b) 1 c 0 ?m = ?s a c" for a b c
    by (auto simp: goto_def fun_eq_iff)
  have "mul_step {0, 1} (?s Serving Serving) (?s Add_load Serving)"
    using mul_step.accepted [of 0 "{0, 1}" "?s Serving Serving" 0] g(1) [of Serving Serving] by simp
  moreover have "mul_step {0, 1} (?s Add_load Serving) (?s Add_load Add_load)"
    using mul_step.accepted [of 1 "{0, 1}" "?s Add_load Serving" 0] g(2) [of Add_load Serving] by simp
  moreover have "mul_step {0, 1} (?s Add_load Add_load) (?s (Add_cas 0) Add_load)"
    using mul_step.add_load [of 0 "{0, 1}" "?s Add_load Add_load" 0] g(1) [of Add_load Add_load] by simp
  moreover have "mul_step {0, 1} (?s (Add_cas 0) Add_load) (?s (Add_cas 0) (Add_cas 0))"
    using mul_step.add_load [of 1 "{0, 1}" "?s (Add_cas 0) Add_load" 0] g(2) [of "Add_cas 0" Add_load] by simp
  moreover have "goto (?s (Add_cas 0) (Add_cas 0)) 0 Add_done 1 (?m\<lparr>total := 1\<rparr>) = one_added"
    by (auto simp: goto_def one_added_def fun_eq_iff)
  moreover have "add_shmvalue ?m 0 = Some (0, ?m\<lparr>total := 1\<rparr>)"
    using cas_total_ok [of ?m 0 1] by (simp add: add_shmvalue_def c_add_def)
  then have "mul_step {0, 1} (?s (Add_cas 0) (Add_cas 0)) (goto (?s (Add_cas 0) (Add_cas 0)) 0 Add_done 1 (?m\<lparr>total := 1\<rparr>))"
    using mul_step.add_cas [of 0 "{0, 1}" "?s (Add_cas 0) (Add_cas 0)" 0 0 0 "?m\<lparr>total := 1\<rparr>"] by simp
  ultimately show ?thesis by (metis mul_reachable.mul_next)
qed

text \<open>C22. The counter of \<open>nty_server_mulcore.c\<close> is exact: in every reachable interleaving of the loops of
  \<open>add_shmvalue\<close> and \<open>sub_shmvalue\<close>, \<open>total\<close> is the number of connections that were added and not subtracted.
\<close>

theorem mulcore_total_exact:
  assumes "mul_reachable P s" "finite P"
  shows "sint (total (mem s)) = (\<Sum>p \<in> P. int (opened (mprocs s p)))"
  using mul_reachable_inv [OF assms] by (simp add: mul_inv_def)

theorem mulcore_total_exact_witness:
  "sint (total (mem one_added)) = (\<Sum>p \<in> {0, 1}. int (opened (mprocs one_added p)))"
  using mulcore_total_exact [OF one_added_reachable] by simp

text \<open>C36. The accept lock of \<open>nty_http_server_mulcore.c\<close> locks nothing: the exchange of size 4 compares eight bytes,
  the lock and half of \<open>tv_begin.tv_sec\<close>, so once the time is set \<open>lock_accept_mutex\<close> on a free lock returns 0,
  which means success, and leaves it free, and \<open>unlock_accept_mutex\<close> changes nothing either.
\<close>

theorem accept_mutex_never_taken:
  assumes "lo32 (tv_sec m) \<noteq> 0" "accept_lock m = 0"
  shows "lock_accept_mutex m = Some (0, m) \<and> unlock_accept_mutex m = Some (0, m)"
proof -
  have ne: "bytes8 0 (lo32 (tv_sec m)) \<noteq> 0" "bytes8 0 (lo32 (tv_sec m)) \<noteq> 1"
    using assms(1) by (simp_all add: bytes8_eq hi32_def)
  then show ?thesis using assms(2)
    by (cases m) (simp add: to_int_lo32 lock_accept_mutex_def unlock_accept_mutex_def cas_lock_def cmpxchg_4)
qed

theorem accept_mutex_never_taken_witness:
  "lock_accept_mutex (init_shmtotal 1500000000 0) = Some (0, init_shmtotal 1500000000 0)
   \<and> unlock_accept_mutex (init_shmtotal 1500000000 0) = Some (0, init_shmtotal 1500000000 0)"
  by (intro accept_mutex_never_taken) (simp_all add: init_shmtotal_def lo32_def)

end
