(* ===== verification/Websocket.thy ===== *)
theory Websocket
  imports Echo_Servers
begin

text \<open>
  The web socket server \<open>sample/nty_websocket_server.c\<close>: the frame codec, the opening handshake, the coroutine that
  answers a connection and the loop that accepts connections.

  SHA-1 and the base-64 filter of OpenSSL are parameters (\<open>sha1\<close>, \<open>b64\<close>).  Arrays are lists of their bytes; an
  access outside an array is a fault.
\<close>

subsection \<open>The mode of a descriptor\<close>

record 'k flags =
  f_getfl :: "'k \<Rightarrow> int \<Rightarrow> int \<times> int \<times> 'k"
  f_setfl :: "'k \<Rightarrow> int \<Rightarrow> int \<Rightarrow> int \<times> int \<times> 'k"

definition O_NONBLOCK :: int where "O_NONBLOCK = 2048"

definition set_mode :: "(int \<Rightarrow> int) \<Rightarrow> 'k flags \<Rightarrow> 'k world \<Rightarrow> int \<Rightarrow> int \<times> 'k world" where
  "set_mode f F w fd = (case f_getfl F (kern w) fd of (fl, e, k) \<Rightarrow>
     if fl < 0 then (fl, w\<lparr>kern := k, errno := e\<rparr>)
     else (case f_setfl F k fd (f fl) of (r, e, k) \<Rightarrow> (if r < 0 then -1 else 0, w\<lparr>kern := k, errno := e\<rparr>)))"

definition ntySetNonblock :: "'k flags \<Rightarrow> 'k world \<Rightarrow> int \<Rightarrow> int \<times> 'k world" where
  "ntySetNonblock F w fd = set_mode (\<lambda>fl. fl OR O_NONBLOCK) F w fd"

definition ntySetBlock :: "'k flags \<Rightarrow> 'k world \<Rightarrow> int \<Rightarrow> int \<times> 'k world" where
  "ntySetBlock F w fd = set_mode (\<lambda>fl. fl AND NOT O_NONBLOCK) F w fd"

subsection \<open>Frames\<close>

text \<open>The loop of \<open>umask\<close> on the bytes of \<open>stream\<close> from \<open>start\<close> on.\<close>

fun umask_loop :: "nat \<Rightarrow> u8 list \<Rightarrow> int \<Rightarrow> int \<Rightarrow> u8 list \<Rightarrow> u8 list option" where
  "umask_loop 0 stream start i key = Some stream"
| "umask_loop (Suc n) stream start i key = do {
     d \<leftarrow> elem stream (start + i);
     k \<leftarrow> elem key (i mod 4);
     stream \<leftarrow> set_elem stream (start + i) (d XOR k);
     umask_loop n stream start (i + 1) key }"

definition umask :: "u8 list \<Rightarrow> int \<Rightarrow> int \<Rightarrow> u8 list \<Rightarrow> u8 list option" where
  "umask stream start len key = umask_loop (nat len) stream start 0 key"

text \<open>A number as little-endian bytes and back.\<close>

definition le_bytes :: "nat \<Rightarrow> int \<Rightarrow> u8 list" where
  "le_bytes n x = map (\<lambda>i. word_of_int (x div 256 ^ i)) [0..<n]"

definition le_value :: "u8 list \<Rightarrow> int" where
  "le_value bs = foldr (\<lambda>b n. uint b + 256 * n) bs 0"

text \<open>The second byte of \<open>nty_ophdr\<close>: \<open>payload_length\<close> is its low seven bits, \<open>mask\<close> its high bit.\<close>

definition hdr_payload_length :: "u8 \<Rightarrow> int" where "hdr_payload_length b = uint (take_bit 7 b)"

definition hdr_mask :: "u8 \<Rightarrow> int" where "hdr_mask b = (if bit b 7 then 1 else 0)"

text \<open>The result: the offset of the data, its length (\<open>*ret\<close>), the key and the stream with the data unmasked.\<close>

definition decode_packet :: "u8 list \<Rightarrow> int \<Rightarrow> (int \<times> int \<times> u8 list \<times> u8 list) option" where
  "decode_packet stream n = do {
     b \<leftarrow> elem stream 1;
     (len, key, start) \<leftarrow>
       (if hdr_mask b AND 0x7F = 126 then do {
          payload_length \<leftarrow> block stream 2 2; mask_key \<leftarrow> block stream 4 4; Some (le_value payload_length, mask_key, 8) }
        else if hdr_mask b AND 0x7F = 127 then do {
          payload_length \<leftarrow> block stream 2 8; mask_key \<leftarrow> block stream 10 4; Some (to_int (le_value payload_length), mask_key, 14) }
        else do { mask_key \<leftarrow> block stream 2 4; Some (hdr_payload_length b, mask_key, 6) });
     stream \<leftarrow> umask stream start len key;
     Some (start, len, key, stream) }"

text \<open>\<open>data\<close> is the array \<open>stream\<close> points into, from there on.  The result: what is returned, and the buffer.\<close>

definition encode_packet :: "u8 list \<Rightarrow> u8 list \<Rightarrow> u8 list \<Rightarrow> int \<Rightarrow> (int \<times> u8 list) option" where
  "encode_packet buffer key data len = do {
     buffer \<leftarrow>
       (if len < 126 then memcpy buffer 0 [0x81, take_bit 7 (word_of_int len)]
        else if len < 0xffff then do {
          mask_key \<leftarrow> block key 0 4; buffer \<leftarrow> memcpy buffer 0 [0x81, 0];
          memcpy buffer 2 (le_bytes 2 len @ mask_key @ replicate 8 0) }
        else do {
          mask_key \<leftarrow> block key 0 4; buffer \<leftarrow> memcpy buffer 0 [0x81, 0];
          memcpy buffer 2 (le_bytes 8 len @ mask_key @ replicate 8 0) });
     payload \<leftarrow> block data 0 len;
     buffer \<leftarrow> memcpy buffer 2 payload;
     Some (len + 2, buffer) }"

definition MAX_BUFFER_LENGTH :: nat where "MAX_BUFFER_LENGTH = 1024"

text \<open>The bytes that \<open>server_reader\<close> sends for the \<open>length\<close> bytes it has received into \<open>stream\<close>.\<close>

definition ws_answer :: "u8 list \<Rightarrow> int \<Rightarrow> u8 list option" where
  "ws_answer stream n = do {
     (start, len, key, stream) \<leftarrow> decode_packet stream n;
     (ret, buffer) \<leftarrow> encode_packet (replicate (MAX_BUFFER_LENGTH + 14) 0) key (drop (nat start) stream) len;
     block buffer 0 ret }"

fun ws_reader_loop :: "nat \<Rightarrow> nat \<Rightarrow> 'k kernel \<Rightarrow> 'k world \<Rightarrow> int \<Rightarrow> ('k world, unit) comp" where
  "ws_reader_loop 0 fuel K w fd = Out_of_fuel"
| "ws_reader_loop (Suc n) fuel K w fd = comp_bind (nty_recv K w fd MAX_BUFFER_LENGTH 0) (\<lambda>(r, bs) w.
     let ret = to_int r in
     if ret > 0 then (case ws_answer (stored MAX_BUFFER_LENGTH bs) ret of None \<Rightarrow> Fault
       | Some out \<Rightarrow> comp_bind (nty_send fuel K w fd out 0) (\<lambda>_ w. ws_reader_loop n fuel K w fd))
     else if ret = 0 then comp_bind (nty_close K w fd) (\<lambda>_ w. Ret () w)
     else ws_reader_loop n fuel K w fd)"

definition ws_reader :: "nat \<Rightarrow> nat \<Rightarrow> 'k kernel \<Rightarrow> 'k world \<Rightarrow> nat \<Rightarrow> ('k world, unit) comp" where
  "ws_reader n fuel K w arg = (case stack_int w arg of None \<Rightarrow> Fault | Some fd \<Rightarrow> ws_reader_loop n fuel K w fd)"

subsection \<open>The handshake\<close>

fun readline_loop :: "nat \<Rightarrow> u8 list \<Rightarrow> int \<Rightarrow> u8 list \<Rightarrow> int \<Rightarrow> (int \<times> u8 list) option" where
  "readline_loop 0 allbuf level linebuf p = Some (-1, linebuf)"
| "readline_loop (Suc n) allbuf level linebuf p = do {
     c \<leftarrow> elem allbuf level;
     d \<leftarrow> (if c = CR then elem allbuf (level + 1) else Some 0);
     if c = CR \<and> d = LF then Some (level + 2, linebuf)
     else do { linebuf \<leftarrow> set_elem linebuf p c; readline_loop n allbuf (level + 1) linebuf (p + 1) } }"

definition readline :: "u8 list \<Rightarrow> int \<Rightarrow> u8 list \<Rightarrow> (int \<times> u8 list) option" where
  "readline allbuf level linebuf = do {
     len \<leftarrow> strlen allbuf;
     readline_loop (nat (int len - level)) allbuf level linebuf 0 }"

definition GUID :: "u8 list" where "GUID = bytes_of ''258EAFA5-E914-47DA-95CA-C5AB0DC85B11''"

text \<open>\<open>base64_encode\<close> puts what the filter gives into \<open>out_str\<close> and a zero over its last byte.\<close>

definition base64_encode :: "(u8 list \<Rightarrow> u8 list) \<Rightarrow> u8 list \<Rightarrow> int \<Rightarrow> u8 list \<Rightarrow> (int \<times> u8 list) option" where
  "base64_encode b64 in_str in_len out_str = do {
     bs \<leftarrow> block in_str 0 in_len;
     let data = b64 bs;
     out_str \<leftarrow> memcpy out_str 0 data;
     out_str \<leftarrow> set_elem out_str (int (length data) - 1) 0;
     Some (int (length data), out_str) }"

definition crlf :: "u8 list" where "crlf = [CR, LF]"

text \<open>The format of the response.\<close>

definition response_text :: "u8 list \<Rightarrow> u8 list" where
  "response_text acc = bytes_of ''HTTP/1.1 101 Switching Protocols'' @ crlf @
     bytes_of ''Upgrade: websocket'' @ crlf @ bytes_of ''Connection: Upgrade'' @ crlf @
     bytes_of ''Sec-WebSocket-Accept: '' @ acc @ crlf @ crlf"

text \<open>The response for the line \<open>linebuf\<close> with the key: \<open>strcat\<close>, the digest (\<open>sha1_data\<close> has 21 bytes), its base-64
  form as long as the digest is a C string, and \<open>sprintf\<close> into the 1024 bytes of \<open>buffer\<close>.\<close>

definition response :: "(u8 list \<Rightarrow> u8 list) \<Rightarrow> (u8 list \<Rightarrow> u8 list) \<Rightarrow> u8 list \<Rightarrow> u8 list option" where
  "response sha1 b64 linebuf = do {
     n \<leftarrow> strlen linebuf;
     linebuf \<leftarrow> memcpy linebuf (int n) (GUID @ [0]);
     key \<leftarrow> c_string (drop 19 linebuf);
     sha1_data \<leftarrow> memcpy (replicate 21 0) 0 (sha1 key);
     m \<leftarrow> strlen sha1_data;
     (_, sec_accept) \<leftarrow> base64_encode b64 sha1_data (int m) (replicate 32 0);
     acc \<leftarrow> c_string sec_accept;
     buffer \<leftarrow> memcpy (replicate MAX_BUFFER_LENGTH 0) 0 (response_text acc @ [0]);
     c_string buffer }"

text \<open>What the loop over the lines ends with: an access outside an array, its bound, no key, or a response.\<close>

datatype handshake_end = Hs_fault | Hs_fuel | Hs_none | Hs_response "u8 list"

fun handshake_loop :: "nat \<Rightarrow> (u8 list \<Rightarrow> u8 list) \<Rightarrow> (u8 list \<Rightarrow> u8 list) \<Rightarrow> u8 list \<Rightarrow> int \<Rightarrow> handshake_end" where
  "handshake_loop 0 sha1 b64 buffer level = Hs_fuel"
| "handshake_loop (Suc n) sha1 b64 buffer level = (case readline buffer level (replicate 128 0) of None \<Rightarrow> Hs_fault
     | Some (level, linebuf) \<Rightarrow> (case c_string linebuf of None \<Rightarrow> Hs_fault
         | Some line \<Rightarrow>
             if occurs (bytes_of ''Sec-WebSocket-Key'') line
             then (case response sha1 b64 linebuf of None \<Rightarrow> Hs_fault | Some bs \<Rightarrow> Hs_response bs)
             else (case elem buffer level of None \<Rightarrow> Hs_fault
                 | Some c \<Rightarrow>
                     if c \<noteq> CR then (if level \<noteq> -1 then handshake_loop n sha1 b64 buffer level else Hs_none)
                     else (case elem buffer (level + 1) of None \<Rightarrow> Hs_fault
                       | Some d \<Rightarrow> if d \<noteq> LF \<and> level \<noteq> -1 then handshake_loop n sha1 b64 buffer level else Hs_none))))"

text \<open>\<open>junk\<close> is what the array \<open>buffer\<close> of 1024 bytes holds before it is written.\<close>

definition handshake :: "nat \<Rightarrow> 'k kernel \<Rightarrow> (u8 list \<Rightarrow> u8 list) \<Rightarrow> (u8 list \<Rightarrow> u8 list) \<Rightarrow> u8 list \<Rightarrow>
    'k world \<Rightarrow> int \<Rightarrow> ('k world, int) comp" where
  "handshake fuel K sha1 b64 junk w cli_fd = comp_bind (read K w cli_fd MAX_BUFFER_LENGTH) (\<lambda>(r, bs) w.
     case memcpy junk 0 bs of None \<Rightarrow> Fault
     | Some buffer \<Rightarrow> (case handshake_loop MAX_BUFFER_LENGTH sha1 b64 buffer 0 of
           Hs_fault \<Rightarrow> Fault | Hs_fuel \<Rightarrow> Out_of_fuel | Hs_none \<Rightarrow> Ret 0 w
         | Hs_response out \<Rightarrow> comp_bind (hook_write fuel K w cli_fd out) (\<lambda>_ w. Ret 0 w)))"

subsection \<open>The server\<close>

definition init_server :: "'k kernel \<Rightarrow> 'k net \<Rightarrow> 'k world \<Rightarrow> ('k world, int) comp" where
  "init_server K N w = comp_bind (socket K w AF_INET SOCK_STREAM 0) (\<lambda>sockfd w.
     if sockfd < 0 then Ret (-1) w
     else (case n_bind N (kern w) sockfd 9096 of (r, e, k) \<Rightarrow>
       if r < 0 then Ret (-2) (w\<lparr>kern := k, errno := e\<rparr>)
       else (case n_listen N k sockfd 5 of (r, e, k) \<Rightarrow>
         if r < 0 then Ret (-3) (w\<lparr>kern := k, errno := e\<rparr>) else Ret sockfd (w\<lparr>kern := k, errno := e\<rparr>))))"

text \<open>\<open>addr\<close> is where the compiler puts \<open>cli_fd\<close>, whose address the coroutine gets.\<close>

fun ws_server_loop :: "nat \<Rightarrow> nat \<Rightarrow> 'k kernel \<Rightarrow> 'k flags \<Rightarrow> (u8 list \<Rightarrow> u8 list) \<Rightarrow> (u8 list \<Rightarrow> u8 list) \<Rightarrow> u8 list \<Rightarrow>
    nat \<Rightarrow> nat \<Rightarrow> 'k world \<Rightarrow> int \<Rightarrow> ('k world, unit) comp" where
  "ws_server_loop 0 fuel K F sha1 b64 junk reader addr w sockfd = Out_of_fuel"
| "ws_server_loop (Suc n) fuel K F sha1 b64 junk reader addr w sockfd = comp_bind (nty_accept fuel K w sockfd) (\<lambda>cli_fd w.
     let w = (if 0 \<le> cli_fd \<and> cli_fd mod 1000 = 999 then gettimeofday K w else w) in
     comp_bind (lift_opt (set_stack_int (snd (ntySetBlock F w cli_fd)) addr cli_fd)) (\<lambda>_ w.
     comp_bind (handshake fuel K sha1 b64 junk w cli_fd) (\<lambda>_ w.
     comp_bind (lift_res (nty_coroutine_create K (snd (ntySetNonblock F w cli_fd)) reader addr)) (\<lambda>_ w.
     ws_server_loop n fuel K F sha1 b64 junk reader addr w sockfd))))"

definition ws_server :: "nat \<Rightarrow> nat \<Rightarrow> 'k kernel \<Rightarrow> 'k net \<Rightarrow> 'k flags \<Rightarrow> (u8 list \<Rightarrow> u8 list) \<Rightarrow> (u8 list \<Rightarrow> u8 list) \<Rightarrow>
    u8 list \<Rightarrow> nat \<Rightarrow> nat \<Rightarrow> 'k world \<Rightarrow> ('k world, unit) comp" where
  "ws_server n fuel K N F sha1 b64 junk reader addr w = comp_bind (init_server K N w) (\<lambda>sockfd w.
     ws_server_loop n fuel K F sha1 b64 junk reader addr (gettimeofday K w) sockfd)"

text \<open>\<open>main\<close>: the address of \<open>server\<close> is 0 and that of \<open>server_reader\<close> is 1.\<close>

definition ws_code :: "nat \<Rightarrow> nat \<Rightarrow> 'k kernel \<Rightarrow> 'k net \<Rightarrow> 'k flags \<Rightarrow> (u8 list \<Rightarrow> u8 list) \<Rightarrow> (u8 list \<Rightarrow> u8 list) \<Rightarrow> u8 list \<Rightarrow>
    nat \<Rightarrow> 'k code" where
  "ws_code n fuel K N F sha1 b64 junk addr func arg w =
     (if func = 0 then ws_server n fuel K N F sha1 b64 junk 1 addr w else ws_reader n fuel K w arg)"

definition ws_main :: "nat \<Rightarrow> nat \<Rightarrow> 'k kernel \<Rightarrow> 'k net \<Rightarrow> 'k flags \<Rightarrow> (u8 list \<Rightarrow> u8 list) \<Rightarrow> (u8 list \<Rightarrow> u8 list) \<Rightarrow> u8 list \<Rightarrow>
    nat \<Rightarrow> 'k state \<Rightarrow> 'k state option" where
  "ws_main n fuel K N F sha1 b64 junk addr st = do {
     (_, w) \<leftarrow> nty_coroutine_create K (fst st) 0 0;
     nty_schedule_run K (ws_code n fuel K N F sha1 b64 junk addr) (w, snd st) }"

subsection \<open>Masking\<close>

text \<open>RFC 6455: byte \<open>i\<close> of the payload is combined with byte \<open>i mod 4\<close> of the key.\<close>

definition masked :: "u8 list \<Rightarrow> u8 list \<Rightarrow> u8 list" where
  "masked key bs = map (\<lambda>i. bs ! i XOR key ! (i mod 4)) [0..<length bs]"

fun masked_from :: "u8 list \<Rightarrow> nat \<Rightarrow> u8 list \<Rightarrow> u8 list" where
  "masked_from key j [] = []"
| "masked_from key j (b # bs) = (b XOR key ! (j mod 4)) # masked_from key (Suc j) bs"

lemma masked_from_nth: "masked_from key j bs = map (\<lambda>i. bs ! i XOR key ! ((j + i) mod 4)) [0..<length bs]"
proof (induction bs arbitrary: j)
  case (Cons b bs)
  have "[0..<length (b # bs)] = 0 # map Suc [0..<length bs]" by (simp add: upt_conv_Cons map_Suc_upt del: upt_Suc)
  then show ?case by (simp add: Cons.IH)
qed simp

lemma length_masked [simp]: "length (masked key bs) = length bs"
  by (simp add: masked_def)

lemma masked_masked: "masked key (masked key bs) = bs"
  by (rule nth_equalityI) (simp_all add: masked_def xor.assoc)

lemma umask_loop_from:
  assumes "length key = 4"
  shows "umask_loop (length bs) (us @ vs @ bs @ ws) (int (length us)) (int (length vs)) key =
    Some (us @ vs @ masked_from key (length vs) bs @ ws)"
proof (induction bs arbitrary: vs)
  case (Cons b bs)
  let ?c = "b XOR key ! (length vs mod 4)"
  have at: "int (length us) + int (length vs) = int (length (us @ vs))" by simp
  have k: "elem key (int (length vs) mod 4) = Some (key ! (length vs mod 4))"
    using assms by (simp add: zmod_int [symmetric, of _ 4, simplified])
  have e: "elem (us @ vs @ (b # bs) @ ws) (int (length us) + int (length vs)) = Some b"
    unfolding at elem_nat by (simp add: nth_append)
  have s: "set_elem (us @ vs @ (b # bs) @ ws) (int (length us) + int (length vs)) ?c = Some (us @ (vs @ [?c]) @ bs @ ws)"
    unfolding at set_elem_nat by (simp add: list_update_append)
  have "int (length vs) + 1 = int (length (vs @ [?c]))" by simp
  then show ?case using Cons.IH [of "vs @ [?c]"] by (simp only: length_Cons umask_loop.simps k e s bind.bind_lunit) simp
qed simp

lemma umask_masked:
  assumes "length key = 4"
  shows "umask (us @ bs @ ws) (int (length us)) (int (length bs)) key = Some (us @ masked key bs @ ws)"
  using umask_loop_from [OF assms, of bs us "[]" ws] by (simp add: umask_def masked_from_nth masked_def)

subsection \<open>Frames\<close>

text \<open>The frames of RFC 6455 with a payload of less than 126 bytes: from a client, masked, and from a server.\<close>

definition client_frame :: "u8 \<Rightarrow> u8 list \<Rightarrow> u8 list \<Rightarrow> u8 list" where
  "client_frame b0 key payload = [b0, 0x80 OR of_nat (length payload)] @ key @ masked key payload"

definition server_frame :: "u8 list \<Rightarrow> u8 list" where
  "server_frame payload = [0x81, of_nat (length payload)] @ payload"

lemma uint_small: "n < 128 \<Longrightarrow> uint (of_nat n :: u8) = int n"
  by (simp add: unsigned_of_nat take_bit_nat_eq_self)

lemma low7: "n < 128 \<Longrightarrow> take_bit 7 (of_nat n :: u8) = of_nat n"
  by (simp add: word_uint_eq_iff unsigned_take_bit_eq uint_small take_bit_int_eq_self)

lemma low7_or: "n < 128 \<Longrightarrow> take_bit 7 (0x80 OR of_nat n :: u8) = of_nat n"
  by (simp add: take_bit_or low7)

text \<open>\<open>hdr->mask\<close> has one bit: the branches for extended lengths are never taken.\<close>

lemma hdr_mask_small: "hdr_mask b AND 0x7F \<noteq> 126" "hdr_mask b AND 0x7F \<noteq> 127"
  by (simp_all add: hdr_mask_def)

lemma decode_plain:
  assumes "elem stream 1 = Some b" "block stream 2 4 = Some key"
  shows "decode_packet stream n = map_option (\<lambda>st. (6, hdr_payload_length b, key, st)) (umask stream 6 (hdr_payload_length b) key)"
  using assms by (cases "umask stream 6 (hdr_payload_length b) key") (simp_all add: decode_packet_def hdr_mask_small)

lemma decode_client_frame:
  assumes "length key = 4" "length payload < 126"
  shows "decode_packet (client_frame b0 key payload @ zs) n =
    Some (6, int (length payload), key, [b0, 0x80 OR of_nat (length payload)] @ key @ payload @ zs)"
proof -
  let ?b = "0x80 OR of_nat (length payload) :: u8"
  let ?s = "[b0, ?b] @ key @ masked key payload @ zs"
  have len: "hdr_payload_length ?b = int (length payload)"
    using assms(2) by (simp add: hdr_payload_length_def low7_or low7 uint_small)
  have b: "elem ?s 1 = Some ?b" by (simp add: elem_def)
  have k: "block ?s 2 4 = Some key" using assms(1) by (intro block_at) simp_all
  have "umask (([b0, ?b] @ key) @ masked key payload @ zs) (int (length ([b0, ?b] @ key))) (int (length (masked key payload))) key =
      Some (([b0, ?b] @ key) @ masked key (masked key payload) @ zs)"
    by (rule umask_masked [OF assms(1)])
  then have "umask ?s 6 (int (length payload)) key = Some ([b0, ?b] @ key @ payload @ zs)"
    using assms(1) by (simp add: masked_masked)
  then show ?thesis using decode_plain [OF b k, of n] by (simp add: len client_frame_def)
qed

lemma encode_short:
  assumes "length payload < 126" "length payload + 2 \<le> length buffer"
  shows "encode_packet buffer key (payload @ zs) (int (length payload)) =
    Some (int (length payload) + 2, server_frame payload @ drop (length payload + 2) buffer)"
proof -
  obtain x y us vs where buf: "buffer = x # y # us @ vs" "length us = length payload"
  proof -
    obtain x y r where "buffer = x # y # r" "length payload \<le> length r"
      using assms(2) by (cases buffer; cases "tl buffer") auto
    then show thesis using that [of x y "take (length payload) r" "drop (length payload) r"] by simp
  qed
  have h: "memcpy buffer 0 [0x81, b] = Some ([0x81, b] @ us @ vs)" for b :: u8 by (simp add: buf(1))
  have "memcpy ([0x81, b] @ us @ vs) 2 payload = Some ([0x81, b] @ payload @ vs)" for b :: u8
    using buf(2) by (intro memcpy_at) simp_all
  moreover have "block (payload @ zs) 0 (int (length payload)) = Some payload"
    using block_at [of 0 "[]" "int (length payload)" payload zs] by simp
  ultimately show ?thesis
    using assms(1) h buf by (simp add: encode_packet_def low7 server_frame_def)
qed

lemma answer_client_frame:
  assumes "length key = 4" "length payload < 126"
  shows "ws_answer (client_frame b0 key payload @ zs) n = Some (server_frame payload)"
proof -
  have "encode_packet (replicate (MAX_BUFFER_LENGTH + 14) 0) key (payload @ zs) (int (length payload)) =
      Some (int (length payload) + 2, server_frame payload @ drop (length payload + 2) (replicate (MAX_BUFFER_LENGTH + 14) 0))"
    using assms(2) by (intro encode_short) (simp_all add: MAX_BUFFER_LENGTH_def)
  moreover have "block (server_frame payload @ ws) 0 (int (length payload) + 2) = Some (server_frame payload)" for ws
    using block_at [of 0 "[]" "int (length payload) + 2" "server_frame payload" ws] by (simp add: server_frame_def)
  moreover have "drop (nat 6) ([b0, 0x80 OR of_nat (length payload)] @ key @ payload @ zs) = payload @ zs"
    using assms(1) by simp
  ultimately show ?thesis by (simp add: ws_answer_def decode_client_frame [OF assms] del: drop_replicate)
qed

text \<open>A payload of 126 bytes overwrites the extended header.\<close>

lemma encode_126:
  assumes "length p = 126" "length key = 4"
  shows "encode_packet (replicate (MAX_BUFFER_LENGTH + 14) 0) key (p @ ws) 126 = Some (128, [0x81, 0] @ p @ replicate 910 0)"
proof -
  have b: "block key 0 4 = Some key" "block (p @ ws) 0 126 = Some p" using assms by (simp_all add: block_def)
  have m1: "memcpy (replicate (MAX_BUFFER_LENGTH + 14) 0) 0 [0x81, 0] = Some ([0x81, 0 :: u8] @ replicate 14 0 @ replicate 1022 0)"
    by (simp add: MAX_BUFFER_LENGTH_def replicate_add [symmetric] del: replicate_Suc)
  let ?h = "le_bytes 2 126 @ key @ replicate 8 0"
  have h: "length ?h = 14" using assms(2) by (simp add: le_bytes_def)
  have m2: "memcpy ([0x81, 0] @ replicate 14 0 @ replicate 1022 0) 2 ?h = Some ([0x81, 0 :: u8] @ ?h @ replicate 1022 0)"
    using h by (intro memcpy_at) simp_all
  have "[0x81, 0 :: u8] @ ?h @ replicate 1022 0 = [0x81, 0] @ (?h @ replicate 112 0) @ replicate 910 0"
    by (simp add: replicate_add [symmetric])
  then have m3: "memcpy ([0x81, 0] @ ?h @ replicate 1022 0) 2 p = Some ([0x81, 0 :: u8] @ p @ replicate 910 0)"
    using memcpy_at [of 2 "[0x81, 0 :: u8]" p "?h @ replicate 112 0" "replicate 910 0"] h assms(1) by simp
  show ?thesis by (simp add: encode_packet_def b m1 m2 m3 del: append_Cons append_Nil append_assoc)
qed

subsection \<open>Lines\<close>

text \<open>A line is copied up to its end; \<open>ps\<close> is what was copied before.\<close>

lemma readline_loop_line:
  assumes "CR \<notin> set line" "length line \<le> length qs" "length line < n"
  shows "readline_loop n (us @ line @ CR # LF # vs) (int (length us)) (ps @ qs) (int (length ps)) =
    Some (int (length us + length line + 2), ps @ line @ drop (length line) qs)"
  using assms
proof (induction line arbitrary: n us ps qs)
  case Nil
  have e: "elem (us @ CR # LF # vs) (int (length us) + 1) = Some LF"
    using elem_nat [of "us @ CR # LF # vs" "length us + 1"] by (simp add: nth_append add.commute)
  from Nil show ?case by (cases n) (simp_all add: e nth_append)
next
  case (Cons c line)
  obtain q qs' where qs: "qs = q # qs'" using Cons.prems(2) by (cases qs) auto
  obtain m where n: "n = Suc m" using Cons.prems(3) by (cases n) auto
  let ?a = "us @ (c # line) @ CR # LF # vs"
  have IH: "readline_loop m ((us @ [c]) @ line @ CR # LF # vs) (int (length (us @ [c]))) ((ps @ [c]) @ qs') (int (length (ps @ [c]))) =
      Some (int (length (us @ [c]) + length line + 2), (ps @ [c]) @ line @ drop (length line) qs')"
    using Cons.prems n qs by (intro Cons.IH) auto
  have "elem ?a (int (length us)) = Some c" by (simp add: nth_append)
  moreover have "set_elem (ps @ qs) (int (length ps)) c = Some ((ps @ [c]) @ qs')" by (simp add: qs)
  moreover have "c \<noteq> CR" using Cons.prems(1) by auto
  moreover have "int (length us) + 1 = int (length (us @ [c]))" "int (length ps) + 1 = int (length (ps @ [c]))" by simp_all
  ultimately show ?case using IH by (simp add: n qs add.commute)
qed

lemma readline_line:
  assumes "CR \<notin> set line" "length line \<le> 128" "0 \<notin> set (us @ line @ CR # LF # vs)"
  shows "readline ((us @ line @ CR # LF # vs) @ 0 # zs) (int (length us)) (replicate 128 0) =
    Some (int (length us + length line + 2), line @ replicate (128 - length line) 0)"
proof -
  have "strlen ((us @ line @ CR # LF # vs) @ 0 # zs) = Some (length (us @ line @ CR # LF # vs))"
    by (rule strlen_zero [OF assms(3)])
  moreover have "readline_loop (nat (int (length (us @ line @ CR # LF # vs)) - int (length us)))
      (us @ line @ CR # LF # (vs @ 0 # zs)) (int (length us)) ([] @ replicate 128 0) (int (length ([] :: u8 list))) =
      Some (int (length us + length line + 2), [] @ line @ drop (length line) (replicate 128 0))"
    using assms by (intro readline_loop_line) auto
  ultimately show ?thesis by (simp add: readline_def)
qed

lemma readline_loop_bounds:
  "readline_loop n allbuf level linebuf p = Some (r, l) \<Longrightarrow> r = -1 \<or> (level + 2 \<le> r \<and> r \<le> int (length allbuf))"
proof (induction n arbitrary: level linebuf p)
  case (Suc n)
  then show ?case
    by (fastforce simp: bind_eq_Some_conv elem_def split: if_splits)
qed simp

lemma readline_bounds: "readline buf level lb = Some (r, l) \<Longrightarrow> r = -1 \<or> (level + 2 \<le> r \<and> r \<le> int (length buf))"
  using readline_loop_bounds by (fastforce simp: readline_def bind_eq_Some_conv)

text \<open>The loop over the lines ends.\<close>

lemma handshake_loop_ends:
  "0 \<le> level \<Longrightarrow> level \<le> int (length buffer) \<Longrightarrow> int (length buffer) - level < 2 * int n \<Longrightarrow>
   handshake_loop n sha1 b64 buffer level \<noteq> Hs_fuel"
proof (induction n arbitrary: level)
  case (Suc n)
  have next_line: "handshake_loop n sha1 b64 buffer r \<noteq> Hs_fuel" if "readline buffer level (replicate 128 0) = Some (r, l)" "r \<noteq> -1" for r l
    using readline_bounds [OF that(1)] that(2) Suc.prems by (intro Suc.IH) auto
  show ?case by (auto simp: next_line split: option.splits)
qed simp

subsection \<open>The response\<close>

definition key_name :: "u8 list" where "key_name = bytes_of ''Sec-WebSocket-Key''"

lemma literals:
  "0 \<notin> set GUID" "length GUID = 36" "0 \<notin> set key_name" "CR \<notin> set key_name" "length key_name = 17"
  by (simp_all add: GUID_def key_name_def bytes_of_def)

lemma response_text_zero: "0 \<in> set (response_text acc) \<longleftrightarrow> 0 \<in> set acc"
  by (simp add: response_text_def bytes_of_def crlf_def)

lemma length_response_text: "length (response_text acc) = length acc + 101"
  by (simp add: response_text_def bytes_of_def crlf_def)

text \<open>The string in the array of the digest, which ends with a zero in any case.\<close>

lemma digest_string:
  assumes "length d \<le> 20"
  shows "\<exists>m ws. memcpy (replicate 21 0) 0 d = Some ws \<and> strlen ws = Some m \<and> block ws 0 (int m) = Some (takeWhile (\<lambda>c. c \<noteq> 0) d)"
proof -
  let ?ws = "d @ replicate (21 - length d) 0" and ?d = "takeWhile (\<lambda>c. c \<noteq> 0) d"
  have "memcpy (replicate 21 0) 0 d = Some ?ws" using assms by simp
  moreover obtain vs where vs: "?ws = ?d @ 0 # vs" "0 \<notin> set ?d"
  proof (cases "dropWhile (\<lambda>c. c \<noteq> 0) d")
    case Nil
    then have d: "?d = d" by (metis append_Nil2 takeWhile_dropWhile_id)
    have "21 - length d = Suc (20 - length d)" using assms by simp
    then have "?ws = ?d @ 0 # replicate (20 - length d) 0" unfolding d by (simp only: replicate_Suc)
    moreover have "0 \<notin> set ?d" by (auto dest: set_takeWhileD)
    ultimately show ?thesis by (rule that)
  next
    case (Cons c r)
    then have "d = ?d @ 0 # r" unfolding dropWhile_eq_Cons_conv by (elim conjE) simp
    then have "?ws = ?d @ 0 # (r @ replicate (21 - length d) 0)" by (metis append.assoc append_Cons)
    moreover have "0 \<notin> set ?d" by (auto dest: set_takeWhileD)
    ultimately show ?thesis by (rule that)
  qed
  moreover have "strlen ?ws = Some (length ?d)" unfolding vs(1) using vs(2) by (rule strlen_zero)
  moreover have "block ?ws 0 (int (length ?d)) = Some ?d"
    unfolding vs(1) using block_at [of 0 "[]" "int (length ?d)" ?d "0 # vs"] by simp
  ultimately show ?thesis by blast
qed

text \<open>\<open>enc\<close> is the base-64 form of the digest up to its first zero byte, without the line feed the filter adds.\<close>

lemma response_key:
  assumes "0 \<notin> set key" "length key < 73"
    and "length (sha1 (key @ GUID)) \<le> 20" "b64 (takeWhile (\<lambda>c. c \<noteq> 0) (sha1 (key @ GUID))) = enc @ [LF]"
    and "0 \<notin> set enc" "length enc < 32"
  shows "response sha1 b64 (stored 128 ((key_name @ bytes_of '': '') @ key)) = Some (response_text enc)"
proof -
  let ?p = "key_name @ bytes_of '': ''"
  have p: "0 \<notin> set ?p" "length ?p = 19" using literals by (simp_all add: bytes_of_def)
  let ?line = "?p @ key"
  have line: "0 \<notin> set ?line" "length ?line < 92" using p assms(1,2) by auto
  then have n: "strlen (stored 128 ?line) = Some (length ?line)" by (intro strlen_stored [THEN conjunct1]) auto
  obtain ws where cat: "memcpy (stored 128 ?line) (int (length ?line)) (GUID @ [0]) = Some (?line @ (GUID @ [0]) @ ws)"
  proof -
    have "stored 128 ?line = ?line @ replicate 37 0 @ replicate (128 - length ?line - 37) 0"
      using line(2) unfolding stored_def replicate_add [symmetric] by simp
    then show thesis using that memcpy_at [of "int (length ?line)" ?line "GUID @ [0]" "replicate 37 0"] literals(2) by simp
  qed
  have "drop 19 (?line @ (GUID @ [0]) @ ws) = (key @ GUID) @ 0 # ws" using p(2) by simp
  then have k: "c_string (drop 19 (?line @ (GUID @ [0]) @ ws)) = Some (key @ GUID)"
    using assms(1) literals(1) c_string_zero [of "key @ GUID" ws] by (simp del: c_string_zero)
  obtain m ds where d: "memcpy (replicate 21 0) 0 (sha1 (key @ GUID)) = Some ds" "strlen ds = Some m"
      "block ds 0 (int m) = Some (takeWhile (\<lambda>c. c \<noteq> 0) (sha1 (key @ GUID)))"
    using digest_string [OF assms(3)] by blast
  have e1: "memcpy (replicate 32 0) 0 (enc @ [LF]) = Some (enc @ LF # replicate (31 - length enc) 0)"
    using assms(6) by simp
  have e2: "set_elem (enc @ LF # replicate (31 - length enc) 0) (int (length enc)) 0 = Some (enc @ 0 # replicate (31 - length enc) 0)"
    by simp
  have b: "base64_encode b64 ds (int m) (replicate 32 0) = Some (int (length enc) + 1, enc @ 0 # replicate (31 - length enc) 0)"
    using e2 by (simp add: base64_encode_def d(3) assms(4) e1 del: set_elem_nat memcpy_0)
  have t: "memcpy (replicate MAX_BUFFER_LENGTH 0) 0 (response_text enc @ [0]) =
      Some (response_text enc @ 0 # replicate (MAX_BUFFER_LENGTH - length (response_text enc) - 1) 0)"
    using assms(6) by (simp add: MAX_BUFFER_LENGTH_def length_response_text)
  have t2: "c_string (response_text enc @ 0 # replicate (MAX_BUFFER_LENGTH - length (response_text enc) - 1) 0) = Some (response_text enc)"
    using assms(5) response_text_zero by (intro c_string_zero) blast
  have a: "c_string (enc @ 0 # replicate (31 - length enc) 0) = Some enc" using assms(5) by (rule c_string_zero)
  show ?thesis by (simp only: response_def n cat k d b a t t2 bind.bind_lunit prod.case)
qed

subsection \<open>Requests\<close>

definition key_line :: "u8 list \<Rightarrow> u8 list" where
  "key_line key = (key_name @ bytes_of '': '') @ key"

text \<open>A line before that with the key.\<close>

definition plain_line :: "u8 list \<Rightarrow> bool" where
  "plain_line l = (l \<noteq> [] \<and> CR \<notin> set l \<and> length l < 128 \<and> \<not> occurs key_name l)"

definition lines :: "u8 list list \<Rightarrow> u8 list" where
  "lines ls = concat (map (\<lambda>l. l @ crlf) ls)"

lemma c_string_stored: "0 \<notin> set l \<Longrightarrow> length l < n \<Longrightarrow> c_string (stored n l) = Some l"
  by (simp add: stored_zero)

text \<open>The first byte of what follows a line is not a carriage return, so that the loop goes on.\<close>

lemma lines_first: "\<forall>l \<in> set ls. plain_line l \<Longrightarrow> \<exists>c r. lines ls @ key_line key @ t = c # r \<and> c \<noteq> CR"
proof (cases ls)
  case Nil
  then show ?thesis by (simp add: lines_def key_line_def key_name_def bytes_of_def)
next
  case (Cons l ls')
  assume "\<forall>l \<in> set ls. plain_line l"
  then have "l \<noteq> []" "CR \<notin> set l" using Cons by (simp_all add: plain_line_def)
  then show ?thesis using Cons by (cases l) (simp_all add: lines_def)
qed

lemma handshake_one_line:
  assumes "CR \<notin> set l" "length l < 128" "0 \<notin> set (us @ l @ crlf @ vs)"
  shows "readline ((us @ l @ crlf @ vs) @ 0 # zs) (int (length us)) (replicate 128 0) =
      Some (int (length (us @ l @ crlf)), stored 128 l)"
    and "c_string (stored 128 l) = Some l"
proof -
  show "readline ((us @ l @ crlf @ vs) @ 0 # zs) (int (length us)) (replicate 128 0) =
      Some (int (length (us @ l @ crlf)), stored 128 l)"
    using readline_line [of l us vs zs] assms by (simp add: crlf_def stored_def)
  show "c_string (stored 128 l) = Some l" using assms by (intro c_string_stored) auto
qed

lemma handshake_loop_lines:
  assumes "\<forall>l \<in> set ls. plain_line l" "CR \<notin> set key" "length key < 73" "length ls < n"
    and "0 \<notin> set (us @ lines ls @ key_line key @ crlf @ rest)"
    and "response sha1 b64 (stored 128 (key_line key)) = Some out"
  shows "handshake_loop n sha1 b64 ((us @ lines ls @ key_line key @ crlf @ rest) @ 0 # zs) (int (length us)) = Hs_response out"
  using assms(1,4,5)
proof (induction ls arbitrary: us n)
  case (Nil us n)
  obtain m where n: "n = Suc m" using Nil.prems(2) by (cases n) auto
  have k: "CR \<notin> set (key_line key)" "length (key_line key) < 128" "occurs key_name (key_line key)"
    using assms(2,3) literals by (auto simp: key_line_def bytes_of_def occurs_append)
  have z: "0 \<notin> set (us @ key_line key @ crlf @ rest)" using Nil.prems(3) by (simp add: lines_def)
  have occ: "occurs (bytes_of ''Sec-WebSocket-Key'') (key_line key)" using k(3) by (simp add: key_name_def)
  have lines: "lines [] = []" by (simp add: lines_def)
  show ?case
    using handshake_one_line(1) [OF k(1,2) z, of zs] handshake_one_line(2) [OF k(1,2) z] assms(6) occ
    by (simp only: n lines handshake_loop.simps append_Nil option.case prod.case if_True handshake_end.simps)
next
  case (Cons l ls us n)
  obtain m where n: "n = Suc m" using Cons.prems(2) by (cases n) auto
  let ?t = "lines ls @ key_line key @ crlf @ rest" and ?us = "us @ l @ crlf"
  have buf: "us @ lines (l # ls) @ key_line key @ crlf @ rest = us @ l @ crlf @ ?t" by (simp add: lines_def)
  have l: "CR \<notin> set l" "length l < 128" "\<not> occurs (bytes_of ''Sec-WebSocket-Key'') l" and ls: "\<forall>l \<in> set ls. plain_line l"
    using Cons.prems(1) by (auto simp: plain_line_def key_name_def)
  have z: "0 \<notin> set (us @ l @ crlf @ ?t)" using Cons.prems(3) unfolding buf .
  obtain c r where c: "?t = c # r" "c \<noteq> CR" using lines_first [OF ls] by blast
  have e: "elem ((us @ l @ crlf @ ?t) @ 0 # zs) (int (length ?us)) = Some c"
    unfolding c(1) elem_nat by (simp add: nth_append)
  have next_ok: "handshake_loop m sha1 b64 ((us @ l @ crlf @ ?t) @ 0 # zs) (int (length ?us)) = Hs_response out"
    using Cons.IH [of m ?us] Cons.prems(2) n ls z by simp
  have "int (length ?us) \<noteq> -1" by simp
  then show ?case
    unfolding buf using handshake_one_line(1) [OF l(1,2) z, of zs] handshake_one_line(2) [OF l(1,2) z] l(3) e c(2) next_ok
    by (simp only: n handshake_loop.simps option.case prod.case if_False if_True not_True_eq_False not_False_eq_True)
qed

subsection \<open>Properties\<close>

text \<open>C37.  Masking: the loop of \<open>umask\<close> is the masking of RFC 6455, it changes no other byte of the array, and doing
  it twice gives the payload back.\<close>

theorem umask_is_masking:
  assumes "length key = 4"
  shows "umask (us @ bs @ ws) (int (length us)) (int (length bs)) key = Some (us @ masked key bs @ ws) \<and>
    umask (us @ masked key bs @ ws) (int (length us)) (int (length bs)) key = Some (us @ bs @ ws)"
  using umask_masked [OF assms, of us bs ws] umask_masked [OF assms, of us "masked key bs" ws] by (simp add: masked_masked)

theorem umask_is_masking_witness:
  "umask ([9] @ [1, 2, 3, 4, 5] @ [8]) (int (length [9 :: u8])) (int (length [1, 2, 3, 4, 5 :: u8])) [16, 32, 48, 64] =
     Some ([9] @ masked [16, 32, 48, 64] [1, 2, 3, 4, 5] @ [8]) \<and>
   umask ([9] @ masked [16, 32, 48, 64] [1, 2, 3, 4, 5] @ [8]) (int (length [9 :: u8])) (int (length [1, 2, 3, 4, 5 :: u8])) [16, 32, 48, 64] =
     Some ([9] @ [1, 2, 3, 4, 5] @ [8])"
  by (rule umask_is_masking) simp

text \<open>C24.  The web socket server answers a masked frame with a payload of less than 126 bytes by an unmasked text
  frame with the same payload, whatever follows the frame in the buffer.\<close>

theorem ws_answers_frame:
  assumes "length key = 4" "length payload < 126"
  shows "ws_answer (client_frame b0 key payload @ zs) n = Some (server_frame payload)"
  by (rule answer_client_frame [OF assms])

theorem ws_answers_frame_witness:
  "ws_answer (client_frame 0x81 [1, 2, 3, 4] [72, 105] @ [0, 0]) 8 = Some (server_frame [72, 105])"
  by (rule ws_answers_frame) simp_all

text \<open>C25.  The handshake: for a request of lines without the key, a line with the key and anything after it, the
  response is that of RFC 6455 with the base-64 form of the digest of the key and the \<open>GUID\<close>, but of the digest
  up to its first zero byte only: \<open>strlen\<close> measures it.  The bound on the number of lines is enough for the
  array of 1024 bytes.\<close>

theorem handshake_response:
  assumes "\<forall>l \<in> set ls. plain_line l" "CR \<notin> set key" "length key < 73"
    and "0 \<notin> set (lines ls @ key_line key @ crlf @ rest)"
    and "length ((lines ls @ key_line key @ crlf @ rest) @ 0 # zs) = MAX_BUFFER_LENGTH"
    and "length (sha1 (key @ GUID)) = 20" "b64 (takeWhile (\<lambda>c. c \<noteq> 0) (sha1 (key @ GUID))) = enc @ [LF]"
    and "0 \<notin> set enc" "length enc < 32"
  shows "handshake_loop MAX_BUFFER_LENGTH sha1 b64 ((lines ls @ key_line key @ crlf @ rest) @ 0 # zs) 0 =
    Hs_response (response_text enc)"
proof -
  have "length ls \<le> length (lines ls)" by (induction ls) (simp_all add: lines_def crlf_def)
  then have n: "length ls < MAX_BUFFER_LENGTH" using assms(5) by simp
  have "0 \<notin> set key" using assms(4) by (simp add: key_line_def)
  then have "response sha1 b64 (stored 128 (key_line key)) = Some (response_text enc)"
    unfolding key_line_def using assms(3,6-9) by (intro response_key) simp_all
  then show ?thesis using handshake_loop_lines [OF assms(1-3) n, of "[]" rest sha1 b64] assms(4) by simp
qed

theorem handshake_response_witness:
  "handshake_loop MAX_BUFFER_LENGTH (\<lambda>_. replicate 20 7) (\<lambda>bs. map (\<lambda>b. b + 65) bs @ [LF])
     ((lines [bytes_of ''GET / HTTP/1.1''] @ key_line (bytes_of ''abc'') @ crlf @ crlf) @ 0 # replicate 981 0) 0 =
   Hs_response (response_text (replicate 20 72))"
proof -
  have "plain_line (bytes_of ''GET / HTTP/1.1'')"
    by (simp add: plain_line_def bytes_of_def key_name_def)
  moreover have "takeWhile (\<lambda>c. c \<noteq> 0) (replicate 20 (7 :: u8)) = replicate 20 7" by (simp add: takeWhile_replicate)
  ultimately show ?thesis
    by (intro handshake_response)
      (simp_all add: lines_def key_line_def key_name_def bytes_of_def crlf_def MAX_BUFFER_LENGTH_def)
qed

text \<open>Frames with an extended length are not understood: \<open>hdr->mask\<close> is one bit, so the tests for 126 and 127 fail,
  the length is taken as 126 and the key from the extended length and half of the key; the answer has a header
  that announces no payload and 126 bytes behind it.\<close>

lemma ws_extended_misread:
  assumes "length key = 4" "124 \<le> length bs"
  shows "\<exists>st out. decode_packet ([b0, 0xFE, l1, l0] @ key @ bs) n = Some (6, 126, [l1, l0, key ! 0, key ! 1], st) \<and>
    ws_answer ([b0, 0xFE, l1, l0] @ key @ bs) n = Some ([0x81, 0] @ out) \<and> length out = 126"
proof -
  obtain k0 k1 k2 k3 where k: "key = [k0, k1, k2, k3]" using assms(1) by (auto simp: length_Suc_conv numeral_eq_Suc)
  let ?us = "[b0, 0xFE, l1, l0, k0, k1]" and ?key = "[l1, l0, k0, k1]" and ?p = "[k2, k3] @ take 124 bs"
  let ?s = "?us @ ?p @ drop 124 bs" and ?m = "masked ?key ?p"
  have s: "[b0, 0xFE, l1, l0] @ key @ bs = ?s" by (simp add: k)
  have len: "length ?p = 126" using assms(2) by simp
  have "umask ?s (int (length ?us)) (int (length ?p)) ?key = Some (?us @ ?m @ drop 124 bs)"
    by (rule umask_masked) simp
  then have u: "umask ?s 6 126 ?key = Some (?us @ ?m @ drop 124 bs)" unfolding len by simp
  have "elem ?s 1 = Some 0xFE" "block ?s 2 4 = Some ?key" by (simp_all add: elem_def block_def)
  then have d: "decode_packet ?s n = Some (6, 126, ?key, ?us @ ?m @ drop 124 bs)"
    using decode_plain [of ?s "0xFE" ?key n] u by (simp add: hdr_payload_length_def)
  have "drop (nat 6) (?us @ ?m @ drop 124 bs) = ?m @ drop 124 bs" by simp
  moreover have "block ([0x81, 0] @ ?m @ replicate 910 0) 0 128 = Some ([0x81, 0] @ ?m)"
    using block_at [of 0 "[]" 128 "[0x81, 0] @ ?m" "replicate 910 0"] len by simp
  ultimately have "ws_answer ?s n = Some ([0x81, 0] @ ?m)"
    using encode_126 [of ?m ?key "drop 124 bs"] len by (simp add: ws_answer_def d del: append_Cons append_Nil drop_append append_take_drop_id append_assoc)
  moreover have "?key = [l1, l0, key ! 0, key ! 1]" "length ?m = 126" using len by (simp_all add: k)
  ultimately show ?thesis unfolding s using d by metis
qed

end
