(* ===== verification/Http_Server.thy ===== *)
theory Http_Server
  imports Websocket
begin

text \<open>
  The web server \<open>sample/nty_http_server.c\<close>: the parsing of the request line, the responses, sending a file line by
  line, and the coroutine that answers a connection.  In this file \<open>recv\<close>, \<open>send\<close>, \<open>accept\<close> and \<open>socket\<close> are macros for
  the \<open>nty_*\<close> functions.

  The files are a parameter: what \<open>stat\<close> and \<open>fopen\<close> give for a path.  The CGI branch is dead code (\<open>cgi\<close> is set to 0
  before it is tested) and is not part of \<open>accept_request\<close> here; \<open>execute_cgi\<close> is in \<open>Cgi\<close>.  A call of \<open>exit\<close> is the result \<open>None\<close>.
\<close>

subsection \<open>The request line\<close>

definition isspace :: "u8 \<Rightarrow> bool" where
  "isspace c = (c = 32 \<or> (9 \<le> c \<and> c \<le> 13))"

definition tolower :: "u8 \<Rightarrow> u8" where
  "tolower c = (if 65 \<le> c \<and> c \<le> 90 then c + 32 else c)"

definition strcasecmp :: "u8 list \<Rightarrow> u8 list \<Rightarrow> bool" where
  "strcasecmp s t = (map tolower s \<noteq> map tolower t)"

text \<open>The loops that copy the method and the URL.  \<open>dst\<close> is what was stored so far; the array has 255 bytes.\<close>

fun method_loop :: "nat \<Rightarrow> u8 list \<Rightarrow> nat \<Rightarrow> u8 list \<Rightarrow> (nat \<times> u8 list) option" where
  "method_loop 0 buf i dst = (case elem buf (int i) of None \<Rightarrow> None | Some _ \<Rightarrow> Some (i, dst))"
| "method_loop (Suc n) buf i dst = (case elem buf (int i) of None \<Rightarrow> None
     | Some c \<Rightarrow> if isspace c then Some (i, dst) else method_loop n buf (Suc i) (dst @ [c]))"

fun skip_loop :: "nat \<Rightarrow> u8 list \<Rightarrow> nat \<Rightarrow> nat option" where
  "skip_loop 0 buf j = (case elem buf (int j) of None \<Rightarrow> None | Some _ \<Rightarrow> Some j)"
| "skip_loop (Suc n) buf j = (case elem buf (int j) of None \<Rightarrow> None
     | Some c \<Rightarrow> if isspace c then skip_loop n buf (Suc j) else Some j)"

fun url_loop :: "nat \<Rightarrow> u8 list \<Rightarrow> nat \<Rightarrow> u8 list \<Rightarrow> u8 list option" where
  "url_loop 0 buf j dst = (case elem buf (int j) of None \<Rightarrow> None | Some _ \<Rightarrow> Some dst)"
| "url_loop (Suc n) buf j dst = (case elem buf (int j) of None \<Rightarrow> None
     | Some c \<Rightarrow> if isspace c then Some dst else url_loop n buf (Suc j) (dst @ [c]))"

text \<open>The string that was stored: a zero byte among the bytes ends it early.\<close>

definition string_of :: "u8 list \<Rightarrow> u8 list" where
  "string_of bs = takeWhile (\<lambda>c. c \<noteq> 0) bs"

datatype request = Unimplemented | Request (req_path: "u8 list")

text \<open>The part of \<open>accept_request\<close> before \<open>stat\<close>, for the \<open>numchars\<close> bytes received into \<open>buf\<close>.  The loop that skips
  spaces runs while \<open>j < numchars\<close>, that for the URL also while \<open>i < 254\<close>.\<close>

definition parse_request :: "u8 list \<Rightarrow> nat \<Rightarrow> request option" where
  "parse_request buf numchars = do {
     (j, dst) \<leftarrow> method_loop 254 buf 0 [];
     let method = string_of dst;
     if strcasecmp method (bytes_of ''GET'') \<and> strcasecmp method (bytes_of ''POST'') then Some Unimplemented
     else do {
       j \<leftarrow> skip_loop (numchars - j) buf j;
       dst \<leftarrow> url_loop (min 254 (numchars - j)) buf j [];
       let url = string_of dst;
       let url = (if \<not> strcasecmp method (bytes_of ''GET'') then takeWhile (\<lambda>c. c \<noteq> 63) url else url);
       let path = bytes_of ''htdocs'' @ url;
       Some (Request (if last path = 47 then path @ bytes_of ''index.html'' else path)) } }"

subsection \<open>Reading lines\<close>

definition MSG_PEEK :: int where "MSG_PEEK = 2"

text \<open>The loop of \<open>get_line\<close>; \<open>n\<close> is what is left of \<open>size - 1\<close>, \<open>dst\<close> what is in the buffer and \<open>c\<close> the last character.\<close>

fun get_line_loop :: "nat \<Rightarrow> 'k kernel \<Rightarrow> 'k world \<Rightarrow> int \<Rightarrow> u8 \<Rightarrow> u8 list \<Rightarrow> ('k world, u8 list) comp" where
  "get_line_loop n K w sock c dst = (if c = LF then Ret dst w else case n of 0 \<Rightarrow> Ret dst w
     | Suc m \<Rightarrow> comp_bind (nty_recv K w sock 1 0) (\<lambda>(r, bs) w.
         if r > 0 then
           (let c = hd (bs @ [c]) in
            if c = CR then comp_bind (nty_recv K w sock 1 MSG_PEEK) (\<lambda>(r, bs) w.
              let c = (if r > 0 then hd (bs @ [c]) else c) in
              if r > 0 \<and> c = LF then comp_bind (nty_recv K w sock 1 0) (\<lambda>(r, bs) w.
                let c = (if r > 0 then hd (bs @ [c]) else c) in get_line_loop m K w sock c (dst @ [c]))
              else get_line_loop m K w sock LF (dst @ [LF]))
            else get_line_loop m K w sock c (dst @ [c]))
         else Ret dst w))"

declare get_line_loop.simps [simp del]

text \<open>The number of characters and the buffer: the characters and a zero, over what it held.\<close>

definition get_line :: "'k kernel \<Rightarrow> 'k world \<Rightarrow> int \<Rightarrow> u8 list \<Rightarrow> ('k world, nat \<times> u8 list) comp" where
  "get_line K w sock buf = comp_bind (get_line_loop (length buf - 1) K w sock 0 []) (\<lambda>dst w.
     case memcpy buf 0 (dst @ [0]) of None \<Rightarrow> Fault | Some buf \<Rightarrow> Ret (length dst, buf) w)"

subsection \<open>Responses\<close>

fun send_texts :: "nat \<Rightarrow> 'k kernel \<Rightarrow> 'k world \<Rightarrow> int \<Rightarrow> u8 list list \<Rightarrow> ('k world, unit) comp" where
  "send_texts fuel K w cli [] = Ret () w"
| "send_texts fuel K w cli (t # ts) = comp_bind (nty_send fuel K w cli t 0) (\<lambda>_ w. send_texts fuel K w cli ts)"

definition line_of :: "string \<Rightarrow> u8 list" where "line_of s = bytes_of s @ crlf"

definition SERVER_STRING :: "u8 list" where "SERVER_STRING = line_of ''Server: ntyco_httpd/0.1.0''"

definition headers :: "u8 list list" where
  "headers = [line_of ''HTTP/1.0 200 OK'', SERVER_STRING, line_of ''Content-Type: text/html'', crlf]"

definition not_found :: "u8 list list" where
  "not_found = [line_of ''HTTP/1.0 404 NOT FOUND'', SERVER_STRING, line_of ''Content-Type: text/html'', crlf,
     line_of ''<HTML><TITLE>Not Found</TITLE>'', line_of ''<BODY><P>The server could not fulfill'',
     line_of ''your request because the resource specified'', line_of ''is unavailable or nonexistent.'',
     line_of ''</BODY></HTML>'']"

definition unimplemented :: "u8 list list" where
  "unimplemented = [line_of ''HTTP/1.0 501 Method Not Implemented'', SERVER_STRING, line_of ''Content-Type: text/html'', crlf,
     line_of ''<HTML><HEAD><TITLE>Method Not Implemented'', line_of ''</TITLE></HEAD>'',
     line_of ''<BODY><P>HTTP request method not supported.'', line_of ''</BODY></HTML>'']"

definition cannot_execute :: "u8 list list" where
  "cannot_execute = [line_of ''HTTP/1.0 500 Internal Server Error'', line_of ''Content-type: text/html'', crlf,
     line_of ''<P>Error prohibited CGI execution.'']"

text \<open>\<open>bad_request\<close> sends the whole array each time, with what it held behind the text.\<close>

fun whole_buffers :: "u8 list \<Rightarrow> u8 list list \<Rightarrow> u8 list list option" where
  "whole_buffers buf [] = Some []"
| "whole_buffers buf (t # ts) = do {
     buf \<leftarrow> memcpy buf 0 (t @ [0]); bs \<leftarrow> whole_buffers buf ts; Some (buf # bs) }"

definition bad_request :: "u8 list \<Rightarrow> u8 list list option" where
  "bad_request buf = whole_buffers buf [line_of ''HTTP/1.0 400 BAD REQUEST'', line_of ''Content-type: text/html'', crlf,
     bytes_of ''<P>Your browser sent a bad request, '', line_of ''such as a POST without a Content-Length.'']"

subsection \<open>Files\<close>

text \<open>\<open>fgets\<close> of at most \<open>n\<close> characters: the characters, what is left, and whether it met the end of the file.\<close>

fun fgets :: "nat \<Rightarrow> u8 list \<Rightarrow> u8 list \<times> u8 list \<times> bool" where
  "fgets 0 cs = ([], cs, False)"
| "fgets (Suc n) [] = ([], [], True)"
| "fgets (Suc n) (c # cs) = (if c = LF then ([c], cs, False)
     else case fgets n cs of (l, r, e) \<Rightarrow> (c # l, r, e))"

lemma fgets_append: "fgets n cs = (l, r, e) \<Longrightarrow> cs = l @ r"
  by (induction n cs arbitrary: l r e rule: fgets.induct) (auto split: if_splits prod.splits)

lemma fgets_shorter: "fgets n cs = (l, r, False) \<Longrightarrow> 0 < n \<Longrightarrow> length r < length cs"
  by (cases n; cases cs) (auto split: if_splits prod.splits dest: fgets_append)

text \<open>What \<open>cat\<close> sends: the strings of the lines until \<open>feof\<close>.\<close>

function cat_lines :: "u8 list \<Rightarrow> u8 list list" where
  "cat_lines cs = (case fgets 1023 cs of (l, r, eof) \<Rightarrow> if eof then [] else string_of l # cat_lines r)"
  by auto
termination
  by (relation "measure length") (auto dest!: fgets_shorter [OF sym])

declare cat_lines.simps [simp del]

record files =
  stat :: "u8 list \<Rightarrow> u32 option"
  fopen :: "u8 list \<Rightarrow> u8 list option"

definition S_IFMT :: u32 where "S_IFMT = 0xF000"
definition S_IFDIR :: u32 where "S_IFDIR = 0x4000"

text \<open>A file that cannot be opened is answered by \<open>not_found\<close>; then \<open>fclose(NULL)\<close> is a fault.\<close>

definition serve_file :: "nat \<Rightarrow> 'k kernel \<Rightarrow> files \<Rightarrow> 'k world \<Rightarrow> int \<Rightarrow> u8 list \<Rightarrow> ('k world, unit) comp" where
  "serve_file fuel K F w cli filename = (case fopen F filename of
       None \<Rightarrow> comp_bind (send_texts fuel K w cli not_found) (\<lambda>_ w. Fault)
     | Some contents \<Rightarrow> comp_bind (send_texts fuel K w cli headers) (\<lambda>_ w. send_texts fuel K w cli (cat_lines contents)))"

subsection \<open>A connection\<close>

text \<open>\<open>strcmp("\n", buf) == 0\<close> and the loop that reads and discards the rest of the header.\<close>

definition is_blank :: "u8 list \<Rightarrow> bool" where "is_blank buf = (take 2 buf = [LF, 0])"

fun discard_loop :: "nat \<Rightarrow> 'k kernel \<Rightarrow> 'k world \<Rightarrow> int \<Rightarrow> nat \<Rightarrow> u8 list \<Rightarrow> ('k world, unit) comp" where
  "discard_loop n K w cli numchars buf = (if numchars = 0 \<or> is_blank buf then Ret () w
     else case n of 0 \<Rightarrow> Out_of_fuel
     | Suc m \<Rightarrow> comp_bind (get_line K w cli buf) (\<lambda>(numchars, buf) w. discard_loop m K w cli numchars buf))"

declare discard_loop.simps [simp del]

text \<open>\<open>junk\<close> is what the array \<open>buf\<close> held; \<open>numchars\<close> is a \<open>size_t\<close>.\<close>

definition accept_request :: "nat \<Rightarrow> nat \<Rightarrow> 'k kernel \<Rightarrow> files \<Rightarrow> u8 list \<Rightarrow> 'k world \<Rightarrow> nat \<Rightarrow> ('k world, unit) comp" where
  "accept_request n fuel K F junk w arg = (let cli = arg_int arg in
     comp_bind (nty_recv K w cli MAX_BUFFER_LENGTH 0) (\<lambda>(r, bs) w.
     let numchars = nat (r mod 2 ^ 64) in
     case memcpy junk 0 bs of None \<Rightarrow> Fault
     | Some buf \<Rightarrow> (case parse_request buf numchars of None \<Rightarrow> Fault
         | Some Unimplemented \<Rightarrow> send_texts fuel K w cli unimplemented
         | Some (Request path) \<Rightarrow>
             comp_bind (case stat F path of
                 None \<Rightarrow> comp_bind (discard_loop n K w cli numchars buf) (\<lambda>_ w. send_texts fuel K w cli not_found)
               | Some mode \<Rightarrow> serve_file fuel K F w cli
                   (if mode AND S_IFMT = S_IFDIR then path @ bytes_of ''/index.html'' else path)) (\<lambda>_ w.
             comp_bind (nty_close K w cli) (\<lambda>_ w. Ret () w)))))"

subsection \<open>The server\<close>

text \<open>\<open>getsockname\<close> and \<open>setsockopt\<close>, which this file tests, beside \<open>bind\<close> and \<open>listen\<close>.\<close>

record 'k http_net = "'k net" +
  n_getsockname :: "'k \<Rightarrow> int \<Rightarrow> int \<times> nat \<times> int \<times> 'k"

definition startup :: "'k kernel \<Rightarrow> 'k http_net \<Rightarrow> 'k world \<Rightarrow> nat \<Rightarrow> ('k world, (int \<times> nat) option) comp" where
  "startup K N w port = comp_bind (nty_socket K w AF_INET SOCK_STREAM 0) (\<lambda>httpd w.
     if httpd = -1 then Ret None w
     else (case k_setreuse K (kern w) httpd of (r, e, k) \<Rightarrow>
       if r < 0 then Ret None (w\<lparr>kern := k, errno := e\<rparr>)
       else (case n_bind N k httpd port of (r, e, k) \<Rightarrow>
         if r < 0 then Ret None (w\<lparr>kern := k, errno := e\<rparr>)
         else (let named = (if port = 0 then n_getsockname N k httpd else (0, port, e, k)) in
           case named of (r, port, e, k) \<Rightarrow>
           if r = -1 then Ret None (w\<lparr>kern := k, errno := e\<rparr>)
           else (case n_listen N k httpd 5 of (r, e, k) \<Rightarrow>
             Ret (if r < 0 then None else Some (httpd, port)) (w\<lparr>kern := k, errno := e\<rparr>))))))"

fun http_server_loop :: "nat \<Rightarrow> nat \<Rightarrow> 'k kernel \<Rightarrow> nat \<Rightarrow> 'k world \<Rightarrow> int \<Rightarrow> ('k world, unit option) comp" where
  "http_server_loop 0 fuel K handler w server_sock = Out_of_fuel"
| "http_server_loop (Suc n) fuel K handler w server_sock = comp_bind (nty_accept fuel K w server_sock) (\<lambda>client_sock w.
     if client_sock = -1 then Ret None w
     else comp_bind (lift_res (nty_coroutine_create K w handler (int_arg client_sock))) (\<lambda>_ w.
       http_server_loop n fuel K handler w server_sock))"

definition http_server :: "nat \<Rightarrow> nat \<Rightarrow> 'k kernel \<Rightarrow> 'k http_net \<Rightarrow> nat \<Rightarrow> 'k world \<Rightarrow> ('k world, unit option) comp" where
  "http_server n fuel K N handler w = comp_bind (startup K N w 4000) (\<lambda>r w.
     case r of None \<Rightarrow> Ret None w | Some (server_sock, port) \<Rightarrow> http_server_loop n fuel K handler w server_sock)"

subsection \<open>Sending files\<close>

lemma string_of_id: "0 \<notin> set bs \<Longrightarrow> string_of bs = bs"
  unfolding string_of_def by (rule takeWhile_eq_all_conv [THEN iffD2]) auto

lemma fgets_lf: "fgets n (xs @ LF # ys) = (l, r, e) \<Longrightarrow> \<not> e"
  by (induction n xs arbitrary: l r e rule: fgets.induct) (auto split: if_splits prod.splits)

lemma fgets_length: "fgets n cs = (l, r, e) \<Longrightarrow> length l \<le> n \<and> (\<not> e \<and> 0 < n \<longrightarrow> l \<noteq> [])"
  by (induction n cs arbitrary: l r e rule: fgets.induct) (auto split: if_splits prod.splits)

text \<open>Taking a piece off text with a newline leaves such text, or what follows its last newline.\<close>

lemma fgets_rest: "fgets n (xs @ LF # t) = (l, r, e) \<Longrightarrow> r = t \<or> (\<exists>zs. r = zs @ LF # t \<and> set zs \<subseteq> set xs)"
proof (induction n xs arbitrary: l r e rule: fgets.induct)
  case (3 n c cs)
  then show ?case by (cases "c = LF") (fastforce split: prod.splits)+
qed auto

text \<open>An end of at most 1022 bytes without a newline is not sent.\<close>

lemma cat_lines_tail: "LF \<notin> set t \<Longrightarrow> length t < 1023 \<Longrightarrow> cat_lines t = []"
proof -
  have "LF \<notin> set t \<Longrightarrow> length t < n \<Longrightarrow> fgets n t = (t, [], True)" for n
    by (induction n t rule: fgets.induct) auto
  then show "LF \<notin> set t \<Longrightarrow> length t < 1023 \<Longrightarrow> cat_lines t = []" by (subst cat_lines.simps) simp
qed

text \<open>Everything up to the last newline is sent as it is.\<close>

lemma cat_lines_sent:
  assumes "0 \<notin> set xs" "LF \<notin> set t" "length t < 1023"
  shows "concat (cat_lines (xs @ LF # t)) = xs @ [LF]" and "\<forall>l \<in> set (cat_lines (xs @ LF # t)). l \<noteq> [] \<and> length l \<le> 1023"
proof -
  have "concat (cat_lines (xs @ LF # t)) = xs @ [LF] \<and> (\<forall>l \<in> set (cat_lines (xs @ LF # t)). l \<noteq> [] \<and> length l \<le> 1023)"
    using assms(1)
  proof (induction "length xs" arbitrary: xs rule: less_induct)
    case less
    obtain l r e where f: "fgets 1023 (xs @ LF # t) = (l, r, e)" by (metis prod_cases3)
    have e: "\<not> e" using fgets_lf [of 1023 xs t] f by blast
    have app: "xs @ LF # t = l @ r" using fgets_append [OF f] .
    have len: "l \<noteq> []" "length l \<le> 1023" using fgets_length [OF f] e by auto
    show ?case
    proof (cases "r = t")
      case True
      then have l: "l = xs @ [LF]" using app by simp
      then have "cat_lines (xs @ LF # t) = [l]"
        using f e less.prems True cat_lines_tail [OF assms(2,3)] by (subst cat_lines.simps) (simp add: string_of_id)
      then show ?thesis using l len by simp
    next
      case False
      then obtain zs where zs: "r = zs @ LF # t" "set zs \<subseteq> set xs" using fgets_rest [OF f] by blast
      then have l: "xs = l @ zs" using app by simp
      then have c: "cat_lines (xs @ LF # t) = l # cat_lines (zs @ LF # t)"
        using f e less.prems zs(1) by (subst cat_lines.simps) (simp add: string_of_id)
      have "concat (cat_lines (zs @ LF # t)) = zs @ [LF] \<and> (\<forall>l \<in> set (cat_lines (zs @ LF # t)). l \<noteq> [] \<and> length l \<le> 1023)"
        using less.hyps [of zs] less.prems l len(1) by simp
      then show ?thesis using c l len by simp
    qed
  qed
  then show "concat (cat_lines (xs @ LF # t)) = xs @ [LF]" "\<forall>l \<in> set (cat_lines (xs @ LF # t)). l \<noteq> [] \<and> length l \<le> 1023"
    by blast+
qed

subsection \<open>Parsing\<close>

lemma elem_middle: "i = length us \<Longrightarrow> elem (us @ c # r) (int i) = Some c"
  by (simp add: nth_append)

lemma method_loop_word:
  assumes "\<forall>c \<in> set ms. \<not> isspace c" "isspace s" "length ms \<le> n"
  shows "method_loop n (us @ ms @ s # r) (length us) dst = Some (length us + length ms, dst @ ms)"
  using assms
proof (induction ms arbitrary: n us dst)
  case Nil
  then show ?case by (cases n) (simp_all add: nth_append)
next
  case (Cons c ms)
  obtain m where n: "n = Suc m" using Cons.prems(3) by (cases n) auto
  have "method_loop m ((us @ [c]) @ ms @ s # r) (length (us @ [c])) (dst @ [c]) = Some (length (us @ [c]) + length ms, (dst @ [c]) @ ms)"
    using Cons.prems n by (intro Cons.IH) auto
  moreover have "elem (us @ (c # ms) @ s # r) (int (length us)) = Some c" by (simp add: nth_append)
  ultimately show ?case using Cons.prems(1) by (simp add: n)
qed

lemma url_loop_word:
  assumes "\<forall>c \<in> set ms. \<not> isspace c" "isspace s" "length ms \<le> n"
  shows "url_loop n (us @ ms @ s # r) (length us) dst = Some (dst @ ms)"
  using assms
proof (induction ms arbitrary: n us dst)
  case Nil
  then show ?case by (cases n) (simp_all add: nth_append)
next
  case (Cons c ms)
  obtain m where n: "n = Suc m" using Cons.prems(3) by (cases n) auto
  have "url_loop m ((us @ [c]) @ ms @ s # r) (length (us @ [c])) (dst @ [c]) = Some ((dst @ [c]) @ ms)"
    using Cons.prems n by (intro Cons.IH) auto
  moreover have "elem (us @ (c # ms) @ s # r) (int (length us)) = Some c" by (simp add: nth_append)
  ultimately show ?case using Cons.prems(1) by (simp add: n)
qed

lemma skip_loop_spaces:
  assumes "\<forall>c \<in> set ss. isspace c" "\<not> isspace x" "length ss \<le> n"
  shows "skip_loop n (us @ ss @ x # r) (length us) = Some (length us + length ss)"
  using assms
proof (induction ss arbitrary: n us)
  case Nil
  then show ?case by (cases n) (simp_all add: nth_append)
next
  case (Cons c ss)
  obtain m where n: "n = Suc m" using Cons.prems(3) by (cases n) auto
  have "skip_loop m ((us @ [c]) @ ss @ x # r) (length (us @ [c])) = Some (length (us @ [c]) + length ss)"
    using Cons.prems n by (intro Cons.IH) auto
  moreover have "elem (us @ (c # ss) @ x # r) (int (length us)) = Some c" by (simp add: nth_append)
  ultimately show ?case using Cons.prems(1) by (simp add: n)
qed

text \<open>The path for a URL.\<close>

definition path_of :: "u8 list \<Rightarrow> u8 list" where
  "path_of url = (let path = bytes_of ''htdocs'' @ url in if last path = 47 then path @ bytes_of ''index.html'' else path)"

text \<open>A request line: the method, spaces, the URL and a space.\<close>

lemma parse_get:
  assumes "map tolower meth = bytes_of ''get''" "\<forall>c \<in> set meth. \<not> isspace c"
    and "ss \<noteq> []" "\<forall>c \<in> set ss. isspace c" "url \<noteq> []" "\<forall>c \<in> set url. \<not> isspace c" "isspace s" "0 \<notin> set url"
    and "length url \<le> 254" "length (meth @ ss @ url) \<le> numchars"
  shows "parse_request (meth @ ss @ url @ s # rest) numchars = Some (Request (path_of (takeWhile (\<lambda>c. c \<noteq> 63) url)))"
proof -
  obtain s0 ss' where ss: "ss = s0 # ss'" using assms(3) by (cases ss) auto
  obtain u url' where url: "url = u # url'" using assms(5) by (cases url) auto
  have len: "length meth = 3" using assms(1) by (metis bytes_of_def length_map length_Cons list.size(3) numeral_3_eq_3)
  have "0 \<notin> set meth"
  proof
    assume "0 \<in> set meth"
    then have "tolower 0 \<in> set (bytes_of ''get'')" using assms(1) by (metis image_eqI set_map)
    then show False by (simp add: tolower_def bytes_of_def)
  qed
  then have str: "string_of meth = meth" by (rule string_of_id)
  have get: "\<not> strcasecmp meth (bytes_of ''GET'')"
    using assms(1) by (simp add: strcasecmp_def tolower_def bytes_of_def)
  have m: "method_loop 254 (meth @ ss @ url @ s # rest) 0 [] = Some (length meth, meth)"
    using method_loop_word [of meth s0 254 "[]" "ss' @ url @ s # rest" "[]"] assms(2,4) ss len by simp
  have k: "skip_loop (numchars - length meth) (meth @ ss @ url @ s # rest) (length meth) = Some (length meth + length ss)"
    using skip_loop_spaces [of ss u "numchars - length meth" meth "url' @ s # rest"] assms(4,6,10) url by simp
  have u: "url_loop (min 254 (numchars - (length meth + length ss))) (meth @ ss @ url @ s # rest) (length meth + length ss) [] = Some url"
    using url_loop_word [OF assms(6,7), of "min 254 (numchars - (length meth + length ss))" "meth @ ss" rest "[]"] assms(9,10)
    by simp
  show ?thesis
    by (simp add: parse_request_def m str get k u string_of_id [OF assms(8)] path_of_def Let_def)
qed

subsection \<open>Answering\<close>

lemma send_texts_all:
  assumes "accepting put_sent K fd obs" "calm K obs" "running a fd w" "\<forall>t \<in> set ts. t \<noteq> [] \<and> length t \<le> 1024" "1024 \<le> fuel"
  shows "always (wakes obs a fd) (\<lambda>_ w'. running a fd w' \<and> obs (kern w') = put_sent (obs (kern w)) (concat ts))
    (send_texts fuel K w fd ts)"
  using assms(3,4)
proof (induction ts arbitrary: w)
  case Nil
  then show ?case by (simp add: put_sent_def)
next
  case (Cons t ts)
  have t: "int (length t) \<le> INT_MAX" "t \<noteq> []" "length t \<le> fuel" using Cons.prems(2) assms(5) by (auto simp: INT_MAX_def)
  have "always (wakes obs a fd) (\<lambda>_ v. always (wakes obs a fd) (\<lambda>_ w'. running a fd w' \<and> obs (kern w') = put_sent (obs (kern w)) (concat (t # ts)))
      (send_texts fuel K v fd ts)) (nty_send fuel K w fd t 0)"
  proof (rule always_mono [OF duplex.nty_send_everything [OF assms(1,2) t(1) Cons.prems(1) t(2,3)]])
    fix r v
    assume v: "r = int (length t) \<and> running a fd v \<and> obs (kern v) = put_sent (obs (kern w)) t"
    show "always (wakes obs a fd) (\<lambda>_ w'. running a fd w' \<and> obs (kern w') = put_sent (obs (kern w)) (concat (t # ts))) (send_texts fuel K v fd ts)"
      using Cons.IH [of v] Cons.prems(2) v by (simp add: duplex.put_append)
  qed
  from always_bind [OF this] show ?case by simp
qed

lemma response_texts: "\<forall>t \<in> set headers. t \<noteq> [] \<and> length t \<le> 1024" "\<forall>t \<in> set unimplemented. t \<noteq> [] \<and> length t \<le> 1024"
  "\<forall>t \<in> set not_found. t \<noteq> [] \<and> length t \<le> 1024"
  by (simp_all add: headers_def unimplemented_def not_found_def line_of_def SERVER_STRING_def crlf_def bytes_of_def)

text \<open>A peer that sends the request \<open>req\<close>, which arrives in one piece.\<close>

definition requesting :: "'k kernel \<Rightarrow> int \<Rightarrow> ('k \<Rightarrow> u8 list \<times> u8 list) \<Rightarrow> u8 list \<Rightarrow> bool" where
  "requesting K fd obs req = (length req \<le> MAX_BUFFER_LENGTH \<and> (\<forall>k. snd (obs k) = [] \<longrightarrow> (\<exists>e k'.
     k_recv K k fd MAX_BUFFER_LENGTH 0 = (int (length req), req, e, k') \<and> obs k' = (fst (obs k), req))))"

lemma received_request:
  assumes "received K obs a fd MAX_BUFFER_LENGTH 0 w x w'" "requesting K fd obs req" "snd (obs (kern w)) = []"
  shows "x = (int (length req), req) \<and> running a fd w' \<and> obs (kern w') = (fst (obs (kern w)), req)"
proof -
  obtain v where v: "obs (kern v) = obs (kern w)" "recv_result K fd MAX_BUFFER_LENGTH 0 v x w'" "running a fd w'"
    using assms(1) by (auto simp: received_def)
  obtain e k' where k: "k_recv K (kern v) fd MAX_BUFFER_LENGTH 0 = (int (length req), req, e, k')" "obs k' = (fst (obs (kern v)), req)"
    using assms(2,3) v(1) unfolding requesting_def by metis
  have "length req \<le> 1024" using assms(2) by (simp add: requesting_def MAX_BUFFER_LENGTH_def)
  then show ?thesis using v k by (auto simp: recv_result_def to_int_small)
qed

text \<open>What \<open>accept_request\<close> does with the request.\<close>

lemma accept_request_answers:
  assumes "calm K obs" "requesting K fd obs req" "running a fd w" "obs (kern w) = ([], [])" "- (2 ^ 31) \<le> fd" "fd < 2 ^ 31"
    and "length junk = MAX_BUFFER_LENGTH" "parse_request (req @ drop (length req) junk) (length req) = Some q"
    and "\<And>v. running a fd v \<Longrightarrow> obs (kern v) = ([], req) \<Longrightarrow> always (wakes obs a fd) Q (case q of
        Unimplemented \<Rightarrow> send_texts fuel K v fd unimplemented
      | Request path \<Rightarrow> comp_bind (case stat F path of
            None \<Rightarrow> comp_bind (discard_loop n K v fd (length req) (req @ drop (length req) junk)) (\<lambda>_ w. send_texts fuel K w fd not_found)
          | Some mode \<Rightarrow> serve_file fuel K F v fd (if mode AND S_IFMT = S_IFDIR then path @ bytes_of ''/index.html'' else path)) (\<lambda>_ w.
          comp_bind (nty_close K w fd) (\<lambda>_ w. Ret () w)))"
  shows "always (wakes obs a fd) Q (accept_request n fuel K F junk w (int_arg fd))"
proof -
  have len: "length req \<le> 1024" using assms(2) by (simp add: requesting_def MAX_BUFFER_LENGTH_def)
  have num: "nat (int (length req) mod 2 ^ 64) = length req" using len by simp
  have buf: "memcpy junk 0 req = Some (req @ drop (length req) junk)" using len assms(7) by (simp add: MAX_BUFFER_LENGTH_def)
  note arg = arg_int_int_arg [OF assms(5,6)]
  show ?thesis
    unfolding accept_request_def arg Let_def
  proof (rule always_bind, rule always_mono [OF nty_recv_waits [OF assms(3,1)]], goal_cases)
    case (1 x v)
    have x: "x = (int (length req), req)" "running a fd v" "obs (kern v) = ([], req)"
      using received_request [OF 1 assms(2)] assms(4) by simp_all
    show ?case
      unfolding x(1) prod.case num buf option.case assms(8) using assms(9) [OF x(2,3)] by (cases q) simp_all
  qed
qed

lemma serve_file_sends:
  assumes "calm K obs" "accepting put_sent K fd obs" "running a fd v" "fopen F name = Some (xs @ LF # t)"
    and "0 \<notin> set xs" "LF \<notin> set t" "length t < 1023" "1024 \<le> fuel"
  shows "always (wakes obs a fd) (\<lambda>_ w. obs (kern w) = put_sent (obs (kern v)) (concat headers @ xs @ [LF]))
    (serve_file fuel K F v fd name)"
proof -
  have ts: "\<forall>l \<in> set (cat_lines (xs @ LF # t)). l \<noteq> [] \<and> length l \<le> 1024"
    using cat_lines_sent(2) [OF assms(5-7)] by fastforce
  let ?Q = "\<lambda>_ w. obs (kern w) = put_sent (obs (kern v)) (concat headers @ xs @ [LF])"
  have "always (wakes obs a fd) ?Q (send_texts fuel K u fd (cat_lines (xs @ LF # t)))"
    if u: "running a fd u \<and> obs (kern u) = put_sent (obs (kern v)) (concat headers)" for u
    by (rule always_mono [OF send_texts_all [OF assms(2,1) _ ts assms(8)]])
      (use u cat_lines_sent(1) [OF assms(5-7)] in \<open>simp_all add: duplex.put_append\<close>)
  then have "always (wakes obs a fd) (\<lambda>_ u. always (wakes obs a fd) ?Q (send_texts fuel K u fd (cat_lines (xs @ LF # t))))
      (send_texts fuel K v fd headers)"
    by (intro always_mono [OF send_texts_all [OF assms(2,1,3) response_texts(1) assms(8)]]) blast
  from always_bind [OF this] show ?thesis using assms(4) by (simp add: serve_file_def)
qed

lemma close_after:
  fixes m :: "('k world, 'b) comp"
  shows "always E (\<lambda>_ w. obs (kern w) = x) m \<Longrightarrow>
   always E (\<lambda>_ w'. \<exists>k. obs k = x \<and> kern w' = snd (snd (k_close K k fd))) (comp_bind m (\<lambda>_ w. comp_bind (nty_close K w fd) (\<lambda>_ w. Ret () w)))"
proof (rule always_bind, erule always_mono)
  fix y and v :: "'k world"
  assume v: "obs (kern v) = x"
  obtain r w' where "close K v fd = Ret r w'" "kern w' = snd (snd (k_close K (kern v) fd))" using close_ret by blast
  then show "always E (\<lambda>_ w'. \<exists>k. obs k = x \<and> kern w' = snd (snd (k_close K k fd))) (comp_bind (nty_close K v fd) (\<lambda>_ w. Ret () w))"
    using v by (auto simp: nty_close_def)
qed

subsection \<open>Properties\<close>

text \<open>A kernel with a request on the connection, for the witnesses.\<close>

definition get_request :: "u8 list" where
  "get_request = bytes_of ''GET'' @ [32] @ bytes_of ''/a'' @ 32 # bytes_of ''HTTP/1.0'' @ crlf @ crlf"

definition http_kernel :: "u8 list \<Rightarrow> (u8 list \<times> u8 list) kernel" where
  "http_kernel req = peer_kernel\<lparr>k_recv := (\<lambda>k fd n f. (int (length req), req, 0, (fst k, req)))\<rparr>"

definition one_file :: files where
  "one_file = \<lparr>stat = (\<lambda>p. if p = bytes_of ''htdocs/a'' then Some 0x81A4 else None),
     fopen = (\<lambda>p. if p = bytes_of ''htdocs/a'' then Some ([104, 105] @ LF # [33]) else None)\<rparr>"

lemma http_kernel_ok:
  "calm (http_kernel req) (\<lambda>k. k)" "accepting put_sent (http_kernel req) fd (\<lambda>k. k)"
  "length req \<le> MAX_BUFFER_LENGTH \<Longrightarrow> requesting (http_kernel req) fd (\<lambda>k. k) req"
  using peer_ok(1) peer_ok(2) [of fd] by (simp_all add: http_kernel_def calm_def accepting_def requesting_def)

text \<open>The request line: for a method that is \<open>GET\<close> in any case, spaces, a URL of at most 254 bytes and a space, the
  path is \<open>htdocs\<close> followed by the URL up to its question mark, with \<open>index.html\<close> appended after a slash.
  Nothing is looked for in the URL: a URL with \<open>..\<close> leads out of the directory.\<close>

lemma http_parse_get:
  assumes "map tolower meth = bytes_of ''get''" "\<forall>c \<in> set meth. \<not> isspace c"
    and "ss \<noteq> []" "\<forall>c \<in> set ss. isspace c" "url \<noteq> []" "\<forall>c \<in> set url. \<not> isspace c" "isspace s" "0 \<notin> set url"
    and "length url \<le> 254" "length (meth @ ss @ url) \<le> numchars"
  shows "parse_request (meth @ ss @ url @ s # rest) numchars =
    (let path = bytes_of ''htdocs'' @ takeWhile (\<lambda>c. c \<noteq> 63) url in
     Some (Request (if last path = 47 then path @ bytes_of ''index.html'' else path)))"
  using parse_get [OF assms] by (simp add: path_of_def Let_def)

text \<open>C12.  Serving a file, from the request to the close: for a file that is not a directory, has a newline and no zero byte
  before its last newline, and less than 1023 bytes behind it, the connection gets the headers and the file up to its last
  newline, in order, whatever the sizes of the pieces the kernel takes, and is then closed.  What follows the last
  newline is lost: \<open>cat\<close> tests \<open>feof\<close> before it sends what \<open>fgets\<close> gave.  (Of a line with a zero byte \<open>cat\<close> sends what is
  before it; of a longer end without a newline it sends the part that filled the buffer.)\<close>

theorem http_serves_file:
  assumes "calm K obs" "accepting put_sent K fd obs" "requesting K fd obs req" "running a fd w" "obs (kern w) = ([], [])"
    and "- (2 ^ 31) \<le> fd" "fd < 2 ^ 31" "1024 \<le> fuel" "length junk = MAX_BUFFER_LENGTH"
    and "parse_request (req @ drop (length req) junk) (length req) = Some (Request path)"
    and "stat F path = Some mode" "mode AND S_IFMT \<noteq> S_IFDIR"
    and "fopen F path = Some (xs @ LF # t)" "0 \<notin> set xs" "LF \<notin> set t" "length t < 1023"
  shows "always (wakes obs a fd) (\<lambda>_ w'. \<exists>k. obs k = (concat headers @ xs @ [LF], req) \<and> kern w' = snd (snd (k_close K k fd)))
    (accept_request n fuel K F junk w (int_arg fd))"
proof (rule accept_request_answers [OF assms(1,3-7,9,10)])
  fix v
  assume v: "running a fd v" "obs (kern v) = ([], req)"
  have "always (wakes obs a fd) (\<lambda>_ w. obs (kern w) = (concat headers @ xs @ [LF], req)) (serve_file fuel K F v fd path)"
    using serve_file_sends [OF assms(1,2) v(1) assms(13-16,8)] v(2) by (simp add: put_sent_def)
  from close_after [OF this, of K fd] show "always (wakes obs a fd)
      (\<lambda>_ w'. \<exists>k. obs k = (concat headers @ xs @ [LF], req) \<and> kern w' = snd (snd (k_close K k fd))) (case Request path of
        Unimplemented \<Rightarrow> send_texts fuel K v fd unimplemented
      | Request path \<Rightarrow> comp_bind (case stat F path of
            None \<Rightarrow> comp_bind (discard_loop n K v fd (length req) (req @ drop (length req) junk)) (\<lambda>_ w. send_texts fuel K w fd not_found)
          | Some mode \<Rightarrow> serve_file fuel K F v fd (if mode AND S_IFMT = S_IFDIR then path @ bytes_of ''/index.html'' else path)) (\<lambda>_ w.
          comp_bind (nty_close K w fd) (\<lambda>_ w. Ret () w)))"
    using assms(11,12) by simp
qed

theorem http_serves_file_witness:
  "always (wakes (\<lambda>k. k) 1 7) (\<lambda>_ w'. \<exists>k. k = (concat headers @ [104, 105] @ [LF], get_request) \<and>
      kern w' = snd (snd (k_close (http_kernel get_request) k 7)))
    (accept_request 5 1024 (http_kernel get_request) one_file (replicate MAX_BUFFER_LENGTH 0) (thread_on ([], [])) (int_arg 7))"
proof -
  have "parse_request (get_request @ drop (length get_request) (replicate MAX_BUFFER_LENGTH 0)) (length get_request) =
      Some (Request (bytes_of ''htdocs/a''))"
    using parse_get [of "bytes_of ''GET''" "[32]" "bytes_of ''/a''" 32 "length get_request"]
    by (simp add: get_request_def bytes_of_def tolower_def isspace_def crlf_def path_of_def)
  moreover have "length get_request \<le> MAX_BUFFER_LENGTH"
    by (simp add: get_request_def bytes_of_def crlf_def MAX_BUFFER_LENGTH_def)
  ultimately show ?thesis
    by (intro http_serves_file [OF http_kernel_ok(1,2) _ thread_running, where path = "bytes_of ''htdocs/a''" and mode = "0x81A4"
          and t = "[33]"] http_kernel_ok(3))
      (simp_all add: one_file_def S_IFMT_def S_IFDIR_def MAX_BUFFER_LENGTH_def)
qed

text \<open>A method other than \<open>GET\<close> and \<open>POST\<close> is answered by the 501 text, and the connection is left open: the
  observed state of the kernel is the old one with these bytes sent, and \<open>nty_close\<close> is not called.\<close>

lemma http_unimplemented_leaks:
  assumes "calm K obs" "accepting put_sent K fd obs" "requesting K fd obs req" "running a fd w" "obs (kern w) = ([], [])"
    and "- (2 ^ 31) \<le> fd" "fd < 2 ^ 31" "1024 \<le> fuel" "length junk = MAX_BUFFER_LENGTH"
    and "parse_request (req @ drop (length req) junk) (length req) = Some Unimplemented"
  shows "always (wakes obs a fd) (\<lambda>_ w'. running a fd w' \<and> obs (kern w') = (concat unimplemented, req))
    (accept_request n fuel K F junk w (int_arg fd))"
proof (rule accept_request_answers [OF assms(1,3-7,9,10)])
  fix v
  assume v: "running a fd v" "obs (kern v) = ([], req)"
  show "always (wakes obs a fd) (\<lambda>_ w'. running a fd w' \<and> obs (kern w') = (concat unimplemented, req)) (case Unimplemented of
        Unimplemented \<Rightarrow> send_texts fuel K v fd unimplemented
      | Request path \<Rightarrow> comp_bind (case stat F path of
            None \<Rightarrow> comp_bind (discard_loop n K v fd (length req) (req @ drop (length req) junk)) (\<lambda>_ w. send_texts fuel K w fd not_found)
          | Some mode \<Rightarrow> serve_file fuel K F v fd (if mode AND S_IFMT = S_IFDIR then path @ bytes_of ''/index.html'' else path)) (\<lambda>_ w.
          comp_bind (nty_close K w fd) (\<lambda>_ w. Ret () w)))"
    using always_mono [OF send_texts_all [OF assms(2,1) v(1) response_texts(2) assms(8)]] v(2) by (simp add: put_sent_def)
qed

end
