(* ===== verification/Httpd.thy ===== *)
theory Httpd
  imports Shared_Memory Http_Server
begin

text \<open>
  The coroutines of \<open>sample/ntyco_httpd.c\<close>: the page it sends, the coroutine that answers the requests of a connection,
  the coroutine that accepts connections under the accept lock, and the start of a process.  The shared memory is that of
  \<open>Shared_Memory\<close>; it lives in the state of the system, where other processes change it as well.  What only prints
  is left out; the forks and the processor affinity are in \<open>Processes\<close>.
\<close>

subsection \<open>The page\<close>

definition HTML_PAGE :: "u8 list" where
  \<open>HTML_PAGE = concat (map bytes_of [''<!DOCTYPE html> '',
     ''<html> '',
     ''<head> '',
     ''<title>Welcome to nginx!</title> '',
     ''<style> '',
     ''    body { '',
     ''        width: 35em;'',
     ''        margin: 0 auto;'',
     ''        font-family: Tahoma, Verdana, Arial, sans-serif;'',
     ''    }'',
     ''</style>'',
     ''</head>'',
     ''<body>'',
     ''<h1>Welcome to nginx!</h1>'',
     ''<p>If you see this page, the nginx web server is successfully installed and'',
     ''working. Further configuration is required.</p>'',
     ''<p>For online documentation and support please refer to'',
     ''<a href="http://nginx.org/">nginx.org</a>.<br/>'',
     ''Commercial support is available at'',
     ''<a href="http://nginx.com/">nginx.com</a>.</p>'',
     ''<p><em>Thank you for using nginx.</em></p>'',
     ''</body>'',
     ''</html>''])\<close>

text \<open>\<open>%ld\<close> of a length.\<close>

fun decimal :: "nat \<Rightarrow> u8 list" where
  "decimal n = (if n < 10 then [48 + of_nat n] else decimal (n div 10) @ [48 + of_nat (n mod 10)])"

declare decimal.simps [simp del]

text \<open>The bytes that \<open>headers\<close> sends: the string in its array of 1024 bytes.\<close>

definition page_headers :: "u8 list option" where
  "page_headers = do {
     buf \<leftarrow> memcpy (replicate 1024 0) 0 (line_of ''HTTP/1.0 200 OK'' @ [0]);
     buf \<leftarrow> strcat buf SERVER_STRING;
     buf \<leftarrow> strcat buf (line_of ''Content-Type: text/html'');
     content \<leftarrow> memcpy (replicate 128 0) 0 (bytes_of ''Content-Length: '' @ decimal (length HTML_PAGE) @ crlf @ [0]);
     content \<leftarrow> c_string content;
     buf \<leftarrow> strcat buf content;
     buf \<leftarrow> strcat buf crlf;
     buf \<leftarrow> strcat buf HTML_PAGE;
     c_string buf }"

text \<open>The response.\<close>

definition page_response :: "u8 list" where
  "page_response = line_of ''HTTP/1.0 200 OK'' @ SERVER_STRING @ line_of ''Content-Type: text/html'' @
     line_of ''Content-Length: 593'' @ crlf @ HTML_PAGE"

text \<open>An array of 1024 bytes with a string in it.\<close>

definition str_array :: "u8 list \<Rightarrow> u8 list" where
  "str_array bs = bs @ 0 # replicate (1023 - length bs) 0"

lemma strcat_array: "0 \<notin> set bs \<Longrightarrow> length bs + length cs < 1024 \<Longrightarrow> strcat (str_array bs) cs = Some (str_array (bs @ cs))"
  by (simp add: str_array_def strcat_def memcpy_def)

lemma c_string_array: "0 \<notin> set bs \<Longrightarrow> c_string (str_array bs) = Some bs"
  by (simp add: str_array_def)

lemma HTML_PAGE_props: "length HTML_PAGE = 593" "0 \<notin> set HTML_PAGE"
  by (simp_all add: HTML_PAGE_def bytes_of_def)

text \<open>The arrays are large enough.\<close>

lemma page_headers_ok: "page_headers = Some page_response"
proof -
  have dec: "bytes_of ''Content-Length: '' @ decimal 593 @ crlf @ [0] = line_of ''Content-Length: 593'' @ [0]"
    by (simp add: decimal.simps line_of_def bytes_of_def)
  have content: "memcpy (replicate 128 0) 0 (line_of ''Content-Length: 593'' @ [0]) =
      Some (line_of ''Content-Length: 593'' @ 0 # replicate 106 0)"
    by (simp add: line_of_def bytes_of_def crlf_def)
  have start: "memcpy (replicate 1024 0) 0 (line_of ''HTTP/1.0 200 OK'' @ [0]) = Some (str_array (line_of ''HTTP/1.0 200 OK''))"
    by (simp add: line_of_def bytes_of_def crlf_def str_array_def)
  have texts: "0 \<notin> set (line_of ''HTTP/1.0 200 OK'')" "length (line_of ''HTTP/1.0 200 OK'') = 17"
    "0 \<notin> set SERVER_STRING" "length SERVER_STRING = 27"
    "0 \<notin> set (line_of ''Content-Type: text/html'')" "length (line_of ''Content-Type: text/html'') = 25"
    "0 \<notin> set (line_of ''Content-Length: 593'')" "length (line_of ''Content-Length: 593'') = 21"
    "0 \<notin> set crlf" "length crlf = 2"
    by (simp_all add: SERVER_STRING_def line_of_def bytes_of_def crlf_def)
  show ?thesis
    by (simp add: page_headers_def HTML_PAGE_props dec content start texts strcat_array c_string_array page_response_def)
qed

subsection \<open>A connection\<close>

text \<open>The segment of shared memory in the state of the system.\<close>

record ('k, 'm) segment =
  seg_get :: "'k \<Rightarrow> 'm"
  seg_put :: "'k \<Rightarrow> 'm \<Rightarrow> 'k"

definition shm_step :: "('k, 'm) segment \<Rightarrow> ('m \<Rightarrow> 'm option) \<Rightarrow> 'k world \<Rightarrow> 'k world option" where
  "shm_step M f w = map_option (\<lambda>m. w\<lparr>kern := seg_put M (kern w) m\<rparr>) (f (seg_get M (kern w)))"

definition on_shm :: "('k, 'm) segment \<Rightarrow> ('m \<Rightarrow> 'm option) \<Rightarrow> 'k world \<Rightarrow> ('k world, unit) comp" where
  "on_shm M f w = lift_opt (shm_step M f w)"

text \<open>The loop of \<open>accept_request\<close>, with the calls it makes as arguments.  \<open>numchars\<close> is a \<open>size_t\<close>: -1 is converted to
  \<open>2 ^ 64 - 1\<close>, which is greater than 0.\<close>

fun page_loop :: "nat \<Rightarrow> ('k world \<Rightarrow> ('k world, int \<times> u8 list) comp) \<Rightarrow> (u8 list \<Rightarrow> 'k world \<Rightarrow> ('k world, int) comp) \<Rightarrow>
    ('k world \<Rightarrow> ('k world, unit) comp) \<Rightarrow> 'k world \<Rightarrow> ('k world, unit) comp" where
  "page_loop 0 rcv snd_buf cls w = Out_of_fuel"
| "page_loop (Suc n) rcv snd_buf cls w = comp_bind (rcv w) (\<lambda>(r, bs) w.
     let numchars = r mod 2 ^ 64 in
     if numchars > 0 then (case page_headers of None \<Rightarrow> Fault
       | Some buf \<Rightarrow> comp_bind (snd_buf buf w) (\<lambda>_ w. page_loop n rcv snd_buf cls w))
     else if numchars = 0 then cls w
     else if numchars = (-1) mod 2 ^ 64 then
       (if errno w = EAGAIN then page_loop n rcv snd_buf cls w else cls w)
     else page_loop n rcv snd_buf cls w)"

definition close_counted :: "'k kernel \<Rightarrow> ('k, shm_area) segment \<Rightarrow> int \<Rightarrow> int \<Rightarrow> int \<Rightarrow> 'k world \<Rightarrow> ('k world, unit) comp" where
  "close_counted K M self_id cpu_size fd w = comp_bind (nty_close K w fd) (\<lambda>_. on_shm M (DEC_COUNTFD self_id cpu_size))"

definition httpd_request :: "nat \<Rightarrow> nat \<Rightarrow> 'k kernel \<Rightarrow> ('k, shm_area) segment \<Rightarrow> int \<Rightarrow> int \<Rightarrow> 'k world \<Rightarrow> nat \<Rightarrow> ('k world, unit) comp" where
  "httpd_request n fuel K M self_id cpu_size w arg = (let client = arg_int arg in
     page_loop n (\<lambda>w. nty_recv K w client 1024 0) (\<lambda>bs w. nty_send fuel K w client bs 0)
       (close_counted K M self_id cpu_size client) w)"

subsection \<open>The process\<close>

fun httpd_server_loop :: "nat \<Rightarrow> nat \<Rightarrow> 'k kernel \<Rightarrow> ('k, shm_area) segment \<Rightarrow> int \<Rightarrow> int \<Rightarrow> nat \<Rightarrow> 'k world \<Rightarrow> int \<Rightarrow> ('k world, unit) comp" where
  "httpd_server_loop 0 fuel K M self_id cpu_size handler w fd = Out_of_fuel"
| "httpd_server_loop (Suc n) fuel K M self_id cpu_size handler w fd = (case lock (seg_get M (kern w)) of None \<Rightarrow> Fault
     | Some (r, m) \<Rightarrow> let w = w\<lparr>kern := seg_put M (kern w) m\<rparr> in
         if r \<noteq> 0 then comp_bind (nty_coroutine_sleep K w 0) (\<lambda>_ w. httpd_server_loop n fuel K M self_id cpu_size handler w fd)
         else comp_bind (nty_accept fuel K w fd) (\<lambda>clientfd w.
           comp_bind (on_shm M (\<lambda>m. Some (unlock m)) w) (\<lambda>_ w.
           if clientfd < 0 then Ret () w
           else comp_bind (on_shm M (INC_COUNTFD self_id cpu_size) w) (\<lambda>_ w.
             comp_bind (lift_res (nty_coroutine_create K w handler (int_arg clientfd))) (\<lambda>_ w.
             httpd_server_loop n fuel K M self_id cpu_size handler w fd)))))"

definition httpd_server :: "nat \<Rightarrow> nat \<Rightarrow> 'k kernel \<Rightarrow> ('k, shm_area) segment \<Rightarrow> int \<Rightarrow> int \<Rightarrow> nat \<Rightarrow> 'k world \<Rightarrow> nat \<Rightarrow> ('k world, unit) comp" where
  "httpd_server n fuel K M self_id cpu_size handler w arg = httpd_server_loop n fuel K M self_id cpu_size handler w (arg_int arg)"

text \<open>The address of \<open>server\<close> is 0 and that of \<open>accept_request\<close> is 1.\<close>

definition httpd_code :: "nat \<Rightarrow> nat \<Rightarrow> 'k kernel \<Rightarrow> ('k, shm_area) segment \<Rightarrow> int \<Rightarrow> int \<Rightarrow> 'k code" where
  "httpd_code n fuel K M self_id cpu_size func arg w =
     (if func = 0 then httpd_server n fuel K M self_id cpu_size 1 w arg else httpd_request n fuel K M self_id cpu_size w arg)"

text \<open>\<open>process_bind\<close> behind the processor affinity, with the thread's id, in a process that has no scheduler yet.\<close>

definition process_bind :: "nat \<Rightarrow> nat \<Rightarrow> 'k kernel \<Rightarrow> ('k, shm_area) segment \<Rightarrow> int \<Rightarrow> int \<Rightarrow> 'k state \<Rightarrow> int \<Rightarrow> 'k state option" where
  "process_bind n fuel K M tid cpu_size st fd = do {
     (_, w) \<leftarrow> nty_coroutine_create K (fst st) 0 (int_arg fd);
     nty_schedule_run K (httpd_code n fuel K M tid cpu_size) (w, snd st) }"

text \<open>\<open>main\<close> before it forks: the listening socket and the shared memory.  \<open>None\<close> stands for the early return.\<close>

definition httpd_setup :: "'k kernel \<Rightarrow> 'k net \<Rightarrow> ('k, shm_area) segment \<Rightarrow> 'k world \<Rightarrow> ('k world, int option) comp" where
  "httpd_setup K N M w = comp_bind (nty_socket K w AF_INET SOCK_STREAM 0) (\<lambda>fd w.
     if fd < 0 then Ret None w
     else comp_bind (on_shm M (\<lambda>_. Some init_shmvalue) (bind_listen N w fd 9001 5)) (\<lambda>_. Ret (Some fd)))"

subsection \<open>Answering\<close>

text \<open>What is observed of a connection: the bytes sent and the requests received.\<close>

definition put_reply :: "u8 list \<times> u8 list list \<Rightarrow> u8 list \<Rightarrow> u8 list \<times> u8 list list" where
  "put_reply x bs = (fst x @ bs, snd x)"

interpretation replies: byte_sink put_reply
  by unfold_locales (simp_all add: put_reply_def)

text \<open>A peer that sends the requests \<open>reqs\<close>, each of which arrives in one piece, and closes.\<close>

definition asking :: "'k kernel \<Rightarrow> int \<Rightarrow> ('k \<Rightarrow> u8 list \<times> u8 list list) \<Rightarrow> u8 list list \<Rightarrow> bool" where
  "asking K fd obs reqs = ((\<forall>r \<in> set reqs. 0 < length r \<and> length r \<le> 1024) \<and>
     (\<forall>k r rest. snd (obs k) @ r # rest = reqs \<longrightarrow>
       (\<exists>e k'. k_recv K k fd 1024 0 = (int (length r), r, e, k') \<and> obs k' = (fst (obs k), snd (obs k) @ [r]))) \<and>
     (\<forall>k. snd (obs k) = reqs \<longrightarrow> (\<exists>e k'. k_recv K k fd 1024 0 = (0, [], e, k') \<and> obs k' = obs k)))"

lemma received_asking:
  assumes "received K obs a fd 1024 0 w x w'" "asking K fd obs reqs" "snd (obs (kern w)) @ rest = reqs"
  shows "running a fd w' \<and> (case rest of [] \<Rightarrow> x = (0, []) \<and> obs (kern w') = obs (kern w)
    | r # rs \<Rightarrow> x = (int (length r), r) \<and> 0 < length r \<and> length r \<le> 1024 \<and> obs (kern w') = (fst (obs (kern w)), snd (obs (kern w)) @ [r]))"
proof -
  obtain v where v: "obs (kern v) = obs (kern w)" "recv_result K fd 1024 0 v x w'" "running a fd w'"
    using assms(1) by (auto simp: received_def)
  show ?thesis
  proof (cases rest)
    case Nil
    then have "snd (obs (kern v)) = reqs" using assms(3) v(1) by simp
    then obtain e k' where "k_recv K (kern v) fd 1024 0 = (0, [], e, k')" "obs k' = obs (kern v)"
      using assms(2) unfolding asking_def by metis
    then show ?thesis using v Nil by (auto simp: recv_result_def to_int_small)
  next
    case (Cons r rs)
    then have "snd (obs (kern v)) @ r # rs = reqs" using assms(3) v(1) by simp
    then obtain e k' where k: "k_recv K (kern v) fd 1024 0 = (int (length r), r, e, k')" "obs k' = (fst (obs (kern v)), snd (obs (kern v)) @ [r])"
      using assms(2) unfolding asking_def by metis
    have "0 < length r \<and> length r \<le> 1024" using assms(2,3) Cons by (auto simp: asking_def)
    then show ?thesis using v k Cons by (auto simp: recv_result_def to_int_small)
  qed
qed

text \<open>The counter of the process is one less.\<close>

definition one_less :: "int \<Rightarrow> int \<Rightarrow> shm_area \<Rightarrow> shm_area" where
  "one_less self_id cpu_size m = (let i = nat (self_id mod cpu_size) in
     m\<lparr>totalfds := (totalfds m)[i := to_int (totalfds m ! i - 1)]\<rparr>)"

text \<open>What \<open>accept_request\<close> leaves: a page for each request, then the close, then the decrement.\<close>

definition answered :: "'k kernel \<Rightarrow> ('k, shm_area) segment \<Rightarrow> int \<Rightarrow> int \<Rightarrow> int \<Rightarrow> ('k \<Rightarrow> u8 list \<times> u8 list list) \<Rightarrow> 'k world \<Rightarrow> u8 list list \<Rightarrow> unit \<Rightarrow> 'k world \<Rightarrow> bool" where
  "answered K M self_id cpu_size fd obs w rest = (\<lambda>_ w'. \<exists>k.
     obs k = (fst (obs (kern w)) @ concat (replicate (length rest) page_response), snd (obs (kern w)) @ rest) \<and>
     (let k' = snd (snd (k_close K k fd)) in kern w' = seg_put M k' (one_less self_id cpu_size (seg_get M k'))))"

lemma close_counted_ok:
  assumes "\<And>k. length (totalfds (seg_get M k)) = TOTALFDS" "0 < cpu_size" "cpu_size \<le> int TOTALFDS"
  shows "always E (\<lambda>_ w'. let k' = snd (snd (k_close K (kern w) fd)) in
      kern w' = seg_put M k' (one_less (int p) cpu_size (seg_get M k'))) (close_counted K M (int p) cpu_size fd w)"
proof -
  obtain r v where v: "close K w fd = Ret r v" "kern v = snd (snd (k_close K (kern w) fd))" using close_ret by blast
  then show ?thesis
    using DEC_ok [OF assms(2,3,1)] by (simp add: close_counted_def nty_close_def on_shm_def shm_step_def one_less_def Let_def)
qed

lemma page_loop_all:
  assumes rcv: "\<And>w. running a fd w \<Longrightarrow> always (wakes obs a fd) (received K obs a fd 1024 0 w) (rcv w)"
    and send: "\<And>w. running a fd w \<Longrightarrow> always (wakes obs a fd)
      (\<lambda>_ w'. running a fd w' \<and> obs (kern w') = put_reply (obs (kern w)) page_response) (snd_buf page_response w)"
    and cls: "\<And>w v rest. obs (kern v) = (fst (obs (kern w)) @ concat (replicate (length rest) page_response), snd (obs (kern w)) @ rest) \<Longrightarrow>
      always (wakes obs a fd) (answered K M p n fd obs w rest) (cls v)"
    and ask: "asking K fd obs reqs"
    and run: "running a fd w" "snd (obs (kern w)) @ rest = reqs" "length rest < fuel"
  shows "always (wakes obs a fd) (answered K M p n fd obs w rest) (page_loop fuel rcv snd_buf cls w)"
  using run
proof (induction fuel arbitrary: w rest)
  case (Suc fuel)
  let ?Q = "answered K M p n fd obs w rest"
  show ?case
    unfolding page_loop.simps
  proof (rule always_bind, rule always_mono [OF rcv [OF Suc.prems(1)]], goal_cases)
    case (1 x v)
    note x = received_asking [OF 1 ask Suc.prems(2)]
    show ?case
    proof (cases rest)
      case Nil
      then show ?thesis using x cls [of v w "[]"] by (simp add: Let_def)
    next
      case (Cons r rs)
      have num: "int (length r) mod 2 ^ 64 = int (length r)" "0 < length r" using x Cons by (auto intro: mod_pos_pos_trivial)
      have "always (wakes obs a fd) ?Q (page_loop fuel rcv snd_buf cls u)"
        if u: "running a fd u \<and> obs (kern u) = put_reply (obs (kern v)) page_response" for u
      proof -
        have "answered K M p n fd obs u rs = ?Q" using u x Cons by (simp add: answered_def put_reply_def)
        then show ?thesis using Suc.IH [of u rs] Suc.prems(2,3) u x Cons by (simp add: put_reply_def)
      qed
      then have "always (wakes obs a fd) (\<lambda>_ u. always (wakes obs a fd) ?Q (page_loop fuel rcv snd_buf cls u)) (snd_buf page_response v)"
        by (rule always_mono [OF send [OF conjunct1 [OF x]]]) blast
      from always_bind [OF this] show ?thesis using x Cons num by (simp add: Let_def page_headers_ok)
    qed
  qed
qed simp

text \<open>An error of \<open>nty_recv\<close> is taken for a request: the page is sent and the connection stays open.\<close>

lemma httpd_error_answered:
  assumes "rcv w = Ret (-1, bs) w'"
  shows "page_loop (Suc n) rcv snd_buf cls w = comp_bind (snd_buf page_response w') (\<lambda>_. page_loop n rcv snd_buf cls)"
  using assms by (simp add: page_headers_ok)

subsection \<open>Properties\<close>

text \<open>A peer that sends two requests, and a segment beside it, for the witness.\<close>

definition ask_kernel :: "((u8 list \<times> u8 list list) \<times> shm_area) kernel" where
  "ask_kernel = plain_kernel\<lparr>
     k_recv := (\<lambda>k fd n f. case drop (length (snd (fst k))) [[71], [72]] of [] \<Rightarrow> (0, [], 0, k)
       | r # rs \<Rightarrow> (int (length r), r, 0, ((fst (fst k), snd (fst k) @ [r]), snd k))),
     k_send := (\<lambda>k fd bs f. (1, 0, (put_reply (fst k) (take 1 bs), snd k)))\<rparr>"

text \<open>The array of the counters has its length whatever is stored there.\<close>

definition ask_segment :: "((u8 list \<times> u8 list list) \<times> shm_area, shm_area) segment" where
  "ask_segment = \<lparr>seg_get = (\<lambda>k. (snd k)\<lparr>totalfds := take TOTALFDS (totalfds (snd k) @ replicate TOTALFDS 0)\<rparr>),
     seg_put = (\<lambda>k m. (fst k, m))\<rparr>"

lemma ask_ok:
  "calm ask_kernel fst" "accepting put_reply ask_kernel fd fst" "asking ask_kernel fd fst [[71], [72]]"
  "length (totalfds (seg_get ask_segment k)) = TOTALFDS"
proof -
  show "calm ask_kernel fst" by (simp add: calm_def ask_kernel_def plain_kernel_def)
  show "accepting put_reply ask_kernel fd fst"
    by (auto simp: accepting_def ask_kernel_def plain_kernel_def Suc_le_eq)
  show "asking ask_kernel fd fst [[71], [72]]"
    by (auto simp: asking_def ask_kernel_def plain_kernel_def append_eq_Cons_conv)
  show "length (totalfds (seg_get ask_segment k)) = TOTALFDS" by (simp add: ask_segment_def)
qed

text \<open>C14.  A connection of \<open>ntyco_httpd.c\<close>: for a peer that sends requests, each arriving in one piece, and then closes,
  the coroutine sends the complete page once for each request, in whatever pieces the kernel takes it, then
  closes the connection and then takes one from the counter of its processor.\<close>

theorem httpd_answers_requests:
  assumes "calm K obs" "accepting put_reply K fd obs" "asking K fd obs reqs" "running a fd w" "snd (obs (kern w)) = []"
    and "- (2 ^ 31) \<le> fd" "fd < 2 ^ 31" "length reqs < n" "1024 \<le> fuel"
    and "\<And>k. length (totalfds (seg_get M k)) = TOTALFDS" "0 < cpu_size" "cpu_size \<le> int TOTALFDS"
  shows "always (wakes obs a fd) (\<lambda>_ w'. \<exists>k. obs k = (fst (obs (kern w)) @ concat (replicate (length reqs) page_response), reqs) \<and>
      (let k' = snd (snd (k_close K k fd)) in kern w' = seg_put M k' (one_less (int p) cpu_size (seg_get M k'))))
    (httpd_request n fuel K M (int p) cpu_size w (int_arg fd))"
proof -
  have page: "page_response \<noteq> []" "int (length page_response) \<le> INT_MAX" "length page_response \<le> fuel"
    using assms(9) by (simp_all add: page_response_def HTML_PAGE_props SERVER_STRING_def line_of_def bytes_of_def crlf_def INT_MAX_def)
  have cls: "always (wakes obs a fd) (answered K M (int p) cpu_size fd obs u rest) (close_counted K M (int p) cpu_size fd v)"
    if "obs (kern v) = (fst (obs (kern u)) @ concat (replicate (length rest) page_response), snd (obs (kern u)) @ rest)" for u v rest
    by (rule always_mono [OF close_counted_ok [OF assms(10-12), of _ K v fd p]]) (use that in \<open>auto simp: answered_def\<close>)
  have snd_page: "always (wakes obs a fd) (\<lambda>_ w'. running a fd w' \<and> obs (kern w') = put_reply (obs (kern u)) page_response)
      (nty_send fuel K u fd page_response 0)" if "running a fd u" for u
    by (rule always_mono [OF replies.nty_send_everything [OF assms(2,1) page(2) that page(1,3)]]) simp
  have "always (wakes obs a fd) (answered K M (int p) cpu_size fd obs w reqs) (httpd_request n fuel K M (int p) cpu_size w (int_arg fd))"
    unfolding httpd_request_def arg_int_int_arg [OF assms(6,7)] Let_def
    by (rule page_loop_all [OF _ _ _ assms(3,4)]) (use assms(5,8) in \<open>auto intro: nty_recv_waits [OF _ assms(1)] snd_page cls\<close>)
  then show ?thesis by (rule always_mono) (simp add: answered_def assms(5))
qed

theorem httpd_answers_requests_witness:
  "always (wakes fst 1 7) (\<lambda>_ w'. \<exists>k. fst k = (page_response @ page_response, [[71], [72]]) \<and>
      (let k' = snd (snd (k_close ask_kernel k 7)) in kern w' = seg_put ask_segment k' (one_less 5 4 (seg_get ask_segment k'))))
    (httpd_request 3 1024 ask_kernel ask_segment 5 4 (thread_on (([], []), init_shmvalue)) (int_arg 7))"
  using httpd_answers_requests [OF ask_ok(1-3) thread_running, of "(([], []), init_shmvalue)" 7 3 1024 ask_segment 4 5] ask_ok(4)
  by (simp add: TOTALFDS_def numeral_2_eq_2)

end
