(* ===== verification/Epoll_Server.thy ===== *)
theory Epoll_Server
  imports Httpd
begin

text \<open>
  The web server \<open>sample/nty_http_epoll.c\<close>: the same page and the same shared memory as \<open>ntyco_httpd.c\<close>, without
  coroutines.  A process waits for events itself and moves each connection between reading and writing by the events
  it registers.  The system's functions are called directly; the memory is a thread without a scheduler, of which only
  \<open>errno\<close> and the state of the system matter.  \<open>nsend\<close> is never called and is modelled for itself; \<open>cat\<close> is never called; what only prints is left out.
\<close>

subsection \<open>System calls\<close>

definition EPOLLRDHUP :: u32 where "EPOLLRDHUP = 0x2000"
definition EPOLLONESHOT :: u32 where "EPOLLONESHOT = 0x40000000"
definition EPOLLET :: u32 where "EPOLLET = 0x80000000"

definition MAX_EPOLLSIZE :: int where "MAX_EPOLLSIZE = 10240"

text \<open>The result of a call and the memory after it; \<open>epoll_ctl\<close> and \<open>close\<close> as statements, which ignore the result.\<close>

definition after_call :: "'k world \<Rightarrow> int \<times> int \<times> 'k \<Rightarrow> int \<times> 'k world" where
  "after_call w x = (case x of (r, e, k) \<Rightarrow> (r, w\<lparr>kern := k, errno := e\<rparr>))"

definition epoll_ctl :: "'k kernel \<Rightarrow> 'k world \<Rightarrow> int \<Rightarrow> epoll_op \<Rightarrow> int \<Rightarrow> u32 \<Rightarrow> 'k world" where
  "epoll_ctl K w epfd oper fd ev = snd (after_call w (k_epoll_ctl K (kern w) epfd oper fd ev))"

definition sys_close_fd :: "'k kernel \<Rightarrow> 'k world \<Rightarrow> int \<Rightarrow> 'k world" where
  "sys_close_fd K w fd = snd (after_call w (k_close K (kern w) fd))"

definition ntySetReUseAddr :: "'k kernel \<Rightarrow> 'k world \<Rightarrow> int \<Rightarrow> int \<times> 'k world" where
  "ntySetReUseAddr K w fd = after_call w (k_setreuse K (kern w) fd)"

text \<open>\<open>nsend\<close>: the loop asks again at once when the kernel says \<open>EAGAIN\<close>.  The kernel takes no more bytes than it is given.\<close>

fun nsend_loop :: "nat \<Rightarrow> 'k kernel \<Rightarrow> 'k world \<Rightarrow> int \<Rightarrow> u8 list \<Rightarrow> int \<Rightarrow> nat \<Rightarrow> int \<Rightarrow> ('k world, nat \<times> int) comp" where
  "nsend_loop n K w fd buf flags sent ret = (if \<not> sent < length buf then Ret (sent, ret) w
     else case n of 0 \<Rightarrow> Out_of_fuel
     | Suc m \<Rightarrow> (case after_call w (k_send K (kern w) fd (drop sent buf) flags) of (r, w) \<Rightarrow>
         let ret = to_int r in
         if ret \<le> 0 then (if errno w = EAGAIN then nsend_loop m K w fd buf flags sent ret else Ret (sent, ret) w)
         else nsend_loop m K w fd buf flags (sent + nat ret) ret))"

declare nsend_loop.simps [simp del]

definition nsend :: "nat \<Rightarrow> 'k kernel \<Rightarrow> 'k world \<Rightarrow> int \<Rightarrow> u8 list \<Rightarrow> int \<Rightarrow> ('k world, int) comp" where
  "nsend n K w fd buf flags = (case after_call w (k_send K (kern w) fd buf flags) of (r, w) \<Rightarrow>
     let ret = to_int r in
     if ret = 0 then Ret 0 w
     else comp_bind (nsend_loop n K w fd buf flags (if ret > 0 then nat ret else 0) ret) (\<lambda>(sent, ret) w.
       Ret (if ret \<le> 0 \<and> sent = 0 then ret else int sent) w))"

context byte_sink
begin

lemma nsend_loop_all:
  assumes "accepting put K fd out" "int (length buf) \<le> INT_MAX"
  shows "sent \<le> length buf \<Longrightarrow> length buf - sent \<le> n \<Longrightarrow> 0 < ret \<Longrightarrow>
    \<exists>w' r. nsend_loop n K w fd buf flags sent ret = Ret (length buf, r) w' \<and> 0 < r \<and> out (kern w') = put (out (kern w)) (drop sent buf)"
proof (induction n arbitrary: w sent ret)
  case 0
  then show ?case by (subst nsend_loop.simps) (simp add: put_nil)
next
  case (Suc n)
  show ?case
  proof (cases "sent < length buf")
    case False
    then show ?thesis using Suc.prems by (subst nsend_loop.simps) (simp add: put_nil)
  next
    case True
    then obtain r e k where r: "k_send K (kern w) fd (drop sent buf) flags = (r, e, k)" "1 \<le> r" "r \<le> int (length (drop sent buf))"
        "out k = put (out (kern w)) (take (nat r) (drop sent buf))"
      using assms(1) unfolding accepting_def by (metis drop_eq_Nil leD)
    then have small: "to_int r = r" "sent + nat r \<le> length buf" "length buf - (sent + nat r) \<le> n"
      using assms(2) True Suc.prems(2) by (auto simp: to_int_small INT_MAX_def)
    obtain w' r' where "nsend_loop n K (w\<lparr>kern := k, errno := e\<rparr>) fd buf flags (sent + nat r) r = Ret (length buf, r') w'" "0 < r'"
        "out (kern w') = put (out k) (drop (sent + nat r) buf)"
      using Suc.IH [OF small(2,3), of r "w\<lparr>kern := k, errno := e\<rparr>"] r(2) by auto
    then show ?thesis
      using True r small drop_step [of "out (kern w)" sent buf "nat r"] by (subst nsend_loop.simps) (simp add: after_call_def)
  qed
qed

text \<open>\<open>nsend\<close> sends the whole buffer to a kernel that takes at least a byte at a time.\<close>

lemma nsend_everything:
  assumes "accepting put K fd out" "int (length buf) \<le> INT_MAX" "buf \<noteq> []" "length buf \<le> n"
  shows "\<exists>w'. nsend n K w fd buf flags = Ret (int (length buf)) w' \<and> out (kern w') = put (out (kern w)) buf"
proof -
  obtain r e k where r: "k_send K (kern w) fd buf flags = (r, e, k)" "1 \<le> r" "r \<le> int (length buf)" "out k = put (out (kern w)) (take (nat r) buf)"
    using assms(1,3) unfolding accepting_def by blast
  then have small: "to_int r = r" "nat r \<le> length buf" "length buf - nat r \<le> n" using assms(2,4) by (auto simp: to_int_small INT_MAX_def)
  obtain w' r' where "nsend_loop n K (w\<lparr>kern := k, errno := e\<rparr>) fd buf flags (nat r) r = Ret (length buf, r') w'" "0 < r'"
      "out (kern w') = put (out k) (drop (nat r) buf)"
    using nsend_loop_all [OF assms(1,2) small(2,3), of r "w\<lparr>kern := k, errno := e\<rparr>" flags] r(2) by auto
  then show ?thesis using r small(1) by (simp add: nsend_def after_call_def put_append)
qed

end

subsection \<open>Events\<close>

text \<open>\<open>close\<close>, \<open>epoll_ctl\<close> and \<open>DEC_COUNTFD\<close>, for a connection that has ended; \<open>ev\<close> is what is passed and ignored.\<close>

definition drop_client :: "'k kernel \<Rightarrow> ('k, shm_area) segment \<Rightarrow> int \<Rightarrow> int \<Rightarrow> 'k world \<Rightarrow> int \<Rightarrow> int \<Rightarrow> u32 \<Rightarrow> 'k world option" where
  "drop_client K M self_id cpu_size w cli epfd ev =
     shm_step M (DEC_COUNTFD self_id cpu_size) (epoll_ctl K (sys_close_fd K w cli) epfd EPOLL_CTL_DEL cli ev)"

text \<open>\<open>accept_request\<close>: read a request and drop it.  \<open>numchars\<close> is a \<open>size_t\<close>.\<close>

definition epoll_accept_request :: "'k kernel \<Rightarrow> ('k, shm_area) segment \<Rightarrow> int \<Rightarrow> int \<Rightarrow> 'k world \<Rightarrow> int \<Rightarrow> int \<Rightarrow> 'k world option" where
  "epoll_accept_request K M self_id cpu_size w cli epfd = (case k_recv K (kern w) cli 1024 0 of (r, bs, e, k) \<Rightarrow>
     let w = w\<lparr>kern := k, errno := e\<rparr>; numchars = r mod 2 ^ 64 in
     if numchars = (-1) mod 2 ^ 64 then
       (if errno w = ECONNRESET then drop_client K M self_id cpu_size w cli epfd (EPOLLIN OR EPOLLET) else Some w)
     else if numchars = 0 then drop_client K M self_id cpu_size w cli epfd (EPOLLIN OR EPOLLET)
     else Some w)"

text \<open>\<open>headers\<close> sends the page with one call and does not look at how much of it was taken.\<close>

definition epoll_serve_file :: "'k kernel \<Rightarrow> 'k world \<Rightarrow> int \<Rightarrow> 'k world option" where
  "epoll_serve_file K w cli = do {
     buf \<leftarrow> page_headers; Some (snd (after_call w (k_send K (kern w) cli buf 0))) }"

text \<open>The branch for the listening descriptor; the result says whether \<open>server\<close> returns.\<close>

definition epoll_accept :: "'k kernel \<Rightarrow> ('k, shm_area) segment \<Rightarrow> 'k flags \<Rightarrow> int \<Rightarrow> int \<Rightarrow> int \<Rightarrow> int \<Rightarrow> 'k world \<Rightarrow> (bool \<times> 'k world) option" where
  "epoll_accept K M F self_id cpu_size epfd sockfd w = do {
     (r, m) \<leftarrow> lock (seg_get M (kern w));
     let w = w\<lparr>kern := seg_put M (kern w) m\<rparr>;
     if r \<noteq> 0 then Some (False, w)
     else do {
       let (clientfd, w) = after_call w (k_accept K (kern w) sockfd);
       w \<leftarrow> shm_step M (\<lambda>m. Some (unlock m)) w;
       if clientfd < 0 then Some (errno w \<noteq> EAGAIN, w)
       else do {
         w \<leftarrow> shm_step M (INC_COUNTFD self_id cpu_size) w;
         let w = snd (ntySetNonblock F w clientfd);
         let w = snd (ntySetReUseAddr K w clientfd);
         Some (False, epoll_ctl K w epfd EPOLL_CTL_ADD clientfd (EPOLLIN OR EPOLLET OR EPOLLONESHOT)) } } }"

definition epoll_event :: "'k kernel \<Rightarrow> ('k, shm_area) segment \<Rightarrow> 'k flags \<Rightarrow> int \<Rightarrow> int \<Rightarrow> int \<Rightarrow> int \<Rightarrow> int \<times> u32 \<Rightarrow> 'k world \<Rightarrow>
    (bool \<times> 'k world) option" where
  "epoll_event K M F self_id cpu_size fd epfd event w = (case event of (sockfd, events) \<Rightarrow>
     if sockfd = fd then epoll_accept K M F self_id cpu_size epfd sockfd w
     else if events AND EPOLLIN \<noteq> 0 then do {
       w \<leftarrow> epoll_accept_request K M self_id cpu_size w sockfd epfd;
       Some (False, epoll_ctl K w epfd EPOLL_CTL_MOD sockfd (EPOLLOUT OR EPOLLET OR EPOLLONESHOT)) }
     else if events AND EPOLLOUT \<noteq> 0 then do {
       w \<leftarrow> epoll_serve_file K w sockfd;
       w \<leftarrow> shm_step M (DEC_COUNTFD self_id cpu_size)
         (epoll_ctl K w epfd EPOLL_CTL_MOD sockfd (EPOLLIN OR EPOLLHUP OR EPOLLRDHUP OR EPOLLERR));
       Some (False, w) }
     else if events AND (EPOLLHUP OR EPOLLRDHUP OR EPOLLERR) \<noteq> 0 then do {
       w \<leftarrow> drop_client K M self_id cpu_size w sockfd epfd (EPOLLIN OR EPOLLET OR EPOLLONESHOT);
       Some (False, w) }
     else Some (False, w))"

fun epoll_events :: "'k kernel \<Rightarrow> ('k, shm_area) segment \<Rightarrow> 'k flags \<Rightarrow> int \<Rightarrow> int \<Rightarrow> int \<Rightarrow> int \<Rightarrow> (int \<times> u32) list \<Rightarrow> 'k world \<Rightarrow>
    (bool \<times> 'k world) option" where
  "epoll_events K M F self_id cpu_size fd epfd [] w = Some (False, w)"
| "epoll_events K M F self_id cpu_size fd epfd (ev # evs) w = do {
     (stop, w) \<leftarrow> epoll_event K M F self_id cpu_size fd epfd ev w;
     if stop then Some (True, w) else epoll_events K M F self_id cpu_size fd epfd evs w }"

subsection \<open>The server\<close>

text \<open>The endless loop takes a bound on its iterations; more events than the array holds are a fault.\<close>

fun epoll_server_loop :: "nat \<Rightarrow> 'k kernel \<Rightarrow> ('k, shm_area) segment \<Rightarrow> 'k flags \<Rightarrow> int \<Rightarrow> int \<Rightarrow> int \<Rightarrow> int \<Rightarrow> 'k world \<Rightarrow> ('k world, unit) comp" where
  "epoll_server_loop 0 K M F self_id cpu_size fd epfd w = Out_of_fuel"
| "epoll_server_loop (Suc n) K M F self_id cpu_size fd epfd w =
     (case k_epoll_wait K (kern w) epfd MAX_EPOLLSIZE 1 of (nready, evs, e, k) \<Rightarrow>
       let w = w\<lparr>kern := k, errno := e\<rparr> in
       if nready = -1 then epoll_server_loop n K M F self_id cpu_size fd epfd w
       else if length evs < nat nready then Fault
       else (case epoll_events K M F self_id cpu_size fd epfd (take (nat nready) evs) w of None \<Rightarrow> Fault
         | Some (stop, w) \<Rightarrow> if stop then Ret () w else epoll_server_loop n K M F self_id cpu_size fd epfd w))"

declare epoll_server_loop.simps [simp del]

definition epoll_server :: "nat \<Rightarrow> 'k kernel \<Rightarrow> ('k, shm_area) segment \<Rightarrow> 'k flags \<Rightarrow> int \<Rightarrow> int \<Rightarrow> int \<Rightarrow> 'k world \<Rightarrow> ('k world, unit) comp" where
  "epoll_server n K M F self_id cpu_size fd w = (case after_call w (k_epoll_create K (kern w) 1) of (epfd, w) \<Rightarrow>
     epoll_server_loop n K M F self_id cpu_size fd epfd (epoll_ctl K w epfd EPOLL_CTL_ADD fd EPOLLIN))"

text \<open>\<open>main\<close> before it forks; \<open>None\<close> is the early return.\<close>

definition epoll_setup :: "'k kernel \<Rightarrow> 'k net \<Rightarrow> ('k, shm_area) segment \<Rightarrow> 'k flags \<Rightarrow> 'k world \<Rightarrow> (int \<times> 'k world) option" where
  "epoll_setup K N M F w = (case after_call w (k_socket K (kern w) AF_INET SOCK_STREAM 0) of (fd, w) \<Rightarrow>
     if fd < 0 then None
     else (let w = snd (ntySetReUseAddr K (snd (ntySetNonblock F w fd)) fd) in
       map_option (Pair fd) (shm_step M (\<lambda>_. Some init_shmvalue) (bind_listen N w fd 9000 20))))"

subsection \<open>One connection\<close>

text \<open>What is observed of a connection: the bytes sent, the requests received, the events registered for it and
  whether it was closed.\<close>

record client_view =
  cv_sent :: "u8 list"
  cv_got :: "u8 list list"
  cv_interest :: "u32 option"
  cv_closed :: bool

text \<open>The next event when the peer always has something to say and always listens: a new connection at first, then input
  whenever input is registered, and room for output otherwise.\<close>

definition next_event :: "int \<Rightarrow> int \<Rightarrow> client_view \<Rightarrow> int \<times> u32" where
  "next_event lfd cfd v = (case cv_interest v of None \<Rightarrow> (lfd, EPOLLIN)
     | Some ev \<Rightarrow> (cfd, if ev AND EPOLLIN \<noteq> 0 then EPOLLIN else EPOLLOUT))"

definition same_view :: "('k \<Rightarrow> client_view) \<Rightarrow> ('k, shm_area) segment \<Rightarrow> 'k \<Rightarrow> 'k \<Rightarrow> bool" where
  "same_view obs M k k' = (obs k' = obs k \<and> seg_get M k' = seg_get M k)"

text \<open>A peer that sends \<open>reqs\<close>, each arriving in one piece, and closes.\<close>

definition peer_asks :: "'k kernel \<Rightarrow> ('k, shm_area) segment \<Rightarrow> int \<Rightarrow> u8 list list \<Rightarrow> ('k \<Rightarrow> client_view) \<Rightarrow> bool" where
  "peer_asks K M cfd reqs obs = ((\<forall>r \<in> set reqs. 0 < length r \<and> length r \<le> 1024) \<and>
     (\<forall>k r rest. cv_got (obs k) @ r # rest = reqs \<longrightarrow> (\<exists>e k'. k_recv K k cfd 1024 0 = (int (length r), r, e, k') \<and>
       seg_get M k' = seg_get M k \<and> obs k' = (obs k)\<lparr>cv_got := cv_got (obs k) @ [r]\<rparr>)) \<and>
     (\<forall>k. cv_got (obs k) = reqs \<longrightarrow> (\<exists>e k'. k_recv K k cfd 1024 0 = (0, [], e, k') \<and> same_view obs M k k')))"

text \<open>A system with this one process and one peer; of a page that is sent the kernel takes as much as it likes, from the front,
  or nothing (\<open>send\<close> returns the number, or -1), and a closed descriptor is no longer registered.\<close>

definition one_peer :: "'k kernel \<Rightarrow> ('k, shm_area) segment \<Rightarrow> 'k flags \<Rightarrow> int \<Rightarrow> int \<Rightarrow> int \<Rightarrow> u8 list list \<Rightarrow> ('k \<Rightarrow> client_view) \<Rightarrow> bool" where
  "one_peer K M F epfd lfd cfd reqs obs = (
     (\<forall>k m. seg_get M (seg_put M k m) = m \<and> obs (seg_put M k m) = obs k) \<and>
     (\<forall>k. \<not> cv_closed (obs k) \<longrightarrow> (\<exists>e k'. k_epoll_wait K k epfd MAX_EPOLLSIZE 1 = (1, [next_event lfd cfd (obs k)], e, k') \<and> same_view obs M k k')) \<and>
     (\<forall>k. \<exists>e k'. k_accept K k lfd = (cfd, e, k') \<and> same_view obs M k k') \<and>
     (\<forall>k fl. same_view obs M k (snd (snd (f_getfl F k cfd))) \<and> same_view obs M k (snd (snd (f_setfl F k cfd fl)))) \<and>
     (\<forall>k. same_view obs M k (snd (snd (k_setreuse K k cfd)))) \<and>
     (\<forall>k oper ev. let k' = snd (snd (k_epoll_ctl K k epfd oper cfd ev)) in seg_get M k' = seg_get M k \<and>
       obs k' = (if cv_closed (obs k) \<or> oper = EPOLL_CTL_DEL then obs k else (obs k)\<lparr>cv_interest := Some ev\<rparr>)) \<and>
     (\<forall>k. \<not> cv_closed (obs k) \<longrightarrow> (\<exists>r e k'. k_send K k cfd page_response 0 = (r, e, k') \<and> -1 \<le> r \<and> r \<le> int (length page_response) \<and>
       seg_get M k' = seg_get M k \<and> obs k' = (obs k)\<lparr>cv_sent := cv_sent (obs k) @ take (nat r) page_response\<rparr>)) \<and>
     (\<forall>k. let k' = snd (snd (k_close K k cfd)) in seg_get M k' = seg_get M k \<and> obs k' = (obs k)\<lparr>cv_closed := True\<rparr>) \<and>
     peer_asks K M cfd reqs obs)"

text \<open>What the peer gets from \<open>n\<close> pages that were sent: of each page the part that the kernel took.\<close>

definition answers :: "'k kernel \<Rightarrow> int \<Rightarrow> nat \<Rightarrow> u8 list \<Rightarrow> bool" where
  "answers K cfd n x = (\<exists>js. length js = n \<and> (\<forall>j \<in> set js. \<exists>k. j = nat (fst (k_send K k cfd page_response 0))) \<and>
     x = concat (map (\<lambda>j. take j page_response) js))"

lemma answers_0: "answers K cfd 0 []"
  by (simp add: answers_def)

lemma answers_Suc:
  assumes "j = nat (fst (k_send K k cfd page_response 0))" "answers K cfd n x"
  shows "answers K cfd (Suc n) (take j page_response @ x)"
proof -
  obtain js where "length js = n" "\<forall>j \<in> set js. \<exists>k. j = nat (fst (k_send K k cfd page_response 0))"
      "x = concat (map (\<lambda>j. take j page_response) js)"
    using assms(2) by (auto simp: answers_def)
  then show ?thesis unfolding answers_def using assms(1) by (intro exI [of _ "j # js"]) auto
qed

lemma answers_whole:
  assumes "answers K cfd n x" "\<And>k. fst (k_send K k cfd page_response 0) = int (length page_response)"
  shows "x = concat (replicate n page_response)"
proof -
  obtain js where js: "length js = n" "\<forall>j \<in> set js. j = length page_response" "x = concat (map (\<lambda>j. take j page_response) js)"
    using assms by (auto simp: answers_def)
  then have "map (\<lambda>j. take j page_response) js = replicate n page_response" by (intro replicate_eqI) auto
  then show ?thesis using js(3) by simp
qed

text \<open>The counter \<open>i\<close> changed by \<open>d\<close>.\<close>

definition count_by :: "shm_area \<Rightarrow> nat \<Rightarrow> int \<Rightarrow> shm_area" where
  "count_by m i d = m\<lparr>totalfds := (totalfds m)[i := to_int (totalfds m ! i + d)]\<rparr>"

lemma count_by_simps [simp]:
  "accept_mtx (count_by m i d) = accept_mtx m" "after_mtx (count_by m i d) = after_mtx m"
  "length (totalfds (count_by m i d)) = length (totalfds m)"
  by (simp_all add: count_by_def)

lemma count_by_twice: "i < length (totalfds m) \<Longrightarrow> count_by (count_by m i a) i b = count_by m i (a + b)"
  by (simp add: count_by_def to_int_add add.assoc)

text \<open>The memory as it is seen: the connection and the segment.\<close>

definition seen :: "('k \<Rightarrow> client_view) \<Rightarrow> ('k, shm_area) segment \<Rightarrow> 'k world \<Rightarrow> client_view \<Rightarrow> shm_area \<Rightarrow> bool" where
  "seen obs M w v m = (obs (kern w) = v \<and> seg_get M (kern w) = m)"

definition shm_ready :: "shm_area \<Rightarrow> bool" where
  "shm_ready m = (length (totalfds m) = TOTALFDS \<and> accept_mtx m = 0 \<and> after_mtx m = 0)"

text \<open>What the statements of the handlers do to what is seen.\<close>

lemma seen_upd [simp]: "seen obs M (w\<lparr>errno := e\<rparr>) v m = seen obs M w v m" "seen obs M (w\<lparr>kern := k, errno := e\<rparr>) v m = (obs k = v \<and> seg_get M k = m)"
  by (simp_all add: seen_def)

lemma seen_put: "one_peer K M F epfd lfd cfd reqs obs \<Longrightarrow> seen obs M w v m \<Longrightarrow> seen obs M (w\<lparr>kern := seg_put M (kern w) m'\<rparr>) v m'"
  by (simp add: one_peer_def seen_def)

lemma seen_shm:
  assumes "one_peer K M F epfd lfd cfd reqs obs" "seen obs M w v m" "f m = Some m'"
  shows "\<exists>w'. shm_step M f w = Some w' \<and> errno w' = errno w \<and> seen obs M w' v m'"
  using seen_put [OF assms(1,2)] assms(2,3) by (auto simp: shm_step_def seen_def)

lemma seen_ctl:
  assumes "one_peer K M F epfd lfd cfd reqs obs" "seen obs M w v m"
  shows "seen obs M (epoll_ctl K w epfd oper cfd ev) (if cv_closed v \<or> oper = EPOLL_CTL_DEL then v else v\<lparr>cv_interest := Some ev\<rparr>) m"
proof -
  obtain r e k where k: "k_epoll_ctl K (kern w) epfd oper cfd ev = (r, e, k)" by (metis prod_cases3)
  have "let k' = snd (snd (k_epoll_ctl K (kern w) epfd oper cfd ev)) in seg_get M k' = seg_get M (kern w) \<and>
       obs k' = (if cv_closed (obs (kern w)) \<or> oper = EPOLL_CTL_DEL then obs (kern w) else (obs (kern w))\<lparr>cv_interest := Some ev\<rparr>)"
    using assms(1) unfolding one_peer_def by blast
  then show ?thesis using assms(2) k by (simp add: epoll_ctl_def after_call_def seen_def)
qed

lemma seen_close:
  assumes "one_peer K M F epfd lfd cfd reqs obs" "seen obs M w v m"
  shows "seen obs M (sys_close_fd K w cfd) (v\<lparr>cv_closed := True\<rparr>) m"
proof -
  obtain r e k where k: "k_close K (kern w) cfd = (r, e, k)" by (metis prod_cases3)
  have "let k' = snd (snd (k_close K (kern w) cfd)) in seg_get M k' = seg_get M (kern w) \<and> obs k' = (obs (kern w))\<lparr>cv_closed := True\<rparr>"
    using assms(1) unfolding one_peer_def by blast
  then show ?thesis using assms(2) k by (simp add: sys_close_fd_def after_call_def seen_def)
qed

lemma seen_modes:
  assumes "one_peer K M F epfd lfd cfd reqs obs" "seen obs M w v m"
  shows "seen obs M (snd (ntySetNonblock F w cfd)) v m" "seen obs M (snd (ntySetReUseAddr K w cfd)) v m"
proof -
  have fl: "same_view obs M k (snd (snd (f_getfl F k cfd)))" "same_view obs M k (snd (snd (f_setfl F k cfd fl)))"
    "same_view obs M k (snd (snd (k_setreuse K k cfd)))" for k fl
    using assms(1) unfolding one_peer_def by blast+
  obtain x e k where g: "f_getfl F (kern w) cfd = (x, e, k)" by (metis prod_cases3)
  obtain r e' k' where s: "f_setfl F k cfd (x OR O_NONBLOCK) = (r, e', k')" by (metis prod_cases3)
  show "seen obs M (snd (ntySetNonblock F w cfd)) v m"
    using fl(1) [of "kern w"] fl(2) [of k "x OR O_NONBLOCK"] g s assms(2)
    by (simp add: ntySetNonblock_def set_mode_def same_view_def seen_def)
  show "seen obs M (snd (ntySetReUseAddr K w cfd)) v m"
    using fl(3) [of "kern w"] assms(2) by (cases "k_setreuse K (kern w) cfd") (simp add: ntySetReUseAddr_def after_call_def same_view_def seen_def)
qed

lemma seen_count:
  assumes "one_peer K M F epfd lfd cfd reqs obs" "seen obs M w v m" "length (totalfds m) = TOTALFDS" "0 < n" "n \<le> int TOTALFDS"
  shows "\<exists>w'. shm_step M (INC_COUNTFD (int p) n) w = Some w' \<and> seen obs M w' v (count_by m (nat (int p mod n)) 1)"
    and "\<exists>w'. shm_step M (DEC_COUNTFD (int p) n) w = Some w' \<and> seen obs M w' v (count_by m (nat (int p mod n)) (-1))"
proof -
  have "INC_COUNTFD (int p) n m = Some (count_by m (nat (int p mod n)) 1)" "DEC_COUNTFD (int p) n m = Some (count_by m (nat (int p mod n)) (-1))"
    using INC_ok [OF assms(4,5,3)] DEC_ok [OF assms(4,5,3)] by (simp_all add: count_by_def)
  then show "\<exists>w'. shm_step M (INC_COUNTFD (int p) n) w = Some w' \<and> seen obs M w' v (count_by m (nat (int p mod n)) 1)"
      "\<exists>w'. shm_step M (DEC_COUNTFD (int p) n) w = Some w' \<and> seen obs M w' v (count_by m (nat (int p mod n)) (-1))"
    using seen_shm [OF assms(1,2)] by blast+
qed

text \<open>The four events in the life of a connection.\<close>

lemma event_accept:
  assumes P: "one_peer K M F epfd lfd cfd reqs obs" and "seen obs M w v m" "shm_ready m" "\<not> cv_closed v"
    and n: "0 < n" "n \<le> int TOTALFDS" and "0 \<le> cfd"
  shows "\<exists>w'. epoll_event K M F (int p) n lfd epfd (lfd, EPOLLIN) w = Some (False, w') \<and>
    seen obs M w' (v\<lparr>cv_interest := Some (EPOLLIN OR EPOLLET OR EPOLLONESHOT)\<rparr>) (count_by m (nat (int p mod n)) 1)"
proof -
  have m: "length (totalfds m) = TOTALFDS" "accept_mtx m = 0" "after_mtx m = 0" using assms(3) by (auto simp: shm_ready_def)
  let ?w1 = "w\<lparr>kern := seg_put M (kern w) (m\<lparr>accept_mtx := 1\<rparr>)\<rparr>"
  have l: "lock (seg_get M (kern w)) = Some (0, m\<lparr>accept_mtx := 1\<rparr>)"
    using assms(2) lock_simps(1) [OF m(2,3)] by (simp add: seen_def)
  have w1: "seen obs M ?w1 v (m\<lparr>accept_mtx := 1\<rparr>)" using seen_put [OF P assms(2)] .
  obtain e k where k: "k_accept K (kern ?w1) lfd = (cfd, e, k)" "same_view obs M (kern ?w1) k"
    using P unfolding one_peer_def by blast
  let ?w2 = "?w1\<lparr>kern := k, errno := e\<rparr>"
  have w2: "seen obs M ?w2 v (m\<lparr>accept_mtx := 1\<rparr>)" using w1 k(2) by (simp add: seen_def same_view_def)
  have "unlock (m\<lparr>accept_mtx := 1\<rparr>) = m" using m(2) by (cases m) (simp add: unlock_def)
  then obtain w3 where w3: "shm_step M (\<lambda>m. Some (unlock m)) ?w2 = Some w3" "seen obs M w3 v m"
    using seen_shm [OF P w2, of "\<lambda>m. Some (unlock m)" m] by auto
  obtain w4 where w4: "shm_step M (INC_COUNTFD (int p) n) w3 = Some w4" "seen obs M w4 v (count_by m (nat (int p mod n)) 1)"
    using seen_count(1) [OF P w3(2) m(1) n] by blast
  note w5 = seen_ctl [OF P seen_modes(2) [OF P seen_modes(1) [OF P w4(2)]], of EPOLL_CTL_ADD "EPOLLIN OR EPOLLET OR EPOLLONESHOT"]
  show ?thesis
    using l k(1) w3(1) w4(1) w5 assms(4,7)
    by (simp add: epoll_event_def epoll_accept_def after_call_def)
qed

lemma event_request:
  assumes P: "one_peer K M F epfd lfd cfd reqs obs" and "seen obs M w v m" "\<not> cv_closed v" "cv_got v @ r # rest = reqs" "cfd \<noteq> lfd"
  shows "\<exists>w'. epoll_event K M F p n lfd epfd (cfd, EPOLLIN) w = Some (False, w') \<and>
    seen obs M w' (v\<lparr>cv_got := cv_got v @ [r], cv_interest := Some (EPOLLOUT OR EPOLLET OR EPOLLONESHOT)\<rparr>) m"
proof -
  have asks: "peer_asks K M cfd reqs obs" using P by (simp add: one_peer_def)
  have "cv_got (obs (kern w)) @ r # rest = reqs" using assms(2,4) by (simp add: seen_def)
  then obtain e k where k: "k_recv K (kern w) cfd 1024 0 = (int (length r), r, e, k)" "seg_get M k = seg_get M (kern w)"
      "obs k = (obs (kern w))\<lparr>cv_got := cv_got (obs (kern w)) @ [r]\<rparr>"
    using asks unfolding peer_asks_def by metis
  have r: "0 < length r" "length r \<le> 1024" using asks assms(4) by (auto simp: peer_asks_def)
  let ?w = "w\<lparr>kern := k, errno := e\<rparr>"
  have "seen obs M ?w (v\<lparr>cv_got := cv_got v @ [r]\<rparr>) m" using k assms(2) by (simp add: seen_def)
  note ctl = seen_ctl [OF P this, of EPOLL_CTL_MOD "EPOLLOUT OR EPOLLET OR EPOLLONESHOT"]
  have num: "int (length r) mod 2 ^ 64 = int (length r)" using r by (intro mod_pos_pos_trivial) auto
  have "epoll_accept_request K M p n w cfd epfd = Some ?w"
    using k(1) r num by (simp add: epoll_accept_request_def Let_def)
  then show ?thesis using ctl assms(3,5) by (simp add: epoll_event_def EPOLLIN_def)
qed

lemma event_page:
  assumes P: "one_peer K M F epfd lfd cfd reqs obs" and "seen obs M w v m" "length (totalfds m) = TOTALFDS" "\<not> cv_closed v" "cfd \<noteq> lfd"
    and n: "0 < n" "n \<le> int TOTALFDS"
  shows "\<exists>w' j k. epoll_event K M F (int p) n lfd epfd (cfd, EPOLLOUT) w = Some (False, w') \<and>
    j = nat (fst (k_send K k cfd page_response 0)) \<and>
    seen obs M w' (v\<lparr>cv_sent := cv_sent v @ take j page_response, cv_interest := Some (EPOLLIN OR EPOLLHUP OR EPOLLRDHUP OR EPOLLERR)\<rparr>)
      (count_by m (nat (int p mod n)) (-1))"
proof -
  have "\<not> cv_closed (obs (kern w))" using assms(2,4) by (simp add: seen_def)
  then obtain r e k where k: "k_send K (kern w) cfd page_response 0 = (r, e, k)" "seg_get M k = seg_get M (kern w)"
      "obs k = (obs (kern w))\<lparr>cv_sent := cv_sent (obs (kern w)) @ take (nat r) page_response\<rparr>"
    using P unfolding one_peer_def by blast
  let ?w = "w\<lparr>kern := k, errno := e\<rparr>" and ?page = "take (nat r) page_response"
  have w: "seen obs M ?w (v\<lparr>cv_sent := cv_sent v @ ?page\<rparr>) m" using k assms(2) by (simp add: seen_def)
  have serve: "epoll_serve_file K w cfd = Some ?w" by (simp add: epoll_serve_file_def page_headers_ok k(1) after_call_def)
  have "EPOLLOUT AND EPOLLIN = 0" "EPOLLOUT AND EPOLLOUT \<noteq> 0" by (simp_all add: EPOLLIN_def EPOLLOUT_def)
  moreover have "nat r = nat (fst (k_send K (kern w) cfd page_response 0))" by (simp add: k(1))
  moreover obtain w' where
    w': "shm_step M (DEC_COUNTFD (int p) n) (epoll_ctl K ?w epfd EPOLL_CTL_MOD cfd (EPOLLIN OR EPOLLHUP OR EPOLLRDHUP OR EPOLLERR)) = Some w'"
      "seen obs M w' (v\<lparr>cv_sent := cv_sent v @ ?page, cv_interest := Some (EPOLLIN OR EPOLLHUP OR EPOLLRDHUP OR EPOLLERR)\<rparr>)
        (count_by m (nat (int p mod n)) (-1))"
    using seen_count(2) [OF P seen_ctl [OF P w, of EPOLL_CTL_MOD "EPOLLIN OR EPOLLHUP OR EPOLLRDHUP OR EPOLLERR"] assms(3) n, of p] assms(4)
    by auto
  ultimately show ?thesis
    by (intro exI [of _ w'] exI [of _ "nat r"] exI [of _ "kern w"] conjI) (use serve assms(5) in \<open>simp_all add: epoll_event_def\<close>)
qed

lemma event_end:
  assumes P: "one_peer K M F epfd lfd cfd reqs obs" and "seen obs M w v m" "length (totalfds m) = TOTALFDS" "cv_got v = reqs" "cfd \<noteq> lfd"
    and n: "0 < n" "n \<le> int TOTALFDS"
  shows "\<exists>w'. epoll_event K M F (int p) n lfd epfd (cfd, EPOLLIN) w = Some (False, w') \<and>
    seen obs M w' (v\<lparr>cv_closed := True\<rparr>) (count_by m (nat (int p mod n)) (-1))"
proof -
  have asks: "peer_asks K M cfd reqs obs" using P by (simp add: one_peer_def)
  have "cv_got (obs (kern w)) = reqs" using assms(2,4) by (simp add: seen_def)
  then obtain e k where k: "k_recv K (kern w) cfd 1024 0 = (0, [], e, k)" "same_view obs M (kern w) k"
    using asks unfolding peer_asks_def by metis
  let ?w = "w\<lparr>kern := k, errno := e\<rparr>"
  have "seen obs M ?w v m" using k(2) assms(2) by (simp add: seen_def same_view_def)
  note del = seen_ctl [OF P seen_close [OF P this], of EPOLL_CTL_DEL "EPOLLIN OR EPOLLET"]
  then obtain w' where w': "drop_client K M (int p) n ?w cfd epfd (EPOLLIN OR EPOLLET) = Some w'"
      "seen obs M w' (v\<lparr>cv_closed := True\<rparr>) (count_by m (nat (int p mod n)) (-1))"
    using seen_count(2) [OF P _ assms(3) n] unfolding drop_client_def by fastforce
  then have "epoll_accept_request K M (int p) n w cfd epfd = Some w'"
    using k(1) by (simp add: epoll_accept_request_def Let_def)
  then show ?thesis using seen_ctl [OF P w'(2), of EPOLL_CTL_MOD "EPOLLOUT OR EPOLLET OR EPOLLONESHOT"] assms(5)
    by (simp add: epoll_event_def EPOLLIN_def)
qed

text \<open>One iteration of the loop takes the next event.\<close>

lemma loop_event:
  assumes P: "one_peer K M F epfd lfd cfd reqs obs" and "seen obs M w v m" "\<not> cv_closed v"
    and "\<And>w. seen obs M w v m \<Longrightarrow> \<exists>w'. epoll_event K M F p n lfd epfd (next_event lfd cfd v) w = Some (False, w') \<and> Q w'"
  shows "\<exists>w'. epoll_server_loop (Suc i) K M F p n lfd epfd w = epoll_server_loop i K M F p n lfd epfd w' \<and> Q w'"
proof -
  have "\<not> cv_closed (obs (kern w))" using assms(2,3) by (simp add: seen_def)
  then obtain e k where k: "k_epoll_wait K (kern w) epfd MAX_EPOLLSIZE 1 = (1, [next_event lfd cfd (obs (kern w))], e, k)" "same_view obs M (kern w) k"
    using P unfolding one_peer_def by blast
  have "seen obs M (w\<lparr>kern := k, errno := e\<rparr>) v m" using k(2) assms(2) by (simp add: seen_def same_view_def)
  from assms(4) [OF this] obtain w' where "epoll_event K M F p n lfd epfd (next_event lfd cfd v) (w\<lparr>kern := k, errno := e\<rparr>) = Some (False, w')"
      "Q w'" by blast
  then show ?thesis using k(1) assms(2) by (auto simp: seen_def epoll_server_loop.simps)
qed

text \<open>A request and its answer take two iterations.\<close>

lemma loop_request:
  assumes P: "one_peer K M F epfd lfd cfd reqs obs" and "seen obs M w v (count_by m (nat (int p mod n)) d)" "\<not> cv_closed v"
    and ev: "cv_interest v = Some ev" "ev AND EPOLLIN \<noteq> 0" and r: "cv_got v @ r # rest = reqs"
    and n: "length (totalfds m) = TOTALFDS" "0 < n" "n \<le> int TOTALFDS" "cfd \<noteq> lfd"
  shows "\<exists>w' ev' j k. epoll_server_loop (Suc (Suc i)) K M F (int p) n lfd epfd w = epoll_server_loop i K M F (int p) n lfd epfd w' \<and> ev' AND EPOLLIN \<noteq> 0 \<and>
    j = nat (fst (k_send K k cfd page_response 0)) \<and>
    seen obs M w' (v\<lparr>cv_sent := cv_sent v @ take j page_response, cv_got := cv_got v @ [r], cv_interest := Some ev'\<rparr>) (count_by m (nat (int p mod n)) (d - 1))"
proof -
  let ?i = "nat (int p mod n)" and ?out = "EPOLLOUT OR EPOLLET OR EPOLLONESHOT" and ?inp = "EPOLLIN OR EPOLLHUP OR EPOLLRDHUP OR EPOLLERR"
  let ?v = "v\<lparr>cv_got := cv_got v @ [r], cv_interest := Some ?out\<rparr>"
  have i: "?i < length (totalfds m)" using slot_ok [OF n(2,3), of p] n(1) by auto
  have nx: "next_event lfd cfd v = (cfd, EPOLLIN)" "next_event lfd cfd ?v = (cfd, EPOLLOUT)"
    using ev by (simp_all add: next_event_def EPOLLIN_def EPOLLOUT_def EPOLLET_def EPOLLONESHOT_def)
  obtain w1 where w1: "epoll_server_loop (Suc (Suc i)) K M F (int p) n lfd epfd w = epoll_server_loop (Suc i) K M F (int p) n lfd epfd w1"
      "seen obs M w1 ?v (count_by m ?i d)"
    using loop_event [OF P assms(2,3), of "int p" n "\<lambda>u. seen obs M u ?v (count_by m ?i d)" "Suc i"] event_request [OF P _ assms(3) r n(4)] nx(1) by auto
  let ?Q = "\<lambda>u. \<exists>j k. j = nat (fst (k_send K k cfd page_response 0)) \<and>
      seen obs M u (?v\<lparr>cv_sent := cv_sent ?v @ take j page_response, cv_interest := Some ?inp\<rparr>) (count_by (count_by m ?i d) ?i (-1))"
  have "\<exists>w'. epoll_event K M F (int p) n lfd epfd (next_event lfd cfd ?v) u = Some (False, w') \<and> ?Q w'"
    if "seen obs M u ?v (count_by m ?i d)" for u
    unfolding nx(2) using event_page [OF P that _ _ n(4,2,3), of p] n(1) assms(3) by simp
  from loop_event [OF P w1(2) _ this, of i] assms(3) obtain w2 j k where
    w2: "epoll_server_loop (Suc i) K M F (int p) n lfd epfd w1 = epoll_server_loop i K M F (int p) n lfd epfd w2"
      "j = nat (fst (k_send K k cfd page_response 0))"
      "seen obs M w2 (?v\<lparr>cv_sent := cv_sent ?v @ take j page_response, cv_interest := Some ?inp\<rparr>) (count_by (count_by m ?i d) ?i (-1))"
    by auto
  have "?inp AND EPOLLIN \<noteq> 0" by (simp add: EPOLLIN_def EPOLLHUP_def EPOLLRDHUP_def EPOLLERR_def)
  moreover have "?v\<lparr>cv_sent := cv_sent ?v @ take j page_response, cv_interest := Some ?inp\<rparr> =
      v\<lparr>cv_sent := cv_sent v @ take j page_response, cv_got := cv_got v @ [r], cv_interest := Some ?inp\<rparr>" by (cases v) simp
  moreover have "count_by (count_by m ?i d) ?i (-1) = count_by m ?i (d - 1)" using count_by_twice [OF i, of d "-1"] by simp
  ultimately show ?thesis using w1(1) w2 by metis
qed

lemma loop_requests:
  assumes P: "one_peer K M F epfd lfd cfd reqs obs"
    and n: "length (totalfds m) = TOTALFDS" "0 < n" "n \<le> int TOTALFDS" "cfd \<noteq> lfd"
    and "seen obs M w v (count_by m (nat (int p mod n)) d)" "\<not> cv_closed v" "cv_interest v = Some ev" "ev AND EPOLLIN \<noteq> 0" "cv_got v @ rest = reqs"
  shows "\<exists>w' ev' x. epoll_server_loop (2 * length rest + j) K M F (int p) n lfd epfd w = epoll_server_loop j K M F (int p) n lfd epfd w' \<and> ev' AND EPOLLIN \<noteq> 0 \<and>
    answers K cfd (length rest) x \<and>
    seen obs M w' (v\<lparr>cv_sent := cv_sent v @ x, cv_got := reqs, cv_interest := Some ev'\<rparr>)
      (count_by m (nat (int p mod n)) (d - int (length rest)))"
  using assms(6-)
proof (induction rest arbitrary: w v d ev)
  case Nil
  then have eq: "v\<lparr>cv_sent := cv_sent v @ [], cv_got := reqs, cv_interest := Some ev\<rparr> = v"
    by (cases v) simp
  show ?case by (intro exI [of _ w] exI [of _ ev] exI [of _ "[]"], unfold eq) (use Nil in \<open>simp add: answers_0\<close>)
next
  case (Cons r rest)
  let ?i = "nat (int p mod n)"
  obtain w1 ev1 i k where w1: "epoll_server_loop (Suc (Suc (2 * length rest + j))) K M F (int p) n lfd epfd w = epoll_server_loop (2 * length rest + j) K M F (int p) n lfd epfd w1"
      "ev1 AND EPOLLIN \<noteq> 0" "i = nat (fst (k_send K k cfd page_response 0))"
      "seen obs M w1 (v\<lparr>cv_sent := cv_sent v @ take i page_response, cv_got := cv_got v @ [r], cv_interest := Some ev1\<rparr>) (count_by m ?i (d - 1))"
    using loop_request [OF P Cons.prems(1-4) Cons.prems(5) n] by blast
  from Cons.IH [OF w1(4) _ _ w1(2)] Cons.prems(2,5) obtain w' ev' x where
    "epoll_server_loop (2 * length rest + j) K M F (int p) n lfd epfd w1 = epoll_server_loop j K M F (int p) n lfd epfd w'" "ev' AND EPOLLIN \<noteq> 0"
    "answers K cfd (length rest) x"
    "seen obs M w' (v\<lparr>cv_sent := cv_sent v @ take i page_response @ x, cv_got := reqs, cv_interest := Some ev'\<rparr>) (count_by m ?i (d - 1 - int (length rest)))"
    by auto
  then show ?case using w1(1) answers_Suc [OF w1(3)]
    by (intro exI [of _ w'] exI [of _ ev'] exI [of _ "take i page_response @ x"]) (simp add: algebra_simps)
qed

text \<open>From the new connection to its end.\<close>

lemma loop_connection:
  assumes P: "one_peer K M F epfd lfd cfd reqs obs" and n: "0 < n" "n \<le> int TOTALFDS" and fds: "cfd \<noteq> lfd" "0 \<le> cfd"
    and w: "seen obs M w v m" "shm_ready m" "\<not> cv_closed v" "cv_interest v = None" "cv_got v = []"
  shows "\<exists>w' ev' x. epoll_server_loop (2 * length reqs + 2 + j) K M F (int p) n lfd epfd w = epoll_server_loop j K M F (int p) n lfd epfd w' \<and>
    answers K cfd (length reqs) x \<and>
    seen obs M w' \<lparr>cv_sent = cv_sent v @ x, cv_got = reqs, cv_interest = Some ev', cv_closed = True\<rparr>
      (count_by m (nat (int p mod n)) (- int (length reqs)))"
proof -
  let ?i = "nat (int p mod n)" and ?loop = "\<lambda>j. epoll_server_loop j K M F (int p) n lfd epfd"
  let ?ev = "EPOLLIN OR EPOLLET OR EPOLLONESHOT"
  have len: "length (totalfds m) = TOTALFDS" using w(2) by (simp add: shm_ready_def)
  then have i: "?i < length (totalfds m)" using slot_ok [OF n, of p] by auto
  have nx: "next_event lfd cfd v = (lfd, EPOLLIN)" using w(4) by (simp add: next_event_def)
  obtain w1 where w1: "?loop (Suc (2 * length reqs + Suc j)) w = ?loop (2 * length reqs + Suc j) w1"
      "seen obs M w1 (v\<lparr>cv_interest := Some ?ev\<rparr>) (count_by m ?i 1)"
    using loop_event [OF P w(1,3), of "int p" n "\<lambda>u. seen obs M u (v\<lparr>cv_interest := Some ?ev\<rparr>) (count_by m ?i 1)" "2 * length reqs + Suc j"]
      event_accept [OF P _ w(2,3) n fds(2), of _ p] nx by auto
  have "?ev AND EPOLLIN \<noteq> 0" by (simp add: EPOLLIN_def EPOLLET_def EPOLLONESHOT_def)
  then obtain w2 ev2 x where w2: "?loop (2 * length reqs + Suc j) w1 = ?loop (Suc j) w2" "ev2 AND EPOLLIN \<noteq> 0" "answers K cfd (length reqs) x"
      "seen obs M w2 (v\<lparr>cv_sent := cv_sent v @ x, cv_got := reqs, cv_interest := Some ev2\<rparr>) (count_by m ?i (1 - int (length reqs)))"
    using loop_requests [OF P len n fds(1) w1(2), of ?ev reqs "Suc j"] w(3,5) by auto
  let ?v = "v\<lparr>cv_sent := cv_sent v @ x, cv_got := reqs, cv_interest := Some ev2\<rparr>"
  let ?m = "count_by m ?i (1 - int (length reqs))"
  have "next_event lfd cfd ?v = (cfd, EPOLLIN)" using w2(2) by (simp add: next_event_def)
  then obtain w3 where w3: "?loop (Suc j) w2 = ?loop j w3" "seen obs M w3 (?v\<lparr>cv_closed := True\<rparr>) (count_by ?m ?i (-1))"
    using loop_event [OF P w2(4), of "int p" n "\<lambda>u. seen obs M u (?v\<lparr>cv_closed := True\<rparr>) (count_by ?m ?i (-1))" j]
      event_end [OF P, of _ ?v ?m n p] w(3) len n fds(1) by auto
  have eq: "?v\<lparr>cv_closed := True\<rparr> = \<lparr>cv_sent = cv_sent v @ x, cv_got = reqs, cv_interest = Some ev2, cv_closed = True\<rparr>"
    by (cases v) simp
  have "2 * length reqs + 2 + j = Suc (2 * length reqs + Suc j)" by simp
  then show ?thesis using w1(1) w2(1,3) w3(1) w3(2) [unfolded eq] count_by_twice [OF i]
    by (intro exI [of _ w3] exI [of _ ev2] exI [of _ x]) simp
qed

subsection \<open>Properties\<close>

text \<open>A peer with two requests, for the witness.\<close>

definition two_requests :: "(client_view \<times> shm_area) kernel" where
  "two_requests = plain_kernel\<lparr>
     k_epoll_wait := (\<lambda>k ep n t. (1, [next_event 5 7 (fst k)], 0, k)), k_accept := (\<lambda>k fd. (7, 0, k)),
     k_epoll_ctl := (\<lambda>k ep oper fd ev. (0, 0, if cv_closed (fst k) \<or> oper = EPOLL_CTL_DEL then k else ((fst k)\<lparr>cv_interest := Some ev\<rparr>, snd k))),
     k_recv := (\<lambda>k fd n f. case drop (length (cv_got (fst k))) [[71], [72]] of [] \<Rightarrow> (0, [], 0, k)
       | r # rs \<Rightarrow> (int (length r), r, 0, ((fst k)\<lparr>cv_got := cv_got (fst k) @ [r]\<rparr>, snd k))),
     k_send := (\<lambda>k fd bs f. (int (length bs), 0, ((fst k)\<lparr>cv_sent := cv_sent (fst k) @ bs\<rparr>, snd k))),
     k_close := (\<lambda>k fd. (0, 0, ((fst k)\<lparr>cv_closed := True\<rparr>, snd k)))\<rparr>"

definition beside :: "('a \<times> shm_area, shm_area) segment" where
  "beside = \<lparr>seg_get = snd, seg_put = (\<lambda>k m. (fst k, m))\<rparr>"

definition plain_flags :: "'k flags" where
  "plain_flags = \<lparr>f_getfl = (\<lambda>k fd. (0, 0, k)), f_setfl = (\<lambda>k fd fl. (0, 0, k))\<rparr>"

definition fresh_view :: client_view where
  "fresh_view = \<lparr>cv_sent = [], cv_got = [], cv_interest = None, cv_closed = False\<rparr>"

lemma two_requests_peer: "one_peer two_requests beside plain_flags 3 5 7 [[71], [72]] fst"
proof -
  have "peer_asks two_requests beside 7 [[71], [72]] fst"
    by (auto simp: peer_asks_def two_requests_def plain_kernel_def beside_def same_view_def append_eq_Cons_conv)
  then show ?thesis
    by (simp add: one_peer_def two_requests_def plain_kernel_def beside_def plain_flags_def same_view_def Let_def)
qed

text \<open>C15.  A connection of \<open>nty_http_epoll.c\<close> from its accept to its end, as the only one of a single process: for a peer that
  sends requests, each arriving in one piece, and closes, the loop registers the events so that, after two iterations
  per request and two for the accept and the end, the page was sent once for each request, the connection is closed and
  the accept lock is free.  The peer gets of each page what the kernel took of the one call of \<open>send\<close>, since the rest is
  never sent, and all of it if the kernel takes every page whole.  The counter of the processor is not what it was
  before but one less for each request, because the branch that sends the page counts the connection as ended
  although it keeps it.\<close>

theorem epoll_connection:
  assumes "one_peer K M F epfd lfd cfd reqs obs" "0 < cpu_size" "cpu_size \<le> int TOTALFDS" "cfd \<noteq> lfd" "0 \<le> cfd"
    and "obs (kern w) = fresh_view" "shm_ready (seg_get M (kern w))"
  shows "\<exists>w'. epoll_server_loop (2 * length reqs + 2 + j) K M F (int p) cpu_size lfd epfd w =
      epoll_server_loop j K M F (int p) cpu_size lfd epfd w' \<and>
    answers K cfd (length reqs) (cv_sent (obs (kern w'))) \<and>
    ((\<forall>k. fst (k_send K k cfd page_response 0) = int (length page_response)) \<longrightarrow>
      cv_sent (obs (kern w')) = concat (replicate (length reqs) page_response)) \<and>
    cv_got (obs (kern w')) = reqs \<and> cv_closed (obs (kern w')) \<and>
    (let m = seg_get M (kern w); m' = seg_get M (kern w'); i = nat (int p mod cpu_size) in
     shm_ready m' \<and> totalfds m' = (totalfds m)[i := to_int (totalfds m ! i - int (length reqs))])"
proof -
  obtain w' ev' x where w': "epoll_server_loop (2 * length reqs + 2 + j) K M F (int p) cpu_size lfd epfd w = epoll_server_loop j K M F (int p) cpu_size lfd epfd w'"
      "answers K cfd (length reqs) x"
      "seen obs M w' \<lparr>cv_sent = x, cv_got = reqs, cv_interest = Some ev', cv_closed = True\<rparr>
        (count_by (seg_get M (kern w)) (nat (int p mod cpu_size)) (- int (length reqs)))"
    using loop_connection [OF assms(1-5), of w fresh_view "seg_get M (kern w)" j p] assms(6,7) by (auto simp: seen_def fresh_view_def)
  then show ?thesis using answers_whole [OF w'(2)] assms(7) by (auto simp: seen_def shm_ready_def count_by_def)
qed

theorem epoll_connection_witness:
  "\<exists>w'. epoll_server_loop 7 two_requests beside plain_flags 6 4 5 3 (thread_on (fresh_view, init_shmvalue)) =
      epoll_server_loop 1 two_requests beside plain_flags 6 4 5 3 w' \<and>
    cv_sent (fst (kern w')) = page_response @ page_response \<and> cv_closed (fst (kern w')) \<and> totalfds (snd (kern w')) ! 2 = -2"
proof -
  let ?w = "thread_on (fresh_view, init_shmvalue)" and ?loop = "\<lambda>n. epoll_server_loop n two_requests beside plain_flags 6 4 5 3"
  have "shm_ready (seg_get beside (kern ?w))"
    by (simp add: shm_ready_def beside_def init_shmvalue_def)
  moreover have "\<And>k. fst (k_send two_requests k 7 page_response 0) = int (length page_response)" by (simp add: two_requests_def)
  ultimately obtain w' where w': "?loop 7 ?w = ?loop 1 w'" "cv_sent (fst (kern w')) = page_response @ page_response" "cv_closed (fst (kern w'))"
      "totalfds (seg_get beside (kern w')) = (totalfds (seg_get beside (kern ?w)))[2 := to_int (totalfds (seg_get beside (kern ?w)) ! 2 - 2)]"
    using epoll_connection [OF two_requests_peer, of 4 ?w 1 6] by (auto simp: TOTALFDS_def Let_def)
  moreover have "totalfds (snd (kern w')) ! 2 = -2"
    using w'(4) by (simp add: beside_def init_shmvalue_def TOTALFDS_def to_int_def)
  ultimately show ?thesis by blast
qed

end
