(* ===== verification/Mulcore_Server.thy ===== *)
theory Mulcore_Server
  imports Httpd
begin

text \<open>
  The coroutines of \<open>sample/nty_server_mulcore.c\<close>: the page, the loops of \<open>add_shmvalue\<close> and \<open>sub_shmvalue\<close> as they run
  inside a process, the coroutine that answers a connection and the coroutine that accepts connections.  The shared memory
  is the record \<open>shm_total\<close> of \<open>Shared_Memory\<close>, where the interleaving of the processes is modelled.  What only prints is left out;
  the forks and the processor affinity are in \<open>Processes\<close>.
\<close>

subsection \<open>The page\<close>

text \<open>\<open>headers\<close> and \<open>body\<close> append to the string in an array and return its length.\<close>

definition mul_headers :: "u8 list \<Rightarrow> (nat \<times> u8 list) option" where
  "mul_headers buffer = do {
     buffer \<leftarrow> strcat_all buffer [line_of ''HTTP/1.0 200 OK'', line_of ''Server: ntyco'', line_of ''Content-Type: text/html'', crlf];
     n \<leftarrow> strlen buffer; Some (n, buffer) }"

definition mul_body :: "u8 list \<Rightarrow> (nat \<times> u8 list) option" where
  "mul_body buffer = do {
     buffer \<leftarrow> strcat buffer (bytes_of ''<html><h1> coroutine --> ntyco<h1></html>'');
     n \<leftarrow> strlen buffer; Some (n, buffer) }"

text \<open>The bytes that \<open>server_reader\<close> sends; \<open>body\<close> works on the array from \<open>hlen\<close> on.\<close>

definition mul_page :: "u8 list option" where
  "mul_page = do {
     (hlen, buf) \<leftarrow> mul_headers (replicate 1024 0);
     (blen, rest) \<leftarrow> mul_body (drop hlen buf);
     c_string (take hlen buf @ rest) }"

text \<open>The response.\<close>

definition mul_response :: "u8 list" where
  "mul_response = line_of ''HTTP/1.0 200 OK'' @ line_of ''Server: ntyco'' @ line_of ''Content-Type: text/html'' @ crlf @
     bytes_of ''<html><h1> coroutine --> ntyco<h1></html>''"

lemma mul_page_ok: "mul_page = Some mul_response"
proof -
  let ?h = "[line_of ''HTTP/1.0 200 OK'', line_of ''Server: ntyco'', line_of ''Content-Type: text/html'', crlf]"
  let ?b = "bytes_of ''<html><h1> coroutine --> ntyco<h1></html>''"
  have zeros: "c_string (replicate 1024 (0 :: u8)) = Some []"
    using c_string_zero [of "[]" "replicate 1023 0"] by (simp add: numeral_eq_Suc)
  have h: "0 \<notin> set (concat ?h)" "length (concat ?h) = 59" "0 \<notin> set ?b" "length ?b = 41"
    by (simp_all add: line_of_def bytes_of_def crlf_def)
  obtain buf where buf: "strcat_all (replicate 1024 0) ?h = Some buf" "c_string buf = Some (concat ?h)" "length buf = 1024"
    using strcat_all_holds [OF zeros, of ?h] h(1,2) by auto
  obtain r where r: "buf = concat ?h @ 0 # r" using buf(2) by (auto simp: c_string_iff)
  have len: "strlen buf = Some (length (concat ?h))" unfolding r by (rule strlen_zero [OF h(1)])
  have rest: "drop (length (concat ?h)) buf = 0 # r" "take (length (concat ?h)) buf = concat ?h" unfolding r by simp_all
  have "c_string (0 # r) = Some []" using c_string_zero [of "[]" r] by simp
  moreover have "length (0 # r) = 965" using r buf(3) h(2) by simp
  ultimately obtain b where b: "strcat (0 # r) ?b = Some b" "c_string b = Some ?b"
    using strcat_holds [of "0 # r" "[]" ?b] h(3,4) by auto
  then obtain r' where r': "b = ?b @ 0 # r'" by (auto simp: c_string_iff)
  have "c_string ((concat ?h @ ?b) @ 0 # r') = Some (concat ?h @ ?b)" using h(1,3) by (intro c_string_zero) simp
  moreover have "mul_headers (replicate 1024 0) = Some (length (concat ?h), buf)" unfolding mul_headers_def buf(1) by (simp add: len)
  moreover have "mul_body (0 # r) = Some (length ?b, b)" unfolding mul_body_def b(1) using strlen_zero [OF h(3), of r'] r' by simp
  ultimately show ?thesis unfolding mul_page_def using rest r' by (simp add: mul_response_def)
qed

subsection \<open>The shared counter\<close>

text \<open>The loop of \<open>add_shmvalue\<close> and \<open>sub_shmvalue\<close>.  \<open>others\<close> lists what the other processes do between the load and the
  exchange of each attempt; the loop may run as long as the list.\<close>

fun shm_loop :: "('k, shm_total) segment \<Rightarrow> (shm_total \<Rightarrow> int \<Rightarrow> (int \<times> shm_total) option) \<Rightarrow> ('k \<Rightarrow> 'k) list \<Rightarrow> 'k world \<Rightarrow> ('k world, int) comp" where
  "shm_loop M attempt [] w = Out_of_fuel"
| "shm_loop M attempt (f # others) w = (let val = sint (total (seg_get M (kern w))); k = f (kern w) in
     case attempt (seg_get M k) val of None \<Rightarrow> Fault
     | Some (ret, m) \<Rightarrow> let w = w\<lparr>kern := seg_put M k m\<rparr> in
         if ret \<noteq> val then shm_loop M attempt others w else Ret (sint (total (seg_get M (kern w)))) w)"

subsection \<open>A connection\<close>

fun mul_loop :: "nat \<Rightarrow> ('k world \<Rightarrow> ('k world, int \<times> u8 list) comp) \<Rightarrow> (u8 list \<Rightarrow> 'k world \<Rightarrow> ('k world, int) comp) \<Rightarrow>
    ('k world \<Rightarrow> ('k world, unit) comp) \<Rightarrow> 'k world \<Rightarrow> ('k world, unit) comp" where
  "mul_loop 0 rcv snd_buf cls w = Out_of_fuel"
| "mul_loop (Suc n) rcv snd_buf cls w = comp_bind (rcv w) (\<lambda>(r, bs) w.
     let ret = to_int r in
     if ret > 0 then (case mul_page of None \<Rightarrow> Fault
       | Some buf \<Rightarrow> comp_bind (snd_buf buf w) (\<lambda>r w.
           if to_int r = -1 then cls w else mul_loop n rcv snd_buf cls w))
     else if ret = 0 then cls w
     else mul_loop n rcv snd_buf cls w)"

definition close_subtract :: "'k kernel \<Rightarrow> ('k, shm_total) segment \<Rightarrow> ('k \<Rightarrow> 'k) list \<Rightarrow> int \<Rightarrow> 'k world \<Rightarrow> ('k world, unit) comp" where
  "close_subtract K M others fd w = comp_bind (nty_close K w fd) (\<lambda>_ w.
     comp_bind (shm_loop M sub_shmvalue others w) (\<lambda>_ w. Ret () w))"

text \<open>\<open>arg\<close> is the address of the variable \<open>cli_fd\<close> of \<open>server\<close>.\<close>

definition mul_reader :: "nat \<Rightarrow> nat \<Rightarrow> 'k kernel \<Rightarrow> ('k, shm_total) segment \<Rightarrow> ('k \<Rightarrow> 'k) list \<Rightarrow> 'k world \<Rightarrow> nat \<Rightarrow> ('k world, unit) comp" where
  "mul_reader n fuel K M others w arg = (case stack_int w arg of None \<Rightarrow> Fault
     | Some fd \<Rightarrow> mul_loop n (\<lambda>w. nty_recv K w fd 1024 0) (\<lambda>bs w. nty_send fuel K w fd bs 0) (close_subtract K M others fd) w)"

subsection \<open>The process\<close>

text \<open>The part of \<open>server\<close> after \<open>nty_coroutine_create\<close>: every thousandth connection stores the time.\<close>

definition count_client :: "'k kernel \<Rightarrow> ('k, shm_total) segment \<Rightarrow> ('k \<Rightarrow> 'k) list \<Rightarrow> 'k world \<Rightarrow> ('k world, unit) comp" where
  "count_client K M others w = comp_bind (shm_loop M add_shmvalue others w) (\<lambda>val w.
     if c_rem val 1000 = 999 then (case k_gettimeofday K (kern w) of ((s, us), k) \<Rightarrow>
       Ret () (w\<lparr>kern := seg_put M k ((seg_get M k)\<lparr>tv_sec := s, tv_usec := us\<rparr>)\<rparr>))
     else Ret () w)"

text \<open>\<open>addr\<close> is where the compiler puts \<open>cli_fd\<close>.\<close>

fun mul_server_loop :: "nat \<Rightarrow> nat \<Rightarrow> 'k kernel \<Rightarrow> ('k, shm_total) segment \<Rightarrow> ('k \<Rightarrow> 'k) list \<Rightarrow> nat \<Rightarrow> nat \<Rightarrow> 'k world \<Rightarrow> int \<Rightarrow> ('k world, unit) comp" where
  "mul_server_loop 0 fuel K M others reader addr w fd = Out_of_fuel"
| "mul_server_loop (Suc n) fuel K M others reader addr w fd = comp_bind (nty_accept fuel K w fd) (\<lambda>cli_fd w.
     comp_bind (lift_opt (set_stack_int w addr cli_fd)) (\<lambda>_ w.
     comp_bind (lift_res (nty_coroutine_create K w reader addr)) (\<lambda>_ w.
     comp_bind (count_client K M others w) (\<lambda>_ w.
     mul_server_loop n fuel K M others reader addr w fd))))"

definition mul_server :: "nat \<Rightarrow> nat \<Rightarrow> 'k kernel \<Rightarrow> 'k net \<Rightarrow> ('k, shm_total) segment \<Rightarrow> ('k \<Rightarrow> 'k) list \<Rightarrow> nat \<Rightarrow> nat \<Rightarrow> 'k world \<Rightarrow> nat \<Rightarrow> ('k world, unit) comp" where
  "mul_server n fuel K N M others reader addr w port = comp_bind (nty_socket K w AF_INET SOCK_STREAM 0) (\<lambda>fd w.
     if fd < 0 then Ret () w
     else mul_server_loop n fuel K M others reader addr (bind_listen N w fd port 20) fd)"

text \<open>The address of \<open>server\<close> is 0 and that of \<open>server_reader\<close> is 1.\<close>

definition mul_code :: "nat \<Rightarrow> nat \<Rightarrow> 'k kernel \<Rightarrow> 'k net \<Rightarrow> ('k, shm_total) segment \<Rightarrow> ('k \<Rightarrow> 'k) list \<Rightarrow> nat \<Rightarrow> 'k code" where
  "mul_code n fuel K N M others addr func arg w =
     (if func = 0 then mul_server n fuel K N M others 1 addr w arg else mul_reader n fuel K M others w arg)"

text \<open>\<open>mulcore_entry\<close>, in a process that has no scheduler yet; \<open>process_bind\<close> calls it with the port 9096.\<close>

definition mulcore_entry :: "nat \<Rightarrow> nat \<Rightarrow> 'k kernel \<Rightarrow> 'k net \<Rightarrow> ('k, shm_total) segment \<Rightarrow> ('k \<Rightarrow> 'k) list \<Rightarrow> nat \<Rightarrow> 'k state \<Rightarrow> nat \<Rightarrow> 'k state option" where
  "mulcore_entry n fuel K N M others addr st begin_port = do {
     (_, w) \<leftarrow> nty_coroutine_create K (fst st) 0 (begin_port mod 2 ^ 16);
     nty_schedule_run K (mul_code n fuel K N M others addr) (w, snd st) }"

subsection \<open>The counter goes down by one\<close>

definition one_less_total :: "shm_total \<Rightarrow> shm_total" where
  "one_less_total m = m\<lparr>total := total m - 1\<rparr>"

text \<open>The counter is positive and the word behind it is zero, as \<open>mul_reachable_inv\<close> shows of the processes while one has a
  connection open that it has counted.\<close>

definition counting :: "shm_total \<Rightarrow> bool" where
  "counting m = (accept_lock m = 0 \<and> 0 < sint (total m))"

lemma sub_attempt:
  assumes "counting m" "0 < val" "val < 2 ^ 31"
  shows "sub_shmvalue m val = Some (sint (total m), if sint (total m) = val then one_less_total m else m)"
proof -
  have "word_of_int (sint (total m) - 1) = total m - 1" by simp
  then show ?thesis
    using cas_total_ok [of m val "val - 1"] assms by (auto simp: counting_def sub_shmvalue_def c_add_def one_less_total_def)
qed

text \<open>An attempt between whose load and exchange nobody changes the counter succeeds; the attempts before it may fail.\<close>

lemma shm_loop_sub:
  assumes "counting (seg_get M (kern w))" "\<forall>f \<in> set others. \<forall>k. counting (seg_get M k) \<longrightarrow> counting (seg_get M (f k))"
    and put: "\<And>k. seg_put M k (seg_get M k) = k" and "\<exists>f \<in> set others. \<forall>k. total (seg_get M (f k)) = total (seg_get M k)"
  shows "\<exists>r w' i. shm_loop M sub_shmvalue others w = Ret r w' \<and> i < length others \<and>
    (let k = fold (\<lambda>f. f) (take (Suc i) others) (kern w) in kern w' = seg_put M k (one_less_total (seg_get M k)))"
  using assms(1,2,4)
proof (induction others arbitrary: w)
  case (Cons f others)
  let ?val = "sint (total (seg_get M (kern w)))" and ?k = "f (kern w)"
  have val: "0 < ?val" "?val < 2 ^ 31" using Cons.prems(1) sint_range by (auto simp: counting_def)
  have k: "counting (seg_get M ?k)" using Cons.prems(1,2) by simp
  note att = sub_attempt [OF k val]
  show ?case
  proof (cases "sint (total (seg_get M ?k)) = ?val")
    case True
    then show ?thesis using att by (auto simp: Let_def intro!: exI [of _ 0])
  next
    case False
    then have "\<exists>f \<in> set others. \<forall>k. total (seg_get M (f k)) = total (seg_get M k)" using Cons.prems(3) by auto
    from Cons.IH [OF _ _ this, of "w\<lparr>kern := ?k\<rparr>"] k Cons.prems(2) obtain r w' i where
      "shm_loop M sub_shmvalue others (w\<lparr>kern := ?k\<rparr>) = Ret r w'" "i < length others"
      "let k = fold (\<lambda>f. f) (take (Suc i) others) ?k in kern w' = seg_put M k (one_less_total (seg_get M k))" by auto
    then show ?thesis using False att put by (auto simp: Let_def intro!: exI [of _ "Suc i"])
  qed
qed simp

subsection \<open>Answering\<close>

text \<open>What is observed of a connection, and whether the counter is positive, which others leave so while the connection is
  open.\<close>

definition counted :: "('k \<Rightarrow> 'o) \<Rightarrow> ('k, shm_total) segment \<Rightarrow> 'k \<Rightarrow> 'o \<times> bool" where
  "counted obs M k = (obs k, counting (seg_get M k))"

definition put_counted :: "(u8 list \<times> u8 list list) \<times> bool \<Rightarrow> u8 list \<Rightarrow> (u8 list \<times> u8 list list) \<times> bool" where
  "put_counted x bs = (put_reply (fst x) bs, snd x)"

interpretation counted_replies: byte_sink put_counted
  by unfold_locales (simp_all add: put_counted_def replies.put_nil replies.put_append)

lemma received_counted:
  assumes "received K (counted obs M) a fd 1024 0 w x w'"
    and "\<And>k. counting (seg_get M (snd (snd (snd (k_recv K k fd 1024 0))))) = counting (seg_get M k)"
  shows "received K obs a fd 1024 0 w x w'" "counting (seg_get M (kern w')) = counting (seg_get M (kern w))"
proof -
  obtain v where v: "running a fd w'" "running a fd v" "obs (kern v) = obs (kern w)" "counting (seg_get M (kern v)) = counting (seg_get M (kern w))"
      "recv_result K fd 1024 0 v x w'"
    using assms(1) by (auto simp: received_def counted_def)
  then show "received K obs a fd 1024 0 w x w'" by (auto simp: received_def)
  have "kern w' = snd (snd (snd (k_recv K (kern v) fd 1024 0)))" using v(5) by (auto simp: recv_result_def split: prod.splits)
  then show "counting (seg_get M (kern w')) = counting (seg_get M (kern w))" using assms(2) v(4) by simp
qed

text \<open>What \<open>server_reader\<close> leaves: a page for each request, then the close, then one less in the counter.\<close>

definition mul_closed :: "'k kernel \<Rightarrow> ('k, shm_total) segment \<Rightarrow> ('k \<Rightarrow> 'k) list \<Rightarrow> int \<Rightarrow> 'k \<Rightarrow> 'k \<Rightarrow> bool" where
  "mul_closed K M others fd k k' = (\<exists>i < length others.
     let u = fold (\<lambda>f. f) (take (Suc i) others) (snd (snd (k_close K k fd))) in k' = seg_put M u (one_less_total (seg_get M u)))"

definition mul_answered :: "('k \<Rightarrow> 'k \<Rightarrow> bool) \<Rightarrow> ('k \<Rightarrow> u8 list \<times> u8 list list) \<Rightarrow> 'k world \<Rightarrow> u8 list list \<Rightarrow> unit \<Rightarrow> 'k world \<Rightarrow> bool" where
  "mul_answered fin obs w rest = (\<lambda>_ w'. \<exists>k.
     obs k = (fst (obs (kern w)) @ concat (replicate (length rest) mul_response), snd (obs (kern w)) @ rest) \<and> fin k (kern w'))"

lemma close_subtract_ok:
  assumes "counting (seg_get M (snd (snd (k_close K (kern w) fd))))"
    and "\<forall>f \<in> set others. \<forall>k. counting (seg_get M k) \<longrightarrow> counting (seg_get M (f k))" "\<And>k. seg_put M k (seg_get M k) = k"
    and "\<exists>f \<in> set others. \<forall>k. total (seg_get M (f k)) = total (seg_get M k)"
  shows "always E (\<lambda>_ w'. mul_closed K M others fd (kern w) (kern w')) (close_subtract K M others fd w)"
proof -
  obtain r v where v: "close K w fd = Ret r v" "kern v = snd (snd (k_close K (kern w) fd))" using close_ret by blast
  from shm_loop_sub [OF _ assms(2-4), of v] assms(1) v show ?thesis
    by (auto simp: close_subtract_def nty_close_def mul_closed_def)
qed

lemma mul_loop_all:
  assumes rcv: "\<And>w. running a fd w \<Longrightarrow> always E (received K (counted obs M) a fd 1024 0 w) (rcv w)"
    and keep: "\<And>k. counting (seg_get M (snd (snd (snd (k_recv K k fd 1024 0))))) = counting (seg_get M k)"
    and send: "\<And>w. running a fd w \<Longrightarrow> always E (\<lambda>r w'. r = int (length mul_response) \<and> running a fd w' \<and>
      counted obs M (kern w') = put_counted (counted obs M (kern w)) mul_response) (snd_buf mul_response w)"
    and cls: "\<And>v. counting (seg_get M (kern v)) \<Longrightarrow> always E (\<lambda>_ w'. fin (kern v) (kern w')) (cls v)"
    and ask: "asking K fd obs reqs"
    and run: "running a fd w" "snd (obs (kern w)) @ rest = reqs" "counting (seg_get M (kern w))" "length rest < fuel"
  shows "always E (mul_answered fin obs w rest) (mul_loop fuel rcv snd_buf cls w)"
  using run
proof (induction fuel arbitrary: w rest)
  case (Suc fuel)
  let ?Q = "mul_answered fin obs w rest"
  have page: "to_int (int (length mul_response)) \<noteq> -1"
    by (simp add: mul_response_def line_of_def bytes_of_def crlf_def to_int_small)
  show ?case
    unfolding mul_loop.simps
  proof (rule always_bind, rule always_mono [OF rcv [OF Suc.prems(1)]], goal_cases)
    case (1 x v)
    have cnt: "counting (seg_get M (kern v))" using received_counted(2) [OF 1 keep] Suc.prems(3) by simp
    note x = received_asking [OF received_counted(1) [OF 1 keep] ask Suc.prems(2)]
    show ?case
    proof (cases rest)
      case Nil
      then have "always E ?Q (cls v)"
        using x by (intro always_mono [OF cls [OF cnt]]) (auto simp: mul_answered_def)
      then show ?thesis using x Nil by (simp add: to_int_def)
    next
      case (Cons r rs)
      have num: "to_int (int (length r)) = int (length r)" "0 < length r" using x Cons by (auto simp: to_int_small)
      have "always E ?Q (mul_loop fuel rcv snd_buf cls u)"
        if u: "running a fd u \<and> obs (kern u) = put_reply (obs (kern v)) mul_response \<and> counting (seg_get M (kern u))" for u
      proof -
        have "mul_answered fin obs u rs = ?Q" using u x Cons by (simp add: mul_answered_def put_reply_def)
        then show ?thesis using Suc.IH [of u rs] Suc.prems(2,4) u x Cons by (simp add: put_reply_def)
      qed
      then have "always E (\<lambda>r u. always E ?Q (if to_int r = -1 then cls u else mul_loop fuel rcv snd_buf cls u)) (snd_buf mul_response v)"
        by (intro always_mono [OF send [OF conjunct1 [OF x]]]) (use page cnt in \<open>auto simp: counted_def put_counted_def\<close>)
      from always_bind [OF this] show ?thesis using x Cons num by (simp add: Let_def mul_page_ok)
    qed
  qed
qed simp

subsection \<open>Properties\<close>

text \<open>A peer that sends two requests, and a segment beside it, for the witness.\<close>

definition mul_kernel :: "((u8 list \<times> u8 list list) \<times> shm_total) kernel" where
  "mul_kernel = plain_kernel\<lparr>
     k_recv := (\<lambda>k fd n f. case drop (length (snd (fst k))) [[71], [72]] of [] \<Rightarrow> (0, [], 0, k)
       | r # rs \<Rightarrow> (int (length r), r, 0, ((fst (fst k), snd (fst k) @ [r]), snd k))),
     k_send := (\<lambda>k fd bs f. (1, 0, (put_reply (fst k) (take 1 bs), snd k)))\<rparr>"

definition mul_segment :: "((u8 list \<times> u8 list list) \<times> shm_total, shm_total) segment" where
  "mul_segment = \<lparr>seg_get = snd, seg_put = (\<lambda>k m. (fst k, m))\<rparr>"

lemma mul_kernel_ok:
  "calm mul_kernel (counted fst mul_segment)" "accepting put_counted mul_kernel fd (counted fst mul_segment)"
  "asking mul_kernel fd fst [[71], [72]]"
  "counting (seg_get mul_segment (snd (snd (snd (k_recv mul_kernel k fd 1024 0))))) = counting (seg_get mul_segment k)"
  "counting (seg_get mul_segment (snd (snd (k_close mul_kernel k fd)))) = counting (seg_get mul_segment k)"
proof -
  show "calm mul_kernel (counted fst mul_segment)" by (simp add: calm_def mul_kernel_def plain_kernel_def)
  show "accepting put_counted mul_kernel fd (counted fst mul_segment)"
    by (auto simp: accepting_def mul_kernel_def plain_kernel_def counted_def put_counted_def mul_segment_def Suc_le_eq)
  show "asking mul_kernel fd fst [[71], [72]]"
    by (auto simp: asking_def mul_kernel_def plain_kernel_def append_eq_Cons_conv)
qed (auto simp: mul_kernel_def plain_kernel_def mul_segment_def split: list.split)

text \<open>C27.  A connection of \<open>nty_server_mulcore.c\<close>: for a peer that sends requests, each arriving in one piece, and then closes,
  the coroutine that finds the descriptor at the address it was given sends the complete page once for each request,
  then closes the connection, and then takes one from the shared counter: the loop of \<open>sub_shmvalue\<close> ends, at the latest with
  the first attempt during which no other process changes the counter, and loses none of their changes.  The counter is
  positive when the coroutine starts, and others leave it positive until the coroutine has taken its one (\<open>mul_reachable_inv\<close> shows
  that of the processes); afterwards it may be 0.\<close>

theorem mul_reader_answers:
  assumes "calm K (counted obs M)" "accepting put_counted K fd (counted obs M)" "asking K fd obs reqs"
    and "\<And>k. counting (seg_get M (snd (snd (snd (k_recv K k fd 1024 0))))) = counting (seg_get M k)"
    and "\<And>k. counting (seg_get M (snd (snd (k_close K k fd)))) = counting (seg_get M k)"
    and "running a fd w" "snd (obs (kern w)) = []" "counting (seg_get M (kern w))"
    and "stack_int w arg = Some fd" "length reqs < n" "1024 \<le> fuel"
    and "\<And>k. seg_put M k (seg_get M k) = k" "\<And>k m. seg_get M (seg_put M k m) = m"
    and "\<forall>f \<in> set others. \<forall>k. counting (seg_get M k) \<longrightarrow> counting (seg_get M (f k))"
    and "\<exists>f \<in> set others. \<forall>k. total (seg_get M (f k)) = total (seg_get M k)"
  shows "always (wakes (counted obs M) a fd) (\<lambda>_ w'. \<exists>k i u. obs k = (fst (obs (kern w)) @ concat (replicate (length reqs) mul_response), reqs) \<and>
      i < length others \<and> u = fold (\<lambda>f. f) (take (Suc i) others) (snd (snd (k_close K k fd))) \<and>
      kern w' = seg_put M u (one_less_total (seg_get M u)) \<and> total (seg_get M (kern w')) = total (seg_get M u) - 1)
    (mul_reader n fuel K M others w arg)"
proof -
  have page: "mul_response \<noteq> []" "int (length mul_response) \<le> INT_MAX" "length mul_response \<le> fuel"
    using assms(11) by (simp_all add: mul_response_def line_of_def bytes_of_def crlf_def INT_MAX_def)
  have "always (wakes (counted obs M) a fd) (mul_answered (mul_closed K M others fd) obs w reqs) (mul_reader n fuel K M others w arg)"
    unfolding mul_reader_def assms(9) option.case
  proof (rule mul_loop_all [OF _ assms(4) _ _ assms(3,6)])
    show "always (wakes (counted obs M) a fd) (received K (counted obs M) a fd 1024 0 w) (nty_recv K w fd 1024 0)" if "running a fd w" for w
      using nty_recv_waits [OF that assms(1)] .
    show "always (wakes (counted obs M) a fd) (\<lambda>_ w'. mul_closed K M others fd (kern v) (kern w')) (close_subtract K M others fd v)"
      if "counting (seg_get M (kern v))" for v
      by (rule close_subtract_ok [OF _ assms(14,12,15)]) (simp add: assms(5) that)
  qed (use assms(7,8,10) page counted_replies.nty_send_everything [OF assms(2,1)] in auto)
  moreover have "total (seg_get M (seg_put M u (one_less_total m))) = total m - 1" for u m by (simp add: assms(13) one_less_total_def)
  ultimately show ?thesis by (elim always_mono) (simp add: mul_answered_def mul_closed_def assms(7) Let_def, metis)
qed

text \<open>The last connection: the counter goes from 1 to 0, as the segment shows.\<close>

definition one_counted :: shm_total where
  "one_counted = \<lparr>total = 1, accept_lock = 0, tv_sec = 0, tv_usec = 0\<rparr>"

theorem mul_reader_answers_witness:
  "always (wakes (counted fst mul_segment) 1 0x04030201) (\<lambda>_ w'. \<exists>k. fst k = (mul_response @ mul_response, [[71], [72]]) \<and>
      total (seg_get mul_segment (kern w')) = total (seg_get mul_segment (snd (snd (k_close mul_kernel k 0x04030201)))) - 1)
    (mul_reader 3 1024 mul_kernel mul_segment [\<lambda>k. k] (thread_on (([], []), one_counted)) 0)"
proof -
  have one: "counting (seg_get mul_segment (kern (thread_on (([], []), one_counted))))"
    by (simp add: counting_def mul_segment_def one_counted_def)
  have h: "length [[71], [72 :: u8]] < 3" "snd (fst (kern (thread_on (([], [] :: u8 list list), one_counted)))) = []"
    "\<And>k. seg_put mul_segment k (seg_get mul_segment k) = k" "\<And>k m. seg_get mul_segment (seg_put mul_segment k m) = m"
    by (simp_all add: mul_segment_def)
  show ?thesis
    by (rule always_mono [OF mul_reader_answers [OF mul_kernel_ok thread_running h(2) one thread_stack_int h(1) order_refl h(3,4)]])
      (auto simp: numeral_2_eq_2)
qed

end
