(* ===== verification/Mulcore_Http.thy ===== *)
theory Mulcore_Http
  imports Http_Server
begin

text \<open>
  The request handling of \<open>sample/nty_http_server_mulcore.c\<close> (its \<open>ENABLE_NTYCO\<close> build).  It differs from that of
  \<open>nty_http_server.c\<close> in the sizes of its arrays (16, 32 and 64 bytes for the method, the URL and the path), which are
  modelled as arrays here; in its responses, which are put together in one array and sent with one call; and in what it
  serves, which is one fixed page.  The loops over the request line and \<open>get_line\<close> are the same.
\<close>

subsection \<open>Responses\<close>

text \<open>The text put together in an array by \<open>sprintf\<close> and \<open>strcat\<close>; \<open>junk\<close> is what the array held.\<close>

definition one_text :: "u8 list \<Rightarrow> u8 list list \<Rightarrow> u8 list option" where
  "one_text junk ts = do { buf \<leftarrow> strcpy junk (hd ts); buf \<leftarrow> strcat_all buf (tl ts); c_string buf }"

definition send_one :: "nat \<Rightarrow> 'k kernel \<Rightarrow> 'k world \<Rightarrow> int \<Rightarrow> u8 list option \<Rightarrow> ('k world, unit) comp" where
  "send_one fuel K w cli txt = (case txt of None \<Rightarrow> Fault
     | Some t \<Rightarrow> comp_bind (nty_send fuel K w cli t 0) (\<lambda>_ w. Ret () w))"

definition mc_headers :: "u8 list option" where
  "mc_headers = one_text (replicate 1024 0) [line_of ''HTTP/1.0 200 OK'', SERVER_STRING, line_of ''Content-Type: text/html'', crlf]"

definition mc_not_found :: "u8 list \<Rightarrow> u8 list option" where
  "mc_not_found junk = one_text junk [line_of ''HTTP/1.0 404 NOT FOUND'', SERVER_STRING, line_of ''Content-Type: text/html'', crlf,
     line_of ''<HTML><TITLE>Not Found</TITLE>'', line_of ''<BODY><P>The server could not fulfill'',
     line_of ''your request because the resource specified'', line_of ''is unavailable or nonexistent.'',
     line_of ''</BODY></HTML>'']"

definition mc_unimplemented :: "u8 list \<Rightarrow> u8 list option" where
  "mc_unimplemented junk = one_text junk [line_of ''HTTP/1.0 501 Method Not Implemented'', SERVER_STRING, line_of ''Content-Type: text/html'', crlf,
     line_of ''<HTML><HEAD><TITLE>Method Not Implemented'', line_of ''</TITLE></HEAD>'',
     line_of ''<BODY><P>HTTP request method not supported.'', line_of ''</BODY></HTML>'']"

text \<open>The build without coroutines sends the same responses line by line.\<close>

definition mc_headers_lines :: "u8 list list" where
  "mc_headers_lines = [line_of ''HTTP/1.0 200 OK'', SERVER_STRING, line_of ''Content-Type: text/html'', crlf]"

definition mc_not_found_lines :: "u8 list list" where
  "mc_not_found_lines = [line_of ''HTTP/1.0 404 NOT FOUND'', SERVER_STRING, line_of ''Content-Type: text/html'', crlf,
     line_of ''<HTML><TITLE>Not Found</TITLE>'', line_of ''<BODY><P>The server could not fulfill'',
     line_of ''your request because the resource specified'', line_of ''is unavailable or nonexistent.'',
     line_of ''</BODY></HTML>'']"

definition mc_unimplemented_lines :: "u8 list list" where
  "mc_unimplemented_lines = [line_of ''HTTP/1.0 501 Method Not Implemented'', SERVER_STRING, line_of ''Content-Type: text/html'', crlf,
     line_of ''<HTML><HEAD><TITLE>Method Not Implemented'', line_of ''</TITLE></HEAD>'',
     line_of ''<BODY><P>HTTP request method not supported.'', line_of ''</BODY></HTML>'']"

text \<open>The page; its source has six tabs at the start of each line but the first.\<close>

definition MC_PAGE :: "u8 list" where
  \<open>MC_PAGE = bytes_of ''<HTML> '' @ concat (map (\<lambda>s. replicate 6 9 @ bytes_of s) [
     ''<TITLE>Index</TITLE> '', ''<BODY> '', ''<P>Welcome to J. David's webserver.'', ''<H1>CGI demo '',
     ''<FORM ACTION="color.cgi" METHOD="POST">'', ''Enter a color: <INPUT TYPE="text" NAME="color">'',
     ''<INPUT TYPE="submit">'', ''</FORM>'', ''</BODY>'', ''</HTML>''])\<close>

definition mc_cat :: "nat \<Rightarrow> 'k kernel \<Rightarrow> 'k world \<Rightarrow> int \<Rightarrow> ('k world, unit) comp" where
  "mc_cat fuel K w cli = send_one fuel K w cli (do { buf \<leftarrow> strcpy (replicate 1024 0) MC_PAGE; c_string buf })"

definition mc_serve_file :: "nat \<Rightarrow> 'k kernel \<Rightarrow> 'k world \<Rightarrow> int \<Rightarrow> ('k world, unit) comp" where
  "mc_serve_file fuel K w cli = comp_bind (send_one fuel K w cli mc_headers) (\<lambda>_ w. mc_cat fuel K w cli)"

subsection \<open>A connection\<close>

text \<open>What the arrays of \<open>accept_request\<close>, and the array of the response functions, hold before they are written.\<close>

record mc_arrays =
  a_buf :: "u8 list"
  a_method :: "u8 list"
  a_url :: "u8 list"
  a_path :: "u8 list"
  a_text :: "u8 list"

definition mc_sizes :: "mc_arrays \<Rightarrow> bool" where
  "mc_sizes A = (length (a_buf A) = 1024 \<and> length (a_method A) = 16 \<and> length (a_url A) = 32 \<and> length (a_path A) = 64 \<and>
     length (a_text A) = 1024)"

text \<open>The part of \<open>accept_request\<close> before \<open>stat\<close>: the array \<open>path\<close>, or no path for an unknown method.\<close>

definition mc_parse :: "mc_arrays \<Rightarrow> u8 list \<Rightarrow> nat \<Rightarrow> u8 list option option" where
  "mc_parse A buf numchars = do {
     (j, dst) \<leftarrow> method_loop 15 buf 0 [];
     arr \<leftarrow> memcpy (a_method A) 0 (dst @ [0]);
     method \<leftarrow> c_string arr;
     if strcasecmp method (bytes_of ''GET'') \<and> strcasecmp method (bytes_of ''POST'') then Some None
     else do {
       j \<leftarrow> skip_loop (numchars - j) buf j;
       dst \<leftarrow> url_loop (min 31 (numchars - j)) buf j [];
       arr \<leftarrow> memcpy (a_url A) 0 (dst @ [0]);
       url \<leftarrow> c_string arr;
       let url = (if \<not> strcasecmp method (bytes_of ''GET'') then takeWhile (\<lambda>c. c \<noteq> 63) url else url);
       path \<leftarrow> strcpy (a_path A) (bytes_of ''htdocs'' @ url);
       p \<leftarrow> c_string path;
       path \<leftarrow> (if last p = 47 then strcat path (bytes_of ''index.html'') else Some path);
       Some (Some path) } }"

definition mc_accept_request :: "nat \<Rightarrow> nat \<Rightarrow> 'k kernel \<Rightarrow> files \<Rightarrow> mc_arrays \<Rightarrow> 'k world \<Rightarrow> nat \<Rightarrow> ('k world, unit) comp" where
  "mc_accept_request n fuel K F A w arg = (let cli = arg_int arg in
     comp_bind (nty_recv K w cli 1024 0) (\<lambda>(r, bs) w.
     let numchars = nat (r mod 2 ^ 64) in
     case memcpy (a_buf A) 0 bs of None \<Rightarrow> Fault
     | Some buf \<Rightarrow> (case mc_parse A buf numchars of None \<Rightarrow> Fault
       | Some None \<Rightarrow> send_one fuel K w cli (mc_unimplemented (a_text A))
       | Some (Some path) \<Rightarrow> (case c_string path of None \<Rightarrow> Fault
         | Some p \<Rightarrow> comp_bind (case stat F p of
               None \<Rightarrow> comp_bind (discard_loop n K w cli numchars buf) (\<lambda>_ w. send_one fuel K w cli (mc_not_found (a_text A)))
             | Some mode \<Rightarrow>
                 if mode AND S_IFMT = S_IFDIR \<and> strcat path (bytes_of ''/index.html'') = None then Fault
                 else mc_serve_file fuel K w cli) (\<lambda>_ w.
             comp_bind (nty_close K w cli) (\<lambda>_ w. Ret () w))))))"

subsection \<open>The process\<close>

definition mc_server :: "nat \<Rightarrow> nat \<Rightarrow> 'k kernel \<Rightarrow> 'k net \<Rightarrow> nat \<Rightarrow> 'k world \<Rightarrow> nat \<Rightarrow> ('k world, unit option) comp" where
  "mc_server n fuel K N handler w port = comp_bind (nty_socket K w AF_INET SOCK_STREAM 0) (\<lambda>fd w.
     if fd < 0 then Ret (Some ()) w
     else http_server_loop n fuel K handler (bind_listen N w fd port 20) fd)"

text \<open>The address of \<open>server\<close> is 0 and that of \<open>accept_request\<close> is 1.  The process ends when \<open>server\<close> calls \<open>exit\<close>, which
  ends the run: a fault here.\<close>

definition mc_code :: "nat \<Rightarrow> nat \<Rightarrow> 'k kernel \<Rightarrow> 'k net \<Rightarrow> files \<Rightarrow> mc_arrays \<Rightarrow> 'k code" where
  "mc_code n fuel K N F A func arg w =
     (if func = 0 then comp_bind (mc_server n fuel K N 1 w arg) (\<lambda>r w. case r of None \<Rightarrow> Fault | Some _ \<Rightarrow> Ret () w)
      else mc_accept_request n fuel K F A w arg)"

definition mc_entry :: "nat \<Rightarrow> nat \<Rightarrow> 'k kernel \<Rightarrow> 'k net \<Rightarrow> files \<Rightarrow> mc_arrays \<Rightarrow> 'k state \<Rightarrow> nat \<Rightarrow> 'k state option" where
  "mc_entry n fuel K N F A st begin_port = do {
     (_, w) \<leftarrow> nty_coroutine_create K (fst st) 0 (begin_port mod 2 ^ 16);
     nty_schedule_run K (mc_code n fuel K N F A) (w, snd st) }"

subsection \<open>The loops stay inside the request\<close>

lemma method_loop_total:
  "i + n < length buf \<Longrightarrow> \<exists>d. method_loop n buf i dst = Some (i + length d, dst @ d) \<and> length d \<le> n"
proof (induction n arbitrary: i dst)
  case (Suc n)
  show ?case
  proof (cases "isspace (buf ! i)")
    case False
    obtain d where "method_loop n buf (Suc i) (dst @ [buf ! i]) = Some (Suc i + length d, (dst @ [buf ! i]) @ d)" "length d \<le> n"
      using Suc.IH [of "Suc i" "dst @ [buf ! i]"] Suc.prems by auto
    then show ?thesis using False Suc.prems by (intro exI [of _ "buf ! i # d"]) simp
  qed (use Suc.prems in auto)
qed auto

lemma url_loop_total: "j + n < length buf \<Longrightarrow> \<exists>d. url_loop n buf j dst = Some (dst @ d) \<and> length d \<le> n"
proof (induction n arbitrary: j dst)
  case (Suc n)
  show ?case
  proof (cases "isspace (buf ! j)")
    case False
    obtain d where "url_loop n buf (Suc j) (dst @ [buf ! j]) = Some ((dst @ [buf ! j]) @ d)" "length d \<le> n"
      using Suc.IH [of "Suc j" "dst @ [buf ! j]"] Suc.prems by auto
    then show ?thesis using False Suc.prems by (intro exI [of _ "buf ! j # d"]) simp
  qed (use Suc.prems in auto)
qed auto

lemma skip_loop_total: "j + n < length buf \<Longrightarrow> \<exists>k. skip_loop n buf j = Some k \<and> j \<le> k \<and> k \<le> j + n"
proof (induction n arbitrary: j)
  case (Suc n)
  show ?case
  proof (cases "isspace (buf ! j)")
    case True
    then show ?thesis using Suc.IH [of "Suc j"] Suc.prems by auto
  qed (use Suc.prems in auto)
qed auto

text \<open>Storing a word with its zero into an array.\<close>

lemma c_string_word: "c_string (d @ 0 # r) = Some (string_of d)"
proof -
  have "takeWhile (\<lambda>c. c \<noteq> 0) (d @ 0 # r) = string_of d" by (simp add: takeWhile_tail string_of_def)
  moreover have "take (length (string_of d)) (d @ 0 # r) = string_of d"
    by (simp add: string_of_def takeWhile_eq_take [symmetric] length_takeWhile_le)
  ultimately show ?thesis by (simp add: c_string_def strlen_def)
qed

lemma store_word: "length d < length a \<Longrightarrow> \<exists>a'. memcpy a 0 (d @ [0]) = Some a' \<and> c_string a' = Some (string_of d)"
  by (simp add: c_string_word)

lemma string_of_props: "0 \<notin> set (string_of d)" "length (string_of d) \<le> length d"
  by (auto simp: string_of_def length_takeWhile_le dest: set_takeWhileD)

text \<open>The path of a URL that fits its array.\<close>

lemma path_stored:
  assumes "length a = 64" "0 \<notin> set url" "length url \<le> 31"
  shows "\<exists>path. do { path \<leftarrow> strcpy a (bytes_of ''htdocs'' @ url); p \<leftarrow> c_string path;
      path \<leftarrow> (if last p = 47 then strcat path (bytes_of ''index.html'') else Some path); Some (Some path) } = Some (Some path) \<and>
    c_string path = Some (path_of url) \<and> length path = 64"
proof -
  let ?p = "bytes_of ''htdocs'' @ url"
  have p: "0 \<notin> set ?p" "length ?p \<le> 37" using assms(2,3) by (auto simp: bytes_of_def)
  obtain path where path: "strcpy a ?p = Some path" "c_string path = Some ?p" "length path = 64"
    using strcpy_holds [OF p(1), of a] p(2) assms(1) by auto
  have "0 \<notin> set (bytes_of ''index.html'')" "length ?p + length (bytes_of ''index.html'') < length path"
    using p(2) path(3) by (simp_all add: bytes_of_def)
  from strcat_holds [OF path(2) this] show ?thesis using path by (auto simp: path_of_def Let_def)
qed

lemma path_of_length: "length (path_of url) \<le> length url + 16"
  by (simp add: path_of_def Let_def bytes_of_def)

text \<open>\<open>mc_parse\<close> on a request that does not fill the buffer.\<close>

lemma mc_parse_cases:
  assumes "mc_sizes A" "length buf = 1024" "numchars < 1024"
  obtains j d where "method_loop 15 buf 0 [] = Some (j, d)" "mc_parse A buf numchars = Some None"
      "strcasecmp (string_of d) (bytes_of ''GET'')" "strcasecmp (string_of d) (bytes_of ''POST'')"
  | j d k u path where "method_loop 15 buf 0 [] = Some (j, d)" "skip_loop (numchars - j) buf j = Some k"
      "url_loop (min 31 (numchars - k)) buf k [] = Some u" "length u \<le> 31"
      "\<not> (strcasecmp (string_of d) (bytes_of ''GET'') \<and> strcasecmp (string_of d) (bytes_of ''POST''))"
      "mc_parse A buf numchars = Some (Some path)" "length path = 64"
      "c_string path = Some (path_of (if \<not> strcasecmp (string_of d) (bytes_of ''GET'') then takeWhile (\<lambda>c. c \<noteq> 63) (string_of u) else string_of u))"
proof -
  obtain d where m: "method_loop 15 buf 0 [] = Some (length d, d)" "length d \<le> 15"
    using method_loop_total [of 0 15 buf "[]"] assms(2) by auto
  obtain ma where ma: "memcpy (a_method A) 0 (d @ [0]) = Some ma" "c_string ma = Some (string_of d)"
    using store_word [of d "a_method A"] m(2) assms(1) by (auto simp: mc_sizes_def)
  show thesis
  proof (cases "strcasecmp (string_of d) (bytes_of ''GET'') \<and> strcasecmp (string_of d) (bytes_of ''POST'')")
    case True
    then show thesis using that(1) [OF m(1)] m ma by (simp add: mc_parse_def)
  next
    case False
    have "length d + (numchars - length d) < 1024" using m(2) assms(3) by linarith
    then obtain k where k: "skip_loop (numchars - length d) buf (length d) = Some k" "k \<le> length d + (numchars - length d)"
      using skip_loop_total [of "length d" "numchars - length d" buf] assms(2) by auto
    then have "k + min 31 (numchars - k) < 1024" using m(2) assms(3) by linarith
    then obtain u where u: "url_loop (min 31 (numchars - k)) buf k [] = Some u" "length u \<le> 31"
      using url_loop_total [of k "min 31 (numchars - k)" buf "[]"] assms(2) by auto
    obtain ua where ua: "memcpy (a_url A) 0 (u @ [0]) = Some ua" "c_string ua = Some (string_of u)"
      using store_word [of u "a_url A"] u(2) assms(1) by (auto simp: mc_sizes_def)
    define v where "v = (if \<not> strcasecmp (string_of d) (bytes_of ''GET'') then takeWhile (\<lambda>c. c \<noteq> 63) (string_of u) else string_of u)"
    have v: "0 \<notin> set v" "length v \<le> 31"
      using string_of_props [of u] u(2) length_takeWhile_le [of "\<lambda>c. c \<noteq> 63" "string_of u"]
      by (auto simp: v_def dest: set_takeWhileD)
    obtain path where path: "do { path \<leftarrow> strcpy (a_path A) (bytes_of ''htdocs'' @ v); p \<leftarrow> c_string path;
      path \<leftarrow> (if last p = 47 then strcat path (bytes_of ''index.html'') else Some path); Some (Some path) } = Some (Some path)"
      "c_string path = Some (path_of v)" "length path = 64"
      using path_stored [OF _ v, of "a_path A"] assms(1) by (auto simp: mc_sizes_def)
    have "mc_parse A buf numchars = Some (Some path)"
      using m ma k u ua False path(1) by (simp add: mc_parse_def Let_def v_def)
    then show thesis using that(2) [OF m(1) k(1) u False _ path(3)] path(2) by (simp add: v_def)
  qed
qed

text \<open>A smaller bound on the copied bytes does not matter when it is not reached.\<close>

lemma method_loop_ge: "method_loop n buf i d = Some (j, r) \<Longrightarrow> i \<le> j \<and> j \<le> i + n"
  by (induction n arbitrary: i d) (fastforce split: option.splits if_splits)+

lemma method_loop_less: "method_loop n buf i d = Some (j, r) \<Longrightarrow> j \<le> i + m \<Longrightarrow> m \<le> n \<Longrightarrow> method_loop m buf i d = Some (j, r)"
proof (induction m arbitrary: n i d)
  case 0
  then show ?case by (cases n) (auto split: option.splits if_splits dest: method_loop_ge)
next
  case (Suc m)
  then obtain n' where "n = Suc n'" by (cases n) auto
  then show ?case using Suc.prems Suc.IH by (auto split: option.splits if_splits)
qed

lemma url_loop_length: "url_loop n buf j d = Some r \<Longrightarrow> length d \<le> length r \<and> length r \<le> length d + n"
  by (induction n arbitrary: j d) (fastforce split: option.splits if_splits)+

lemma url_loop_less: "url_loop n buf j d = Some r \<Longrightarrow> length r \<le> length d + m \<Longrightarrow> m \<le> n \<Longrightarrow> url_loop m buf j d = Some r"
proof (induction m arbitrary: n j d)
  case 0
  then show ?case by (cases n) (auto split: option.splits if_splits dest: url_loop_length)
next
  case (Suc m)
  then obtain n' where "n = Suc n'" by (cases n) auto
  then show ?case using Suc.prems Suc.IH by (auto split: option.splits if_splits)
qed

subsection \<open>Answering\<close>

lemma one_text_ok:
  assumes "0 \<notin> set (concat (t # ts))" "length (concat (t # ts)) < length junk"
  shows "one_text junk (t # ts) = Some (concat (t # ts))"
proof -
  obtain a where a: "strcpy junk t = Some a" "c_string a = Some t" "length a = length junk"
    using strcpy_holds [of t junk] assms by auto
  show ?thesis using strcat_all_holds [OF a(2), of ts] assms a by (auto simp: one_text_def)
qed

lemma mc_texts:
  "mc_headers = Some (concat headers)"
  "length junk = 1024 \<Longrightarrow> mc_not_found junk = Some (concat not_found)"
  "length junk = 1024 \<Longrightarrow> mc_unimplemented junk = Some (concat unimplemented)"
  unfolding mc_headers_def mc_not_found_def mc_unimplemented_def headers_def not_found_def unimplemented_def
  by (rule one_text_ok; simp add: line_of_def SERVER_STRING_def crlf_def bytes_of_def)+

text \<open>Both builds send the same bytes, although the array of 1024 bytes is filled by \<open>strcat\<close> in one of them.\<close>

lemma mc_builds_agree:
  assumes "length junk = 1024"
  shows "mc_headers = Some (concat mc_headers_lines) \<and> mc_not_found junk = Some (concat mc_not_found_lines) \<and>
    mc_unimplemented junk = Some (concat mc_unimplemented_lines)"
  using mc_texts(1) mc_texts(2,3) [OF assms]
  by (simp add: mc_headers_lines_def mc_not_found_lines_def mc_unimplemented_lines_def headers_def not_found_def unimplemented_def)

lemma MC_PAGE_props: "0 \<notin> set MC_PAGE" "length MC_PAGE = 271" "do { buf \<leftarrow> strcpy (replicate 1024 0) MC_PAGE; c_string buf } = Some MC_PAGE"
proof -
  show p: "0 \<notin> set MC_PAGE" "length MC_PAGE = 271" by (simp_all add: MC_PAGE_def bytes_of_def)
  show "do { buf \<leftarrow> strcpy (replicate 1024 0) MC_PAGE; c_string buf } = Some MC_PAGE"
    using strcpy_holds [OF p(1), of "replicate 1024 0"] p(2) by auto
qed

lemma send_one_ok:
  assumes "accepting put_sent K fd obs" "calm K obs" "running a fd w" "t \<noteq> []" "length t \<le> 1024" "1024 \<le> fuel"
  shows "always (wakes obs a fd) (\<lambda>_ w'. running a fd w' \<and> obs (kern w') = put_sent (obs (kern w)) t) (send_one fuel K w fd (Some t))"
  using send_texts_all [OF assms(1-3), of "[t]" fuel] assms(4-6) by (simp add: send_one_def)

lemma mc_serve_file_sends:
  assumes "accepting put_sent K fd obs" "calm K obs" "running a fd w" "1024 \<le> fuel"
  shows "always (wakes obs a fd) (\<lambda>_ w'. obs (kern w') = put_sent (obs (kern w)) (concat headers @ MC_PAGE)) (mc_serve_file fuel K w fd)"
proof -
  let ?Q = "\<lambda>_ w'. obs (kern w') = put_sent (obs (kern w)) (concat headers @ MC_PAGE)"
  have h: "concat headers \<noteq> []" "length (concat headers) \<le> 1024"
    by (simp_all add: headers_def line_of_def SERVER_STRING_def crlf_def bytes_of_def)
  have page: "MC_PAGE \<noteq> []" "length MC_PAGE \<le> 1024" using MC_PAGE_props(2) by auto
  have "always (wakes obs a fd) ?Q (mc_cat fuel K v fd)"
    if v: "running a fd v \<and> obs (kern v) = put_sent (obs (kern w)) (concat headers)" for v
    unfolding mc_cat_def MC_PAGE_props(3)
    by (rule always_mono [OF send_one_ok [OF assms(1,2) _ page assms(4)]]) (use v in \<open>simp_all add: duplex.put_append\<close>)
  then have "always (wakes obs a fd) (\<lambda>_ v. always (wakes obs a fd) ?Q (mc_cat fuel K v fd)) (send_one fuel K w fd mc_headers)"
    unfolding mc_texts(1) by (intro always_mono [OF send_one_ok [OF assms(1-3) h assms(4)]]) blast
  from always_bind [OF this] show ?thesis by (simp add: mc_serve_file_def)
qed

text \<open>The arrays have room, and the paths are those of the other server.\<close>

lemma mc_parse_room:
  assumes "mc_sizes A" "length buf = 1024" "numchars < 1024"
  shows "\<exists>r. mc_parse A buf numchars = Some r \<and> (case r of None \<Rightarrow> True
    | Some path \<Rightarrow> length path = 64 \<and> (\<exists>p. c_string path = Some p \<and> length p \<le> 47 \<and> strcat path (bytes_of ''/index.html'') \<noteq> None))"
  using assms
proof (cases rule: mc_parse_cases)
  case (2 j d k u path)
  let ?p = "path_of (if \<not> strcasecmp (string_of d) (bytes_of ''GET'') then takeWhile (\<lambda>c. c \<noteq> 63) (string_of u) else string_of u)"
  have "length ?p \<le> 47"
    using path_of_length [of "string_of u"] path_of_length [of "takeWhile (\<lambda>c. c \<noteq> 63) (string_of u)"] string_of_props(2) [of u]
      length_takeWhile_le [of "\<lambda>c. c \<noteq> 63" "string_of u"] 2(4) by (auto split: if_splits)
  moreover have "\<exists>a. strcat path (bytes_of ''/index.html'') = Some a"
    using strcat_holds [OF 2(8), of "bytes_of ''/index.html''"] 2(7) \<open>length ?p \<le> 47\<close> by (auto simp: bytes_of_def)
  ultimately show ?thesis using 2(6-8) by auto
qed simp

lemma mc_parse_same:
  assumes "mc_sizes A" "length buf = 1024" "numchars < 1024" "parse_request buf numchars = Some q"
    and "method_loop 254 buf 0 [] = Some (j, m)" "j \<le> 15"
    and "skip_loop (numchars - j) buf j = Some k" "url_loop (min 254 (numchars - k)) buf k [] = Some u" "length u \<le> 31"
  shows "\<exists>r. mc_parse A buf numchars = Some r \<and> (case q of Unimplemented \<Rightarrow> r = None
    | Request p \<Rightarrow> \<exists>path. r = Some path \<and> c_string path = Some p)"
proof -
  have m: "method_loop 15 buf 0 [] = Some (j, m)" using method_loop_less [OF assms(5), of 15] assms(6) by simp
  have u: "url_loop (min 31 (numchars - k)) buf k [] = Some u"
    using url_loop_less [OF assms(8)] url_loop_length [OF assms(8)] assms(9) by simp
  show ?thesis
    using assms(1-3)
  proof (cases rule: mc_parse_cases)
    case (1 j' d)
    then show ?thesis using m assms(4,5) by (auto simp: parse_request_def)
  next
    case (2 j' d k' u' path)
    then have same: "d = m" "k' = k" "u' = u" using m u assms(7) by auto
    have "q = Request (path_of (if \<not> strcasecmp (string_of m) (bytes_of ''GET'') then takeWhile (\<lambda>c. c \<noteq> 63) (string_of u) else string_of u))"
      using assms(4,5,7,8) 2(5) unfolding same by (auto simp: parse_request_def path_of_def Let_def)
    then show ?thesis using 2(6,8) unfolding same by simp
  qed
qed

subsection \<open>Properties\<close>

text \<open>C30.  The arrays are large enough: for every request that does not fill the buffer, whatever the arrays held before,
  the method, the URL and the path are stored inside their arrays of 16, 32 and 64 bytes, and there is room
  for the \<open>/index.html\<close> that is appended when the path is a directory.\<close>

theorem mc_arrays_fit:
  assumes "mc_sizes A" "length buf = 1024" "numchars < 1024"
  shows "\<exists>r. mc_parse A buf numchars = Some r \<and> (case r of None \<Rightarrow> True
    | Some path \<Rightarrow> length path = 64 \<and> (\<exists>p. c_string path = Some p \<and> length p \<le> 47 \<and> strcat path (bytes_of ''/index.html'') \<noteq> None))"
  by (rule mc_parse_room [OF assms])

definition zero_arrays :: mc_arrays where
  "zero_arrays = \<lparr>a_buf = replicate 1024 0, a_method = replicate 16 0, a_url = replicate 32 0, a_path = replicate 64 0, a_text = replicate 1024 0\<rparr>"

lemma zero_arrays_ok: "mc_sizes zero_arrays"
  by (simp add: mc_sizes_def zero_arrays_def)

theorem mc_arrays_fit_witness:
  "\<exists>r. mc_parse zero_arrays (stored 1024 get_request) (length get_request) = Some r \<and> (case r of None \<Rightarrow> True
    | Some path \<Rightarrow> length path = 64 \<and> (\<exists>p. c_string path = Some p \<and> length p \<le> 47 \<and> strcat path (bytes_of ''/index.html'') \<noteq> None))"
proof -
  have "length get_request < 1024" by (simp add: get_request_def bytes_of_def crlf_def)
  then show ?thesis by (intro mc_arrays_fit zero_arrays_ok) simp_all
qed

text \<open>The two web servers understand a request in the same way: when the method has at most 15 bytes and the URL at
  most 31, \<open>nty_http_server_mulcore.c\<close> rejects the method or arrives at the path exactly as \<open>nty_http_server.c\<close> does.\<close>

lemma mc_parse_agrees:
  assumes "mc_sizes A" "length buf = 1024" "numchars < 1024" "parse_request buf numchars = Some q"
    and "method_loop 254 buf 0 [] = Some (j, m)" "j \<le> 15"
    and "skip_loop (numchars - j) buf j = Some k" "url_loop (min 254 (numchars - k)) buf k [] = Some u" "length u \<le> 31"
  shows "\<exists>r. mc_parse A buf numchars = Some r \<and> (case q of Unimplemented \<Rightarrow> r = None
    | Request p \<Rightarrow> \<exists>path. r = Some path \<and> c_string path = Some p)"
  by (rule mc_parse_same [OF assms])

text \<open>The loops on the request of the witnesses.\<close>

lemma get_request_loops:
  assumes "buf = get_request @ r"
  shows "method_loop 254 buf 0 [] = Some (3, bytes_of ''GET'')" "skip_loop (length get_request - 3) buf 3 = Some 4"
    "url_loop (min 254 (length get_request - 4)) buf 4 [] = Some (bytes_of ''/a'')"
    "parse_request buf (length get_request) = Some (Request (bytes_of ''htdocs/a''))"
proof -
  let ?x = "bytes_of ''HTTP/1.0'' @ crlf @ crlf @ r"
  have len: "length get_request = 19" by (simp add: get_request_def bytes_of_def crlf_def)
  have g: "length (bytes_of ''GET'') = 3" "length (bytes_of ''GET'' @ [32]) = 4" "bytes_of ''/a'' = 47 # bytes_of ''a''"
    by (simp_all add: bytes_of_def)
  have buf: "buf = bytes_of ''GET'' @ [32] @ bytes_of ''/a'' @ 32 # ?x" using assms by (simp add: get_request_def)
  show "method_loop 254 buf 0 [] = Some (3, bytes_of ''GET'')"
    using method_loop_word [of "bytes_of ''GET''" 32 254 "[]" "bytes_of ''/a'' @ 32 # ?x" "[]"] buf by (simp add: bytes_of_def isspace_def)
  show "skip_loop (length get_request - 3) buf 3 = Some 4"
    using skip_loop_spaces [of "[32]" "47" 16 "bytes_of ''GET''" "bytes_of ''a'' @ 32 # ?x"] len unfolding buf g by (simp add: isspace_def)
  show "url_loop (min 254 (length get_request - 4)) buf 4 [] = Some (bytes_of ''/a'')"
    using url_loop_word [of "bytes_of ''/a''" 32 15 "bytes_of ''GET'' @ [32]" ?x "[]"] len unfolding buf g by (simp add: isspace_def bytes_of_def)
  show "parse_request buf (length get_request) = Some (Request (bytes_of ''htdocs/a''))"
    using parse_get [of "bytes_of ''GET''" "[32]" "bytes_of ''/a''" 32 19 ?x] buf len
    by (simp add: bytes_of_def isspace_def tolower_def path_of_def)
qed

lemma stored_get_request: "stored 1024 get_request = get_request @ replicate (1024 - length get_request) 0" "length get_request < 1024"
  by (simp_all add: stored_def get_request_def bytes_of_def crlf_def)

text \<open>C26.  A request for a path that exists, a directory or not, is answered by the headers and the fixed page, with two
  calls of \<open>nty_send\<close>, whatever the pieces the kernel takes; then the connection is closed.\<close>

theorem mc_serves_page:
  assumes "calm K obs" "accepting put_sent K fd obs" "requesting K fd obs req" "running a fd w" "obs (kern w) = ([], [])"
    and "- (2 ^ 31) \<le> fd" "fd < 2 ^ 31" "1024 \<le> fuel" "mc_sizes A" "length req < 1024"
    and "mc_parse A (req @ drop (length req) (a_buf A)) (length req) = Some (Some path)" "c_string path = Some p" "stat F p \<noteq> None"
  shows "always (wakes obs a fd) (\<lambda>_ w'. \<exists>k. obs k = (concat headers @ MC_PAGE, req) \<and> kern w' = snd (snd (k_close K k fd)))
    (mc_accept_request n fuel K F A w (int_arg fd))"
proof -
  let ?buf = "req @ drop (length req) (a_buf A)"
  have A: "length (a_buf A) = 1024" using assms(9) by (simp add: mc_sizes_def)
  have buf: "memcpy (a_buf A) 0 req = Some ?buf" using A assms(10) by simp
  have num: "nat (int (length req) mod 2 ^ 64) = length req" using assms(10) by simp
  obtain mode where mode: "stat F p = Some mode" using assms(13) by auto
  have room: "strcat path (bytes_of ''/index.html'') \<noteq> None"
    using mc_parse_room [OF assms(9), of ?buf "length req"] A assms(10,11) by auto
  show ?thesis
    unfolding mc_accept_request_def arg_int_int_arg [OF assms(6,7)] Let_def
  proof (rule always_bind, rule always_mono [OF nty_recv_waits [OF assms(4,1)]], goal_cases)
    case (1 x v)
    have x: "x = (int (length req), req)" "running a fd v" "obs (kern v) = ([], req)"
      using received_request [OF 1 [folded MAX_BUFFER_LENGTH_def] assms(3)] assms(5) by simp_all
    have "always (wakes obs a fd) (\<lambda>_ w. obs (kern w) = (concat headers @ MC_PAGE, req)) (mc_serve_file fuel K v fd)"
      using mc_serve_file_sends [OF assms(2,1) x(2) assms(8)] x(3) by (simp add: put_sent_def)
    from close_after [OF this, of K fd] show ?case
      unfolding x(1) prod.case num buf option.case assms(11,12) mode using room by simp
  qed
qed

theorem mc_serves_page_witness:
  "always (wakes (\<lambda>k. k) 1 7) (\<lambda>_ w'. \<exists>k. k = (concat headers @ MC_PAGE, get_request) \<and>
      kern w' = snd (snd (k_close (http_kernel get_request) k 7)))
    (mc_accept_request 5 1024 (http_kernel get_request) one_file zero_arrays (thread_on ([], [])) (int_arg 7))"
proof -
  let ?buf = "get_request @ drop (length get_request) (a_buf zero_arrays)"
  note l = get_request_loops [of ?buf, OF refl]
  have "length ?buf = 1024" using stored_get_request(2) zero_arrays_ok by (simp add: mc_sizes_def)
  then obtain path where "mc_parse zero_arrays ?buf (length get_request) = Some (Some path)" "c_string path = Some (bytes_of ''htdocs/a'')"
    using mc_parse_same [OF zero_arrays_ok _ _ l(4,1) _ l(2,3)] stored_get_request(2) by (auto simp: bytes_of_def)
  then show ?thesis
    using stored_get_request(2)
    by (intro mc_serves_page [OF http_kernel_ok(1,2) _ thread_running, where path = path and p = "bytes_of ''htdocs/a''"]
        http_kernel_ok(3) zero_arrays_ok) (simp_all add: one_file_def MAX_BUFFER_LENGTH_def)
qed

end
