(* ===== verification/Processes.thy ===== *)
theory Processes
  imports Epoll_Server Mulcore_Server Mulcore_Http
begin

text \<open>
  The processes of the multi-process servers.  The first part is the fork loops of the \<open>main\<close> functions of
  \<open>ntyco_httpd.c\<close>, \<open>nty_http_epoll.c\<close>, \<open>nty_http_server_mulcore.c\<close> and \<open>nty_server_mulcore.c\<close> and their \<open>process_bind\<close>: which
  processes there are after it and what each of them does.  The second part is the processes of
  \<open>nty_http_epoll.c\<close> at work on the shared memory: a step relation in which the loads and stores of the processes
  interleave, the proof that the handlers of \<open>Epoll_Server\<close> are runs of it, and mutual exclusion.
\<close>

subsection \<open>Forking\<close>

text \<open>The loop \<open>for (i = 0; i < num; i ++)\<close>: \<open>forks i\<close> is what the \<open>i\<close>-th call of \<open>fork\<close> returns in the parent, a
  positive number or -1.  The child has \<open>pid\<close> 0 and leaves the loop.  The result is the \<open>pid\<close> of every process
  that has left the loop.\<close>

primrec fork_each :: "(nat \<Rightarrow> int) \<Rightarrow> nat \<Rightarrow> nat \<Rightarrow> int \<Rightarrow> int list" where
  "fork_each forks i 0 pid = [pid]"
| "fork_each forks i (Suc n) pid = (if forks i \<le> 0 then [forks i] else 0 # fork_each forks (Suc i) n (forks i))"

text \<open>What a process does then: it waits for a key, serves, or leaves \<open>main\<close>.\<close>

datatype duty = Watches | Serves | Leaves

definition duty_of :: "int \<Rightarrow> duty" where
  "duty_of pid = (if pid > 0 then Watches else if pid = 0 then Serves else Leaves)"

text \<open>\<open>main\<close> of \<open>nty_http_epoll.c\<close>, \<open>ntyco_httpd.c\<close> and \<open>nty_http_server_mulcore.c\<close> from the loop on.\<close>

definition main_duties :: "(nat \<Rightarrow> int) \<Rightarrow> int \<Rightarrow> duty list" where
  "main_duties forks num = map duty_of (fork_each forks 0 (nat num) 0)"

text \<open>\<open>fork();\<close> as a statement, executed by each of the processes; a process is named by the way it came about,
  one entry per \<open>fork\<close>, \<open>True\<close> for the child.\<close>

definition fork_all :: "(bool list \<Rightarrow> int) \<Rightarrow> bool list list \<Rightarrow> bool list list" where
  "fork_all forks ps = concat (map (\<lambda>p. if forks p > 0 then [p @ [False], p @ [True]] else [p @ [False]]) ps)"

text \<open>\<open>main\<close> of \<open>nty_server_mulcore.c\<close>: every process goes on to \<open>process_bind\<close>.\<close>

definition mulcore_processes :: "(bool list \<Rightarrow> int) \<Rightarrow> bool list list" where
  "mulcore_processes forks = fork_all forks (fork_all forks [[]])"

lemma fork_each_all:
  "(\<And>j. i \<le> j \<Longrightarrow> j < i + n \<Longrightarrow> 0 < forks j) \<Longrightarrow>
   fork_each forks i n pid = replicate n 0 @ [if n = 0 then pid else forks (i + n - 1)]"
proof (induction n arbitrary: i pid)
  case (Suc n)
  have "0 < forks i" using Suc.prems [of i] by simp
  moreover have "fork_each forks (Suc i) n (forks i) = replicate n 0 @ [if n = 0 then forks i else forks (Suc i + n - 1)]"
    using Suc.prems by (intro Suc.IH) simp
  ultimately show ?case by simp
qed simp

lemma fork_each_fails:
  "k < n \<Longrightarrow> forks (i + k) < 0 \<Longrightarrow> (\<And>j. i \<le> j \<Longrightarrow> j < i + k \<Longrightarrow> 0 < forks j) \<Longrightarrow>
   fork_each forks i n pid = replicate k 0 @ [forks (i + k)]"
proof (induction k arbitrary: i n pid)
  case 0
  then show ?case by (cases n) simp_all
next
  case (Suc k)
  obtain m where m: "n = Suc m" using Suc.prems(1) by (cases n) auto
  have "0 < forks i" using Suc.prems(3) [of i] by simp
  moreover have "fork_each forks (Suc i) m (forks i) = replicate k 0 @ [forks (Suc i + k)]"
    using Suc.prems m by (intro Suc.IH) simp_all
  ultimately show ?case using m by simp
qed

text \<open>Every process of \<open>nty_server_mulcore.c\<close> serves; there are four when both calls succeed everywhere, and at least
  the first one otherwise.\<close>

lemma mulcore_processes_four:
  assumes "\<And>p. 0 < forks p"
  shows "mulcore_processes forks = [[False, False], [False, True], [True, False], [True, True]]"
  using assms by (simp add: mulcore_processes_def fork_all_def)

lemma mulcore_processes_bounds:
  "[False, False] \<in> set (mulcore_processes forks) \<and> distinct (mulcore_processes forks) \<and> length (mulcore_processes forks) \<le> 4"
  by (simp add: mulcore_processes_def fork_all_def)

subsection \<open>Binding a process to a processor\<close>

text \<open>The number of processors, the thread id, and the mask given to \<open>sched_setaffinity\<close>.\<close>

record 'k affinity =
  a_nprocessors :: int
  a_gettid :: "'k \<Rightarrow> int"
  a_setaffinity :: "'k \<Rightarrow> int set \<Rightarrow> 'k"

definition CPU_SETSIZE :: int where "CPU_SETSIZE = 1024"

text \<open>\<open>CPU_ZERO\<close> and \<open>CPU_SET\<close>, which ignores a processor that the mask has no bit for.\<close>

definition cpu_mask :: "int \<Rightarrow> int set" where
  "cpu_mask cpu = (if 0 \<le> cpu \<and> cpu < CPU_SETSIZE then {cpu} else {})"

text \<open>The part of \<open>process_bind\<close> that the four files share; the result is \<open>self_id\<close>.\<close>

definition bind_cpu :: "'k affinity \<Rightarrow> 'k world \<Rightarrow> (int \<times> 'k world) option" where
  "bind_cpu A w = do {
     let self_id = a_gettid A (kern w);
     cpu \<leftarrow> cpu_slot self_id (a_nprocessors A);
     Some (self_id, w\<lparr>kern := a_setaffinity A (kern w) (cpu_mask cpu)\<rparr>) }"

definition epoll_process_bind :: "nat \<Rightarrow> 'k kernel \<Rightarrow> ('k, shm_area) segment \<Rightarrow> 'k flags \<Rightarrow> 'k affinity \<Rightarrow> int \<Rightarrow> int \<Rightarrow> 'k world \<Rightarrow>
    ('k world, unit) comp" where
  "epoll_process_bind n K M F A cpu_size fd w = (case bind_cpu A w of None \<Rightarrow> Fault
     | Some (self_id, w) \<Rightarrow> epoll_server n K M F self_id cpu_size fd w)"

definition httpd_process_bind :: "nat \<Rightarrow> nat \<Rightarrow> 'k kernel \<Rightarrow> ('k, shm_area) segment \<Rightarrow> 'k affinity \<Rightarrow> int \<Rightarrow> 'k state \<Rightarrow> int \<Rightarrow>
    'k state option" where
  "httpd_process_bind n fuel K M A cpu_size st fd = do {
     (self_id, w) \<leftarrow> bind_cpu A (fst st);
     process_bind n fuel K M self_id cpu_size (w, snd st) fd }"

definition mulcore_process_bind :: "nat \<Rightarrow> nat \<Rightarrow> 'k kernel \<Rightarrow> 'k net \<Rightarrow> ('k, shm_total) segment \<Rightarrow> ('k \<Rightarrow> 'k) list \<Rightarrow> 'k affinity \<Rightarrow> nat \<Rightarrow>
    'k state \<Rightarrow> 'k state option" where
  "mulcore_process_bind n fuel K N M others A addr st = do {
     (_, w) \<leftarrow> bind_cpu A (fst st);
     mulcore_entry n fuel K N M others addr (w, snd st) 9096 }"

definition mc_process_bind :: "nat \<Rightarrow> nat \<Rightarrow> 'k kernel \<Rightarrow> 'k net \<Rightarrow> files \<Rightarrow> mc_arrays \<Rightarrow> 'k affinity \<Rightarrow> 'k state \<Rightarrow> 'k state option" where
  "mc_process_bind n fuel K N F ar A st = do {
     (_, w) \<leftarrow> bind_cpu A (fst st);
     mc_entry n fuel K N F ar (w, snd st) 9096 }"

text \<open>The counter of a process of \<open>ntyco_httpd.c\<close> or \<open>nty_http_epoll.c\<close>, where \<open>cpu_size\<close> is the number of processors, is that of the
  processor it is bound to.\<close>

lemma counter_of_cpu:
  assumes "0 < a_nprocessors A" "a_nprocessors A \<le> CPU_SETSIZE" "0 \<le> a_gettid A (kern w)"
  shows "\<exists>cpu. cpu_slot (a_gettid A (kern w)) (a_nprocessors A) = Some cpu \<and> 0 \<le> cpu \<and> cpu < a_nprocessors A \<and>
    bind_cpu A w = Some (a_gettid A (kern w), w\<lparr>kern := a_setaffinity A (kern w) {cpu}\<rparr>)"
proof -
  obtain p where p: "a_gettid A (kern w) = int p" using assms(3) nonneg_int_cases by blast
  let ?n = "a_nprocessors A"
  have "cpu_slot (int p) ?n = Some (int p mod ?n)" using assms(1) by (simp add: cpu_slot_def)
  moreover have "0 \<le> int p mod ?n" "int p mod ?n < ?n" using assms(1) by simp_all
  ultimately show ?thesis using p assms(2) by (simp add: bind_cpu_def cpu_mask_def Let_def)
qed

subsection \<open>The processes of the event-loop server at work\<close>

text \<open>Where a process is in the loop of \<open>server\<close>: between two events, in \<open>accept\<close>, before \<open>unlock()\<close> with the
  descriptor and the \<open>errno\<close> of \<open>accept\<close>, before \<open>INC_COUNTFD\<close>, or returned.\<close>

datatype loop_pc = Waiting | Accepting | Releasing int int | Counting | Returned

record loops =
  seg :: shm_area
  loop_at :: "nat \<Rightarrow> loop_pc"

definition move :: "loops \<Rightarrow> nat \<Rightarrow> loop_pc \<Rightarrow> shm_area \<Rightarrow> loops" where
  "move s p at m = \<lparr>seg = m, loop_at = (loop_at s)(p := at)\<rparr>"

text \<open>One step of the process \<open>p\<close> of the processes \<open>P\<close>.  An event of the listening descriptor, a page that was
  sent and the end of a connection may come at any time.\<close>

inductive epoll_step :: "int \<Rightarrow> nat set \<Rightarrow> loops \<Rightarrow> loops \<Rightarrow> bool" for cpu_size P where
  took: "p \<in> P \<Longrightarrow> loop_at s p = Waiting \<Longrightarrow> lock (seg s) = Some (0, m) \<Longrightarrow> epoll_step cpu_size P s (move s p Accepting m)"
| missed: "p \<in> P \<Longrightarrow> loop_at s p = Waiting \<Longrightarrow> lock (seg s) = Some (r, m) \<Longrightarrow> r \<noteq> 0 \<Longrightarrow>
    epoll_step cpu_size P s (move s p Waiting m)"
| returned: "p \<in> P \<Longrightarrow> loop_at s p = Accepting \<Longrightarrow> epoll_step cpu_size P s (move s p (Releasing clientfd err) (seg s))"
| released: "p \<in> P \<Longrightarrow> loop_at s p = Releasing clientfd err \<Longrightarrow>
    epoll_step cpu_size P s (move s p (if clientfd < 0 then if err = EAGAIN then Waiting else Returned else Counting) (unlock (seg s)))"
| opened: "p \<in> P \<Longrightarrow> loop_at s p = Counting \<Longrightarrow> INC_COUNTFD (int p) cpu_size (seg s) = Some m \<Longrightarrow>
    epoll_step cpu_size P s (move s p Waiting m)"
| ended: "p \<in> P \<Longrightarrow> loop_at s p = Waiting \<Longrightarrow> DEC_COUNTFD (int p) cpu_size (seg s) = Some m \<Longrightarrow>
    epoll_step cpu_size P s (move s p Waiting m)"

inductive_cases epoll_stepE: "epoll_step cpu_size P s t"

definition loops_start :: loops where
  "loops_start = \<lparr>seg = init_shmvalue, loop_at = (\<lambda>_. Waiting)\<rparr>"

text \<open>A process that has the lock.\<close>

definition in_accept :: "loops \<Rightarrow> nat \<Rightarrow> bool" where
  "in_accept s p = (loop_at s p = Accepting \<or> (\<exists>clientfd err. loop_at s p = Releasing clientfd err))"

lemma move_simps [simp]:
  "seg (move s p at m) = m" "loop_at (move s p at m) = (loop_at s)(p := at)"
  "in_accept (move s p at m) = (in_accept s)(p := (at = Accepting \<or> (\<exists>clientfd err. at = Releasing clientfd err)))"
  by (auto simp: move_def in_accept_def fun_eq_iff)

lemma epoll_moves:
  assumes "epoll_step n P s t" "mtx_ok (seg s)"
  shows "mtx_ok (seg t) \<and> (accept_mtx (seg t) = accept_mtx (seg s) \<and> in_accept t = in_accept s \<or>
      (\<exists>p. accept_mtx (seg s) = 0 \<and> accept_mtx (seg t) = 1 \<and> in_accept t = (in_accept s)(p := True)) \<or>
      (\<exists>p. in_accept s p \<and> accept_mtx (seg t) = 0 \<and> in_accept t = (in_accept s)(p := False)))"
  using assms
proof (induction rule: epoll_step.induct)
  case (took p s m)
  then show ?case using lock_cases [OF took(3)] by auto
next
  case (missed p s r m)
  then have "\<not> in_accept s p" by (simp add: in_accept_def)
  then show ?case using missed lock_cases [OF missed(3)] by (simp add: fun_upd_idem)
next
  case (returned p s clientfd err)
  then have "in_accept s p" by (simp add: in_accept_def)
  then show ?case using returned by (simp add: fun_upd_idem)
next
  case (released p s clientfd err)
  then have "in_accept s p" by (simp add: in_accept_def)
  then show ?case using released by auto
next
  case (opened p s m)
  then have "\<not> in_accept s p" by (simp add: in_accept_def)
  then show ?case using opened INC_mtx [OF opened(3)] by (simp add: mtx_ok_def fun_upd_idem)
next
  case (ended p s m)
  then have "\<not> in_accept s p" by (simp add: in_accept_def)
  then show ?case using ended DEC_mtx [OF ended(3)] by (simp add: mtx_ok_def fun_upd_idem)
qed

interpretation epoll_lock: lock_protocol "epoll_step n P" "\<lambda>s. accept_mtx (seg s)" in_accept "\<lambda>s. mtx_ok (seg s)" for n P
  by unfold_locales (auto dest: epoll_moves)

lemma loops_start_ok: "mtx_ok (seg loops_start)" "exclusive (accept_mtx (seg loops_start)) (in_accept loops_start)"
  by (simp_all add: loops_start_def mtx_ok_def init_shmvalue_def exclusive_def in_accept_def fun_eq_iff)

subsection \<open>The handlers are runs of the processes\<close>

text \<open>The system's functions leave the segment alone.\<close>

definition shm_apart :: "'k kernel \<Rightarrow> ('k, shm_area) segment \<Rightarrow> 'k flags \<Rightarrow> bool" where
  "shm_apart K M F = ((\<forall>k m. seg_get M (seg_put M k m) = m) \<and>
     (\<forall>k fd. seg_get M (snd (snd (k_accept K k fd))) = seg_get M k) \<and>
     (\<forall>k fd. seg_get M (snd (snd (k_close K k fd))) = seg_get M k) \<and>
     (\<forall>k fd. seg_get M (snd (snd (k_setreuse K k fd))) = seg_get M k) \<and>
     (\<forall>k fd bs f. seg_get M (snd (snd (k_send K k fd bs f))) = seg_get M k) \<and>
     (\<forall>k fd n f. seg_get M (snd (snd (snd (k_recv K k fd n f)))) = seg_get M k) \<and>
     (\<forall>k ep oper fd ev. seg_get M (snd (snd (k_epoll_ctl K k ep oper fd ev))) = seg_get M k) \<and>
     (\<forall>k fd. seg_get M (snd (snd (f_getfl F k fd))) = seg_get M k) \<and>
     (\<forall>k fd fl. seg_get M (snd (snd (f_setfl F k fd fl))) = seg_get M k))"

text \<open>The segment as a process sees it, in the state of the system.\<close>

abbreviation view :: "('k, shm_area) segment \<Rightarrow> 'k world \<Rightarrow> shm_area" where
  "view M w \<equiv> seg_get M (kern w)"

lemma view_calls:
  assumes "shm_apart K M F"
  shows "view M (epoll_ctl K w ep oper fd ev) = view M w" "view M (sys_close_fd K w fd) = view M w"
    "view M (snd (ntySetReUseAddr K w fd)) = view M w" "view M (snd (ntySetNonblock F w fd)) = view M w"
    "view M (snd (after_call w (k_accept K (kern w) fd))) = view M w"
    "view M (snd (after_call w (k_send K (kern w) fd bs f))) = view M w"
  using assms unfolding shm_apart_def
  by (auto simp: epoll_ctl_def sys_close_fd_def ntySetReUseAddr_def ntySetNonblock_def set_mode_def after_call_def
      split: prod.splits) (metis snd_conv)+

lemma view_step:
  "shm_apart K M F \<Longrightarrow> shm_step M f w = Some w' \<Longrightarrow> f (view M w) = Some (view M w')"
  by (auto simp: shm_step_def shm_apart_def)

text \<open>The process \<open>p\<close>, waiting in \<open>s\<close>, can go by steps of its own to where \<open>server\<close> is after a handler.\<close>

definition can_reach :: "int \<Rightarrow> nat set \<Rightarrow> ('k, shm_area) segment \<Rightarrow> nat \<Rightarrow> loops \<Rightarrow> bool \<Rightarrow> 'k world \<Rightarrow> bool" where
  "can_reach n P M p s stop w = (\<exists>s'. (epoll_step n P)\<^sup>*\<^sup>* s s' \<and> seg s' = view M w \<and>
     loop_at s' = (loop_at s)(p := if stop then Returned else Waiting))"

lemma can_reach_same: "loop_at s p = Waiting \<Longrightarrow> seg s = view M w \<Longrightarrow> can_reach n P M p s False w"
  by (auto simp: can_reach_def fun_upd_idem intro!: exI [of _ s])

lemma can_reach_dec:
  assumes "p \<in> P" "loop_at s p = Waiting" "DEC_COUNTFD (int p) n (seg s) = Some (view M w)"
  shows "can_reach n P M p s False w"
  using epoll_step.ended [OF assms] by (auto simp: can_reach_def intro!: exI [of _ "move s p Waiting (view M w)"])

lemma can_reach_trans:
  assumes "(epoll_step n P)\<^sup>*\<^sup>* s t" "loop_at t = (loop_at s)(p := at)" "can_reach n P M p t stop w"
  shows "can_reach n P M p s stop w"
  using assms unfolding can_reach_def by (metis fun_upd_upd rtranclp_trans)

lemma accept_run:
  assumes "shm_apart K M F" "p \<in> P" "loop_at s p = Waiting" "seg s = view M w"
    "epoll_accept K M F (int p) n epfd sockfd w = Some (stop, w')"
  shows "can_reach n P M p s stop w'"
proof -
  obtain r m where lk: "lock (seg s) = Some (r, m)" using assms(4,5) by (auto simp: epoll_accept_def bind_eq_Some_conv)
  have put: "view M (w\<lparr>kern := seg_put M (kern w) m\<rparr>) = m" using assms(1) by (simp add: shm_apart_def)
  show ?thesis
  proof (cases "r = 0")
    case False
    have "epoll_step n P s (move s p Waiting m)" using epoll_step.missed [OF assms(2,3) lk False] .
    then show ?thesis using False lk assms(3-5) put
      by (auto simp: epoll_accept_def can_reach_def intro!: exI [of _ "move s p Waiting m"])
  next
    case True
    obtain clientfd w1 where acc: "after_call (w\<lparr>kern := seg_put M (kern w) m\<rparr>)
        (k_accept K (seg_put M (kern w) m) sockfd) = (clientfd, w1)" by (metis surj_pair)
    have w1: "view M w1 = m" using view_calls(5) [OF assms(1), of "w\<lparr>kern := seg_put M (kern w) m\<rparr>" sockfd] acc put by simp
    obtain w2 where w2: "shm_step M (\<lambda>m. Some (unlock m)) w1 = Some w2" "view M w2 = unlock m" "errno w2 = errno w1"
      using w1 assms(1) by (auto simp: shm_step_def shm_apart_def)
    let ?s1 = "move s p Accepting m" and ?s2 = "move s p (Releasing clientfd (errno w1)) m"
    let ?at = "if clientfd < 0 then if errno w1 = EAGAIN then Waiting else Returned else Counting"
    let ?s3 = "move s p ?at (unlock m)"
    have "epoll_step n P s ?s1" using epoll_step.took [OF assms(2,3)] lk True by simp
    moreover have "epoll_step n P ?s1 ?s2"
      using epoll_step.returned [OF assms(2), of ?s1 n clientfd "errno w1"] by (simp add: move_def)
    moreover have "epoll_step n P ?s2 ?s3"
      using epoll_step.released [OF assms(2), of ?s2 clientfd "errno w1" n] by (simp add: move_def)
    ultimately have three: "(epoll_step n P)\<^sup>*\<^sup>* s ?s3" by (meson rtranclp.rtrancl_into_rtrancl rtranclp.rtrancl_refl)
    show ?thesis
    proof (cases "clientfd < 0")
      case True
      then have "w' = w2" "stop = (errno w1 \<noteq> EAGAIN)" using assms(4,5) lk \<open>r = 0\<close> acc w2 by (simp_all add: epoll_accept_def)
      then show ?thesis using three True w2(2) by (auto simp: can_reach_def)
    next
      case False
      then obtain w3 where w3: "shm_step M (INC_COUNTFD (int p) n) w2 = Some w3" "stop = False" "view M w' = view M w3"
        using assms(4,5) lk \<open>r = 0\<close> acc w2 by (auto simp: epoll_accept_def bind_eq_Some_conv view_calls [OF assms(1)])
      have "epoll_step n P ?s3 (move ?s3 p Waiting (view M w3))"
        using epoll_step.opened [OF assms(2), of ?s3 n "view M w3"] view_step [OF assms(1) w3(1)] w2(2) False by simp
      then have "(epoll_step n P)\<^sup>*\<^sup>* s (move ?s3 p Waiting (view M w3))" using three by simp
      then show ?thesis using w3(2,3) by (auto simp: can_reach_def intro!: exI [of _ "move ?s3 p Waiting (view M w3)"])
    qed
  qed
qed

lemma drop_view:
  assumes "shm_apart K M F" "drop_client K M (int p) n w cli epfd ev = Some w'"
  shows "DEC_COUNTFD (int p) n (view M w) = Some (view M w')"
  using view_step [OF assms(1) assms(2) [unfolded drop_client_def]] by (simp add: view_calls [OF assms(1)])

lemma if_either: "(if a then if b then x else y else if c then x else y) = x \<or>
  (if a then if b then x else y else if c then x else y) = y"
  by simp

lemma request_run:
  assumes "shm_apart K M F" "p \<in> P" "loop_at s p = Waiting" "seg s = view M w"
    "epoll_accept_request K M (int p) n w cli epfd = Some w'"
  shows "can_reach n P M p s False w'"
proof -
  obtain r bs e k where rv: "k_recv K (kern w) cli 1024 0 = (r, bs, e, k)" by (metis surj_pair)
  let ?w = "w\<lparr>kern := k, errno := e\<rparr>"
  have "seg_get M (snd (snd (snd (k_recv K (kern w) cli 1024 0)))) = view M w"
    using assms(1) unfolding shm_apart_def by blast
  then have v: "view M ?w = seg s" using assms(4) rv by simp
  have "epoll_accept_request K M (int p) n w cli epfd = drop_client K M (int p) n ?w cli epfd (EPOLLIN OR EPOLLET) \<or>
      epoll_accept_request K M (int p) n w cli epfd = Some ?w"
    unfolding epoll_accept_request_def rv Let_def prod.case by (rule if_either)
  then consider (same) "w' = ?w" | (dropped) "drop_client K M (int p) n ?w cli epfd (EPOLLIN OR EPOLLET) = Some w'"
    using assms(5) by fastforce
  then show ?thesis
  proof cases
    case same
    then show ?thesis using can_reach_same [OF assms(3) v [symmetric]] by simp
  next
    case dropped
    then show ?thesis using can_reach_dec [OF assms(2,3)] drop_view [OF assms(1) dropped] v by simp
  qed
qed

lemma event_run:
  assumes "shm_apart K M F" "p \<in> P" "loop_at s p = Waiting" "seg s = view M w"
    "epoll_event K M F (int p) n fd epfd ev w = Some (stop, w')"
  shows "can_reach n P M p s stop w'"
proof -
  obtain sockfd events where ev: "ev = (sockfd, events)" by (cases ev)
  consider (new) "sockfd = fd" | (readable) "sockfd \<noteq> fd" "events AND EPOLLIN \<noteq> 0"
    | (writable) "sockfd \<noteq> fd" "\<not> events AND EPOLLIN \<noteq> 0" "events AND EPOLLOUT \<noteq> 0"
    | (hup) "sockfd \<noteq> fd" "\<not> events AND EPOLLIN \<noteq> 0" "\<not> events AND EPOLLOUT \<noteq> 0" "events AND (EPOLLHUP OR EPOLLRDHUP OR EPOLLERR) \<noteq> 0"
    | (none) "sockfd \<noteq> fd" "\<not> events AND EPOLLIN \<noteq> 0" "\<not> events AND EPOLLOUT \<noteq> 0" "\<not> events AND (EPOLLHUP OR EPOLLRDHUP OR EPOLLERR) \<noteq> 0"
    by blast
  then show ?thesis
  proof cases
    case new
    then show ?thesis using assms(5) ev accept_run [OF assms(1-4)] by (simp add: epoll_event_def)
  next
    case readable
    then obtain w1 where w1: "epoll_accept_request K M (int p) n w sockfd epfd = Some w1" "\<not> stop"
        "w' = epoll_ctl K w1 epfd EPOLL_CTL_MOD sockfd (EPOLLOUT OR EPOLLET OR EPOLLONESHOT)"
      using assms(5) unfolding ev epoll_event_def prod.case if_not_P [OF readable(1)] if_P [OF readable(2)]
      by (auto simp: bind_eq_Some_conv)
    then show ?thesis using request_run [OF assms(1-4) w1(1)] by (simp add: can_reach_def view_calls [OF assms(1)])
  next
    case writable
    then obtain w1 where w1: "epoll_serve_file K w sockfd = Some w1" "\<not> stop" "shm_step M (DEC_COUNTFD (int p) n)
        (epoll_ctl K w1 epfd EPOLL_CTL_MOD sockfd (EPOLLIN OR EPOLLHUP OR EPOLLRDHUP OR EPOLLERR)) = Some w'"
      using assms(5) unfolding ev epoll_event_def prod.case if_not_P [OF writable(1)] if_not_P [OF writable(2)] if_P [OF writable(3)]
      by (auto simp: bind_eq_Some_conv)
    have "view M w1 = view M w"
      using w1(1) by (auto simp: epoll_serve_file_def bind_eq_Some_conv view_calls [OF assms(1)])
    then have "DEC_COUNTFD (int p) n (seg s) = Some (view M w')"
      using view_step [OF assms(1) w1(3)] assms(4) by (simp add: view_calls [OF assms(1)])
    then show ?thesis using can_reach_dec [OF assms(2,3)] w1(2) by simp
  next
    case hup
    then have d: "drop_client K M (int p) n w sockfd epfd (EPOLLIN OR EPOLLET OR EPOLLONESHOT) = Some w'" "\<not> stop"
      using assms(5) unfolding ev epoll_event_def prod.case if_not_P [OF hup(1)] if_not_P [OF hup(2)] if_not_P [OF hup(3)] if_P [OF hup(4)]
      by (auto simp: bind_eq_Some_conv)
    then show ?thesis using can_reach_dec [OF assms(2,3)] drop_view [OF assms(1) d(1)] assms(4) by simp
  next
    case none
    then have "w' = w" "\<not> stop"
      using assms(5) unfolding ev epoll_event_def prod.case if_not_P [OF none(1)] if_not_P [OF none(2)] if_not_P [OF none(3)] if_not_P [OF none(4)]
      by auto
    then show ?thesis using can_reach_same [OF assms(3,4)] by simp
  qed
qed

lemma events_run:
  assumes "shm_apart K M F" "p \<in> P"
  shows "loop_at s p = Waiting \<Longrightarrow> seg s = view M w \<Longrightarrow> epoll_events K M F (int p) n fd epfd evs w = Some (stop, w') \<Longrightarrow>
    can_reach n P M p s stop w'"
proof (induction evs arbitrary: s w)
  case Nil
  then show ?case using can_reach_same by simp
next
  case (Cons ev evs)
  obtain stop1 w1 where 1: "epoll_event K M F (int p) n fd epfd ev w = Some (stop1, w1)"
      "if stop1 then stop \<and> w' = w1 else epoll_events K M F (int p) n fd epfd evs w1 = Some (stop, w')"
    using Cons.prems(3) by (auto simp: bind_eq_Some_conv split: if_splits)
  have r: "can_reach n P M p s stop1 w1" by (rule event_run [OF assms Cons.prems(1,2) 1(1)])
  show ?case
  proof (cases stop1)
    case True
    then show ?thesis using r 1(2) by simp
  next
    case False
    then obtain t where t: "(epoll_step n P)\<^sup>*\<^sup>* s t" "seg t = view M w1" "loop_at t = (loop_at s)(p := Waiting)"
      using r by (auto simp: can_reach_def)
    show ?thesis using can_reach_trans [OF t(1,3) Cons.IH [of t w1]] t 1(2) False by simp
  qed
qed

subsection \<open>Properties of the processes\<close>

text \<open>The fork loop of \<open>nty_http_epoll.c\<close> and \<open>nty_http_server_mulcore.c\<close>: when every \<open>fork\<close> succeeds there is one serving
  process per processor, and the first process only waits for a key (without processors it serves itself); when the
  \<open>k\<close>-th fails, the \<open>k\<close> processes forked before serve, and the first process leaves \<open>main\<close> without waiting.\<close>

lemma main_forks_servers:
  "((\<forall>i < nat num. 0 < forks i) \<longrightarrow>
      main_duties forks num = replicate (nat num) Serves @ [if num \<le> 0 then Serves else Watches]) \<and>
   (k < nat num \<and> forks k < 0 \<and> (\<forall>i < k. 0 < forks i) \<longrightarrow> main_duties forks num = replicate k Serves @ [Leaves])"
  using fork_each_all [of 0 "nat num" forks 0] fork_each_fails [of k "nat num" forks 0 0]
  by (auto simp: main_duties_def duty_of_def)

text \<open>C11.  The handlers of \<open>nty_http_epoll.c\<close> are runs of the interleaved processes: whatever events \<open>epoll_wait\<close> reports, what
  \<open>server\<close> does with them is a sequence of steps of its process, from the shared memory it found to the one it left,
  and it has returned or waits again; the other processes are where they were.\<close>

theorem epoll_events_refine:
  assumes "shm_apart K M F" "p \<in> P" "loop_at s p = Waiting" "seg s = seg_get M (kern w)"
    "epoll_events K M F (int p) cpu_size fd epfd evs w = Some (stop, w')"
  shows "\<exists>s'. (epoll_step cpu_size P)\<^sup>*\<^sup>* s s' \<and> seg s' = seg_get M (kern w') \<and>
    loop_at s' = (loop_at s)(p := if stop then Returned else Waiting)"
  using events_run [OF assms] by (simp add: can_reach_def)

theorem epoll_events_refine_witness:
  "\<exists>s'. (epoll_step 4 {6})\<^sup>*\<^sup>* loops_start s' \<and> loop_at s' 6 = Waiting \<and> totalfds (seg s') ! 2 = 1"
proof -
  let ?w = "thread_on (fresh_view, init_shmvalue)"
  have apart: "shm_apart two_requests beside plain_flags"
    by (auto simp: shm_apart_def two_requests_def plain_kernel_def beside_def plain_flags_def split: list.split)
  have lk: "lock init_shmvalue = Some (0, init_shmvalue\<lparr>accept_mtx := 1\<rparr>)" by (rule lock_simps) (simp_all add: init_shmvalue_def)
  obtain w' where w': "epoll_events two_requests beside plain_flags (int 6) 4 5 3 [(5, EPOLLIN)] ?w = Some (False, w')"
      "totalfds (seg_get beside (kern w')) ! 2 = 1"
    using lk by (simp add: epoll_event_def epoll_accept_def shm_step_def after_call_def two_requests_def plain_kernel_def beside_def
        plain_flags_def INC_COUNTFD_def cpu_slot_def atomic_add_def init_shmvalue_def TOTALFDS_def unlock_def to_int_def
        ntySetNonblock_def set_mode_def ntySetReUseAddr_def epoll_ctl_def fresh_view_def elem_def set_elem_def Let_def)
  show ?thesis
    using epoll_events_refine [OF apart _ _ _ w'(1), of "{6}" loops_start] w'(2) by (auto simp: loops_start_def beside_def)
qed

text \<open>C13.  Mutual exclusion of the accept lock of \<open>nty_http_epoll.c\<close>: however the processes interleave, at most one of them is
  between a successful \<open>lock()\<close> and its \<open>unlock()\<close>, whether \<open>accept\<close> succeeds or fails; and a lock that nobody holds
  is free, so that the next \<open>lock()\<close> succeeds.\<close>

theorem epoll_accept_exclusive:
  assumes "(epoll_step cpu_size P)\<^sup>*\<^sup>* loops_start s"
  shows "(\<forall>p q. in_accept s p \<longrightarrow> in_accept s q \<longrightarrow> p = q \<and> accept_mtx (seg s) = 1) \<and>
    ((\<forall>p. \<not> in_accept s p) \<longrightarrow> (\<exists>m. lock (seg s) = Some (0, m)))"
proof -
  have r: "mtx_ok (seg s)" "exclusive (accept_mtx (seg s)) (in_accept s)"
    using epoll_lock.exclusive_run [OF assms loops_start_ok] by blast+
  have "\<exists>m. lock (seg s) = Some (0, m)" if "\<forall>p. \<not> in_accept s p"
    using r that lock_simps(1) [of "seg s"] by (auto simp: exclusive_def mtx_ok_def fun_eq_iff)
  then show ?thesis using epoll_lock.at_most_one [OF assms loops_start_ok] by blast
qed

theorem epoll_accept_exclusive_witness:
  "\<exists>s. in_accept s 0 \<and> \<not> in_accept s 1 \<and> accept_mtx (seg s) = 1 \<and> (epoll_step 4 {0, 1})\<^sup>*\<^sup>* loops_start s"
proof -
  let ?s = "move loops_start 0 Accepting (init_shmvalue\<lparr>accept_mtx := 1\<rparr>)"
  have "lock (seg loops_start) = Some (0, init_shmvalue\<lparr>accept_mtx := 1\<rparr>)"
    using lock_simps(1) [of init_shmvalue] by (simp add: loops_start_def init_shmvalue_def)
  then have "epoll_step 4 {0, 1} loops_start ?s" by (intro epoll_step.took) (simp_all add: loops_start_def)
  then have "(epoll_step 4 {0, 1})\<^sup>*\<^sup>* loops_start ?s" by simp
  moreover have "in_accept ?s 0" by simp
  ultimately show ?thesis using epoll_accept_exclusive [of 4 "{0, 1}" ?s] by (metis zero_neq_one)
qed

end
