(* ===== verification/Mysql_Oper.thy ===== *)
theory Mysql_Oper
  imports Socket C_Memory "HOL-Library.Multiset"
begin

text \<open>
  The database samples \<open>sample/nty_mysql_oper.c\<close> and \<open>sample/nty_mysql_client.c\<close>.  The MySQL client library and the
  files of the C library are a parameter, a record of functions over one abstract state; what the samples rely on is
  stated in \<open>db_laws\<close>.  What only prints is left out, except the rows, which are the result of \<open>king_mysql_select\<close>.
\<close>

subsection \<open>The library\<close>

text \<open>A statement, a result and an open file are numbers; \<open>None\<close> is a null pointer.  \<open>st_fetch\<close> and \<open>st_column\<close> may store the
  length of the column into \<open>*result.length\<close>; \<open>st_column d stmt col offset n\<close> also gives the bytes it stores into
  the buffer.  A field of a row may be a null pointer.\<close>

record 'd db_api =
  my_init :: "'d \<Rightarrow> bool \<times> 'd"
  my_connect :: "'d \<Rightarrow> bool \<times> 'd"
  my_query :: "'d \<Rightarrow> string \<Rightarrow> int \<times> 'd"
  my_store_result :: "'d \<Rightarrow> nat option \<times> 'd"
  my_num_fields :: "'d \<Rightarrow> nat \<Rightarrow> int"
  my_fetch_row :: "'d \<Rightarrow> nat \<Rightarrow> u8 list option list option \<times> 'd"
  my_free_result :: "'d \<Rightarrow> nat \<Rightarrow> 'd"
  my_close :: "'d \<Rightarrow> 'd"
  st_init :: "'d \<Rightarrow> nat option \<times> 'd"
  st_prepare :: "'d \<Rightarrow> nat \<Rightarrow> string \<Rightarrow> int \<times> 'd"
  st_bind_param :: "'d \<Rightarrow> nat \<Rightarrow> int \<times> 'd"
  st_send_long_data :: "'d \<Rightarrow> nat \<Rightarrow> nat \<Rightarrow> u8 list \<Rightarrow> int \<times> 'd"
  st_bind_result :: "'d \<Rightarrow> nat \<Rightarrow> int \<times> 'd"
  st_execute :: "'d \<Rightarrow> nat \<Rightarrow> int \<times> 'd"
  st_store_result :: "'d \<Rightarrow> nat \<Rightarrow> int \<times> 'd"
  st_fetch :: "'d \<Rightarrow> nat \<Rightarrow> int \<times> nat option \<times> 'd"
  st_fetch_column :: "'d \<Rightarrow> nat \<Rightarrow> nat \<Rightarrow> nat \<Rightarrow> nat \<Rightarrow> u8 list \<times> nat option \<times> 'd"
  st_close :: "'d \<Rightarrow> nat \<Rightarrow> int \<times> 'd"
  f_open :: "'d \<Rightarrow> string \<Rightarrow> string \<Rightarrow> nat option \<times> 'd"
  f_size :: "'d \<Rightarrow> nat \<Rightarrow> int"
  f_read :: "'d \<Rightarrow> nat \<Rightarrow> nat \<Rightarrow> u8 list \<times> 'd"
  f_write :: "'d \<Rightarrow> nat \<Rightarrow> u8 list \<Rightarrow> nat \<times> 'd"
  f_close :: "'d \<Rightarrow> nat \<Rightarrow> 'd"

definition SQL_INSERT_TBL_USER :: string where
  "SQL_INSERT_TBL_USER = ''INSERT TBL_USER(U_NAME, U_GENDER) VALUES('' @ [CHR 0x27] @ ''King'' @ [CHR 0x27] @ '', '' @
     [CHR 0x27] @ ''man'' @ [CHR 0x27] @ '');''"

definition SQL_SELECT_TBL_USER :: string where
  "SQL_SELECT_TBL_USER = ''SELECT * FROM TBL_USER;''"

definition SQL_DELETE_TBL_USER :: string where
  "SQL_DELETE_TBL_USER = ''CALL PROC_DELETE_USER('' @ [CHR 0x27] @ ''King'' @ [CHR 0x27] @ '')''"

definition SQL_INSERT_IMG_USER :: string where
  "SQL_INSERT_IMG_USER = ''INSERT TBL_USER(U_NAME, U_GENDER, U_IMG) VALUES('' @ [CHR 0x27] @ ''King'' @ [CHR 0x27] @ '', '' @
     [CHR 0x27] @ ''man'' @ [CHR 0x27] @ '', ?);''"

definition SQL_SELECT_IMG_USER :: string where
  "SQL_SELECT_IMG_USER = ''SELECT U_IMG FROM TBL_USER WHERE U_NAME='' @ [CHR 0x27] @ ''King'' @ [CHR 0x27] @ '';''"

definition FILE_IMAGE_LENGTH :: nat where "FILE_IMAGE_LENGTH = 64 * 1024"

definition MYSQL_DATA_TRUNCATED :: int where "MYSQL_DATA_TRUNCATED = 101"

subsection \<open>Rows\<close>

text \<open>The \<open>for\<close> loop over the fields of a row, from \<open>i\<close> on: what it prints.\<close>

fun row_fields :: "nat \<Rightarrow> u8 list option list \<Rightarrow> int \<Rightarrow> u8 list option list option" where
  "row_fields 0 row i = Some []"
| "row_fields (Suc n) row i = do { f \<leftarrow> elem row i; fs \<leftarrow> row_fields n row (i + 1); Some (f # fs) }"

fun rows_loop :: "nat \<Rightarrow> 'd db_api \<Rightarrow> nat \<Rightarrow> int \<Rightarrow> u8 list option list list \<Rightarrow> 'd \<Rightarrow> ('d, u8 list option list list) comp" where
  "rows_loop 0 D res cols out d = Out_of_fuel"
| "rows_loop (Suc n) D res cols out d = (case my_fetch_row D d res of (row, d) \<Rightarrow> case row of
     None \<Rightarrow> Ret out d
   | Some row \<Rightarrow> (case row_fields (nat cols) row 0 of None \<Rightarrow> Fault
       | Some fs \<Rightarrow> rows_loop n D res cols (out @ [fs]) d))"

text \<open>The value returned and the rows printed.\<close>

definition king_mysql_select :: "nat \<Rightarrow> 'd db_api \<Rightarrow> 'd \<Rightarrow> ('d, int \<times> u8 list option list list) comp" where
  "king_mysql_select n D d = (case my_query D d SQL_SELECT_TBL_USER of (r, d) \<Rightarrow>
     if r \<noteq> 0 then Ret (-1, []) d
     else case my_store_result D d of (res, d) \<Rightarrow> case res of
       None \<Rightarrow> Ret (-2, []) d
     | Some res \<Rightarrow> comp_bind (rows_loop n D res (my_num_fields D d res) [] d) (\<lambda>out d. Ret (0, out) (my_free_result D d res)))"

subsection \<open>Images\<close>

text \<open>A null \<open>filename\<close> or \<open>buffer\<close> is \<open>None\<close>.  A negative \<open>length\<close> is a huge count for \<open>fread\<close>.\<close>

definition read_image :: "'d db_api \<Rightarrow> string option \<Rightarrow> u8 list option \<Rightarrow> 'd \<Rightarrow> ('d, int \<times> u8 list option) comp" where
  "read_image D filename buffer d = (case (filename, buffer) of
     (Some name, Some buf) \<Rightarrow> (case f_open D d name ''rb'' of (fp, d) \<Rightarrow> case fp of
         None \<Rightarrow> Ret (-2, buffer) d
       | Some fp \<Rightarrow> let len = to_int (f_size D d fp) in
           case f_read D d fp (nat (len mod 2 ^ 64)) of (bs, d) \<Rightarrow>
           case memcpy buf 0 bs of None \<Rightarrow> Fault
           | Some buf \<Rightarrow> if to_int (int (length bs)) \<noteq> len then Ret (-3, Some buf) d
               else Ret (to_int (int (length bs)), Some buf) (f_close D d fp))
   | _ \<Rightarrow> Ret (-1, buffer) d)"

definition write_image :: "'d db_api \<Rightarrow> string option \<Rightarrow> u8 list option \<Rightarrow> int \<Rightarrow> 'd \<Rightarrow> ('d, int) comp" where
  "write_image D filename buffer len d = (case (filename, buffer) of
     (Some name, Some buf) \<Rightarrow> if len \<le> 0 then Ret (-1) d
       else (case f_open D d name ''wb+'' of (fp, d) \<Rightarrow> case fp of
         None \<Rightarrow> Ret (-2) d
       | Some fp \<Rightarrow> (case block buf 0 len of None \<Rightarrow> Fault
         | Some bs \<Rightarrow> case f_write D d fp bs of (sz, d) \<Rightarrow>
             if to_int (int sz) \<noteq> len then Ret (-3) d else Ret (to_int (int sz)) (f_close D d fp)))
   | _ \<Rightarrow> Ret (-1) d)"

text \<open>A call that returns an \<open>int\<close>, and the early return of \<open>code\<close> when it is not 0.\<close>

definition checked :: "int \<times> 'd \<Rightarrow> 'a \<Rightarrow> ('d \<Rightarrow> ('d, 'a) comp) \<Rightarrow> ('d, 'a) comp" where
  "checked r code go = (case r of (ret, d) \<Rightarrow> if ret \<noteq> 0 then Ret code d else go d)"

text \<open>\<open>handle\<close> tells whether the handle is not null.  A null statement is used without a test: a fault.\<close>

definition mysql_write :: "'d db_api \<Rightarrow> bool \<Rightarrow> u8 list option \<Rightarrow> int \<Rightarrow> 'd \<Rightarrow> ('d, int) comp" where
  "mysql_write D handle buffer len d = (case buffer of None \<Rightarrow> Ret (-1) d
   | Some buf \<Rightarrow> if \<not> handle \<or> len \<le> 0 then Ret (-1) d
     else case st_init D d of (stmt, d) \<Rightarrow> case stmt of None \<Rightarrow> Fault
     | Some stmt \<Rightarrow>
         checked (st_prepare D d stmt SQL_INSERT_IMG_USER) (-2) (\<lambda>d.
         checked (st_bind_param D d stmt) (-3) (\<lambda>d.
         case block buf 0 len of None \<Rightarrow> Fault
         | Some bs \<Rightarrow>
             checked (st_send_long_data D d stmt 0 bs) (-4) (\<lambda>d.
             checked (st_execute D d stmt) (-5) (\<lambda>d.
             checked (st_close D d stmt) (-6) (\<lambda>d. Ret 0 d))))))"

text \<open>The inner loop of \<open>mysql_read\<close>: \<open>result.buffer_length\<close> is 1.\<close>

fun column_loop :: "nat \<Rightarrow> 'd db_api \<Rightarrow> nat \<Rightarrow> u8 list \<Rightarrow> nat \<Rightarrow> int \<Rightarrow> 'd \<Rightarrow> ('d, u8 list \<times> nat) comp" where
  "column_loop 0 D stmt buf total_length start d = Out_of_fuel"
| "column_loop (Suc n) D stmt buf total_length start d =
     (if start < to_int (int total_length) then
        (case st_fetch_column D d stmt 0 (nat start) 1 of (bs, len, d) \<Rightarrow>
         case memcpy buf start bs of None \<Rightarrow> Fault
         | Some buf \<Rightarrow> column_loop n D stmt buf (case len of None \<Rightarrow> total_length | Some l \<Rightarrow> l) (start + 1) d)
      else Ret (buf, total_length) d)"

fun read_loop :: "nat \<Rightarrow> nat \<Rightarrow> 'd db_api \<Rightarrow> nat \<Rightarrow> u8 list \<Rightarrow> nat \<Rightarrow> 'd \<Rightarrow> ('d, u8 list \<times> nat) comp" where
  "read_loop 0 m D stmt buf total_length d = Out_of_fuel"
| "read_loop (Suc n) m D stmt buf total_length d = (case st_fetch D d stmt of (ret, len, d) \<Rightarrow>
     let total_length = (case len of None \<Rightarrow> total_length | Some l \<Rightarrow> l) in
     if ret \<noteq> 0 \<and> ret \<noteq> MYSQL_DATA_TRUNCATED then Ret (buf, total_length) d
     else comp_bind (column_loop m D stmt buf total_length 0 d) (\<lambda>(buf, total_length) d.
       read_loop n m D stmt buf total_length d))"

definition mysql_read :: "nat \<Rightarrow> nat \<Rightarrow> 'd db_api \<Rightarrow> bool \<Rightarrow> u8 list option \<Rightarrow> int \<Rightarrow> 'd \<Rightarrow> ('d, int \<times> u8 list option) comp" where
  "mysql_read n m D handle buffer len d = (case buffer of None \<Rightarrow> Ret (-1, buffer) d
   | Some buf \<Rightarrow> if \<not> handle \<or> len \<le> 0 then Ret (-1, buffer) d
     else case st_init D d of (stmt, d) \<Rightarrow> case stmt of None \<Rightarrow> Fault
     | Some stmt \<Rightarrow>
         checked (st_prepare D d stmt SQL_SELECT_IMG_USER) (-2, buffer) (\<lambda>d.
         checked (st_bind_result D d stmt) (-3, buffer) (\<lambda>d.
         checked (st_execute D d stmt) (-4, buffer) (\<lambda>d.
         checked (st_store_result D d stmt) (-5, buffer) (\<lambda>d.
         comp_bind (read_loop n m D stmt buf 0 d) (\<lambda>(buf, total_length) d.
           Ret (to_int (int total_length), Some buf) (snd (st_close D d stmt))))))))"

subsection \<open>The coroutine\<close>

definition close_mysql :: "'d db_api \<Rightarrow> 'd \<Rightarrow> ('d, unit) comp" where
  "close_mysql D d = Ret () (my_close D d)"

text \<open>Cases 3 and 4.\<close>

definition image_cases :: "nat \<Rightarrow> nat \<Rightarrow> 'd db_api \<Rightarrow> 'd \<Rightarrow> ('d, unit) comp" where
  "image_cases n m D d = comp_bind (read_image D (Some ''0voice.jpg'') (Some (replicate FILE_IMAGE_LENGTH 0)) d) (\<lambda>(len, buffer) d.
     if len < 0 then close_mysql D d
     else comp_bind (mysql_write D True buffer len d) (\<lambda>_ d.
       comp_bind (mysql_read n m D True (Some (replicate FILE_IMAGE_LENGTH 0)) (int FILE_IMAGE_LENGTH) d) (\<lambda>(len, buffer) d.
       comp_bind (write_image D (Some ''a.jpg'') buffer len d) (\<lambda>_ d. close_mysql D d))))"

definition coroutine_func :: "nat \<Rightarrow> nat \<Rightarrow> 'd db_api \<Rightarrow> 'd \<Rightarrow> ('d, unit) comp" where
  "coroutine_func n m D d = (case my_init D d of (good, d) \<Rightarrow> if \<not> good then Ret () d
     else case my_connect D d of (good, d) \<Rightarrow> if \<not> good then close_mysql D d
     else case my_query D d SQL_INSERT_TBL_USER of (r, d) \<Rightarrow> if r \<noteq> 0 then close_mysql D d
     else comp_bind (king_mysql_select n D d) (\<lambda>_ d.
       case my_query D d SQL_DELETE_TBL_USER of (r, d) \<Rightarrow> if r \<noteq> 0 then close_mysql D d
       else comp_bind (king_mysql_select n D d) (\<lambda>_ d. image_cases n m D d)))"

text \<open>\<open>func\<close> of \<open>nty_mysql_client.c\<close>, which never closes its connection.\<close>

definition mysql_func :: "'d db_api \<Rightarrow> 'd \<Rightarrow> ('d, unit) comp" where
  "mysql_func D d = (case my_init D d of (good, d) \<Rightarrow> if \<not> good then Ret () d else Ret () (snd (my_connect D d)))"

text \<open>\<open>main\<close> of both: one coroutine, whose body works on the state of the system and does not yield.\<close>

fun on_kern :: "('k, unit) comp \<Rightarrow> 'k world \<Rightarrow> ('k world, unit) comp" where
  "on_kern (Ret x k) w = Ret () (w\<lparr>kern := k\<rparr>)"
| "on_kern Out_of_fuel w = Out_of_fuel"
| "on_kern _ w = Fault"

definition mysql_main :: "'k kernel \<Rightarrow> ('k \<Rightarrow> ('k, unit) comp) \<Rightarrow> 'k state \<Rightarrow> 'k state option" where
  "mysql_main K body st = do {
     (_, w) \<leftarrow> nty_coroutine_create K (fst st) 0 0;
     nty_schedule_run K (\<lambda>_ _ w. on_kern (body (kern w)) w) (w, snd st) }"

subsection \<open>What the samples rely on\<close>

text \<open>What can be observed of the library: a statement (its text, the data sent for its parameter, the rows it has still to
  fetch and the row it fetched), and the state of the server and of the files: the last query, the rows of the table,
  the images of the rows named King, the rows not yet fetched of a result, the files and, of an open file, its name and
  position.\<close>

record cursor =
  c_sql :: string
  c_long :: "u8 list"
  c_rows :: "u8 list option list"
  c_cur :: "u8 list option"

record db_view =
  v_last :: string
  v_table :: "u8 list option list list"
  v_images :: "u8 list option list"
  v_result :: "nat \<Rightarrow> u8 list option list list"
  v_stmt :: "nat \<Rightarrow> cursor"
  v_files :: "string \<Rightarrow> u8 list option"
  v_open :: "nat \<Rightarrow> string \<times> nat"

definition no_cursor :: cursor where
  "no_cursor = \<lparr>c_sql = [], c_long = [], c_rows = [], c_cur = None\<rparr>"

definition upd_stmt :: "db_view \<Rightarrow> nat \<Rightarrow> (cursor \<Rightarrow> cursor) \<Rightarrow> db_view" where
  "upd_stmt v s f = v\<lparr>v_stmt := (v_stmt v)(s := f (v_stmt v s))\<rparr>"

text \<open>Connections and queries that succeed.  The procedure deletes the rows of King.\<close>

definition session_laws :: "'d db_api \<Rightarrow> ('d \<Rightarrow> db_view) \<Rightarrow> bool" where
  "session_laws D view = (
     (\<forall>d. \<exists>d'. my_init D d = (True, d') \<and> view d' = view d) \<and>
     (\<forall>d. \<exists>d'. my_connect D d = (True, d') \<and> view d' = view d) \<and>
     (\<forall>d. \<exists>d' row I. my_query D d SQL_INSERT_TBL_USER = (0, d') \<and>
        view d' = (view d)\<lparr>v_last := SQL_INSERT_TBL_USER, v_table := v_table (view d) @ [row], v_images := I\<rparr>) \<and>
     (\<forall>d. \<exists>d' T. my_query D d SQL_DELETE_TBL_USER = (0, d') \<and> length T \<le> length (v_table (view d)) \<and>
        view d' = (view d)\<lparr>v_last := SQL_DELETE_TBL_USER, v_table := T, v_images := []\<rparr>) \<and>
     (\<forall>d. \<exists>d'. my_query D d SQL_SELECT_TBL_USER = (0, d') \<and> view d' = (view d)\<lparr>v_last := SQL_SELECT_TBL_USER\<rparr>) \<and>
     (\<forall>d. v_last (view d) = SQL_SELECT_TBL_USER \<longrightarrow> (\<exists>res d'. my_store_result D d = (Some res, d') \<and>
        (\<forall>row \<in> set (v_table (view d)). int (length row) = my_num_fields D d' res) \<and>
        view d' = (view d)\<lparr>v_result := (v_result (view d))(res := v_table (view d))\<rparr>)) \<and>
     (\<forall>d res row rows. v_result (view d) res = row # rows \<longrightarrow> (\<exists>d'. my_fetch_row D d res = (Some row, d') \<and>
        view d' = (view d)\<lparr>v_result := (v_result (view d))(res := rows)\<rparr>)) \<and>
     (\<forall>d res. v_result (view d) res = [] \<longrightarrow> (\<exists>d'. my_fetch_row D d res = (None, d') \<and> view d' = view d)) \<and>
     (\<forall>d res. view (my_free_result D d res) = view d) \<and> (\<forall>d. view (my_close D d) = view d))"

text \<open>Statements that succeed.  The rows come in any order; \<open>mysql_stmt_fetch\<close> gives the length of the column, 0 or
  \<open>MYSQL_DATA_TRUNCATED\<close>, and \<open>MYSQL_NO_DATA\<close> (100) after the last row.\<close>

definition stmt_laws :: "'d db_api \<Rightarrow> ('d \<Rightarrow> db_view) \<Rightarrow> bool" where
  "stmt_laws D view = (
     (\<forall>d. \<exists>s d'. st_init D d = (Some s, d') \<and> view d' = upd_stmt (view d) s (\<lambda>_. no_cursor)) \<and>
     (\<forall>d s sql. sql \<in> {SQL_INSERT_IMG_USER, SQL_SELECT_IMG_USER} \<longrightarrow>
        (\<exists>d'. st_prepare D d s sql = (0, d') \<and> view d' = upd_stmt (view d) s (\<lambda>c. c\<lparr>c_sql := sql\<rparr>))) \<and>
     (\<forall>d s. \<exists>d'. st_bind_param D d s = (0, d') \<and> view d' = view d) \<and>
     (\<forall>d s. \<exists>d'. st_bind_result D d s = (0, d') \<and> view d' = view d) \<and>
     (\<forall>d s. \<exists>d'. st_store_result D d s = (0, d') \<and> view d' = view d) \<and>
     (\<forall>d s. \<exists>d'. st_close D d s = (0, d') \<and> view d' = view d) \<and>
     (\<forall>d s bs. \<exists>d'. st_send_long_data D d s 0 bs = (0, d') \<and> view d' = upd_stmt (view d) s (\<lambda>c. c\<lparr>c_long := c_long c @ bs\<rparr>)) \<and>
     (\<forall>d s. c_sql (v_stmt (view d) s) = SQL_INSERT_IMG_USER \<longrightarrow> (\<exists>d' T. st_execute D d s = (0, d') \<and>
        view d' = (view d)\<lparr>v_images := v_images (view d) @ [Some (c_long (v_stmt (view d) s))], v_table := T\<rparr>)) \<and>
     (\<forall>d s. c_sql (v_stmt (view d) s) = SQL_SELECT_IMG_USER \<longrightarrow> (\<exists>d' rows. st_execute D d s = (0, d') \<and>
        mset rows = mset (v_images (view d)) \<and> view d' = upd_stmt (view d) s (\<lambda>c. c\<lparr>c_rows := rows\<rparr>))) \<and>
     (\<forall>d s img rows. c_rows (v_stmt (view d) s) = Some img # rows \<longrightarrow> (\<exists>ret d'. st_fetch D d s = (ret, Some (length img), d') \<and>
        ret \<in> {0, MYSQL_DATA_TRUNCATED} \<and> view d' = upd_stmt (view d) s (\<lambda>c. c\<lparr>c_rows := rows, c_cur := Some img\<rparr>))) \<and>
     (\<forall>d s. c_rows (v_stmt (view d) s) = [] \<longrightarrow> (\<exists>d'. st_fetch D d s = (100, None, d') \<and> view d' = view d)) \<and>
     (\<forall>d s img off n. c_cur (v_stmt (view d) s) = Some img \<longrightarrow> off < length img \<longrightarrow>
        (\<exists>len d'. st_fetch_column D d s 0 off n = (take n (drop off img), len, d') \<and> len \<in> {None, Some (length img)} \<and> view d' = view d)))"

definition file_laws :: "'d db_api \<Rightarrow> ('d \<Rightarrow> db_view) \<Rightarrow> bool" where
  "file_laws D view = (
     (\<forall>d name bs. v_files (view d) name = Some bs \<longrightarrow> (\<exists>h d'. f_open D d name ''rb'' = (Some h, d') \<and>
        view d' = (view d)\<lparr>v_open := (v_open (view d))(h := (name, 0))\<rparr>)) \<and>
     (\<forall>d name. \<exists>h d'. f_open D d name ''wb+'' = (Some h, d') \<and>
        view d' = (view d)\<lparr>v_files := (v_files (view d))(name \<mapsto> []), v_open := (v_open (view d))(h := (name, 0))\<rparr>) \<and>
     (\<forall>d h name p bs. v_open (view d) h = (name, p) \<longrightarrow> v_files (view d) name = Some bs \<longrightarrow> f_size D d h = int (length bs)) \<and>
     (\<forall>d h name p bs n. v_open (view d) h = (name, p) \<longrightarrow> v_files (view d) name = Some bs \<longrightarrow> (\<exists>d'. f_read D d h n = (take n (drop p bs), d') \<and>
        view d' = (view d)\<lparr>v_open := (v_open (view d))(h := (name, p + length (take n (drop p bs))))\<rparr>)) \<and>
     (\<forall>d h name old bs. v_open (view d) h = (name, length old) \<longrightarrow> v_files (view d) name = Some old \<longrightarrow> (\<exists>d'. f_write D d h bs = (length bs, d') \<and>
        view d' = (view d)\<lparr>v_files := (v_files (view d))(name \<mapsto> old @ bs), v_open := (v_open (view d))(h := (name, length old + length bs))\<rparr>)) \<and>
     (\<forall>d h. view (f_close D d h) = view d))"

definition db_laws :: "'d db_api \<Rightarrow> ('d \<Rightarrow> db_view) \<Rightarrow> bool" where
  "db_laws D view = (session_laws D view \<and> stmt_laws D view \<and> file_laws D view)"

subsection \<open>The laws one by one\<close>

lemmas my_init_law = session_laws_def [THEN iffD1, THEN conjunct1, rule_format]
lemmas my_connect_law = session_laws_def [THEN iffD1, THEN conjunct2, THEN conjunct1, rule_format]
lemmas insert_law = session_laws_def [THEN iffD1, THEN conjunct2, THEN conjunct2, THEN conjunct1, rule_format]
lemmas delete_law = session_laws_def [THEN iffD1, THEN conjunct2, THEN conjunct2, THEN conjunct2, THEN conjunct1, rule_format]
lemmas select_law = session_laws_def [THEN iffD1, THEN conjunct2, THEN conjunct2, THEN conjunct2, THEN conjunct2, THEN conjunct1, rule_format]
lemmas store_result_law = session_laws_def [THEN iffD1, THEN conjunct2, THEN conjunct2, THEN conjunct2, THEN conjunct2, THEN conjunct2, THEN conjunct1, rule_format]
lemmas fetch_row_law = session_laws_def [THEN iffD1, THEN conjunct2, THEN conjunct2, THEN conjunct2, THEN conjunct2, THEN conjunct2, THEN conjunct2, THEN conjunct1, rule_format]
lemmas fetch_end_law = session_laws_def [THEN iffD1, THEN conjunct2, THEN conjunct2, THEN conjunct2, THEN conjunct2, THEN conjunct2, THEN conjunct2, THEN conjunct2, THEN conjunct1, rule_format]
lemmas my_free_law = session_laws_def [THEN iffD1, THEN conjunct2, THEN conjunct2, THEN conjunct2, THEN conjunct2, THEN conjunct2, THEN conjunct2, THEN conjunct2, THEN conjunct2, THEN conjunct1, rule_format]
lemmas my_close_law = session_laws_def [THEN iffD1, THEN conjunct2, THEN conjunct2, THEN conjunct2, THEN conjunct2, THEN conjunct2, THEN conjunct2, THEN conjunct2, THEN conjunct2, THEN conjunct2, rule_format]

lemmas stmt_init_law = stmt_laws_def [THEN iffD1, THEN conjunct1, rule_format]
lemmas prepare_law = stmt_laws_def [THEN iffD1, THEN conjunct2, THEN conjunct1, rule_format]
lemmas bind_param_law = stmt_laws_def [THEN iffD1, THEN conjunct2, THEN conjunct2, THEN conjunct1, rule_format]
lemmas bind_result_law = stmt_laws_def [THEN iffD1, THEN conjunct2, THEN conjunct2, THEN conjunct2, THEN conjunct1, rule_format]
lemmas stmt_store_law = stmt_laws_def [THEN iffD1, THEN conjunct2, THEN conjunct2, THEN conjunct2, THEN conjunct2, THEN conjunct1, rule_format]
lemmas stmt_close_law = stmt_laws_def [THEN iffD1, THEN conjunct2, THEN conjunct2, THEN conjunct2, THEN conjunct2, THEN conjunct2, THEN conjunct1, rule_format]
lemmas send_long_law = stmt_laws_def [THEN iffD1, THEN conjunct2, THEN conjunct2, THEN conjunct2, THEN conjunct2, THEN conjunct2, THEN conjunct2, THEN conjunct1, rule_format]
lemmas execute_insert_law = stmt_laws_def [THEN iffD1, THEN conjunct2, THEN conjunct2, THEN conjunct2, THEN conjunct2, THEN conjunct2, THEN conjunct2, THEN conjunct2, THEN conjunct1, rule_format]
lemmas execute_select_law = stmt_laws_def [THEN iffD1, THEN conjunct2, THEN conjunct2, THEN conjunct2, THEN conjunct2, THEN conjunct2, THEN conjunct2, THEN conjunct2, THEN conjunct2, THEN conjunct1, rule_format]
lemmas fetch_law = stmt_laws_def [THEN iffD1, THEN conjunct2, THEN conjunct2, THEN conjunct2, THEN conjunct2, THEN conjunct2, THEN conjunct2, THEN conjunct2, THEN conjunct2, THEN conjunct2, THEN conjunct1, rule_format]
lemmas fetch_none_law = stmt_laws_def [THEN iffD1, THEN conjunct2, THEN conjunct2, THEN conjunct2, THEN conjunct2, THEN conjunct2, THEN conjunct2, THEN conjunct2, THEN conjunct2, THEN conjunct2, THEN conjunct2, THEN conjunct1, rule_format]
lemmas column_law = stmt_laws_def [THEN iffD1, THEN conjunct2, THEN conjunct2, THEN conjunct2, THEN conjunct2, THEN conjunct2, THEN conjunct2, THEN conjunct2, THEN conjunct2, THEN conjunct2, THEN conjunct2, THEN conjunct2, rule_format]

lemmas open_read_law = file_laws_def [THEN iffD1, THEN conjunct1, rule_format]
lemmas open_write_law = file_laws_def [THEN iffD1, THEN conjunct2, THEN conjunct1, rule_format]
lemmas file_size_law = file_laws_def [THEN iffD1, THEN conjunct2, THEN conjunct2, THEN conjunct1, rule_format]
lemmas file_read_law = file_laws_def [THEN iffD1, THEN conjunct2, THEN conjunct2, THEN conjunct2, THEN conjunct1, rule_format]
lemmas file_write_law = file_laws_def [THEN iffD1, THEN conjunct2, THEN conjunct2, THEN conjunct2, THEN conjunct2, THEN conjunct1, rule_format]
lemmas file_close_law = file_laws_def [THEN iffD1, THEN conjunct2, THEN conjunct2, THEN conjunct2, THEN conjunct2, THEN conjunct2, rule_format]

subsection \<open>Rows are printed to the last\<close>

lemma row_fields_all: "i + n \<le> length row \<Longrightarrow> row_fields n row (int i) = Some (take n (drop i row))"
proof (induction n arbitrary: i)
  case (Suc n)
  then have "row_fields n row (int (Suc i)) = Some (take n (drop (Suc i) row))"
    by (intro Suc.IH) simp
  moreover have "take (Suc n) (drop i row) = row ! i # take n (drop (Suc i) row)"
    using Suc.prems by (simp add: Cons_nth_drop_Suc [symmetric])
  ultimately show ?case using Suc.prems by (simp add: add.commute)
qed simp

lemma rows_loop_all:
  assumes "session_laws D view" "\<forall>row \<in> set rows. int (length row) = cols"
    and "v_result (view d) res = rows" "length rows < n"
  shows "\<exists>d'. rows_loop n D res cols out d = Ret (out @ rows) d' \<and> view d' = (view d)\<lparr>v_result := (v_result (view d))(res := [])\<rparr>"
  using assms(2-4)
proof (induction n arbitrary: rows out d)
  case (Suc n)
  show ?case
  proof (cases rows)
    case Nil
    then obtain d' where "my_fetch_row D d res = (None, d')" "view d' = view d"
      using Suc.prems(2) fetch_end_law [OF assms(1)] by metis
    moreover have "(v_result (view d))(res := []) = v_result (view d)" using Nil Suc.prems(2) by (intro fun_upd_idem) simp
    ultimately show ?thesis using Nil by (simp del: fun_upd_apply)
  next
    case (Cons row rest)
    then obtain d' where d': "my_fetch_row D d res = (Some row, d')" "view d' = (view d)\<lparr>v_result := (v_result (view d))(res := rest)\<rparr>"
      using Suc.prems(2) fetch_row_law [OF assms(1)] by metis
    have "row_fields (nat cols) row 0 = Some row"
      using row_fields_all [of 0 "length row" row] Suc.prems(1) Cons by auto
    moreover have "v_result (view d') res = rest" using d'(2) by simp
    then obtain d'' where "rows_loop n D res cols (out @ [row]) d' = Ret ((out @ [row]) @ rest) d''"
        "view d'' = (view d')\<lparr>v_result := (v_result (view d'))(res := [])\<rparr>"
      using Suc.IH [of rest d' "out @ [row]"] Suc.prems Cons by (auto simp del: fun_upd_apply)
    ultimately show ?thesis using Cons d' by (simp del: fun_upd_apply)
  qed
qed simp

lemma select_all:
  assumes "session_laws D view" "length (v_table (view d)) < n"
  shows "\<exists>d' r. king_mysql_select n D d = Ret (0, v_table (view d)) d' \<and>
    view d' = (view d)\<lparr>v_last := SQL_SELECT_TBL_USER, v_result := r\<rparr>"
proof -
  obtain d1 where d1: "my_query D d SQL_SELECT_TBL_USER = (0, d1)" "view d1 = (view d)\<lparr>v_last := SQL_SELECT_TBL_USER\<rparr>"
    using select_law [OF assms(1)] by metis
  then have "v_last (view d1) = SQL_SELECT_TBL_USER" by simp
  then obtain res d2 where d2: "my_store_result D d1 = (Some res, d2)"
      "\<forall>row \<in> set (v_table (view d1)). int (length row) = my_num_fields D d2 res"
      "view d2 = (view d1)\<lparr>v_result := (v_result (view d1))(res := v_table (view d1))\<rparr>"
    using store_result_law [OF assms(1)] by metis
  obtain d3 where "rows_loop n D res (my_num_fields D d2 res) [] d2 = Ret ([] @ v_table (view d)) d3"
      "view d3 = (view d2)\<lparr>v_result := (v_result (view d2))(res := [])\<rparr>"
    using rows_loop_all [OF assms(1), of "v_table (view d)" "my_num_fields D d2 res" d2 res n "[]"] d1 d2 assms(2) by auto
  moreover have "view (my_free_result D d3 res) = view d3" by (rule my_free_law [OF assms(1)])
  ultimately show ?thesis using d1 d2 by (auto simp: king_mysql_select_def)
qed

subsection \<open>Images go to the database and back\<close>

lemma upd_stmt_simps [simp]:
  "v_stmt (upd_stmt v s f) s = f (v_stmt v s)" "v_images (upd_stmt v s f) = v_images v" "v_files (upd_stmt v s f) = v_files v"
  "v_open (upd_stmt v s f) = v_open v"
  by (simp_all add: upd_stmt_def)

lemma column_loop_all:
  assumes "stmt_laws D view" "c_cur (v_stmt (view d) s) = Some img" "int (length img) < 2 ^ 31"
    and "length img \<le> length buf" "k \<le> length img" "take k buf = take k img" "length img - k < m"
  shows "\<exists>d'. column_loop m D s buf (length img) (int k) d = Ret (img @ drop (length img) buf, length img) d' \<and> view d' = view d"
  using assms(2,4-7)
proof (induction m arbitrary: d buf k)
  case (Suc m)
  have total: "to_int (int (length img)) = int (length img)" using assms(3) by (simp add: to_int_small)
  show ?case
  proof (cases "k < length img")
    case True
    obtain len d' where d': "st_fetch_column D d s 0 k 1 = (take 1 (drop k img), len, d')" "len \<in> {None, Some (length img)}" "view d' = view d"
      using column_law [OF assms(1) Suc.prems(1) True] by blast
    have one: "take 1 (drop k img) = [img ! k]" using True by (simp add: take_Suc_conv_app_nth hd_drop_conv_nth take_Suc)
    let ?buf = "take k buf @ [img ! k] @ drop (Suc k) buf"
    have put: "memcpy buf (int k) [img ! k] = Some ?buf" using True Suc.prems(2) by (simp add: memcpy_def)
    have "take (Suc k) ?buf = take (Suc k) img" "length ?buf = length buf" "drop (length img) ?buf = drop (length img) buf"
      using True Suc.prems(2,4) by (simp_all add: take_Suc_conv_app_nth drop_Cons' Suc_pred [OF order_le_less_trans [OF le0 True]])
    moreover have "length img - Suc k < m" using True Suc.prems(5) by linarith
    ultimately obtain d'' where "column_loop m D s ?buf (length img) (int (Suc k)) d' = Ret (img @ drop (length img) buf, length img) d''" "view d'' = view d"
      using Suc.IH [of d' ?buf "Suc k"] Suc.prems True d'(3) by auto
    then show ?thesis using d' one put True total by (auto simp: add.commute)
  next
    case False
    then have "take (length img) buf = img" using Suc.prems(3,4) by simp
    then have "img @ drop (length img) buf = buf" by (metis append_take_drop_id)
    then show ?thesis using False Suc.prems(3) total by simp
  qed
qed simp

text \<open>The last image is too long: the loop writes behind the buffer.\<close>

lemma column_loop_overflow:
  assumes "stmt_laws D view" "c_cur (v_stmt (view d) s) = Some img" "int (length img) < 2 ^ 31"
    and "length buf < length img" "k \<le> length buf" "length img - k < m"
  shows "column_loop m D s buf (length img) (int k) d = Fault"
  using assms(2,4-6)
proof (induction m arbitrary: d buf k)
  case (Suc m)
  have total: "to_int (int (length img)) = int (length img)" using assms(3) by (simp add: to_int_small)
  obtain len d' where d': "st_fetch_column D d s 0 k 1 = (take 1 (drop k img), len, d')" "len \<in> {None, Some (length img)}" "view d' = view d"
    using column_law [OF assms(1) Suc.prems(1), of k 1] Suc.prems(2,3) by auto
  have one: "take 1 (drop k img) = [img ! k]" using Suc.prems by (simp add: hd_drop_conv_nth take_Suc)
  show ?case
  proof (cases "k < length buf")
    case True
    let ?buf = "take k buf @ [img ! k] @ drop (Suc k) buf"
    have put: "memcpy buf (int k) [img ! k] = Some ?buf" "length ?buf = length buf" using True by (simp_all add: memcpy_def)
    have "column_loop m D s ?buf (length img) (int (Suc k)) d' = Fault"
      using Suc.IH [of d' ?buf "Suc k"] Suc.prems True d'(3) put(2) by auto
    then show ?thesis using d' one put Suc.prems total True by (auto simp: add.commute)
  next
    case False
    then have "memcpy buf (int k) [img ! k] = None" by (simp add: memcpy_def)
    then show ?thesis using d' one Suc.prems total by simp
  qed
qed simp

lemma mysql_write_stores:
  assumes "stmt_laws D view" "0 < length bs" "int (length bs) < 2 ^ 31"
  shows "\<exists>d' c T. mysql_write D True (Some (bs @ r)) (int (length bs)) d = Ret 0 d' \<and>
    view d' = (view d)\<lparr>v_stmt := c, v_images := v_images (view d) @ [Some bs], v_table := T\<rparr>"
proof -
  obtain s d1 where d1: "st_init D d = (Some s, d1)" "view d1 = upd_stmt (view d) s (\<lambda>_. no_cursor)"
    using stmt_init_law [OF assms(1)] by metis
  obtain d2 where d2: "st_prepare D d1 s SQL_INSERT_IMG_USER = (0, d2)" "view d2 = upd_stmt (view d1) s (\<lambda>c. c\<lparr>c_sql := SQL_INSERT_IMG_USER\<rparr>)"
    using prepare_law [OF assms(1)] by (metis insertI1)
  obtain d3 where d3: "st_bind_param D d2 s = (0, d3)" "view d3 = view d2"
    using bind_param_law [OF assms(1)] by metis
  obtain d4 where d4: "st_send_long_data D d3 s 0 bs = (0, d4)" "view d4 = upd_stmt (view d3) s (\<lambda>c. c\<lparr>c_long := c_long c @ bs\<rparr>)"
    using send_long_law [OF assms(1)] by metis
  have "v_stmt (view d4) s = no_cursor\<lparr>c_sql := SQL_INSERT_IMG_USER, c_long := bs\<rparr>"
    using d1 d2 d3 d4 by (simp add: no_cursor_def)
  then have "c_sql (v_stmt (view d4) s) = SQL_INSERT_IMG_USER" "c_long (v_stmt (view d4) s) = bs" by simp_all
  then obtain d5 T where d5: "st_execute D d4 s = (0, d5)" "view d5 = (view d4)\<lparr>v_images := v_images (view d4) @ [Some bs], v_table := T\<rparr>"
    using execute_insert_law [OF assms(1)] by metis
  obtain d6 where d6: "st_close D d5 s = (0, d6)" "view d6 = view d5"
    using stmt_close_law [OF assms(1)] by metis
  have "block (bs @ r) 0 (int (length bs)) = Some bs" using block_at [of 0 "[]" "int (length bs)" bs r] by simp
  then show ?thesis
    using assms(2) d1 d2 d3 d4 d5 d6 by (auto simp: mysql_write_def checked_def upd_stmt_def)
qed

text \<open>The calls of \<open>mysql_read\<close> before its loop, when there is one row.\<close>

lemma mysql_read_starts:
  assumes "stmt_laws D view" "v_images (view d) = [Some img]" "0 < len"
  obtains s d' c where "v_stmt (view d') s = no_cursor\<lparr>c_sql := SQL_SELECT_IMG_USER, c_rows := [Some img]\<rparr>"
    "view d' = (view d)\<lparr>v_stmt := c\<rparr>"
    "\<And>n m buf. mysql_read n m D True (Some buf) len d = comp_bind (read_loop n m D s buf 0 d') (\<lambda>(buf, total_length) d.
           Ret (to_int (int total_length), Some buf) (snd (st_close D d s)))"
proof -
  obtain s d1 where d1: "st_init D d = (Some s, d1)" "view d1 = upd_stmt (view d) s (\<lambda>_. no_cursor)"
    using stmt_init_law [OF assms(1)] by metis
  obtain d2 where d2: "st_prepare D d1 s SQL_SELECT_IMG_USER = (0, d2)" "view d2 = upd_stmt (view d1) s (\<lambda>c. c\<lparr>c_sql := SQL_SELECT_IMG_USER\<rparr>)"
    using prepare_law [OF assms(1)] by (metis insertI1 insertI2)
  obtain d3 where d3: "st_bind_result D d2 s = (0, d3)" "view d3 = view d2"
    using bind_result_law [OF assms(1)] by metis
  have "c_sql (v_stmt (view d3) s) = SQL_SELECT_IMG_USER" using d2 d3 by simp
  then obtain d4 rows where d4: "st_execute D d3 s = (0, d4)" "mset rows = mset (v_images (view d3))"
      "view d4 = upd_stmt (view d3) s (\<lambda>c. c\<lparr>c_rows := rows\<rparr>)"
    using execute_select_law [OF assms(1)] by metis
  then have rows: "rows = [Some img]" using d1 d2 d3 assms(2) by simp
  obtain d5 where d5: "st_store_result D d4 s = (0, d5)" "view d5 = view d4"
    using stmt_store_law [OF assms(1)] by metis
  show thesis
    by (rule that [of d5 s "v_stmt (view d5)"])
      (use assms(3) d1 d2 d3 d4 d5 rows in \<open>simp_all add: mysql_read_def checked_def no_cursor_def upd_stmt_def\<close>)
qed

lemma mysql_read_fetches:
  assumes "stmt_laws D view" "v_images (view d) = [Some img]" "int (length img) < 2 ^ 31"
    and "length img \<le> length buf" "0 < len" "2 \<le> n" "length img < m"
  shows "\<exists>d' c. mysql_read n m D True (Some buf) len d = Ret (int (length img), Some (img @ drop (length img) buf)) d' \<and>
    view d' = (view d)\<lparr>v_stmt := c\<rparr>"
proof -
  obtain s d1 c where d1: "v_stmt (view d1) s = no_cursor\<lparr>c_sql := SQL_SELECT_IMG_USER, c_rows := [Some img]\<rparr>" "view d1 = (view d)\<lparr>v_stmt := c\<rparr>"
      "\<And>n m buf. mysql_read n m D True (Some buf) len d = comp_bind (read_loop n m D s buf 0 d1) (\<lambda>(buf, total_length) d.
           Ret (to_int (int total_length), Some buf) (snd (st_close D d s)))"
    by (rule mysql_read_starts [OF assms(1,2,5)]) (rule that, assumption+)
  then have "c_rows (v_stmt (view d1) s) = Some img # []" by simp
  then obtain ret d2 where d2: "st_fetch D d1 s = (ret, Some (length img), d2)" "ret \<in> {0, MYSQL_DATA_TRUNCATED}"
      "view d2 = upd_stmt (view d1) s (\<lambda>c. c\<lparr>c_rows := [], c_cur := Some img\<rparr>)"
    using fetch_law [OF assms(1)] by metis
  then have cur: "c_cur (v_stmt (view d2) s) = Some img" "c_rows (v_stmt (view d2) s) = []" by simp_all
  obtain d3 where d3: "column_loop m D s buf (length img) 0 d2 = Ret (img @ drop (length img) buf, length img) d3" "view d3 = view d2"
    using column_loop_all [OF assms(1) cur(1) assms(3,4), of 0 m] assms(7) by auto
  obtain d4 where d4: "st_fetch D d3 s = (100, None, d4)" "view d4 = view d3"
    using fetch_none_law [OF assms(1)] cur(2) d3(2) by metis
  obtain d5 where d5: "st_close D d4 s = (0, d5)" "view d5 = view d4"
    using stmt_close_law [OF assms(1)] by metis
  obtain k where n: "n = Suc (Suc k)" using assms(6) by (metis Suc_le_D add_2_eq_Suc le_Suc_ex)
  have total: "to_int (int (length img)) = int (length img)" using assms(3) by (simp add: to_int_small)
  show ?thesis
    using d1 d2 d3 d4 d5 total by (auto simp: n MYSQL_DATA_TRUNCATED_def upd_stmt_def)
qed

lemma mysql_read_overflows:
  assumes "stmt_laws D view" "v_images (view d) = [Some img]" "int (length img) < 2 ^ 31"
    and "length buf < length img" "0 < len" "1 \<le> n" "length img < m"
  shows "mysql_read n m D True (Some buf) len d = Fault"
proof -
  obtain s d1 c where d1: "v_stmt (view d1) s = no_cursor\<lparr>c_sql := SQL_SELECT_IMG_USER, c_rows := [Some img]\<rparr>" "view d1 = (view d)\<lparr>v_stmt := c\<rparr>"
      "\<And>n m buf. mysql_read n m D True (Some buf) len d = comp_bind (read_loop n m D s buf 0 d1) (\<lambda>(buf, total_length) d.
           Ret (to_int (int total_length), Some buf) (snd (st_close D d s)))"
    by (rule mysql_read_starts [OF assms(1,2,5)]) (rule that, assumption+)
  then have "c_rows (v_stmt (view d1) s) = Some img # []" by simp
  then obtain ret d2 where d2: "st_fetch D d1 s = (ret, Some (length img), d2)" "ret \<in> {0, MYSQL_DATA_TRUNCATED}"
      "view d2 = upd_stmt (view d1) s (\<lambda>c. c\<lparr>c_rows := [], c_cur := Some img\<rparr>)"
    using fetch_law [OF assms(1)] by metis
  then have "column_loop m D s buf (length img) (int 0) d2 = Fault"
    using assms(3,4,7) by (intro column_loop_overflow [OF assms(1)]) simp_all
  moreover obtain k where "n = Suc k" using assms(6) by (cases n) auto
  ultimately show ?thesis using d1(3) d2 by (auto simp: MYSQL_DATA_TRUNCATED_def)
qed

subsection \<open>Files\<close>

lemma read_image_reads:
  assumes "file_laws D view" "v_files (view d) name = Some img" "length img \<le> length buf" "int (length img) < 2 ^ 31"
  shows "\<exists>d' p. read_image D (Some name) (Some buf) d = Ret (int (length img), Some (img @ drop (length img) buf)) d' \<and>
    view d' = (view d)\<lparr>v_open := p\<rparr>"
proof -
  obtain h d1 where d1: "f_open D d name ''rb'' = (Some h, d1)" "view d1 = (view d)\<lparr>v_open := (v_open (view d))(h := (name, 0))\<rparr>"
    using open_read_law [OF assms(1,2)] by metis
  then have at: "v_open (view d1) h = (name, 0)" "v_files (view d1) name = Some img" using assms(2) by simp_all
  have sz: "f_size D d1 h = int (length img)" using file_size_law [OF assms(1) at] .
  have num: "to_int (int (length img)) = int (length img)" "nat (int (length img) mod 2 ^ 64) = length img"
    using assms(4) by (simp_all add: to_int_small)
  obtain d2 where d2: "f_read D d1 h (length img) = (take (length img) (drop 0 img), d2)"
      "view d2 = (view d1)\<lparr>v_open := (v_open (view d1))(h := (name, 0 + length (take (length img) (drop 0 img))))\<rparr>"
    using file_read_law [OF assms(1) at, of "length img"] by metis
  have "view (f_close D d2 h) = view d2" by (rule file_close_law [OF assms(1)])
  then show ?thesis
    using d1 d2 num assms(3) by (auto simp: read_image_def sz Let_def simp del: fun_upd_apply)
qed

lemma write_image_writes:
  assumes "file_laws D view" "0 < length img" "int (length img) < 2 ^ 31"
  shows "\<exists>d' p. write_image D (Some name) (Some (img @ r)) (int (length img)) d = Ret (int (length img)) d' \<and>
    view d' = (view d)\<lparr>v_files := (v_files (view d))(name \<mapsto> img), v_open := p\<rparr>"
proof -
  obtain h d1 where d1: "f_open D d name ''wb+'' = (Some h, d1)"
      "view d1 = (view d)\<lparr>v_files := (v_files (view d))(name \<mapsto> []), v_open := (v_open (view d))(h := (name, 0))\<rparr>"
    using open_write_law [OF assms(1)] by metis
  then have at: "v_open (view d1) h = (name, length ([] :: u8 list))" "v_files (view d1) name = Some []" by simp_all
  have num: "to_int (int (length img)) = int (length img)" using assms(3) by (simp add: to_int_small)
  obtain d2 where d2: "f_write D d1 h img = (length img, d2)"
      "view d2 = (view d1)\<lparr>v_files := (v_files (view d1))(name \<mapsto> [] @ img), v_open := (v_open (view d1))(h := (name, length ([] :: u8 list) + length img))\<rparr>"
    using file_write_law [OF assms(1) at, of img] by metis
  have "view (f_close D d2 h) = view d2" by (rule file_close_law [OF assms(1)])
  moreover have "block (img @ r) 0 (int (length img)) = Some img" using block_at [of 0 "[]" "int (length img)" img r] by simp
  ultimately show ?thesis
    using d1 d2 num assms(2) by (auto simp: write_image_def simp del: fun_upd_apply)
qed

subsection \<open>Properties\<close>

text \<open>A library that does what the laws say, on the view itself, for the witnesses.  Its table has one column.\<close>

definition model_db :: "db_view db_api" where
  "model_db = \<lparr>my_init = (\<lambda>v. (True, v)), my_connect = (\<lambda>v. (True, v)),
     my_query = (\<lambda>v q. (0, if q = SQL_INSERT_TBL_USER then v\<lparr>v_last := q, v_table := v_table v @ [[None]], v_images := None # v_images v\<rparr>
        else if q = SQL_DELETE_TBL_USER then v\<lparr>v_last := q, v_table := [], v_images := []\<rparr> else v\<lparr>v_last := q\<rparr>)),
     my_store_result = (\<lambda>v. (Some 0, v\<lparr>v_result := (v_result v)(0 := v_table v)\<rparr>)), my_num_fields = (\<lambda>v r. 1),
     my_fetch_row = (\<lambda>v r. case v_result v r of [] \<Rightarrow> (None, v) | row # rows \<Rightarrow> (Some [hd row], v\<lparr>v_result := (v_result v)(r := rows)\<rparr>)),
     my_free_result = (\<lambda>v r. v), my_close = (\<lambda>v. v),
     st_init = (\<lambda>v. (Some 0, upd_stmt v 0 (\<lambda>_. no_cursor))), st_prepare = (\<lambda>v s q. (0, upd_stmt v s (\<lambda>c. c\<lparr>c_sql := q\<rparr>))),
     st_bind_param = (\<lambda>v s. (0, v)), st_send_long_data = (\<lambda>v s p bs. (0, upd_stmt v s (\<lambda>c. c\<lparr>c_long := c_long c @ bs\<rparr>))),
     st_bind_result = (\<lambda>v s. (0, v)),
     st_execute = (\<lambda>v s. (0, if c_sql (v_stmt v s) = SQL_INSERT_IMG_USER
        then v\<lparr>v_images := v_images v @ [Some (c_long (v_stmt v s))], v_table := []\<rparr> else upd_stmt v s (\<lambda>c. c\<lparr>c_rows := v_images v\<rparr>))),
     st_store_result = (\<lambda>v s. (0, v)),
     st_fetch = (\<lambda>v s. case c_rows (v_stmt v s) of Some img # rows \<Rightarrow>
          (MYSQL_DATA_TRUNCATED, Some (length img), upd_stmt v s (\<lambda>c. c\<lparr>c_rows := rows, c_cur := Some img\<rparr>))
        | _ \<Rightarrow> (100, None, v)),
     st_fetch_column = (\<lambda>v s col off n. (case c_cur (v_stmt v s) of None \<Rightarrow> [] | Some img \<Rightarrow> take n (drop off img), None, v)),
     st_close = (\<lambda>v s. (0, v)),
     f_open = (\<lambda>v name mode. (Some 0, if mode = ''rb'' then v\<lparr>v_open := (v_open v)(0 := (name, 0))\<rparr>
        else v\<lparr>v_files := (v_files v)(name \<mapsto> []), v_open := (v_open v)(0 := (name, 0))\<rparr>)),
     f_size = (\<lambda>v h. case v_files v (fst (v_open v h)) of None \<Rightarrow> -1 | Some bs \<Rightarrow> int (length bs)),
     f_read = (\<lambda>v h n. case v_open v h of (name, p) \<Rightarrow> case v_files v name of None \<Rightarrow> ([], v)
        | Some bs \<Rightarrow> (take n (drop p bs), v\<lparr>v_open := (v_open v)(h := (name, p + length (take n (drop p bs))))\<rparr>)),
     f_write = (\<lambda>v h bs. case v_open v h of (name, p) \<Rightarrow> case v_files v name of None \<Rightarrow> (0, v)
        | Some old \<Rightarrow> (length bs, v\<lparr>v_files := (v_files v)(name \<mapsto> old @ bs), v_open := (v_open v)(h := (name, length old + length bs))\<rparr>)),
     f_close = (\<lambda>v h. v)\<rparr>"

definition one_column :: "db_view \<Rightarrow> db_view" where
  "one_column v = v\<lparr>v_table := map (\<lambda>row. [hd row]) (v_table v), v_result := map (\<lambda>row. [hd row]) \<circ> v_result v\<rparr>"

lemma sql_distinct [simp]:
  "SQL_DELETE_TBL_USER \<noteq> SQL_INSERT_TBL_USER" "SQL_SELECT_TBL_USER \<noteq> SQL_INSERT_TBL_USER" "SQL_SELECT_TBL_USER \<noteq> SQL_DELETE_TBL_USER"
  "SQL_SELECT_IMG_USER \<noteq> SQL_INSERT_IMG_USER"
  by (simp_all add: SQL_DELETE_TBL_USER_def SQL_INSERT_TBL_USER_def SQL_SELECT_TBL_USER_def SQL_SELECT_IMG_USER_def SQL_INSERT_IMG_USER_def)

lemma one_column_simps [simp]:
  "v_last (one_column v) = v_last v" "v_images (one_column v) = v_images v" "v_stmt (one_column v) = v_stmt v"
  "v_files (one_column v) = v_files v" "v_open (one_column v) = v_open v" "one_column (upd_stmt v s f) = upd_stmt (one_column v) s f"
  by (simp_all add: one_column_def upd_stmt_def)

lemma model_session: "session_laws model_db one_column"
  unfolding session_laws_def
  by (intro conjI) (auto simp: model_db_def one_column_def fun_eq_iff db_view.splits(2) split: list.splits)

lemma model_stmt: "stmt_laws model_db one_column"
  unfolding stmt_laws_def
  by (intro conjI) (auto simp: model_db_def MYSQL_DATA_TRUNCATED_def one_column_def upd_stmt_def db_view.splits(2) split: list.splits option.splits)

lemma model_file: "file_laws model_db one_column"
  unfolding file_laws_def
  by (intro conjI) (auto simp: model_db_def one_column_def split: list.splits option.splits prod.splits)

lemma model_laws: "db_laws model_db one_column"
  by (simp add: db_laws_def model_session model_stmt model_file)

text \<open>A fresh database and one image.\<close>

definition image_view :: "u8 list \<Rightarrow> db_view" where
  "image_view img = \<lparr>v_last = [], v_table = [], v_images = [], v_result = (\<lambda>_. []), v_stmt = (\<lambda>_. no_cursor),
     v_files = [''0voice.jpg'' \<mapsto> img], v_open = (\<lambda>_. ([], 0))\<rparr>"

text \<open>C28.  \<open>nty_mysql_oper.c\<close> copies an image through the database: when the calls of the library succeed, the procedure
  deletes the rows of King and the image is neither empty nor longer than the buffer of 64 KiB, the
  coroutine ends, having sent the bytes of \<open>0voice.jpg\<close> to the database, fetched them back byte by byte, and
  written them to \<open>a.jpg\<close>.  One iteration per row and one per byte, and one more, are enough.\<close>

theorem image_copied:
  assumes "db_laws D view" "v_files (view d) ''0voice.jpg'' = Some img" "img \<noteq> []" "length img \<le> FILE_IMAGE_LENGTH"
    and "length (v_table (view d)) + 1 < n" "length img < m"
  shows "\<exists>d'. coroutine_func n m D d = Ret () d' \<and> v_images (view d') = [Some img] \<and>
    v_files (view d') = (v_files (view d))(''a.jpg'' \<mapsto> img)"
proof -
  note se = assms(1) [unfolded db_laws_def, THEN conjunct1]
  note st = assms(1) [unfolded db_laws_def, THEN conjunct2, THEN conjunct1]
  note fi = assms(1) [unfolded db_laws_def, THEN conjunct2, THEN conjunct2]
  have len: "0 < length img" "int (length img) < 2 ^ 31" using assms(3,4) by (auto simp: FILE_IMAGE_LENGTH_def)
  obtain d1 where d1: "my_init D d = (True, d1)" "view d1 = view d" using my_init_law [OF se] by metis
  obtain d2 where d2: "my_connect D d1 = (True, d2)" "view d2 = view d1" using my_connect_law [OF se] by metis
  obtain d3 row I where d3: "my_query D d2 SQL_INSERT_TBL_USER = (0, d3)"
      "view d3 = (view d2)\<lparr>v_last := SQL_INSERT_TBL_USER, v_table := v_table (view d2) @ [row], v_images := I\<rparr>"
    using insert_law [OF se] by metis
  have "length (v_table (view d3)) < n" using d1 d2 d3 assms(5) by simp
  then obtain o1 d4 r where d4: "king_mysql_select n D d3 = Ret o1 d4" "view d4 = (view d3)\<lparr>v_last := SQL_SELECT_TBL_USER, v_result := r\<rparr>"
    using select_all [OF se] by metis
  obtain d5 T where d5: "my_query D d4 SQL_DELETE_TBL_USER = (0, d5)" "length T \<le> length (v_table (view d4))"
      "view d5 = (view d4)\<lparr>v_last := SQL_DELETE_TBL_USER, v_table := T, v_images := []\<rparr>"
    using delete_law [OF se] by metis
  have "length (v_table (view d5)) < n" using d1 d2 d3 d4 d5 assms(5) by simp
  then obtain o2 d6 r' where d6: "king_mysql_select n D d5 = Ret o2 d6" "view d6 = (view d5)\<lparr>v_last := SQL_SELECT_TBL_USER, v_result := r'\<rparr>"
    using select_all [OF se] by metis
  have v6: "v_files (view d6) = v_files (view d)" "v_images (view d6) = []" using d1 d2 d3 d4 d5 d6 by simp_all
  let ?zeros = "replicate FILE_IMAGE_LENGTH (0 :: u8)"
  obtain d7 p where d7: "read_image D (Some ''0voice.jpg'') (Some ?zeros) d6 = Ret (int (length img), Some (img @ drop (length img) ?zeros)) d7"
      "view d7 = (view d6)\<lparr>v_open := p\<rparr>"
    using read_image_reads [OF fi, of d6 "''0voice.jpg''" img ?zeros] v6 assms(2,4) len by auto
  obtain d8 c U where d8: "mysql_write D True (Some (img @ drop (length img) ?zeros)) (int (length img)) d7 = Ret 0 d8"
      "view d8 = (view d7)\<lparr>v_stmt := c, v_images := v_images (view d7) @ [Some img], v_table := U\<rparr>"
    using mysql_write_stores [OF st len] by metis
  have v8: "v_images (view d8) = [Some img]" "v_files (view d8) = v_files (view d)" using d8 d7 v6 by simp_all
  have fuel: "0 < int FILE_IMAGE_LENGTH" "2 \<le> n" using assms(5) by (simp_all add: FILE_IMAGE_LENGTH_def)
  obtain d9 e where d9: "mysql_read n m D True (Some ?zeros) (int FILE_IMAGE_LENGTH) d8 = Ret (int (length img), Some (img @ drop (length img) ?zeros)) d9"
      "view d9 = (view d8)\<lparr>v_stmt := e\<rparr>"
    using mysql_read_fetches [OF st v8(1) len(2) _ fuel assms(6), of ?zeros] assms(4) by auto
  obtain d10 q where d10: "write_image D (Some ''a.jpg'') (Some (img @ drop (length img) ?zeros)) (int (length img)) d9 = Ret (int (length img)) d10"
      "view d10 = (view d9)\<lparr>v_files := (v_files (view d9))(''a.jpg'' \<mapsto> img), v_open := q\<rparr>"
    using write_image_writes [OF fi len] by metis
  have "coroutine_func n m D d = Ret () (my_close D d10)"
    using d1 d2 d3 d4 d5 d6 d7 d8 d9 d10 by (simp add: coroutine_func_def image_cases_def close_mysql_def)
  moreover have "view (my_close D d10) = view d10" by (rule my_close_law [OF se])
  ultimately show ?thesis using d10 d9 v8 by (simp del: fun_upd_apply)
qed

theorem image_copied_witness:
  "\<exists>d'. coroutine_func 2 4 model_db (image_view [255, 216, 0]) = Ret () d' \<and> v_images (one_column d') = [Some [255, 216, 0]] \<and>
    v_files (one_column d') = [''0voice.jpg'' \<mapsto> [255, 216, 0], ''a.jpg'' \<mapsto> [255, 216, 0]]"
  using image_copied [OF model_laws, of "image_view [255, 216, 0]" "[255, 216, 0]" 2 4]
  by (simp add: image_view_def one_column_def FILE_IMAGE_LENGTH_def)

text \<open>C39.  \<open>mysql_read\<close> does not look at the length of its buffer: an image that is longer than the buffer is written behind
  its end, whatever \<open>length\<close> the caller passes.\<close>

theorem mysql_read_ignores_length:
  assumes "stmt_laws D view" "v_images (view d) = [Some img]" "int (length img) < 2 ^ 31"
    and "length buf < length img" "0 < len" "1 \<le> n" "length img < m"
  shows "mysql_read n m D True (Some buf) len d = Fault"
  by (rule mysql_read_overflows [OF assms])

theorem mysql_read_ignores_length_witness:
  "mysql_read 1 4 model_db True (Some [0, 0]) 2 ((image_view [])\<lparr>v_images := [Some [255, 216, 0]]\<rparr>) = Fault"
  using mysql_read_ignores_length [OF model_stmt, of "(image_view [])\<lparr>v_images := [Some [255, 216, 0]]\<rparr>" "[255, 216, 0]" "[0, 0]" 2 1 4]
  by (simp add: image_view_def)

end
