(* ===== verification/Redis_Client.thy ===== *)
theory Redis_Client
  imports Httpd
begin

text \<open>
  The sample \<open>sample/nty_rediscli.c\<close>.  The hiredis library and the server are a parameter, a record of functions over one
  abstract state; what the sample relies on is stated in \<open>redis_laws\<close>.  What the coroutine prints is its result.
\<close>

subsection \<open>The library\<close>

text \<open>The fields of a reply that the sample reads.\<close>

record redis_reply =
  rr_type :: int
  rr_str :: "u8 list option"
  rr_integer :: int
  rr_element :: "u8 list option list"

definition REDIS_REPLY_ARRAY :: int where "REDIS_REPLY_ARRAY = 2"

text \<open>A connection and a reply are numbers, \<open>None\<close> a null pointer.  \<open>r_err\<close> is the field \<open>err\<close>; \<open>r_command d c format args\<close>
  is a command; freeing an object that is not allocated has no result.\<close>

record 'd redis_api =
  r_connect :: "'d \<Rightarrow> nat option \<times> 'd"
  r_err :: "'d \<Rightarrow> nat \<Rightarrow> int"
  r_command :: "'d \<Rightarrow> nat \<Rightarrow> string \<Rightarrow> u8 list list \<Rightarrow> nat option \<times> 'd"
  r_reply :: "'d \<Rightarrow> nat \<Rightarrow> redis_reply"
  r_free_reply :: "'d \<Rightarrow> nat option \<Rightarrow> 'd option"
  r_free :: "'d \<Rightarrow> nat \<Rightarrow> 'd option"

datatype printed = P_str "u8 list option" | P_int int

subsection \<open>The coroutine\<close>

text \<open>A command whose reply is printed and freed: the argument of \<open>printf\<close> is read from the reply, which must not be null.\<close>

definition ask_print :: "'d redis_api \<Rightarrow> nat \<Rightarrow> string \<Rightarrow> u8 list list \<Rightarrow> (redis_reply \<Rightarrow> printed list) \<Rightarrow> 'd \<Rightarrow> ('d, printed list) comp" where
  "ask_print R c format args get d = (case r_command R d c format args of (reply, d) \<Rightarrow> case reply of None \<Rightarrow> Fault
     | Some r \<Rightarrow> (case r_free_reply R d (Some r) of None \<Rightarrow> Fault | Some d' \<Rightarrow> Ret (get (r_reply R d r)) d'))"

text \<open>A command whose reply is only freed; \<open>freeReplyObject\<close> takes a null pointer.\<close>

definition ask_free :: "'d redis_api \<Rightarrow> nat \<Rightarrow> string \<Rightarrow> u8 list list \<Rightarrow> 'd \<Rightarrow> ('d, unit) comp" where
  "ask_free R c format args d = (case r_command R d c format args of (reply, d) \<Rightarrow>
     lift_opt (r_free_reply R d reply))"

definition get_str :: "redis_reply \<Rightarrow> printed list" where "get_str r = [P_str (rr_str r)]"

definition get_integer :: "redis_reply \<Rightarrow> printed list" where "get_integer r = [P_int (rr_integer r)]"

definition get_elements :: "redis_reply \<Rightarrow> printed list" where
  "get_elements r = (if rr_type r = REDIS_REPLY_ARRAY then map P_str (rr_element r) else [])"

text \<open>The loop that fills the list, from \<open>j\<close> on.\<close>

fun push_loop :: "nat \<Rightarrow> 'd redis_api \<Rightarrow> nat \<Rightarrow> nat \<Rightarrow> 'd \<Rightarrow> ('d, unit) comp" where
  "push_loop 0 R c j d = Ret () d"
| "push_loop (Suc n) R c j d = (case strcpy (replicate 64 0) (decimal j) of None \<Rightarrow> Fault
     | Some buf \<Rightarrow> (case c_string buf of None \<Rightarrow> Fault
       | Some s \<Rightarrow> comp_bind (ask_free R c ''LPUSH mylist element-%s'' [s] d) (\<lambda>_. push_loop n R c (j + 1))))"

text \<open>The commands whose replies are printed, in order.\<close>

definition first_commands :: "(string \<times> u8 list list \<times> (redis_reply \<Rightarrow> printed list)) list" where
  "first_commands = [(''PING'', [], get_str), (''SET %s %s'', [bytes_of ''foo'', bytes_of ''hello world''], get_str),
     (''SET %b %b'', [bytes_of ''bar'', bytes_of ''hello''], get_str), (''GET foo'', [], get_str),
     (''INCR counter'', [], get_integer), (''INCR counter'', [], get_integer)]"

fun ask_all :: "'d redis_api \<Rightarrow> nat \<Rightarrow> (string \<times> u8 list list \<times> (redis_reply \<Rightarrow> printed list)) list \<Rightarrow> 'd \<Rightarrow> ('d, printed list) comp" where
  "ask_all R c [] d = Ret [] d"
| "ask_all R c ((format, args, get) # qs) d = comp_bind (ask_print R c format args get d) (\<lambda>p d.
     comp_bind (ask_all R c qs d) (\<lambda>ps d. Ret (p @ ps) d))"

definition redis_talk :: "'d redis_api \<Rightarrow> nat \<Rightarrow> 'd \<Rightarrow> ('d, printed list) comp" where
  "redis_talk R c d =
     comp_bind (ask_all R c first_commands d) (\<lambda>ps d.
     comp_bind (ask_free R c ''DEL mylist'' [] d) (\<lambda>_ d.
     comp_bind (push_loop 10 R c 0 d) (\<lambda>_ d.
     comp_bind (ask_print R c ''LRANGE mylist 0 -1'' [] get_elements d) (\<lambda>p d.
     case r_free R d c of None \<Rightarrow> Fault | Some d \<Rightarrow> Ret (ps @ p) d))))"

text \<open>\<open>None\<close> stands for \<open>exit(1)\<close>.\<close>

definition redis_coroutine :: "'d redis_api \<Rightarrow> 'd \<Rightarrow> ('d, printed list option) comp" where
  "redis_coroutine R d = (case r_connect R d of (c, d) \<Rightarrow> case c of None \<Rightarrow> Ret None d
     | Some c \<Rightarrow> if r_err R d c \<noteq> 0 then (case r_free R d c of None \<Rightarrow> Fault | Some d \<Rightarrow> Ret None d)
         else comp_bind (redis_talk R c d) (\<lambda>p d. Ret (Some p) d))"

subsection \<open>What the sample relies on\<close>

text \<open>What can be observed: the replies and the connections that are allocated, the list \<open>mylist\<close>, and what a reply holds.\<close>

record redis_view =
  w_replies :: "nat set"
  w_conns :: "nat set"
  w_mylist :: "u8 list list"
  w_reply :: "nat \<Rightarrow> redis_reply"

text \<open>The effect of a command on \<open>mylist\<close>.\<close>

definition list_after :: "string \<Rightarrow> u8 list list \<Rightarrow> u8 list list \<Rightarrow> u8 list list" where
  "list_after format args xs = (if format = ''DEL mylist'' then []
     else if format = ''LPUSH mylist element-%s'' then (bytes_of ''element-'' @ hd args) # xs else xs)"

definition redis_laws :: "'d redis_api \<Rightarrow> ('d \<Rightarrow> redis_view) \<Rightarrow> bool" where
  "redis_laws R view = (
     (\<forall>d. \<exists>c d'. r_connect R d = (Some c, d') \<and> r_err R d' c = 0 \<and> c \<notin> w_conns (view d) \<and>
        view d' = (view d)\<lparr>w_conns := insert c (w_conns (view d))\<rparr>) \<and>
     (\<forall>d c format args. c \<in> w_conns (view d) \<longrightarrow> (\<exists>r x d'. r_command R d c format args = (Some r, d') \<and> r \<notin> w_replies (view d) \<and>
        (format = ''LRANGE mylist 0 -1'' \<longrightarrow> rr_type x = REDIS_REPLY_ARRAY \<and> rr_element x = map Some (w_mylist (view d))) \<and>
        view d' = (view d)\<lparr>w_replies := insert r (w_replies (view d)), w_mylist := list_after format args (w_mylist (view d)),
          w_reply := (w_reply (view d))(r := x)\<rparr>)) \<and>
     (\<forall>d r. r \<in> w_replies (view d) \<longrightarrow> r_reply R d r = w_reply (view d) r) \<and>
     (\<forall>d r. r \<in> w_replies (view d) \<longrightarrow> (\<exists>d'. r_free_reply R d (Some r) = Some d' \<and>
        view d' = (view d)\<lparr>w_replies := w_replies (view d) - {r}\<rparr>)) \<and>
     (\<forall>d c. c \<in> w_conns (view d) \<longrightarrow> (\<exists>d'. r_free R d c = Some d' \<and> view d' = (view d)\<lparr>w_conns := w_conns (view d) - {c}\<rparr>)))"

lemmas connect_law = redis_laws_def [THEN iffD1, THEN conjunct1, rule_format]
lemmas command_law = redis_laws_def [THEN iffD1, THEN conjunct2, THEN conjunct1, rule_format]
lemmas reply_law = redis_laws_def [THEN iffD1, THEN conjunct2, THEN conjunct2, THEN conjunct1, rule_format]
lemmas free_reply_law = redis_laws_def [THEN iffD1, THEN conjunct2, THEN conjunct2, THEN conjunct2, THEN conjunct1, rule_format]
lemmas free_law = redis_laws_def [THEN iffD1, THEN conjunct2, THEN conjunct2, THEN conjunct2, THEN conjunct2, rule_format]

subsection \<open>The conversation\<close>

text \<open>A command leaves no reply behind and changes the list as the server does.\<close>

definition same_but_list :: "redis_view \<Rightarrow> u8 list list \<Rightarrow> redis_view \<Rightarrow> bool" where
  "same_but_list v xs v' = (w_replies v' = w_replies v \<and> w_conns v' = w_conns v \<and> w_mylist v' = xs)"

lemma command_freed:
  assumes "redis_laws R view" "c \<in> w_conns (view d)"
  obtains r x d' d'' where "r_command R d c format args = (Some r, d')" "r_free_reply R d' (Some r) = Some d''" "r_reply R d' r = x"
    "format = ''LRANGE mylist 0 -1'' \<Longrightarrow> rr_type x = REDIS_REPLY_ARRAY \<and> rr_element x = map Some (w_mylist (view d))"
    "same_but_list (view d) (list_after format args (w_mylist (view d))) (view d'')"
proof -
  obtain r x d' where d': "r_command R d c format args = (Some r, d')" "r \<notin> w_replies (view d)"
      "format = ''LRANGE mylist 0 -1'' \<longrightarrow> rr_type x = REDIS_REPLY_ARRAY \<and> rr_element x = map Some (w_mylist (view d))"
      "view d' = (view d)\<lparr>w_replies := insert r (w_replies (view d)), w_mylist := list_after format args (w_mylist (view d)),
        w_reply := (w_reply (view d))(r := x)\<rparr>"
    using command_law [OF assms, of format args] by (elim exE conjE) (rule that)
  then have r: "r \<in> w_replies (view d')" by simp
  obtain d'' where d'': "r_free_reply R d' (Some r) = Some d''" "view d'' = (view d')\<lparr>w_replies := w_replies (view d') - {r}\<rparr>"
    using free_reply_law [OF assms(1) r] by blast
  show thesis
    by (rule that [OF d'(1) d''(1)]) (use d' d'' reply_law [OF assms(1) r] in \<open>auto simp: same_but_list_def\<close>)
qed

lemma ask_print_ok:
  assumes "redis_laws R view" "c \<in> w_conns (view d)"
  obtains d' x where "ask_print R c format args get d = Ret (get x) d'"
    "same_but_list (view d) (list_after format args (w_mylist (view d))) (view d')"
    "format = ''LRANGE mylist 0 -1'' \<Longrightarrow> rr_type x = REDIS_REPLY_ARRAY \<and> rr_element x = map Some (w_mylist (view d))"
  by (rule command_freed [OF assms, of format args], rule that) (auto simp: ask_print_def)

lemma ask_free_ok:
  assumes "redis_laws R view" "c \<in> w_conns (view d)"
  obtains d' where "ask_free R c format args d = Ret () d'"
    "same_but_list (view d) (list_after format args (w_mylist (view d))) (view d')"
  by (rule command_freed [OF assms, of format args], rule that) (auto simp: ask_free_def)

text \<open>The list after pushing the numbers below \<open>j\<close>.\<close>

definition elements_below :: "nat \<Rightarrow> u8 list list" where
  "elements_below j = map (\<lambda>i. bytes_of ''element-'' @ decimal i) (rev [0..<j])"

lemma decimal_digit: "j < 10 \<Longrightarrow> decimal j = [48 + of_nat j]"
  by (simp add: decimal.simps)

lemma decimal_text: "j < 10 \<Longrightarrow> \<exists>buf. strcpy (replicate 64 0) (decimal j) = Some buf \<and> c_string buf = Some (decimal j)"
proof -
  assume j: "j < 10"
  then have "unat (48 + of_nat j :: u8) = 48 + j" by (simp add: unat_word_ariths unat_of_nat)
  then have "(48 + of_nat j :: u8) \<noteq> 0" by auto
  then show ?thesis
    using strcpy_holds [of "decimal j" "replicate 64 0"] j by (auto simp: decimal_digit)
qed

lemma push_loop_ok:
  assumes "redis_laws R view" "c \<in> w_conns (view d)" "w_mylist (view d) = elements_below j" "j + n \<le> 10"
  shows "\<exists>d'. push_loop n R c j d = Ret () d' \<and> same_but_list (view d) (elements_below (j + n)) (view d')"
  using assms(2-4)
proof (induction n arbitrary: j d)
  case 0
  then show ?case by (simp add: same_but_list_def)
next
  case (Suc n)
  obtain buf where buf: "strcpy (replicate 64 0) (decimal j) = Some buf" "c_string buf = Some (decimal j)"
    using decimal_text [of j] Suc.prems(3) by auto
  obtain d1 where d1: "ask_free R c ''LPUSH mylist element-%s'' [decimal j] d = Ret () d1"
      "same_but_list (view d) (list_after ''LPUSH mylist element-%s'' [decimal j] (w_mylist (view d))) (view d1)"
    using ask_free_ok [OF assms(1) Suc.prems(1)] by blast
  have "w_mylist (view d1) = elements_below (Suc j)" "c \<in> w_conns (view d1)"
    using d1(2) Suc.prems(1,2) by (simp_all add: same_but_list_def list_after_def elements_below_def)
  then show ?case
    using Suc.IH [of d1 "Suc j"] Suc.prems(3) d1 buf by (auto simp: same_but_list_def)
qed

text \<open>The commands that do not change the list.\<close>

lemma ask_print_same:
  assumes "redis_laws R view" "c \<in> w_conns (view d)" "format \<noteq> ''DEL mylist''" "format \<noteq> ''LPUSH mylist element-%s''"
  shows "\<exists>d' x. ask_print R c format args get d = Ret (get x) d' \<and> same_but_list (view d) (w_mylist (view d)) (view d') \<and>
    (format = ''LRANGE mylist 0 -1'' \<longrightarrow> rr_type x = REDIS_REPLY_ARRAY \<and> rr_element x = map Some (w_mylist (view d)))"
proof -
  obtain d' x where "ask_print R c format args get d = Ret (get x) d'"
    "same_but_list (view d) (list_after format args (w_mylist (view d))) (view d')"
    "format = ''LRANGE mylist 0 -1'' \<Longrightarrow> rr_type x = REDIS_REPLY_ARRAY \<and> rr_element x = map Some (w_mylist (view d))"
    by (rule ask_print_ok [OF assms(1,2), where format = format and args = args and get = get]) (rule that, assumption+)
  then show ?thesis using assms(3,4) by (auto simp: list_after_def)
qed

text \<open>The first commands print one value each.\<close>

lemma ask_all_ok:
  assumes "redis_laws R view" "c \<in> w_conns (view d)"
    and "\<forall>(format, args, get) \<in> set qs. format \<noteq> ''DEL mylist'' \<and> format \<noteq> ''LPUSH mylist element-%s'' \<and> (\<forall>x. length (get x) = 1)"
  shows "\<exists>ps d'. ask_all R c qs d = Ret ps d' \<and> length ps = length qs \<and> same_but_list (view d) (w_mylist (view d)) (view d')"
  using assms(2,3)
proof (induction qs arbitrary: d)
  case Nil
  then show ?case by (simp add: same_but_list_def)
next
  case (Cons q qs)
  obtain format args get where q: "q = (format, args, get)" by (cases q)
  obtain d1 x where d1: "ask_print R c format args get d = Ret (get x) d1" "same_but_list (view d) (w_mylist (view d)) (view d1)"
    using ask_print_same [OF assms(1) Cons.prems(1), of format args get] Cons.prems(2) q by auto
  then have "c \<in> w_conns (view d1)" using Cons.prems(1) by (simp add: same_but_list_def)
  then obtain ps d2 where "ask_all R c qs d1 = Ret ps d2" "length ps = length qs" "same_but_list (view d1) (w_mylist (view d1)) (view d2)"
    using Cons.IH [of d1] Cons.prems(2) by auto
  then show ?case using d1 q Cons.prems(2) by (auto simp: same_but_list_def)
qed

lemma redis_talk_ok:
  assumes "redis_laws R view" "c \<in> w_conns (view d)"
  shows "\<exists>ps d'. redis_talk R c d = Ret (ps @ map (P_str \<circ> Some) (elements_below 10)) d' \<and> length ps = 6 \<and>
    w_replies (view d') = w_replies (view d) \<and> w_conns (view d') = w_conns (view d) - {c} \<and> w_mylist (view d') = elements_below 10"
proof -
  note same = same_but_list_def
  obtain ps d6 where d6: "ask_all R c first_commands d = Ret ps d6" "length ps = 6" "same_but_list (view d) (w_mylist (view d)) (view d6)"
    using ask_all_ok [OF assms, of first_commands] by (auto simp: first_commands_def get_str_def get_integer_def)
  then have c6: "c \<in> w_conns (view d6)" using assms(2) by (simp add: same)
  obtain d7 where d7: "ask_free R c ''DEL mylist'' [] d6 = Ret () d7"
      "same_but_list (view d6) (list_after ''DEL mylist'' [] (w_mylist (view d6))) (view d7)"
    using ask_free_ok [OF assms(1) c6] by blast
  then have c7: "c \<in> w_conns (view d7)" "w_mylist (view d7) = elements_below 0"
    using c6 by (simp_all add: same list_after_def elements_below_def)
  obtain d8 where d8: "push_loop 10 R c 0 d7 = Ret () d8" "same_but_list (view d7) (elements_below 10) (view d8)"
    using push_loop_ok [OF assms(1) c7, of 10] by auto
  then have c8: "c \<in> w_conns (view d8)" "w_mylist (view d8) = elements_below 10" using c7 by (simp_all add: same)
  obtain d9 x9 where d9: "ask_print R c ''LRANGE mylist 0 -1'' [] get_elements d8 = Ret (get_elements x9) d9"
      "same_but_list (view d8) (w_mylist (view d8)) (view d9)" "rr_type x9 = REDIS_REPLY_ARRAY" "rr_element x9 = map Some (elements_below 10)"
    using ask_print_same [OF assms(1) c8(1), of "''LRANGE mylist 0 -1''" "[]" get_elements] c8(2) by auto
  then have "c \<in> w_conns (view d9)" using c8 by (simp add: same)
  then obtain d10 where d10: "r_free R d9 c = Some d10" "view d10 = (view d9)\<lparr>w_conns := w_conns (view d9) - {c}\<rparr>"
    using free_law [OF assms(1)] by blast
  have "redis_talk R c d = Ret (ps @ get_elements x9) d10"
    using d6(1) d7(1) d8(1) d9(1) d10(1) by (simp add: redis_talk_def)
  moreover have "get_elements x9 = map (P_str \<circ> Some) (elements_below 10)" using d9(3,4) by (simp add: get_elements_def)
  moreover have "w_replies (view d10) = w_replies (view d)" "w_conns (view d10) = w_conns (view d) - {c}" "w_mylist (view d10) = elements_below 10"
    using d10(2) d6(3) d7(2) d8(2) d9(2) by (simp_all add: same)
  ultimately show ?thesis using d6(2) by metis
qed

subsection \<open>Properties\<close>

text \<open>A server that does what the laws say, for the witness: the replies in use, the connections in use, the list, and
  what the replies hold.\<close>

type_synonym redis_state = "nat list \<times> nat list \<times> u8 list list \<times> (nat \<Rightarrow> redis_reply)"

definition redis_view_of :: "redis_state \<Rightarrow> redis_view" where
  "redis_view_of d = (case d of (rs, cs, xs, f) \<Rightarrow> \<lparr>w_replies = set rs, w_conns = set cs, w_mylist = xs, w_reply = f\<rparr>)"

definition model_redis :: "redis_state redis_api" where
  "model_redis = \<lparr>r_connect = (\<lambda>(rs, cs, xs, f). (Some (Suc (sum_list cs)), (rs, Suc (sum_list cs) # cs, xs, f))),
     r_err = (\<lambda>d c. 0),
     r_command = (\<lambda>(rs, cs, xs, f) c format args. (Some (Suc (sum_list rs)), (Suc (sum_list rs) # rs, cs, list_after format args xs,
        f(Suc (sum_list rs) := \<lparr>rr_type = REDIS_REPLY_ARRAY, rr_str = None, rr_integer = 1, rr_element = map Some xs\<rparr>)))),
     r_reply = (\<lambda>(rs, cs, xs, f) r. f r),
     r_free_reply = (\<lambda>(rs, cs, xs, f) r. case r of None \<Rightarrow> Some (rs, cs, xs, f)
        | Some r \<Rightarrow> if r \<in> set rs then Some (removeAll r rs, cs, xs, f) else None),
     r_free = (\<lambda>(rs, cs, xs, f) c. if c \<in> set cs then Some (rs, removeAll c cs, xs, f) else None)\<rparr>"

lemma model_redis_laws: "redis_laws model_redis redis_view_of"
proof -
  have "Suc (sum_list xs) \<notin> set xs" for xs :: "nat list" using member_le_sum_list [of "Suc (sum_list xs)" xs] by auto
  moreover have "\<exists>x. P x \<and> f(r := y) = f(r := x)" if "P y" for P and f :: "nat \<Rightarrow> redis_reply" and r y using that by blast
  ultimately show ?thesis by (auto simp: redis_laws_def model_redis_def redis_view_of_def)
qed

text \<open>C40.  The conversation of \<open>nty_rediscli.c\<close>: with a server that answers, the coroutine ends, prints six values and then
  the ten elements of \<open>mylist\<close> in the order \<open>element-9\<close> to \<open>element-0\<close>, and leaves no reply and no connection allocated
  that it made: every reply is freed, and freed once.\<close>

theorem redis_list_printed:
  assumes "redis_laws R view"
  shows "\<exists>ps d'. redis_coroutine R d = Ret (Some (ps @ map (P_str \<circ> Some) (elements_below 10))) d' \<and> length ps = 6 \<and>
    w_replies (view d') = w_replies (view d) \<and> w_conns (view d') = w_conns (view d) \<and> w_mylist (view d') = elements_below 10"
proof -
  obtain c d0 where d0: "r_connect R d = (Some c, d0)" "r_err R d0 c = 0" "c \<notin> w_conns (view d)"
      "view d0 = (view d)\<lparr>w_conns := insert c (w_conns (view d))\<rparr>"
    using connect_law [OF assms] by blast
  moreover have "c \<in> w_conns (view d0)" using d0(4) by simp
  ultimately show ?thesis
    using redis_talk_ok [OF assms, of c d0] by (auto simp: redis_coroutine_def)
qed

theorem redis_list_printed_witness:
  "\<exists>ps d'. redis_coroutine model_redis ([], [], [], \<lambda>_. undefined) = Ret (Some (ps @ map (P_str \<circ> Some) (elements_below 10))) d' \<and> length ps = 6 \<and>
    w_replies (redis_view_of d') = {} \<and> w_conns (redis_view_of d') = {} \<and> w_mylist (redis_view_of d') = elements_below 10"
  using redis_list_printed [OF model_redis_laws, of "([], [], [], \<lambda>_. undefined)"] by (simp add: redis_view_of_def)

end
