(* ===== verification/Bench.thy ===== *)
theory Bench
  imports Http_Server
begin

text \<open>
  The benchmark client \<open>sample/nty_bench.c\<close> (its \<open>ENABLE_NTYCO\<close> build): building the request from a URL, the buffered
  send and receive, the test of the response and the coroutine that repeats the request.  In this file the
  socket functions are macros for the \<open>nty_*\<close> functions.

  The counters \<open>speed\<close>, \<open>failed\<close> and \<open>bytes\<close> are only ever increased by the coroutines; an operation returns what it
  adds to them.  The options, starting the processes and collecting their counts are in \<open>Bench_Report\<close>.
\<close>

subsection \<open>Options\<close>

text \<open>The corrections \<open>main\<close> makes to the numbers of clients, requests and sockets, and to the time.\<close>

record bench_numbers =
  clients :: int
  benchtime :: int
  nreqs :: int
  sockets :: int

definition clamp_numbers :: "bench_numbers \<Rightarrow> bench_numbers" where
  "clamp_numbers o1 = (let o1 = (if clients o1 = 0 then o1\<lparr>clients := 1\<rparr> else o1);
     o1 = (if benchtime o1 = 0 then o1\<lparr>benchtime := 60\<rparr> else o1);
     o1 = (if clients o1 > 10 then o1\<lparr>clients := 10\<rparr> else o1);
     o1 = (if nreqs o1 < 1000 then o1\<lparr>nreqs := 1000\<rparr> else o1)
   in if c_rem (sockets o1) (clients o1) \<noteq> 0 then o1\<lparr>sockets := c_div (sockets o1) (clients o1) * clients o1\<rparr> else o1)"

subsection \<open>The request\<close>

datatype bench_method = METHOD_GET | METHOD_HEAD | METHOD_OPTIONS | METHOD_TRACE

record bench_conf =
  bmethod :: bench_method
  http10 :: int
  force_reload :: bool
  proxyhost :: "u8 list option"
  proxyport :: int

text \<open>What \<open>build_request\<close> leaves in its globals; \<open>Exit_2\<close> is \<open>exit(2)\<close>.\<close>

datatype built = Exit_2 | Built (b_request: "u8 list") (b_host: "u8 list") (b_port: int) (b_http10: int)

definition method_text :: "bench_method \<Rightarrow> u8 list" where
  "method_text m = (case m of METHOD_GET \<Rightarrow> bytes_of ''GET'' | METHOD_HEAD \<Rightarrow> bytes_of ''HEAD''
     | METHOD_OPTIONS \<Rightarrow> bytes_of ''OPTIONS'' | METHOD_TRACE \<Rightarrow> bytes_of ''TRACE'')"

text \<open>The version that is really used.\<close>

definition http_version :: "bench_conf \<Rightarrow> int" where
  "http_version o1 = (let v = http10 o1;
     v = (if force_reload o1 \<and> proxyhost o1 \<noteq> None \<and> v < 1 then 1 else v);
     v = (if bmethod o1 = METHOD_HEAD \<and> v < 1 then 1 else v);
     v = (if bmethod o1 = METHOD_OPTIONS \<and> v < 2 then 2 else v)
   in if bmethod o1 = METHOD_TRACE \<and> v < 2 then 2 else v)"

text \<open>\<open>strstr(url, "://") - url\<close>, for a URL in which it occurs.\<close>

fun index_of :: "u8 list \<Rightarrow> u8 list \<Rightarrow> nat" where
  "index_of needle [] = 0"
| "index_of needle (c # hay) = (if take (length needle) (c # hay) = needle then 0 else Suc (index_of needle hay))"

text \<open>\<open>atoi\<close> of a string.\<close>

definition digits_value :: "u8 list \<Rightarrow> int" where
  "digits_value ds = foldl (\<lambda>n d. 10 * n + (uint d - 48)) 0 ds"

definition atoi :: "u8 list \<Rightarrow> int" where
  "atoi s = (let s = dropWhile isspace s;
     neg = (s \<noteq> [] \<and> hd s = 45);
     s = (if s \<noteq> [] \<and> (hd s = 45 \<or> hd s = 43) then tl s else s);
     v = digits_value (takeWhile (\<lambda>c. 48 \<le> c \<and> c \<le> 57) s)
   in to_int (if neg then - v else v))"

definition MAXHOSTNAMELEN :: nat where "MAXHOSTNAMELEN = 64"
definition REQUEST_SIZE :: nat where "REQUEST_SIZE = 2048"

text \<open>\<open>strncpy\<close> of \<open>bs\<close> into an array of \<open>n\<close> zero bytes, and the string that is there afterwards.\<close>

definition strncpy :: "nat \<Rightarrow> u8 list \<Rightarrow> u8 list option" where
  "strncpy n bs = do { arr \<leftarrow> memcpy (replicate n 0) 0 bs; c_string arr }"

text \<open>The host and the port of the part of the URL behind \<open>://\<close>.\<close>

definition url_host :: "u8 list \<Rightarrow> int \<Rightarrow> (u8 list \<times> int) option" where
  "url_host rest port = (let hostport = takeWhile (\<lambda>c. c \<noteq> 47) rest in
     if 58 \<in> set hostport then do {
       host \<leftarrow> strncpy MAXHOSTNAMELEN (takeWhile (\<lambda>c. c \<noteq> 58) rest);
       tmp \<leftarrow> strncpy 10 (drop 1 (dropWhile (\<lambda>c. c \<noteq> 58) hostport));
       Some (host, if atoi tmp = 0 then 80 else atoi tmp) }
     else do { host \<leftarrow> strncpy MAXHOSTNAMELEN hostport; Some (host, port) })"

text \<open>The header lines behind the request line.\<close>

definition bench_headers :: "bench_conf \<Rightarrow> int \<Rightarrow> u8 list \<Rightarrow> u8 list" where
  "bench_headers o1 v host =
     (if v > 0 then line_of ''User-Agent: WebBench 1.5'' else []) @
     (if proxyhost o1 = None \<and> v > 0 then bytes_of ''Host: '' @ host @ crlf else []) @
     (if force_reload o1 \<and> proxyhost o1 \<noteq> None then line_of ''Pragma: no-cache'' else []) @
     (if v > 1 then line_of ''Connection: close'' else []) @
     (if v > 0 then crlf else [])"

definition build_request :: "bench_conf \<Rightarrow> u8 list \<Rightarrow> built option" where
  "build_request o1 url = (let v = http_version o1; sep = bytes_of ''://''; rest = drop (index_of sep url + 3) url in
     if \<not> occurs sep url then Some Exit_2
     else if length url > 1500 then Some Exit_2
     else if proxyhost o1 = None \<and> strcasecmp (take 7 url) (bytes_of ''http://'') then Some Exit_2
     else if 47 \<notin> set rest then Some Exit_2
     else do {
       (host, port) \<leftarrow> (if proxyhost o1 = None then url_host rest (proxyport o1) else Some ([], proxyport o1));
       let target = (if proxyhost o1 = None then dropWhile (\<lambda>c. c \<noteq> 47) rest else url);
       let version = (if v = 1 then bytes_of '' HTTP/1.0'' else if v = 2 then bytes_of '' HTTP/1.1'' else []);
       let text = method_text (bmethod o1) @ [32] @ target @ version @ crlf @ bench_headers o1 v host;
       arr \<leftarrow> memcpy (replicate REQUEST_SIZE 0) 0 (text @ [0]);
       req \<leftarrow> c_string arr;
       Some (Built req host port v) })"

subsection \<open>Sending and receiving\<close>

text \<open>\<open>Socket\<close>: \<open>resolve\<close> is the address of the host, when it has one, with the port.\<close>

definition Socket :: "nat \<Rightarrow> 'k kernel \<Rightarrow> (u8 list \<Rightarrow> int \<Rightarrow> int option) \<Rightarrow> 'k world \<Rightarrow> u8 list \<Rightarrow> int \<Rightarrow> ('k world, int) comp" where
  "Socket fuel K resolve w host port = (case resolve host port of None \<Rightarrow> Ret (-1) w
     | Some ad \<Rightarrow> comp_bind (nty_socket K w AF_INET SOCK_STREAM 0) (\<lambda>sock w.
         if sock < 0 then Ret sock w
         else comp_bind (nty_connect fuel K w sock ad) (\<lambda>r w. Ret (if r < 0 then -1 else sock) w)))"

text \<open>\<open>testok\<close>: the array with the response; a response without a newline is a write through a null pointer.\<close>

definition testok :: "u8 list \<Rightarrow> int option" where
  "testok resp = do {
     s \<leftarrow> c_string resp;
     if LF \<in> set s then Some (if occurs (bytes_of ''200 OK'') (takeWhile (\<lambda>c. c \<noteq> LF) s) then 1 else 0) else None }"

fun send_buffer_loop :: "nat \<Rightarrow> nat \<Rightarrow> 'k kernel \<Rightarrow> 'k world \<Rightarrow> int \<Rightarrow> u8 list \<Rightarrow> int \<Rightarrow> ('k world, int) comp" where
  "send_buffer_loop n fuel K w sockfd buffer idx = (if \<not> idx < int (length buffer) then Ret idx w
     else case n of 0 \<Rightarrow> Out_of_fuel
     | Suc m \<Rightarrow> comp_bind (nty_send fuel K w sockfd (take MAX_BUFFER_LENGTH (drop (nat idx) buffer)) 0) (\<lambda>count w.
         if count < 0 then Ret idx w else send_buffer_loop m fuel K w sockfd buffer (idx + count)))"

declare send_buffer_loop.simps [simp del]

definition send_buffer :: "nat \<Rightarrow> nat \<Rightarrow> 'k kernel \<Rightarrow> 'k world \<Rightarrow> int \<Rightarrow> u8 list \<Rightarrow> ('k world, int) comp" where
  "send_buffer n fuel K w sockfd buffer = send_buffer_loop n fuel K w sockfd buffer 0"

text \<open>\<open>recv_buffer\<close>: the number of bytes, \<open>*ret\<close> and the array.  Every call may store 1024 bytes, whatever is left of the
  array.\<close>

fun recv_buffer :: "nat \<Rightarrow> 'k kernel \<Rightarrow> 'k world \<Rightarrow> int \<Rightarrow> u8 list \<Rightarrow> nat \<Rightarrow> ('k world, nat \<times> int \<times> u8 list) comp" where
  "recv_buffer 0 K w sockfd buffer idx = Out_of_fuel"
| "recv_buffer (Suc n) K w sockfd buffer idx = comp_bind (nty_recv K w sockfd MAX_BUFFER_LENGTH 0) (\<lambda>(count, bs) w.
     if count < 0 then Ret (idx, if idx > 0 then 1 else -1, buffer) w
     else if count = 0 then comp_bind (nty_close K w sockfd) (\<lambda>_ w. Ret (idx, if idx > 0 then 1 else 0, buffer) w)
     else (case memcpy buffer (int idx) bs of None \<Rightarrow> Fault
       | Some buffer \<Rightarrow> recv_buffer n K w sockfd buffer (idx + nat count)))"

text \<open>The loop of \<open>httprequest_commit\<close>, with what was added to \<open>speed\<close>, \<open>failed\<close> and \<open>bytes\<close> so far.\<close>

fun commit_loop :: "nat \<Rightarrow> nat \<Rightarrow> 'k kernel \<Rightarrow> (u8 list \<Rightarrow> int \<Rightarrow> int option) \<Rightarrow> 'k world \<Rightarrow> u8 list \<Rightarrow> int \<Rightarrow> u8 list \<Rightarrow>
    int \<times> int \<times> int \<Rightarrow> ('k world, int \<times> int \<times> int) comp" where
  "commit_loop 0 fuel K resolve w host port req acc = Ret acc w"
| "commit_loop (Suc n) fuel K resolve w host port req (speed, failed, bytes) =
     comp_bind (Socket fuel K resolve w host port) (\<lambda>s w.
     if s < 0 then commit_loop n fuel K resolve w host port req (speed, failed + 1, bytes)
     else comp_bind (nty_send fuel K w s req 0) (\<lambda>r w.
       if int (length req) \<noteq> to_int r
       then comp_bind (nty_close K w s) (\<lambda>_ w. commit_loop n fuel K resolve w host port req (speed, failed + 1, bytes))
       else comp_bind (recv_buffer fuel K w s (replicate 1500 0) 0) (\<lambda>(rlen, ret, buf) w.
         if ret < 0 then commit_loop n fuel K resolve w host port req (speed, failed + 1, bytes)
         else (case testok buf of None \<Rightarrow> Fault
           | Some v \<Rightarrow> if v \<noteq> 0 then commit_loop n fuel K resolve w host port req (speed + 1, failed, bytes + int rlen)
             else commit_loop n fuel K resolve w host port req (speed, failed + 1, bytes + int rlen)))))"

text \<open>A division by zero is a fault.\<close>

definition httprequest_commit :: "nat \<Rightarrow> 'k kernel \<Rightarrow> (u8 list \<Rightarrow> int \<Rightarrow> int option) \<Rightarrow> bench_numbers \<Rightarrow> 'k world \<Rightarrow>
    u8 list \<Rightarrow> int \<Rightarrow> u8 list \<Rightarrow> ('k world, int \<times> int \<times> int) comp" where
  "httprequest_commit fuel K resolve o1 w host port req = (if sockets o1 = 0 then Fault
     else commit_loop (nat (c_div (nreqs o1) (sockets o1))) fuel K resolve w host port req (0, 0, 0))"

text \<open>The coroutines that \<open>benchcore\<close> creates before it runs the scheduler.\<close>

fun bench_coroutines :: "'k kernel \<Rightarrow> nat \<Rightarrow> nat \<Rightarrow> 'k world \<Rightarrow> 'k world option" where
  "bench_coroutines K 0 shost w = Some w"
| "bench_coroutines K (Suc n) shost w = do { (_, w) \<leftarrow> nty_coroutine_create K w 0 shost; bench_coroutines K n shost w }"

definition benchcore :: "'k kernel \<Rightarrow> 'k code \<Rightarrow> bench_numbers \<Rightarrow> nat \<Rightarrow> 'k state \<Rightarrow> 'k state option" where
  "benchcore K code o1 shost st = do {
     w \<leftarrow> bench_coroutines K (nat (c_div (sockets o1) (clients o1))) shost (fst st);
     nty_schedule_run K code (w, snd st) }"

subsection \<open>What the request is\<close>

lemma strncpy_short: "0 \<notin> set bs \<Longrightarrow> length bs < n \<Longrightarrow> strncpy n bs = Some bs"
proof -
  assume a: "0 \<notin> set bs" "length bs < n"
  then have "memcpy (replicate n 0) 0 bs = Some (stored n bs)" by (simp add: stored_def)
  then show ?thesis using a by (simp add: strncpy_def stored_zero)
qed

text \<open>A URL without a port, behind its protocol.\<close>

lemma url_host_plain:
  assumes "0 \<notin> set host" "47 \<notin> set host" "58 \<notin> set host" "length host < MAXHOSTNAMELEN"
  shows "url_host (host @ 47 # p) port = Some (host, port)"
proof -
  have "takeWhile (\<lambda>c. c \<noteq> 47) (host @ 47 # p) = host" using assms(2) by (induction host) auto
  then show ?thesis using assms by (simp add: url_host_def strncpy_short)
qed

definition plain_request :: "u8 list \<Rightarrow> u8 list \<Rightarrow> u8 list" where
  "plain_request host p = bytes_of ''GET '' @ (47 # p) @ bytes_of '' HTTP/1.0'' @ crlf @
     line_of ''User-Agent: WebBench 1.5'' @ bytes_of ''Host: '' @ host @ crlf @ crlf"

lemma build_plain:
  assumes "0 \<notin> set host" "47 \<notin> set host" "58 \<notin> set host" "length host < MAXHOSTNAMELEN" "0 \<notin> set p" "length p \<le> 1400"
    and "bmethod o1 = METHOD_GET" "http10 o1 = 1" "proxyhost o1 = None"
  shows "build_request o1 (bytes_of ''http://'' @ host @ 47 # p) = Some (Built (plain_request host p) host (proxyport o1) 1)"
proof -
  let ?url = "bytes_of ''http://'' @ host @ 47 # p"
  have v: "http_version o1 = 1" using assms(7-9) by (simp add: http_version_def)
  have occ: "occurs (bytes_of ''://'') ?url" by (simp add: bytes_of_def)
  have i: "index_of (bytes_of ''://'') ?url = 4" by (simp add: bytes_of_def)
  have rest: "drop (4 + 3) ?url = host @ 47 # p" by (simp add: bytes_of_def)
  have http: "\<not> strcasecmp (take 7 ?url) (bytes_of ''http://'')" by (simp add: strcasecmp_def bytes_of_def)
  have len: "\<not> length ?url > 1500" using assms(4,6) by (simp add: bytes_of_def MAXHOSTNAMELEN_def)
  have target: "dropWhile (\<lambda>c. c \<noteq> 47) (host @ 47 # p) = 47 # p" using assms(2) by (induction host) auto
  have whole: "method_text METHOD_GET @ [32] @ (47 # p) @ bytes_of '' HTTP/1.0'' @ crlf @ bench_headers o1 1 host = plain_request host p"
    using assms(9) by (simp add: method_text_def bench_headers_def plain_request_def bytes_of_def)
  have short: "length (plain_request host p) < REQUEST_SIZE"
    using assms(4,6) by (simp add: plain_request_def line_of_def crlf_def bytes_of_def MAXHOSTNAMELEN_def REQUEST_SIZE_def)
  have zero: "0 \<notin> set (plain_request host p)"
    using assms(1,5) by (auto simp: plain_request_def line_of_def crlf_def bytes_of_def)
  have m: "memcpy (replicate REQUEST_SIZE 0) 0 (plain_request host p @ [0]) =
      Some (plain_request host p @ 0 # replicate (REQUEST_SIZE - length (plain_request host p) - 1) 0)"
    using short by simp
  have c: "c_string (plain_request host p @ 0 # replicate (REQUEST_SIZE - length (plain_request host p) - 1) 0) = Some (plain_request host p)"
    using zero by (rule c_string_zero)
  have slash: "47 \<in> set (host @ 47 # p)" by simp
  show ?thesis
    by (simp only: build_request_def Let_def v i rest target assms(7,9) occ http len slash url_host_plain [OF assms(1-4)]
        not_True_eq_False not_False_eq_True if_False if_True simp_thms bind.bind_lunit prod.case whole m c)
qed

text \<open>The web server reads the request line of such a request.\<close>

lemma server_reads_plain:
  assumes "0 \<notin> set p" "\<forall>c \<in> set p. \<not> isspace c" "length p < 254"
  shows "parse_request (plain_request host p @ zs) (length (plain_request host p)) =
    Some (Request (path_of (takeWhile (\<lambda>c. c \<noteq> 63) (47 # p))))"
proof -
  let ?rest = "bytes_of ''HTTP/1.0'' @ crlf @ line_of ''User-Agent: WebBench 1.5'' @ bytes_of ''Host: '' @ host @ crlf @ crlf @ zs"
  have "plain_request host p @ zs = bytes_of ''GET'' @ [32] @ (47 # p) @ 32 # ?rest"
    by (simp add: plain_request_def bytes_of_def)
  moreover have "parse_request (bytes_of ''GET'' @ [32] @ (47 # p) @ 32 # ?rest) (length (plain_request host p)) =
      Some (Request (path_of (takeWhile (\<lambda>c. c \<noteq> 63) (47 # p))))"
    using assms by (intro parse_get) (simp_all add: bytes_of_def tolower_def isspace_def plain_request_def)
  ultimately show ?thesis by simp
qed

text \<open>The corrected numbers: between one and ten clients unless a negative number was asked for, at least 1000 requests, and
  as many sockets for every client.\<close>

lemma clamp_numbers_ok:
  assumes "0 \<le> clients o1" "0 \<le> sockets o1"
  shows "1 \<le> clients (clamp_numbers o1) \<and> clients (clamp_numbers o1) \<le> 10 \<and> 1000 \<le> nreqs (clamp_numbers o1) \<and>
    benchtime (clamp_numbers o1) \<noteq> 0 \<and> clients (clamp_numbers o1) dvd sockets (clamp_numbers o1)"
  using assms by (auto simp: clamp_numbers_def Let_def c_rem_def c_div_def) (metis dvd_triv_right)+

text \<open>A server that closes without an answer: \<open>testok\<close> writes through a null pointer.\<close>

lemma testok_empty: "testok (replicate 1500 0) = None"
  by (simp add: testok_def c_string_def strlen_def)

text \<open>A response that does not fit the array of 1500 bytes is written past its end.\<close>

lemma recv_buffer_overflow:
  assumes "nty_recv K w sockfd MAX_BUFFER_LENGTH 0 = Ret (int (length bs), bs) w'" "bs \<noteq> []" "length buffer < idx + length bs"
  shows "recv_buffer (Suc n) K w sockfd buffer idx = Fault"
  using assms by (simp add: memcpy_def)

subsection \<open>Properties\<close>

text \<open>C38.  The benchmark and the web server understand each other: for a URL \<open>http://host/p\<close> with a host that fits its
  array, the \<open>GET\<close> request of HTTP/1.0 is the request line, the agent, the host and an empty line; it fits
  its array, and the web server reads from it the path of \<open>/p\<close>.\<close>

theorem bench_request_understood:
  assumes "0 \<notin> set host" "47 \<notin> set host" "58 \<notin> set host" "length host < MAXHOSTNAMELEN"
    and "0 \<notin> set p" "\<forall>c \<in> set p. \<not> isspace c" "length p < 254"
    and "bmethod o1 = METHOD_GET" "http10 o1 = 1" "proxyhost o1 = None"
  shows "\<exists>req. build_request o1 (bytes_of ''http://'' @ host @ 47 # p) = Some (Built req host (proxyport o1) 1) \<and>
    length req < REQUEST_SIZE \<and>
    req = bytes_of ''GET '' @ (47 # p) @ bytes_of '' HTTP/1.0'' @ crlf @ line_of ''User-Agent: WebBench 1.5'' @
      bytes_of ''Host: '' @ host @ crlf @ crlf \<and>
    parse_request (req @ zs) (length req) = Some (Request (path_of (takeWhile (\<lambda>c. c \<noteq> 63) (47 # p))))"
proof -
  have "build_request o1 (bytes_of ''http://'' @ host @ 47 # p) = Some (Built (plain_request host p) host (proxyport o1) 1)"
    using assms by (intro build_plain) simp_all
  moreover have "length (plain_request host p) < REQUEST_SIZE"
    using assms(4,7) by (simp add: plain_request_def line_of_def crlf_def bytes_of_def MAXHOSTNAMELEN_def REQUEST_SIZE_def)
  ultimately show ?thesis using server_reads_plain [OF assms(5-7), of host zs] by (intro exI [of _ "plain_request host p"]) (simp add: plain_request_def)
qed

theorem bench_request_understood_witness:
  "\<exists>req. build_request \<lparr>bmethod = METHOD_GET, http10 = 1, force_reload = False, proxyhost = None, proxyport = 80\<rparr>
      (bytes_of ''http://www/a?b'') = Some (Built req (bytes_of ''www'') 80 1) \<and>
    parse_request (req @ [0]) (length req) = Some (Request (bytes_of ''htdocs/a''))"
proof -
  let ?o = "\<lparr>bmethod = METHOD_GET, http10 = 1, force_reload = False, proxyhost = None, proxyport = 80\<rparr>"
  have url: "bytes_of ''http://www/a?b'' = bytes_of ''http://'' @ bytes_of ''www'' @ 47 # bytes_of ''a?b''"
    and path: "path_of (takeWhile (\<lambda>c. c \<noteq> 63) (47 # bytes_of ''a?b'')) = bytes_of ''htdocs/a''"
    by (simp_all add: bytes_of_def path_of_def Let_def)
  have side: "0 \<notin> set (bytes_of ''www'')" "47 \<notin> set (bytes_of ''www'')" "58 \<notin> set (bytes_of ''www'')" "length (bytes_of ''www'') < MAXHOSTNAMELEN"
      "0 \<notin> set (bytes_of ''a?b'')" "\<forall>c \<in> set (bytes_of ''a?b''). \<not> isspace c" "length (bytes_of ''a?b'') < 254"
      "bmethod ?o = METHOD_GET" "http10 ?o = 1" "proxyhost ?o = None" "proxyport ?o = 80"
    by (simp_all add: bytes_of_def isspace_def MAXHOSTNAMELEN_def)
  show ?thesis
    unfolding url using bench_request_understood [OF side(1-10), of "[0]"] unfolding side(11) path by blast
qed

end
