(* ===== verification/Bench_Report.thy ===== *)
theory Bench_Report
  imports Bench Httpd
begin

text \<open>
  The rest of the benchmark client \<open>sample/nty_bench.c\<close> (its \<open>ENABLE_NTYCO\<close> build): the options of \<open>main\<close>, and \<open>bench\<close>, which
  forks the clients and adds up the counts they report through a pipe.  The parent keeps the write end of the pipe open, so that it
  never reads the end of the file: with too little in the pipe it waits, which is the value \<open>Blocks\<close>.  What only prints, and the two rates that are printed
  in floating point, are left out.
\<close>

subsection \<open>Options\<close>

text \<open>What \<open>getopt_long\<close> finds: a long option that sets a variable (it returns 0), or the value it returns and \<open>optarg\<close>.\<close>

datatype bench_opt = Set_force | Set_reload | Set_method bench_method | Opt char "u8 list"

record bench_opts =
  o_force :: bool
  o_numbers :: bench_numbers
  o_conf :: bench_conf

definition default_opts :: bench_opts where
  "default_opts = \<lparr>o_force = False, o_numbers = \<lparr>clients = 1, benchtime = 30, nreqs = 0, sockets = 0\<rparr>,
     o_conf = \<lparr>bmethod = METHOD_GET, http10 = 1, force_reload = False, proxyhost = None, proxyport = 80\<rparr>\<rparr>"

text \<open>An option either goes on or leaves \<open>main\<close> with an exit status.\<close>

datatype opt_result = Go bench_opts | Leave int

text \<open>\<open>server:port\<close>, split at the last colon (\<open>strrchr\<close>).\<close>

definition proxy_option :: "u8 list \<Rightarrow> bench_opts \<Rightarrow> opt_result" where
  "proxy_option arg o1 = (let port = rev (takeWhile (\<lambda>c. c \<noteq> 58) (rev arg)); tmp = length arg - length port - 1 in
     if 58 \<notin> set arg then Go (o1\<lparr>o_conf := (o_conf o1)\<lparr>proxyhost := Some arg\<rparr>\<rparr>)
     else if tmp = 0 then Leave 2
     else if tmp = length arg - 1 then Leave 2
     else Go (o1\<lparr>o_conf := (o_conf o1)\<lparr>proxyhost := Some (take tmp arg), proxyport := atoi port\<rparr>\<rparr>))"

definition apply_option :: "bench_opt \<Rightarrow> bench_opts \<Rightarrow> opt_result" where
  "apply_option e o1 = (case e of
     Set_force \<Rightarrow> Go (o1\<lparr>o_force := True\<rparr>)
   | Set_reload \<Rightarrow> Go (o1\<lparr>o_conf := (o_conf o1)\<lparr>force_reload := True\<rparr>\<rparr>)
   | Set_method m \<Rightarrow> Go (o1\<lparr>o_conf := (o_conf o1)\<lparr>bmethod := m\<rparr>\<rparr>)
   | Opt c arg \<Rightarrow>
       if c = CHR ''f'' then Go (o1\<lparr>o_force := True\<rparr>)
       else if c = CHR ''r'' then Go (o1\<lparr>o_conf := (o_conf o1)\<lparr>force_reload := True\<rparr>\<rparr>)
       else if c = CHR ''9'' then Go (o1\<lparr>o_conf := (o_conf o1)\<lparr>http10 := 0\<rparr>\<rparr>)
       else if c = CHR ''1'' then Go (o1\<lparr>o_conf := (o_conf o1)\<lparr>http10 := 1\<rparr>\<rparr>)
       else if c = CHR ''2'' then Go (o1\<lparr>o_conf := (o_conf o1)\<lparr>http10 := 2\<rparr>\<rparr>)
       else if c = CHR ''V'' then Leave 0
       else if c = CHR ''t'' then Go (o1\<lparr>o_numbers := (o_numbers o1)\<lparr>benchtime := atoi arg\<rparr>\<rparr>)
       else if c = CHR ''p'' then proxy_option arg o1
       else if c = CHR '':'' \<or> c = CHR ''h'' \<or> c = CHR ''?'' then Leave 2
       else if c = CHR ''c'' then Go (o1\<lparr>o_numbers := (o_numbers o1)\<lparr>clients := atoi arg\<rparr>\<rparr>)
       else if c = CHR ''n'' then Go (o1\<lparr>o_numbers := (o_numbers o1)\<lparr>nreqs := atoi arg\<rparr>\<rparr>)
       else if c = CHR ''s'' then Go (o1\<lparr>o_numbers := (o_numbers o1)\<lparr>sockets := atoi arg\<rparr>\<rparr>)
       else Go o1)"

fun apply_options :: "bench_opt list \<Rightarrow> bench_opts \<Rightarrow> opt_result" where
  "apply_options [] o1 = Go o1"
| "apply_options (e # es) o1 = (case apply_option e o1 of Leave r \<Rightarrow> Leave r | Go o1 \<Rightarrow> apply_options es o1)"

text \<open>A call that returns, or waits for ever.\<close>

datatype 'a pipe_read = Blocks | Got 'a

text \<open>\<open>main\<close>: \<open>es\<close> are the options, \<open>url\<close> is \<open>argv[optind]\<close> when there is one, \<open>run\<close> is \<open>bench\<close>.\<close>

definition bench_main :: "int \<Rightarrow> bench_opt list \<Rightarrow> u8 list option \<Rightarrow> (bench_numbers \<Rightarrow> bench_conf \<Rightarrow> built \<Rightarrow> int pipe_read option) \<Rightarrow>
    int pipe_read option" where
  "bench_main argc es url run = (if argc = 1 then Some (Got 2)
     else case apply_options es default_opts of Leave r \<Rightarrow> Some (Got r)
     | Go o1 \<Rightarrow> (case url of None \<Rightarrow> Some (Got 2)
       | Some url \<Rightarrow> do {
           b \<leftarrow> build_request (o_conf o1) url;
           case b of Exit_2 \<Rightarrow> Some (Got 2) | _ \<Rightarrow> run (clamp_numbers (o_numbers o1)) (o_conf o1) b }))"

subsection \<open>Reports\<close>

text \<open>\<open>%d\<close> of an \<open>int\<close>, and the line a child writes.\<close>

definition int_text :: "int \<Rightarrow> u8 list" where
  "int_text x = (if x < 0 then 45 # decimal (nat (- x)) else decimal (nat x))"

definition child_line :: "int \<times> int \<times> int \<Rightarrow> u8 list" where
  "child_line r = (case r of (x, y, z) \<Rightarrow> int_text x @ [32] @ int_text y @ [32] @ int_text z @ [LF])"

text \<open>\<open>%d\<close> of \<open>fscanf\<close>: the number, if there is one, and the rest of the input.  White space is skipped, and a number ends with
  a byte that is not a digit, so that the call waits while the input holds none.\<close>

definition is_digit :: "u8 \<Rightarrow> bool" where "is_digit c = (48 \<le> c \<and> c \<le> 57)"

definition scan_int :: "u8 list \<Rightarrow> (int option \<times> u8 list) pipe_read" where
  "scan_int s = (let s = dropWhile isspace s in
     if s = [] then Blocks
     else (let neg = (hd s = 45); s = (if hd s = 45 \<or> hd s = 43 then tl s else s);
         ds = takeWhile is_digit s; rest = dropWhile is_digit s
       in if rest = [] then Blocks
          else if ds = [] then Got (None, rest)
          else Got (Some (to_int (if neg then - digits_value ds else digits_value ds)), rest)))"

text \<open>\<open>fscanf(f, "%d %d %d", \<dots>)\<close>: the numbers converted, and the rest.  It returns their number, or waits.\<close>

fun scan_ints :: "nat \<Rightarrow> u8 list \<Rightarrow> (int list \<times> u8 list) pipe_read" where
  "scan_ints 0 s = Got ([], s)"
| "scan_ints (Suc n) s = (case scan_int s of Blocks \<Rightarrow> Blocks
     | Got (None, s) \<Rightarrow> Got ([], s)
     | Got (Some x, s) \<Rightarrow> (case scan_ints n s of Blocks \<Rightarrow> Blocks | Got (xs, s) \<Rightarrow> Got (x # xs, s)))"

text \<open>\<open>i\<close> and \<open>k\<close> after the loop's reading; \<open>None\<close> is an uninitialised variable.\<close>

record bench_sums =
  r_i :: int
  r_k :: "int option"
  s_speed :: int
  s_failed :: int
  s_bytes :: int
  s_died :: bool

text \<open>The loop of the parent, with \<open>clients\<close> (\<open>n\<close>) reports to come.  A line with two numbers adds the \<open>k\<close> of the line before; the
  loop ends early (\<open>s_died\<close>) when something else than a number stands in the pipe.\<close>

fun collect :: "nat \<Rightarrow> u8 list \<Rightarrow> bench_sums \<Rightarrow> bench_sums pipe_read option" where
  "collect 0 s b = Some (Got b)"
| "collect (Suc n) s b = (case scan_ints 3 s of Blocks \<Rightarrow> Some Blocks
   | Got (xs, s) \<Rightarrow>
       let b = (if xs = [] then b else b\<lparr>r_i := hd xs\<rparr>) in
       if length xs < 2 then Some (Got (b\<lparr>s_died := True\<rparr>))
       else do {
         let b = (if length xs = 3 then b\<lparr>r_k := Some (xs ! 2)\<rparr> else b);
         k \<leftarrow> r_k b;
         x \<leftarrow> c_add (s_speed b) (r_i b);
         y \<leftarrow> c_add (s_failed b) (xs ! 1);
         z \<leftarrow> c_add (s_bytes b) k;
         collect n s (b\<lparr>s_speed := x, s_failed := y, s_bytes := z\<rparr>) })"

text \<open>The loop that forks: \<open>frk i\<close> is what \<open>fork\<close> returns.\<close>

fun fork_loop :: "nat \<Rightarrow> int \<Rightarrow> (int \<Rightarrow> int) \<Rightarrow> int \<Rightarrow> int \<times> int" where
  "fork_loop 0 i frk pid = (i, pid)"
| "fork_loop (Suc n) i frk pid = (let pid = frk i in if pid \<le> 0 then (i, pid) else fork_loop n (i + 1) frk pid)"

text \<open>\<open>bench\<close>: whether \<open>pipe\<close> and \<open>fdopen\<close> succeed, what \<open>benchcore\<close> counts in a child and all that the children ever write to
  the pipe; the result, what a child writes, and the sums of the parent.  A process that closes neither end of the pipe
  keeps its write end, the parent included.\<close>

definition bench :: "bool \<Rightarrow> bool \<Rightarrow> (int \<Rightarrow> int) \<Rightarrow> int \<times> int \<times> int \<Rightarrow> u8 list \<Rightarrow> int \<Rightarrow> (int \<times> u8 list \<times> bench_sums option) pipe_read option" where
  "bench pipe_ok fd_ok frk counts input num = (if \<not> pipe_ok then Some (Got (3, [], None))
     else case fork_loop (nat num) 0 frk 0 of (i, pid) \<Rightarrow>
       if pid < 0 then Some (Got (3, [], None))
       else if pid = 0 then (if \<not> fd_ok then Some (Got (3, [], None)) else Some (Got (0, child_line counts, None)))
       else if \<not> fd_ok then Some (Got (3, [], None))
       else map_option (\<lambda>r. case r of Blocks \<Rightarrow> Blocks | Got b \<Rightarrow> Got (r_i b, [], Some b))
         (collect (nat num) input \<lparr>r_i = i, r_k = None, s_speed = 0, s_failed = 0, s_bytes = 0, s_died = False\<rparr>))"

subsection \<open>Numbers go through the pipe\<close>

lemma digit_byte: "k < 10 \<Longrightarrow> uint (48 + of_nat k :: u8) = 48 + int k"
proof -
  assume "k < 10"
  then have "unat (48 + of_nat k :: u8) = 48 + k" by (simp add: unat_word_ariths unat_of_nat)
  then show ?thesis by (simp only: uint_nat)
qed

lemma is_digit_byte: "k < 10 \<Longrightarrow> is_digit (48 + of_nat k)"
  using digit_byte [of k] by (simp add: is_digit_def word_le_def)

lemma digits_value_snoc: "digits_value (xs @ [d]) = 10 * digits_value xs + (uint d - 48)"
  by (simp add: digits_value_def)

lemma decimal_digits: "(\<forall>c \<in> set (decimal n). is_digit c) \<and> decimal n \<noteq> [] \<and> digits_value (decimal n) = int n"
proof (induction n rule: decimal.induct)
  case (1 n)
  show ?case
  proof (cases "n < 10")
    case True
    then show ?thesis
      using is_digit_byte [of n] digit_byte [of n] by (simp add: decimal.simps [of n] digits_value_def)
  next
    case False
    then have step: "decimal n = decimal (n div 10) @ [48 + of_nat (n mod 10)]" by (simp add: decimal.simps [of n])
    have d: "n mod 10 < 10" by simp
    have "10 * int (n div 10) + int (n mod 10) = int n" by presburger
    then show ?thesis
      using 1 [OF False] is_digit_byte [OF d] digit_byte [OF d] unfolding step digits_value_snoc by simp
  qed
qed

lemma digit_not_space: "is_digit c \<Longrightarrow> \<not> isspace c \<and> c \<noteq> 45 \<and> c \<noteq> 43"
proof -
  assume "is_digit c"
  then have "48 \<le> uint c" "uint c \<le> 57" by (simp_all add: is_digit_def word_le_def)
  then show ?thesis by (auto simp: isspace_def word_le_def)
qed

lemma takeWhile_prefix: "(\<forall>c \<in> set ds. P c) \<Longrightarrow> \<not> P x \<Longrightarrow> takeWhile P (ds @ x # r) = ds \<and> dropWhile P (ds @ x # r) = x # r"
  by (induction ds) auto

text \<open>A number that is followed by a byte other than a digit is read back, behind any white space.\<close>

lemma scan_int_text:
  assumes "- (2 ^ 31) \<le> x" "x < 2 ^ 31" "\<not> is_digit c" "\<forall>b \<in> set ws. isspace b"
  shows "scan_int (ws @ int_text x @ c # r) = Got (Some x, c # r)"
proof -
  let ?ds = "decimal (nat \<bar>x\<bar>)"
  have ds: "\<forall>c \<in> set ?ds. is_digit c" "?ds \<noteq> []" "digits_value ?ds = \<bar>x\<bar>" using decimal_digits [of "nat \<bar>x\<bar>"] by auto
  then obtain y ys where cons: "?ds = y # ys" "is_digit y" by (cases ?ds) auto
  have take: "takeWhile is_digit (?ds @ c # r) = ?ds" "dropWhile is_digit (?ds @ c # r) = c # r"
    using takeWhile_prefix [OF ds(1) assms(3)] by blast+
  have skip: "dropWhile isspace (ws @ t) = t" if "t \<noteq> []" "\<not> isspace (hd t)" for t
    using assms(4) that by (induction ws) (auto simp: neq_Nil_conv)
  show ?thesis
  proof (cases "x < 0")
    case True
    then have shape: "int_text x = 45 # ?ds" by (simp add: int_text_def)
    have "dropWhile isspace (ws @ int_text x @ c # r) = 45 # ?ds @ c # r"
      unfolding shape using skip [of "45 # ?ds @ c # r"] by (simp add: isspace_def)
    then show ?thesis using take ds(2,3) True assms(1-3) by (simp add: scan_int_def Let_def to_int_small)
  next
    case False
    then have shape: "int_text x = ?ds" by (simp add: int_text_def)
    have "dropWhile isspace (ws @ int_text x @ c # r) = ?ds @ c # r"
      unfolding shape using skip [of "?ds @ c # r"] cons digit_not_space by simp
    then show ?thesis
      using take ds(2,3) False assms(1-3) cons digit_not_space by (simp add: scan_int_def Let_def to_int_small)
  qed
qed

definition in_int :: "int \<Rightarrow> bool" where "in_int x = (- (2 ^ 31) \<le> x \<and> x < 2 ^ 31)"

text \<open>A line, behind the newline of the line before.\<close>

lemma scan_line:
  assumes "in_int x" "in_int y" "in_int z" "\<forall>b \<in> set ws. isspace b"
  shows "scan_ints 3 (ws @ child_line (x, y, z) @ r) = Got ([x, y, z], LF # r)"
proof -
  have nd: "\<not> is_digit 32" "\<not> is_digit LF" "isspace 32" by (simp_all add: is_digit_def isspace_def word_le_def)
  have "scan_int (ws @ int_text x @ 32 # int_text y @ 32 # int_text z @ LF # r) = Got (Some x, 32 # int_text y @ 32 # int_text z @ LF # r)"
    using assms(1,4) nd by (intro scan_int_text) (simp_all add: in_int_def)
  moreover have "scan_int ([32] @ int_text y @ 32 # int_text z @ LF # r) = Got (Some y, 32 # int_text z @ LF # r)"
    using assms(2) nd by (intro scan_int_text) (simp_all add: in_int_def)
  moreover have "scan_int ([32] @ int_text z @ LF # r) = Got (Some z, LF # r)"
    using assms(3) nd by (intro scan_int_text) (simp_all add: in_int_def)
  ultimately show ?thesis by (simp add: child_line_def numeral_3_eq_3)
qed

subsection \<open>The sums\<close>

text \<open>Reports whose sums, added to what was counted, stay in range.\<close>

definition addable :: "bench_sums \<Rightarrow> (int \<times> int \<times> int) list \<Rightarrow> bool" where
  "addable b rs = ((\<forall>r \<in> set rs. 0 \<le> fst r \<and> 0 \<le> fst (snd r) \<and> 0 \<le> snd (snd r)) \<and> 0 \<le> s_speed b \<and> 0 \<le> s_failed b \<and> 0 \<le> s_bytes b \<and>
     s_speed b + (\<Sum>r \<leftarrow> rs. fst r) < 2 ^ 31 \<and> s_failed b + (\<Sum>r \<leftarrow> rs. fst (snd r)) < 2 ^ 31 \<and>
     s_bytes b + (\<Sum>r \<leftarrow> rs. snd (snd r)) < 2 ^ 31)"

lemma addable_Cons:
  assumes "addable b ((x, y, z) # rs)"
  shows "in_int x" "in_int y" "in_int z" "c_add (s_speed b) x = Some (s_speed b + x)" "c_add (s_failed b) y = Some (s_failed b + y)"
    "c_add (s_bytes b) z = Some (s_bytes b + z)"
    "addable (b\<lparr>r_i := i, r_k := k, s_speed := s_speed b + x, s_failed := s_failed b + y, s_bytes := s_bytes b + z\<rparr>) rs"
proof -
  have pos: "0 \<le> (\<Sum>r \<leftarrow> rs. fst r)" "0 \<le> (\<Sum>r \<leftarrow> rs. fst (snd r))" "0 \<le> (\<Sum>r \<leftarrow> rs. snd (snd r))"
    using assms by (auto simp: addable_def intro!: sum_list_nonneg)
  then show "in_int x" "in_int y" "in_int z" "c_add (s_speed b) x = Some (s_speed b + x)" "c_add (s_failed b) y = Some (s_failed b + y)"
    "c_add (s_bytes b) z = Some (s_bytes b + z)"
    "addable (b\<lparr>r_i := i, r_k := k, s_speed := s_speed b + x, s_failed := s_failed b + y, s_bytes := s_bytes b + z\<rparr>) rs"
    using assms by (auto simp: addable_def in_int_def c_add_def)
qed

lemma scan_ints_spaces: "\<forall>b \<in> set ws. isspace b \<Longrightarrow> scan_ints (Suc n) ws = Blocks"
proof -
  assume "\<forall>b \<in> set ws. isspace b"
  then have d: "dropWhile isspace ws = []" by simp
  show ?thesis by (simp add: scan_int_def d)
qed

text \<open>The sums of some reports, added to what was counted.\<close>

definition sums_of :: "bench_sums \<Rightarrow> (int \<times> int \<times> int) list \<Rightarrow> int option \<Rightarrow> bench_sums" where
  "sums_of b rs k = b\<lparr>r_i := if rs = [] then r_i b else fst (last rs), r_k := k, s_speed := s_speed b + (\<Sum>r \<leftarrow> rs. fst r),
     s_failed := s_failed b + (\<Sum>r \<leftarrow> rs. fst (snd r)), s_bytes := s_bytes b + (\<Sum>r \<leftarrow> rs. snd (snd r))\<rparr>"

lemma sums_of_Cons:
  "sums_of (b\<lparr>r_i := x, r_k := k', s_speed := s_speed b + x, s_failed := s_failed b + y, s_bytes := s_bytes b + z\<rparr>) rs k =
    sums_of b ((x, y, z) # rs) k"
  by (simp add: sums_of_def algebra_simps)

lemma collect_all:
  assumes "addable b rs" "length rs \<le> n" "\<forall>c \<in> set ws. isspace c"
  shows "\<exists>k. collect n (ws @ concat (map child_line rs)) b = Some (if length rs < n then Blocks else Got (sums_of b rs k))"
  using assms
proof (induction n arbitrary: rs b ws)
  case 0
  then show ?case by (intro exI [of _ "r_k b"]) (simp add: sums_of_def)
next
  case (Suc n)
  show ?case
  proof (cases rs)
    case Nil
    then show ?thesis using scan_ints_spaces [OF Suc.prems(3), of 2] by (simp add: numeral_2_eq_2 numeral_3_eq_3)
  next
    case (Cons q qs)
    obtain x y z where q: "q = (x, y, z)" by (cases q)
    note add = addable_Cons [OF Suc.prems(1) [unfolded Cons q]]
    let ?b = "b\<lparr>r_i := x, r_k := Some z, s_speed := s_speed b + x, s_failed := s_failed b + y, s_bytes := s_bytes b + z\<rparr>"
    have "scan_ints 3 (ws @ concat (map child_line rs)) = Got ([x, y, z], LF # concat (map child_line qs))"
      using scan_line [OF add(1-3) Suc.prems(3)] Cons q by simp
    then have "collect (Suc n) (ws @ concat (map child_line rs)) b = collect n ([LF] @ concat (map child_line qs)) ?b"
      using add(4-6) by simp
    moreover have "\<exists>k. collect n ([LF] @ concat (map child_line qs)) ?b = Some (if length qs < n then Blocks else Got (sums_of ?b qs k))"
      using Suc.prems(2) Cons by (intro Suc.IH add(7)) (simp_all add: isspace_def)
    ultimately show ?thesis using Cons q by (auto simp: sums_of_Cons)
  qed
qed

lemma fork_loop_all: "(\<And>j. i \<le> j \<Longrightarrow> j < i + int n \<Longrightarrow> 0 < frk j) \<Longrightarrow> 0 < n \<or> 0 < pid \<Longrightarrow>
    \<exists>p. fork_loop n i frk pid = (i + int n, p) \<and> 0 < p"
proof (induction n arbitrary: i pid)
  case (Suc n)
  then have "0 < frk i" by simp
  with Suc.IH [of "i + 1" "frk i"] Suc.prems(1) obtain p where "fork_loop n (i + 1) frk (frk i) = (i + 1 + int n, p)" "0 < p" by auto
  then show ?case using \<open>0 < frk i\<close> by (simp add: add.assoc)
qed simp

subsection \<open>Properties\<close>

text \<open>C29.  The parent of the benchmark adds up what its clients counted: when every \<open>fork\<close> succeeds and \<open>rs\<close> are the reports that
  the clients write, in the order in which they arrive, \<open>bench\<close> reads back through the pipe exactly the numbers that
  were written and sums them, provided that every client reports; the value it returns, the exit status of the program,
  is the number of pages of the last report.  When a report is missing \<open>bench\<close> does not return: the message that a child died
  is not reached, since the parent holds the pipe open itself.  Numbers are not negative and their sums fit an \<open>int\<close>.\<close>

theorem bench_sums_reports:
  assumes "0 < num" "\<And>i. 0 \<le> i \<Longrightarrow> i < num \<Longrightarrow> 0 < frk i" "length rs \<le> nat num"
    and "\<forall>r \<in> set rs. 0 \<le> fst r \<and> 0 \<le> fst (snd r) \<and> 0 \<le> snd (snd r)"
    and "(\<Sum>r \<leftarrow> rs. fst r) < 2 ^ 31" "(\<Sum>r \<leftarrow> rs. fst (snd r)) < 2 ^ 31" "(\<Sum>r \<leftarrow> rs. snd (snd r)) < 2 ^ 31"
  shows "if length rs < nat num then bench True True frk own (concat (map child_line rs)) num = Some Blocks
    else \<exists>b. bench True True frk own (concat (map child_line rs)) num = Some (Got (fst (last rs), [], Some b)) \<and>
      s_speed b = (\<Sum>r \<leftarrow> rs. fst r) \<and> s_failed b = (\<Sum>r \<leftarrow> rs. fst (snd r)) \<and> s_bytes b = (\<Sum>r \<leftarrow> rs. snd (snd r)) \<and> \<not> s_died b"
proof -
  obtain p where p: "fork_loop (nat num) 0 frk 0 = (num, p)" "0 < p"
    using fork_loop_all [of 0 "nat num" frk 0] assms(1,2) by auto
  let ?b = "\<lparr>r_i = num, r_k = None, s_speed = 0, s_failed = 0, s_bytes = 0, s_died = False\<rparr>"
  have "addable ?b rs" using assms(4-7) by (simp add: addable_def)
  from collect_all [OF this assms(3), of "[]"] obtain k where
    "collect (nat num) (concat (map child_line rs)) ?b = Some (if length rs < nat num then Blocks else Got (sums_of ?b rs k))" by auto
  moreover have "rs \<noteq> []" if "\<not> length rs < nat num" using that assms(1) by auto
  ultimately show ?thesis using p by (auto simp: bench_def sums_of_def)
qed

theorem bench_sums_reports_witness:
  "(\<exists>b. bench True True (\<lambda>i. 100 + i) (0, 0, 0) (concat (map child_line [(20, 1, 9000), (15, 0, 7000)])) 2 = Some (Got (15, [], Some b)) \<and>
     s_speed b = 35 \<and> s_failed b = 1 \<and> s_bytes b = 16000 \<and> \<not> s_died b) \<and>
   bench True True (\<lambda>i. 100 + i) (0, 0, 0) (concat (map child_line [(20, 1, 9000)])) 2 = Some Blocks"
  using bench_sums_reports [of 2 "\<lambda>i. 100 + i" "[(20, 1, 9000), (15, 0, 7000)]" "(0, 0, 0)"]
    bench_sums_reports [of 2 "\<lambda>i. 100 + i" "[(20, 1, 9000)]" "(0, 0, 0)"] by simp

text \<open>A negative number of clients: nothing is forked, and the parent goes on as if it were a child.\<close>

lemma bench_negative_clients:
  assumes "num < 0"
  shows "bench True True frk own input num = Some (Got (0, child_line own, None))"
  using assms by (simp add: bench_def)

text \<open>\<open>--proxy\<close> with a host and a port.\<close>

lemma atoi_prefix:
  assumes "int n < 2 ^ 31" "r = [] \<or> \<not> is_digit (hd r)"
  shows "atoi (decimal n @ r) = int n"
proof -
  have d: "\<forall>c \<in> set (decimal n). is_digit c" "decimal n \<noteq> []" "digits_value (decimal n) = int n" using decimal_digits [of n] by auto
  then obtain y ys where cons: "decimal n = y # ys" "\<not> isspace y" "y \<noteq> 45" "y \<noteq> 43"
    using digit_not_space by (cases "decimal n") auto
  have "takeWhile is_digit (decimal n @ r) = decimal n"
    using d(1) assms(2) takeWhile_prefix [OF d(1)] by (cases r) (auto simp: takeWhile_eq_all_conv)
  then show ?thesis using cons d(3) assms(1) unfolding is_digit_def [abs_def] by (simp add: atoi_def Let_def to_int_small)
qed

lemma atoi_decimal: "int n < 2 ^ 31 \<Longrightarrow> atoi (decimal n) = int n"
  using atoi_prefix [of n "[]"] by simp

lemma atoi_line: "int n < 2 ^ 31 \<Longrightarrow> atoi (decimal n @ [LF]) = int n"
  using atoi_prefix [of n "[LF]"] by (simp add: is_digit_def word_le_def)

lemma proxy_option_split:
  assumes "host \<noteq> []" "int port < 2 ^ 31"
  shows "proxy_option (host @ 58 # decimal port) o1 =
    Go (o1\<lparr>o_conf := (o_conf o1)\<lparr>proxyhost := Some host, proxyport := int port\<rparr>\<rparr>)"
proof -
  have d: "\<forall>c \<in> set (rev (decimal port)). c \<noteq> 58" "decimal port \<noteq> []"
    using decimal_digits [of port] by (auto simp: is_digit_def word_le_def)
  have "takeWhile (\<lambda>c. c \<noteq> 58) (rev (host @ 58 # decimal port)) = rev (decimal port)"
    using takeWhile_prefix [OF d(1), of 58 "rev host"] by simp
  then show ?thesis using assms d(2) atoi_decimal [OF assms(2)] by (auto simp: proxy_option_def Let_def)
qed

end
