(* ===== verification/Cgi.thy ===== *)
theory Cgi
  imports Bench_Report Mulcore_Http
begin

text \<open>
  \<open>execute_cgi\<close> of \<open>sample/nty_http_server.c\<close> and, with the same text, of \<open>sample/nty_http_server_mulcore.c\<close>.  No request reaches
  it (\<open>accept_request\<close> sets \<open>cgi\<close> to 0 before it tests it); it is modelled for itself.  \<open>recv\<close> and \<open>send\<close> are macros for the \<open>nty_*\<close>
  functions, \<open>read\<close>, \<open>write\<close> and \<open>close\<close> are the hooks.  \<open>pipe\<close>, \<open>fork\<close> and \<open>waitpid\<close> are parameters; the child ends
  with the environment it gives to the script.
\<close>

subsection \<open>The header\<close>

text \<open>The body of the loop over the header lines of a \<open>POST\<close>: \<open>buf[15]\<close> is overwritten, whatever the line.\<close>

definition length_line :: "u8 list \<Rightarrow> int \<Rightarrow> (u8 list \<times> int) option" where
  "length_line buf content_length = do {
     buf \<leftarrow> set_elem buf 15 0;
     s \<leftarrow> c_string buf;
     if strcasecmp s (bytes_of ''Content-Length:'') then Some (buf, content_length)
     else do { t \<leftarrow> c_string (drop 16 buf); Some (buf, atoi t) } }"

fun length_loop :: "nat \<Rightarrow> 'k kernel \<Rightarrow> 'k world \<Rightarrow> int \<Rightarrow> nat \<Rightarrow> u8 list \<Rightarrow> int \<Rightarrow> ('k world, int) comp" where
  "length_loop n K w cli numchars buf content_length = (if numchars = 0 \<or> is_blank buf then Ret content_length w
     else case n of 0 \<Rightarrow> Out_of_fuel
     | Suc m \<Rightarrow> (case length_line buf content_length of None \<Rightarrow> Fault
         | Some (buf, content_length) \<Rightarrow> comp_bind (get_line K w cli buf) (\<lambda>(numchars, buf) w.
             length_loop m K w cli numchars buf content_length)))"

declare length_loop.simps [simp del]

subsection \<open>The script\<close>

record 'k cgi_os =
  c_pipe :: "'k \<Rightarrow> int \<times> (int \<times> int) \<times> 'k"
  c_fork :: "'k \<Rightarrow> int \<times> 'k"
  c_waitpid :: "'k \<Rightarrow> int \<Rightarrow> 'k"

text \<open>The environment of the child: each string is written into an array of 255 bytes.\<close>

definition env_string :: "u8 list \<Rightarrow> u8 list option" where
  "env_string t = do { a \<leftarrow> strcpy (replicate 255 0) t; c_string a }"

definition cgi_env :: "u8 list \<Rightarrow> u8 list \<Rightarrow> int \<Rightarrow> u8 list list option" where
  "cgi_env method query_string content_length = do {
     meth_env \<leftarrow> env_string (bytes_of ''REQUEST_METHOD='' @ method);
     if \<not> strcasecmp method (bytes_of ''GET'') then do {
       query_env \<leftarrow> env_string (bytes_of ''QUERY_STRING='' @ query_string); Some [meth_env, query_env] }
     else do {
       length_env \<leftarrow> env_string (bytes_of ''CONTENT_LENGTH='' @ int_text content_length); Some [meth_env, length_env] } }"

text \<open>The two loops of the parent; \<open>c\<close> keeps its value when \<open>recv\<close> fails.\<close>

fun copy_in :: "nat \<Rightarrow> nat \<Rightarrow> 'k kernel \<Rightarrow> 'k world \<Rightarrow> int \<Rightarrow> int \<Rightarrow> u8 \<Rightarrow> ('k world, unit) comp" where
  "copy_in 0 fuel K w cli fd c = Ret () w"
| "copy_in (Suc n) fuel K w cli fd c = comp_bind (nty_recv K w cli 1 0) (\<lambda>(r, bs) w.
     let c = (if r > 0 then hd (bs @ [c]) else c) in
     comp_bind (hook_write fuel K w fd [c]) (\<lambda>_ w. copy_in n fuel K w cli fd c))"

fun copy_out :: "nat \<Rightarrow> nat \<Rightarrow> 'k kernel \<Rightarrow> 'k world \<Rightarrow> int \<Rightarrow> int \<Rightarrow> ('k world, unit) comp" where
  "copy_out 0 fuel K w cli fd = Out_of_fuel"
| "copy_out (Suc n) fuel K w cli fd = comp_bind (read K w fd 1) (\<lambda>(r, bs) w.
     if r > 0 then comp_bind (nty_send fuel K w cli (take 1 bs) 0) (\<lambda>_ w. copy_out n fuel K w cli fd) else Ret () w)"

datatype cgi_end = Served | Script (cgi_strings: "u8 list list")

definition cgi_parent :: "nat \<Rightarrow> nat \<Rightarrow> 'k kernel \<Rightarrow> 'k cgi_os \<Rightarrow> 'k world \<Rightarrow> int \<Rightarrow> int \<times> int \<Rightarrow> int \<times> int \<Rightarrow> u8 list \<Rightarrow> int \<Rightarrow> u8 \<Rightarrow> int \<Rightarrow>
    ('k world, cgi_end) comp" where
  "cgi_parent n fuel K C w cli cgi_output cgi_input method content_length c pid =
     comp_bind (close K w (snd cgi_output)) (\<lambda>_ w.
     comp_bind (close K w (fst cgi_input)) (\<lambda>_ w.
     comp_bind (if \<not> strcasecmp method (bytes_of ''POST'') then copy_in (nat content_length) fuel K w cli (snd cgi_input) c else Ret () w) (\<lambda>_ w.
     comp_bind (copy_out n fuel K w cli (fst cgi_output)) (\<lambda>_ w.
     comp_bind (close K w (fst cgi_output)) (\<lambda>_ w.
     comp_bind (close K w (snd cgi_input)) (\<lambda>_ w.
     Ret Served (w\<lparr>kern := c_waitpid C (kern w) pid\<rparr>)))))))"

text \<open>The part behind the header: two pipes, the child, and the first line of the response, which both processes send.\<close>

definition cgi_run :: "nat \<Rightarrow> nat \<Rightarrow> 'k kernel \<Rightarrow> 'k cgi_os \<Rightarrow> 'k world \<Rightarrow> int \<Rightarrow> u8 list \<Rightarrow> u8 list \<Rightarrow> int \<Rightarrow> u8 \<Rightarrow> ('k world, cgi_end) comp" where
  "cgi_run n fuel K C w cli method query_string content_length c = (let fail = (\<lambda>w. comp_bind (send_texts fuel K w cli cannot_execute) (\<lambda>_ w. Ret Served w)) in
     case c_pipe C (kern w) of (r, cgi_output, k) \<Rightarrow> let w = w\<lparr>kern := k\<rparr> in
     if r < 0 then fail w
     else case c_pipe C (kern w) of (r, cgi_input, k) \<Rightarrow> let w = w\<lparr>kern := k\<rparr> in
     if r < 0 then fail w
     else case c_fork C (kern w) of (pid, k) \<Rightarrow> let w = w\<lparr>kern := k\<rparr> in
     if pid < 0 then fail w
     else comp_bind (nty_send fuel K w cli (line_of ''HTTP/1.0 200 OK'') 0) (\<lambda>_ w.
       if pid = 0 then (case cgi_env method query_string content_length of None \<Rightarrow> Fault | Some env \<Rightarrow> Ret (Script env) w)
       else cgi_parent n fuel K C w cli cgi_output cgi_input method content_length c pid))"

text \<open>\<open>junk\<close> is what \<open>buf\<close> held, \<open>junk1\<close> what the array of \<open>bad_request\<close> held and \<open>c\<close> what the variable \<open>c\<close> held.\<close>

definition execute_cgi :: "nat \<Rightarrow> nat \<Rightarrow> 'k kernel \<Rightarrow> 'k cgi_os \<Rightarrow> 'k world \<Rightarrow> int \<Rightarrow> u8 list \<Rightarrow> u8 list \<Rightarrow> u8 list \<Rightarrow> u8 list \<Rightarrow> u8 \<Rightarrow> ('k world, cgi_end) comp" where
  "execute_cgi n fuel K C w cli method query_string junk junk1 c = (case memcpy junk 0 [65, 0] of None \<Rightarrow> Fault
     | Some buf \<Rightarrow>
         if \<not> strcasecmp method (bytes_of ''GET'') then
           comp_bind (discard_loop n K w cli 1 buf) (\<lambda>_ w. cgi_run n fuel K C w cli method query_string (-1) c)
         else if \<not> strcasecmp method (bytes_of ''POST'') then
           comp_bind (get_line K w cli buf) (\<lambda>(numchars, buf) w.
           comp_bind (length_loop n K w cli numchars buf (-1)) (\<lambda>content_length w.
             if content_length = -1 then (case bad_request junk1 of None \<Rightarrow> Fault
               | Some ts \<Rightarrow> comp_bind (send_texts fuel K w cli ts) (\<lambda>_ w. Ret Served w))
             else cgi_run n fuel K C w cli method query_string content_length c))
         else cgi_run n fuel K C w cli method query_string (-1) c)"

text \<open>The functions of \<open>nty_http_server_mulcore.c\<close> whose text is that of \<open>nty_http_server.c\<close>.\<close>

definition mc_execute_cgi :: "nat \<Rightarrow> nat \<Rightarrow> 'k kernel \<Rightarrow> 'k cgi_os \<Rightarrow> 'k world \<Rightarrow> int \<Rightarrow> u8 list \<Rightarrow> u8 list \<Rightarrow> u8 list \<Rightarrow> u8 list \<Rightarrow> u8 \<Rightarrow> ('k world, cgi_end) comp" where
  "mc_execute_cgi = execute_cgi"

definition mc_get_line :: "'k kernel \<Rightarrow> 'k world \<Rightarrow> int \<Rightarrow> u8 list \<Rightarrow> ('k world, nat \<times> u8 list) comp" where
  "mc_get_line = get_line"

definition mc_bad_request :: "u8 list \<Rightarrow> u8 list list option" where
  "mc_bad_request = bad_request"

definition mc_cannot_execute :: "u8 list list" where
  "mc_cannot_execute = cannot_execute"

definition mc_startup :: "'k kernel \<Rightarrow> 'k http_net \<Rightarrow> 'k world \<Rightarrow> nat \<Rightarrow> ('k world, (int \<times> nat) option) comp" where
  "mc_startup = startup"

subsection \<open>Properties of the strings\<close>

lemma env_string_fits:
  assumes "0 \<notin> set t"
  shows "env_string t = (if length t < 255 then Some t else None)"
proof (cases "length t < 255")
  case True
  then show ?thesis using strcpy_holds [OF assms, of "replicate 255 0"] by (auto simp: env_string_def)
qed (simp add: env_string_def strcpy_def memcpy_def)

text \<open>A \<open>Content-Length\<close> line is understood.\<close>

lemma length_line_found:
  assumes "int n < 2 ^ 31"
  shows "\<exists>buf. length_line (bytes_of ''Content-Length: '' @ decimal n @ LF # 0 # r) len = Some (buf, int n)"
proof -
  let ?name = "bytes_of ''Content-Length:''"
  have name: "length ?name = 15" "0 \<notin> set ?name" by (simp_all add: bytes_of_def)
  have split: "bytes_of ''Content-Length: '' = ?name @ [32]" by (simp add: bytes_of_def)
  have buf: "set_elem (?name @ 32 # decimal n @ LF # 0 # r) 15 0 = Some (?name @ 0 # decimal n @ LF # 0 # r)"
    using set_elem_nat [of "?name @ 32 # decimal n @ LF # 0 # r" 15 0] name(1) by (simp add: list_update_append)
  have "c_string (?name @ 0 # decimal n @ LF # 0 # r) = Some ?name" by (rule c_string_zero [OF name(2)])
  moreover have d: "\<forall>c \<in> set (decimal n). is_digit c" using decimal_digits [of n] by simp
  then have "0 \<notin> set (decimal n @ [LF])" by (auto simp: is_digit_def word_le_def)
  from c_string_zero [OF this, of r] have "c_string (drop 16 (?name @ 0 # decimal n @ LF # 0 # r)) = Some (decimal n @ [LF])"
    using name(1) by simp
  moreover have "atoi (decimal n @ [LF]) = int n" by (rule atoi_line [OF assms])
  ultimately show ?thesis using buf by (simp add: length_line_def split strcasecmp_def)
qed

subsection \<open>Properties\<close>

text \<open>The environment of a \<open>GET\<close> script: the child gives it the method and the query string, and its array
  \<open>query_env\<close> of 255 bytes holds the latter exactly when it has at most 241 bytes; a longer query string, which the array of
  255 bytes for the URL allows, is written behind the end of the array.\<close>

lemma cgi_query_bound:
  assumes "\<not> strcasecmp meth (bytes_of ''GET'')" "0 \<notin> set meth" "0 \<notin> set query"
  shows "cgi_env meth query len = (if length query \<le> 241
    then Some [bytes_of ''REQUEST_METHOD='' @ meth, bytes_of ''QUERY_STRING='' @ query] else None)"
proof -
  have "length meth = 3" using assms(1) map_eq_imp_length_eq [of tolower meth tolower "bytes_of ''GET''"]
    by (simp add: strcasecmp_def bytes_of_def)
  moreover have "length (bytes_of ''REQUEST_METHOD='') = 15" "length (bytes_of ''QUERY_STRING='') = 13"
    "0 \<notin> set (bytes_of ''REQUEST_METHOD='')" "0 \<notin> set (bytes_of ''QUERY_STRING='')" by (simp_all add: bytes_of_def)
  ultimately show ?thesis using assms by (auto simp: cgi_env_def env_string_fits)
qed

end
