(* ===== verification/Spec2Isabelle.thy ===== *)
theory Spec2Isabelle
  imports Splay_Refine Queue_Checks Context_Switch Serving Processes Mysql_Oper Redis_Client Cgi
begin

text \<open>
  A verification development for NtyCo, a coroutine library for network servers in C, and for the servers and
  clients that come with it.  File names below are relative to the source tree.

  \<^bold>\<open>The program.\<close>  \<open>core/nty_tree.h\<close> and \<open>core/nty_queue.h\<close> are macro libraries of intrusive trees and lists: the links
  are fields of the elements.  \<open>core/nty_coroutine.c\<close> creates, resumes, suspends and frees coroutines that share one
  stack: at a yield the used part of the stack is copied to the coroutine, at a resume it is copied back.
  \<open>core/nty_schedule.c\<close> keeps the ready queue (a tail queue), the sleeping coroutines (a red-black tree ordered by the
  time they wake at), the waiting coroutines (a red-black tree ordered by file descriptor) and the loop that resumes
  expired, ready and signalled coroutines in this order.  \<open>core/nty_epoll.c\<close> wraps the event poller of the kernel.
  \<open>core/nty_socket.c\<close> gives \<open>accept\<close>, \<open>connect\<close>, \<open>recv\<close>, \<open>send\<close> and so on a form that suspends the calling coroutine
  until the descriptor is ready, and replaces the functions of the C library by such forms.  The files of \<open>sample/\<close> are
  servers and clients written with these functions.

  \<^bold>\<open>How C is read.\<close>  A pointer is an optional address; reading or writing through \<open>NULL\<close> or through the address of an
  object that is not allocated is a fault, the value \<open>None\<close> of the option monad, as are a failed \<open>assert\<close> and an index
  outside an array.  Structures are records in a heap (a map from addresses).  Unsigned integers are words of their
  width; \<open>int\<close> and \<open>ssize_t\<close> are integers with the conversions written out (\<open>to_int\<close>, \<open>c_div\<close>, \<open>c_rem\<close>).  The
  comparison functions of the trees are arguments, as they are of the macros.

  The kernel and the allocator are a parameter: the record \<open>kernel\<close> of functions over an abstract state, one function
  per system call the code makes.  The flags of \<open>fcntl\<close>, the addresses, the files a server opens and the resolver of
  host names are arguments in the same way, as are the SHA-1 digest and the base-64 filter the web socket server takes
  from OpenSSL and the MySQL and Redis client libraries of the database samples.  What a theorem needs of them is a hypothesis of that theorem, and its witness gives a concrete kernel
  for which the hypothesis holds.

  The body of a coroutine is a computation \<open>comp\<close>: it ends, or it yields the memory it has reached and continues with
  the memory it is resumed with.  A suspended coroutine (a \<open>ucontext_t\<close>) is the rest of its computation together with
  its stack pointer.  \<open>server_reader\<close> and the other bodies of the samples are such computations over the socket layer.
  What a body promises is stated with \<open>always E Q\<close>: at every yield the scheduler may change the memory within \<open>E\<close>, and if the
  body ends then in a state of \<open>Q\<close>, without a fault; \<open>wakes\<close> is the change a coroutine that waits for a descriptor relies
  on.  \<open>Serving\<close> shows that the scheduler keeps to it.

  \<^bold>\<open>The theories.\<close>
  \<^item> \<open>Prelude\<close>: pointers, heaps, and the collections of simplification rules.  \<open>C_Memory\<close>: arrays of bytes, C strings
    and the C library's functions on them, for the samples.
  \<^item> \<open>RB_Heap\<close> (\<open>RB_*\<close> of \<open>nty_tree.h\<close>, macro by macro), \<open>RB_Shape\<close> (trees, paths and the red-black invariant, and the
    predicate \<open>rep\<close> by which a heap holds a tree), \<open>RB_Refine\<close> (reads, recolouring and rotations act on trees),
    \<open>RB_Insert\<close>, \<open>RB_Remove\<close> (the two rebalancing loops keep a tree with one defect on the path to the root and end with
    none), \<open>RB_Iterate\<close> (minimum, successor, traversal), \<open>Ordered_Set\<close>.
  \<^item> \<open>Splay_Heap\<close> (\<open>SPLAY_*\<close> of \<open>nty_tree.h\<close>, the local node of the loop included) and \<open>Splay_Refine\<close>.
  \<^item> \<open>Queue_Heap\<close>, \<open>Tail_Queue\<close> (\<open>TAILQ_*\<close>), \<open>Linked_Lists\<close> (\<open>SLIST_*\<close>, \<open>STAILQ_*\<close>, \<open>LIST_*\<close>) of \<open>nty_queue.h\<close>;
    \<open>Queue_Checks\<close>: the operations with the checks \<open>QMD_*\<close> that are compiled in with \<open>INVARIANTS\<close>.
  \<^item> \<open>World\<close>: the structures of \<open>nty_coroutine.h\<close>, the state \<open>world\<close> of one thread (scheduler, coroutines, trees, queues,
    stack, \<open>errno\<close>, kernel state) and the computations.  \<open>Timers\<close>: the sleep and the wait tree (\<open>nty_schedule.c\<close>).
    \<open>Coroutine\<close>: \<open>nty_epoll.c\<close>, \<open>nty_coroutine.c\<close> (its \<open>_USE_UCONTEXT\<close> build) and creation and destruction of the
    scheduler.  \<open>Schedule\<close>: \<open>nty_schedule_run\<close>.  \<open>Cooperation\<close>: the main loop on coroutines that give way to each other.
    \<open>Socket\<close>: \<open>nty_socket.c\<close>.  \<open>Context_Switch\<close>: the assembler switch of the build without \<open>_USE_UCONTEXT\<close>, for both processors,
    on a machine with registers and a memory of words.
  \<^item> \<open>Shared_Memory\<close>: the counters, the accept locks and the compare-and-exchange instruction of \<open>ntyco_httpd.c\<close>,
    \<open>nty_server_mulcore.c\<close> and \<open>nty_http_server_mulcore.c\<close>, with the processes as a step relation.  \<open>Httpd\<close>: the
    coroutines of \<open>ntyco_httpd.c\<close>.  \<open>Epoll_Server\<close>: the event loop of \<open>nty_http_epoll.c\<close>, which shares the page and the
    shared memory with it and calls the kernel directly.  \<open>Mulcore_Server\<close>: the coroutines of \<open>nty_server_mulcore.c\<close>, with
    the loops of its counter inside a process and the descriptor that is handed over through the shared stack.
    \<open>Processes\<close>: the forks and \<open>process_bind\<close> of these servers, and the processes of \<open>nty_http_epoll.c\<close> as a step relation on
    the shared memory.
  \<^item> \<open>Echo_Servers\<close> (\<open>nty_server.c\<close>, \<open>hook_tcpserver.c\<close>, \<open>nty_client.c\<close>), \<open>Serving\<close> (an echo server on its scheduler),
    \<open>Websocket\<close> (\<open>nty_websocket_server.c\<close>),
    \<open>Http_Server\<close> (\<open>nty_http_server.c\<close>), \<open>Mulcore_Http\<close> (the request handling of \<open>nty_http_server_mulcore.c\<close>, with its
    smaller arrays), \<open>Cgi\<close> (\<open>execute_cgi\<close> of both), \<open>Bench\<close> and \<open>Bench_Report\<close> (the \<open>ENABLE_NTYCO\<close> build of \<open>nty_bench.c\<close>:
    the requests; the options, the processes and their reports).
  \<^item> \<open>Mysql_Oper\<close> (\<open>nty_mysql_oper.c\<close>, \<open>nty_mysql_client.c\<close>) and \<open>Redis_Client\<close> (\<open>nty_rediscli.c\<close>): the library is a record of
    functions, and what can be observed of it is a view, on which \<open>db_laws\<close> and \<open>redis_laws\<close> say what each call does.

  \<^bold>\<open>The interfaces.\<close>  Five locales state what one component relies on in another.  \<open>ordered_set\<close> (in \<open>Ordered_Set\<close>) is
  a container of addresses ordered by an integer key: search, insert, remove, minimum.  The red-black trees and the splay
  trees both meet it (interpretations \<open>rb\<close> and \<open>sp\<close>), and \<open>Timers\<close> uses the former for the sleep and the wait tree.
  \<open>fifo\<close> (in \<open>Linked_Lists\<close>) is a queue with append, both ends and removal; \<open>TAILQ_*\<close> and \<open>STAILQ_*\<close> meet it.
  \<open>byte_sink\<close> (in \<open>Socket\<close>) is a kernel that takes the bytes of a send in pieces of its own choice; the loop of \<open>nty_send\<close>
  is proved over it once, as is \<open>nsend\<close> of \<open>nty_http_epoll.c\<close>, and it is interpreted on the plain output of a descriptor, on the duplex connection of the
  servers and on a connection with whole requests (\<open>bytes\<close>, \<open>duplex\<close>, \<open>replies\<close>).  \<open>lock_protocol\<close> (in \<open>Shared_Memory\<close>) is a set
  of processes that take and free the accept lock, with mutual exclusion proved once; the processes of \<open>ntyco_httpd.c\<close> and
  of \<open>nty_http_epoll.c\<close> follow it (\<open>httpd_lock\<close>, \<open>epoll_lock\<close>).  \<open>context_switch\<close> (in \<open>Context_Switch\<close>) is a routine that leaves one
  context and enters another, and what a pair of switches gives follows from it; the two routines \<open>_switch\<close> meet it
  (\<open>sw64\<close>, \<open>sw32\<close>).

  \<^bold>\<open>What is shown.\<close>
  \<^item> Trees: insert and remove act as on the ordered list of keys and keep the red-black invariant, without a fault;
    lookup, nearest element and traversal agree with that list; after any sequence of insertions and removals no walk
    from the root is longer than twice the logarithm of the size.
    Splay trees: the same for find, insert, remove and traversal.
  \<^item> Queues: append and removal at either end or in the middle act as on lists, and a client that appends and takes
    out the first element, in any order, gets the elements in the order of arrival.  The
    checks let every operation on a well-formed queue through and stop a second removal.
  \<^item> Timers: a coroutine put to sleep stands in the tree at its time, moved on past equal times; the one found expired is
    the earliest; arming and disarming a wait restores the tree; waking a descriptor nobody waits for is a fault.
  \<^item> Coroutines: the stack a coroutine sees after a resume is the one it left at its yield; creation appends to the
    ready queue; a coroutine whose body returns is freed.  Under the assembler switch a coroutine that yields and is
    resumed goes on behind its call with the registers it had, and the first resume enters \<open>_exec\<close> with its argument.
  \<^item> Scheduler: a round resumes each coroutine that was ready once and in order; \<open>nty_schedule_run\<close> on any number of coroutines
    that act and give way with \<open>nty_coroutine_sleep(0)\<close> ends, in round-robin order, with everything freed; the timeout handed to
    the poller is never longer than asked for; the end test is exact.  A coroutine that sleeps for a positive time and
    returns is freed while the sleep tree holds it, and the next look at the tree is a fault when nobody wakes earlier.
  \<^item> Sockets: \<open>nty_send\<close> delivers every byte, in order, whatever pieces the kernel takes; a wait returns after its event
    with the coroutine disarmed; a replaced function called on a thread with a scheduler but outside a coroutine is a fault.
  \<^item> Servers: the echo servers write back what they read, for input without zero bytes that arrives in pieces shorter than
    their buffer, and on a scheduler with no other coroutine \<open>nty_schedule_run\<close> takes the coroutine of a
    connection from the ready queue through all its waits to its end; the web server answers a \<open>GET\<close> for a text file with the headers and
    the file up to its last newline, and another method with an error text but no close; \<open>ntyco_httpd.c\<close> answers
    every request with the complete page; \<open>nty_http_epoll.c\<close>, with one peer and one process, sends of each page what the kernel takes of one
    call, and counts the connection as ended after each page; the web socket server answers
    the handshake and a masked frame, and unmasking inverts masking; the request the benchmark client builds is one the
    web server reads.  \<open>nty_http_server_mulcore.c\<close> keeps every request within its arrays, reads a request line as
    \<open>nty_http_server.c\<close> does, and answers with its page; \<open>nty_server_mulcore.c\<close> answers every request and then takes
    one from the shared counter.  The environment string of a CGI script fits its array up to 241 bytes of query.
  \<^item> Clients: the parent of the benchmark adds up exactly the numbers its children report, and waits forever when a
    report is missing, because it holds the writing end of the pipe itself; the database sample copies an
    image through the database, and reads an image that is too long behind the end of its buffer; the Redis
    sample prints the list it built and frees every reply once.
  \<^item> Processes: at most one process holds the accept lock of \<open>ntyco_httpd.c\<close> and of \<open>nty_http_epoll.c\<close>; what the event loop of the
    latter does with a list of events is a run of the interleaved processes.  The counts of connections of the former are
    exact; so is the total of \<open>nty_server_mulcore.c\<close>, in every interleaving; the accept mutex of
    \<open>nty_http_server_mulcore.c\<close> is never taken, because it compares eight bytes.

  \<^bold>\<open>Loops, bounds and fuel.\<close>  Loops over lists and trees are functions with a termination proof or
  \<open>partial_function (option)\<close>; for the latter the theorems say that the value is \<open>Some\<close>.  Retry loops of the socket layer
  and the endless loops of the servers take a bound on their iterations, and running out of it is a value distinct from
  every result; the theorems say which bound is enough: a turn per byte for a send, since the kernel takes at least one
  byte each time; a turn per byte of the input, and one more, for the reader of an echo server; 1024 for the lines of a
  handshake, which is the size of the buffer they come from; a turn per row and per byte, and one more, for the loops
  of the database sample.  The loop of the shared counter takes the list of what other processes do between its load
  and its exchange, an entry per attempt; one entry that leaves the counter alone is enough.

  \<^bold>\<open>Not modelled.\<close>  Around the assembler switch, the code the compiler makes for its callers; the scheduler and the samples are
  those of the \<open>_USE_UCONTEXT\<close> build.  The frames of C functions on the shared stack, beyond the bytes that a coroutine has
  in use and the variables whose address is passed on.  The code of the samples under the conditions that are off
  (\<open>ENABLE_NTYCO\<close> 0 where it is 1, \<open>#if 0\<close>), except the texts of \<open>nty_http_server_mulcore.c\<close>; that build of \<open>nty_bench.c\<close> does not compile.
  \<open>cat\<close> of \<open>nty_http_epoll.c\<close> and \<open>readline\<close> of the web servers, which are never called.  The functions on the shared
  memory and the page of \<open>nty_http_epoll.c\<close> are the same text as in \<open>ntyco_httpd.c\<close> and modelled once.  The trace of \<open>QUEUE_MACRO_DEBUG\<close>.
  What a client library does inside a call, its waiting included.  The floating-point rates the benchmark prints, its
  alarm and its usage text.  Printing.
\<close>

end
